(* ===== verification/Wic_Prelude.thy ===== *)
theory Wic_Prelude
  imports Main "HOL-Library.Word"
begin

text \<open>
  What every component shares: names for the machine integers of the code, byte strings,
  the big-endian split of a 16-bit value, and the generic list and word lemmas the
  component proofs use through the simplifier.
\<close>

unbundle bit_operations_syntax

type_synonym u8 = "8 word"
type_synonym u16 = "16 word"
type_synonym u32 = "32 word"
type_synonym u64 = "64 word"

text \<open>A C string or buffer is a list of bytes; literals are written \<open>ascii ''...''\<close>.\<close>

type_synonym bytes = "u8 list"

definition ascii :: "string \<Rightarrow> bytes" where
  "ascii s = map of_char s"

lemma ascii_Nil [simp]: "ascii [] = []"
  by (simp add: ascii_def)

lemma length_ascii [simp]: "length (ascii s) = length s"
  by (simp add: ascii_def)

section \<open>Collections of facts\<close>

named_theorems stream_defs \<open>definitions of the byte stream operations\<close>
named_theorems api_frame_rules \<open>what the operations of the interface leave alone\<close>

section \<open>Lists\<close>

lemma take_overwrite [simp]:
  "p \<le> length xs \<Longrightarrow> take (p + length bs) (take p xs @ bs @ ys) = take p xs @ bs"
  by simp

section \<open>Words\<close>

text \<open>The two bytes of a 16-bit value, high byte first, as the code writes them.\<close>

definition u16_hi :: "u16 \<Rightarrow> u8" where
  "u16_hi x = ucast (drop_bit 8 x)"

definition u16_lo :: "u16 \<Rightarrow> u8" where
  "u16_lo x = ucast x"

definition u16_join :: "u8 \<Rightarrow> u8 \<Rightarrow> u16" where
  "u16_join hi lo = push_bit 8 (ucast hi) OR ucast lo"

lemma bit_ucast_u8_u16: "bit (ucast (b :: u8) :: u16) n = (n < 8 \<and> bit b n)"
  by (auto simp: bit_ucast_iff dest: bit_imp_le_length)

lemma u16_join_hi_lo [simp]: "u16_join (u16_hi x) (u16_lo x) = x"
  unfolding u16_join_def u16_hi_def u16_lo_def
  by (rule bit_word_eqI)
     (auto simp: bit_or_iff bit_push_bit_iff bit_ucast_iff bit_drop_bit_eq not_less)

lemma xor_cancel [simp]: "(a XOR b) XOR b = (a :: 'a::len word)"
  by (simp add: xor.assoc)

lemma u8_less_256 [simp]: "unat (b :: u8) < 256"
  using unsigned_less [of b] by simp

lemma u16_less_65536 [simp]: "unat (b :: u16) < 65536"
  using unsigned_less [of b] by simp

text \<open>A property of every byte is a property of the 256 byte values.\<close>

lemma all_u8_iff: "(\<forall>b :: u8. P b) \<longleftrightarrow> (\<forall>n < 256. P (of_nat n))"
proof
  assume h: "\<forall>n < 256. P (of_nat n :: u8)"
  show "\<forall>b :: u8. P b"
  proof
    fix b :: u8
    have "P (of_nat (unat b))" using h u8_less_256 by blast
    then show "P b" by simp
  qed
qed auto

section \<open>Encodings that can be read back\<close>

text \<open>
  The contract between a writer and the reader of what it wrote. \<open>good\<close> is the set of
  values the writer is meant for.
\<close>

locale codec =
  fixes enc :: "'a \<Rightarrow> 'b"
    and dec :: "'b \<Rightarrow> 'a option"
    and good :: "'a \<Rightarrow> bool"
  assumes dec_enc: "good x \<Longrightarrow> dec (enc x) = Some x"
begin

lemma enc_inj: "good x \<Longrightarrow> good y \<Longrightarrow> enc x = enc y \<longleftrightarrow> x = y"
  by (metis dec_enc option.inject)

end

end
