(* ===== verification/Wic_Stream.thy ===== *)
theory Wic_Stream
  imports Wic_Prelude
begin

text \<open>
  The byte stream of \<open>src/wic.c\<close> (\<open>struct wic_stream\<close> and the static \<open>stream_*\<close> functions):
  a cursor over a buffer, read or written from the front. \<open>st_buf\<close> is the memory behind the
  \<open>read\<close> and \<open>write\<close> pointers, \<open>st_write\<close> says whether \<open>write\<close> is not \<open>NULL\<close>.
  The locale \<open>byte_sink\<close> is the interface the frame and handshake writers rely on.
\<close>

record wic_stream =
  st_write :: bool
  st_buf :: bytes
  st_size :: nat
  st_pos :: nat
  st_error :: bool

text \<open>The \<open>size\<close> parameter is a \<open>uint32_t\<close>, so a larger \<open>size_t\<close> argument is truncated.\<close>

definition stream_init :: "bytes option \<Rightarrow> nat \<Rightarrow> wic_stream" where
  "stream_init buf n =
     \<lparr>st_write = (buf \<noteq> None), st_buf = (case buf of None \<Rightarrow> [] | Some b \<Rightarrow> b),
      st_size = n mod 2 ^ 32, st_pos = 0, st_error = False\<rparr>"

definition stream_init_ro :: "bytes \<Rightarrow> nat \<Rightarrow> wic_stream" where
  "stream_init_ro buf n =
     \<lparr>st_write = False, st_buf = buf, st_size = n mod 2 ^ 32, st_pos = 0, st_error = False\<rparr>"

definition stream_rewind :: "wic_stream \<Rightarrow> wic_stream" where
  "stream_rewind s = s\<lparr>st_pos := 0, st_error := False\<rparr>"

text \<open>\<open>None\<close> is the return value \<open>false\<close>; then nothing is stored in the caller's buffer.\<close>

definition stream_read :: "wic_stream \<Rightarrow> nat \<Rightarrow> bytes option \<times> wic_stream" where
  "stream_read s n =
     (if \<not> st_error s then
        if st_size s - st_pos s \<ge> n then
          (Some (take n (drop (st_pos s) (st_buf s))), s\<lparr>st_pos := st_pos s + n\<rparr>)
        else (None, s\<lparr>st_error := True\<rparr>)
      else (None, s))"

definition stream_write :: "wic_stream \<Rightarrow> bytes \<Rightarrow> bool \<times> wic_stream" where
  "stream_write s bs =
     (if st_write s then
        if \<not> st_error s then
          if st_size s - st_pos s \<ge> length bs then
            (True, s\<lparr>st_buf := take (st_pos s) (st_buf s) @ bs @
                                drop (st_pos s + length bs) (st_buf s),
                     st_pos := st_pos s + length bs\<rparr>)
          else (False, s\<lparr>st_error := True\<rparr>)
        else (False, s)
      else (False, s))"

definition stream_max :: "wic_stream \<Rightarrow> nat" where
  "stream_max s = st_size s"

definition stream_pos :: "wic_stream \<Rightarrow> nat" where
  "stream_pos s = st_pos s"

definition stream_seek :: "wic_stream \<Rightarrow> nat \<Rightarrow> bool \<times> wic_stream" where
  "stream_seek s offset =
     (if st_size s \<ge> offset then (True, s\<lparr>st_pos := offset\<rparr>) else (False, s))"

definition stream_eof :: "wic_stream \<Rightarrow> bool" where
  "stream_eof s \<longleftrightarrow> st_pos s = st_size s"

definition stream_error :: "wic_stream \<Rightarrow> bool" where
  "stream_error s = st_error s"

definition stream_put_u8 :: "wic_stream \<Rightarrow> u8 \<Rightarrow> bool \<times> wic_stream" where
  "stream_put_u8 s b = stream_write s [b]"

definition stream_put_u16 :: "wic_stream \<Rightarrow> u16 \<Rightarrow> bool \<times> wic_stream" where
  "stream_put_u16 s v = stream_write s [u16_hi v, u16_lo v]"

definition stream_get_u8 :: "wic_stream \<Rightarrow> u8 option \<times> wic_stream" where
  "stream_get_u8 s =
     (case stream_read s 1 of
        (None, s') \<Rightarrow> (None, s')
      | (Some bs, s') \<Rightarrow> (Some (hd bs), s'))"

text \<open>\<open>str\<close> is the content of the C string, without its terminating zero.\<close>

definition stream_put_str :: "wic_stream \<Rightarrow> bytes \<Rightarrow> bool \<times> wic_stream" where
  "stream_put_str s str = stream_write s str"

definition stream_put_u8_masked :: "wic_stream \<Rightarrow> u8 \<Rightarrow> bytes \<Rightarrow> u8 \<times> bool \<times> wic_stream" where
  "stream_put_u8_masked s b msk =
     (let unmasked = b XOR (msk ! (st_pos s mod 4)) in (unmasked, stream_put_u8 s unmasked))"

text \<open>A run of \<open>stream_put_*\<close> or \<open>stream_write\<close> calls whose results are ignored.\<close>

definition stream_put_all :: "bytes list \<Rightarrow> wic_stream \<Rightarrow> wic_stream" where
  "stream_put_all bss s = fold (\<lambda>bs s. snd (stream_write s bs)) bss s"

lemmas stream_op_defs [stream_defs] =
  stream_init_def stream_init_ro_def stream_rewind_def stream_read_def stream_write_def
  stream_max_def stream_pos_def stream_seek_def stream_eof_def stream_error_def
  stream_put_u8_def stream_put_u16_def stream_get_u8_def stream_put_str_def
  stream_put_u8_masked_def

section \<open>Invariant\<close>

text \<open>The cursor stays inside the stream and inside what the buffer holds.\<close>

definition stream_ok :: "wic_stream \<Rightarrow> bool" where
  "stream_ok s \<longleftrightarrow> st_pos s \<le> st_size s \<and> st_pos s \<le> length (st_buf s)"

text \<open>The bytes written so far, as the code passes them on (\<open>read\<close>, \<open>pos\<close>).\<close>

definition st_data :: "wic_stream \<Rightarrow> bytes" where
  "st_data s = take (st_pos s) (st_buf s)"

definition st_room :: "wic_stream \<Rightarrow> nat" where
  "st_room s = st_size s - st_pos s"

lemma stream_ok_init [simp]: "stream_ok (stream_init b n)"
  by (simp add: stream_ok_def stream_init_def)

lemma stream_ok_init_ro [simp]: "stream_ok (stream_init_ro b n)"
  by (simp add: stream_ok_def stream_init_ro_def)

lemma stream_ok_rewind [simp]: "stream_ok (stream_rewind s)"
  by (simp add: stream_ok_def stream_rewind_def)

lemma stream_ok_write [simp]: "stream_ok s \<Longrightarrow> stream_ok (snd (stream_write s bs))"
  by (auto simp: stream_ok_def stream_write_def)

lemma stream_write_fixed [simp]:
  "st_size (snd (stream_write s bs)) = st_size s"
  "st_write (snd (stream_write s bs)) = st_write s"
  by (auto simp: stream_write_def)

lemma stream_write_fits:
  assumes "stream_ok s" "st_write s" "\<not> st_error s" "length bs \<le> st_room s"
  shows "st_data (snd (stream_write s bs)) = st_data s @ bs"
    and "\<not> st_error (snd (stream_write s bs))"
    and "st_room (snd (stream_write s bs)) = st_room s - length bs"
  using assms by (auto simp: stream_ok_def stream_write_def st_data_def st_room_def min_def)

lemma stream_write_overflow:
  assumes "st_write s" "st_room s < length bs"
  shows "st_data (snd (stream_write s bs)) = st_data s"
    and "st_error (snd (stream_write s bs))"
  using assms by (auto simp: stream_write_def st_data_def st_room_def)

lemma stream_write_failed:
  "st_error s \<Longrightarrow> snd (stream_write s bs) = s"
  by (simp add: stream_write_def)

section \<open>The interface of a writer\<close>

text \<open>
  What the writers of frames and handshakes use: a put that appends or, when there is no
  room, fails for good and changes nothing.
\<close>

locale byte_sink =
  fixes put :: "'s \<Rightarrow> bytes \<Rightarrow> 's"
    and written :: "'s \<Rightarrow> bytes"
    and room :: "'s \<Rightarrow> nat"
    and failed :: "'s \<Rightarrow> bool"
    and ok :: "'s \<Rightarrow> bool"
  assumes ok_put: "ok s \<Longrightarrow> ok (put s bs)"
    and put_fits: "ok s \<Longrightarrow> \<not> failed s \<Longrightarrow> length bs \<le> room s \<Longrightarrow>
      written (put s bs) = written s @ bs \<and> \<not> failed (put s bs) \<and> room (put s bs) = room s - length bs"
    and put_overflow: "ok s \<Longrightarrow> \<not> failed s \<Longrightarrow> room s < length bs \<Longrightarrow>
      written (put s bs) = written s \<and> failed (put s bs)"
    and put_failed: "ok s \<Longrightarrow> failed s \<Longrightarrow> put s bs = s"
begin

lemma ok_puts: "ok s \<Longrightarrow> ok (fold (\<lambda>bs s. put s bs) bss s)"
  by (induction bss arbitrary: s) (auto simp: ok_put)

lemma puts_failed: "ok s \<Longrightarrow> failed s \<Longrightarrow> fold (\<lambda>bs s. put s bs) bss s = s"
  by (induction bss arbitrary: s) (auto simp: put_failed)

text \<open>A run of puts that fits leaves exactly the concatenation.\<close>

lemma puts_fit:
  "ok s \<Longrightarrow> \<not> failed s \<Longrightarrow> length (concat bss) \<le> room s \<Longrightarrow>
   written (fold (\<lambda>bs s. put s bs) bss s) = written s @ concat bss \<and>
   \<not> failed (fold (\<lambda>bs s. put s bs) bss s) \<and>
   room (fold (\<lambda>bs s. put s bs) bss s) = room s - length (concat bss)"
proof (induction bss arbitrary: s)
  case Nil
  then show ?case by simp
next
  case (Cons bs bss)
  from Cons.prems have p: "written (put s bs) = written s @ bs" "\<not> failed (put s bs)"
    "room (put s bs) = room s - length bs" "ok (put s bs)"
    using put_fits [of s bs] ok_put by auto
  with Cons.prems(3) have "length (concat bss) \<le> room (put s bs)" by simp
  from Cons.IH [OF p(4) p(2) this] p show ?case by simp
qed

text \<open>A run of puts fails exactly when the whole does not fit: a later, shorter put never
  slips in behind a put that was dropped.\<close>

lemma puts_failed_iff:
  "ok s \<Longrightarrow> \<not> failed s \<Longrightarrow>
   failed (fold (\<lambda>bs s. put s bs) bss s) \<longleftrightarrow> room s < length (concat bss)"
proof (induction bss arbitrary: s)
  case Nil
  then show ?case by simp
next
  case (Cons bs bss)
  show ?case
  proof (cases "length bs \<le> room s")
    case True
    with Cons.prems have p: "\<not> failed (put s bs)" "room (put s bs) = room s - length bs"
      "ok (put s bs)"
      using put_fits [of s bs] ok_put by auto
    with Cons.IH [OF p(3) p(1)] True show ?thesis by auto
  next
    case False
    with Cons.prems have "failed (put s bs)" "ok (put s bs)"
      using put_overflow [of s bs] ok_put by auto
    with False show ?thesis by (simp add: puts_failed)
  qed
qed

end

interpretation tx: byte_sink "\<lambda>s bs. snd (stream_write s bs)" st_data st_room st_error
  "\<lambda>s. stream_ok s \<and> st_write s"
proof
  fix s :: wic_stream and bs :: bytes
  assume "stream_ok s \<and> st_write s"
  then show "stream_ok (snd (stream_write s bs)) \<and> st_write (snd (stream_write s bs))"
    by simp
qed (simp_all add: stream_write_fits stream_write_overflow stream_write_failed)

lemma stream_put_all_ok: "stream_ok s \<and> st_write s \<Longrightarrow> stream_ok (stream_put_all bss s)"
  unfolding stream_put_all_def using tx.ok_puts by blast

lemma stream_put_all_size [simp]: "st_size (stream_put_all bss s) = st_size s"
  unfolding stream_put_all_def by (induction bss arbitrary: s) auto

lemma stream_put_all_fit:
  assumes "stream_ok s" "st_write s" "\<not> st_error s" "length (concat bss) \<le> st_room s"
  shows "st_data (stream_put_all bss s) = st_data s @ concat bss"
    and "\<not> st_error (stream_put_all bss s)"
    and "st_room (stream_put_all bss s) = st_room s - length (concat bss)"
  using tx.puts_fit [of s bss] assms unfolding stream_put_all_def by blast+

lemma stream_put_all_error_iff:
  assumes "stream_ok s" "st_write s" "\<not> st_error s"
  shows "st_error (stream_put_all bss s) \<longleftrightarrow> st_room s < length (concat bss)"
  using tx.puts_failed_iff [of s bss] assms unfolding stream_put_all_def by blast

lemma stream_init_fresh [simp]:
  "st_data (stream_init b n) = []" "\<not> st_error (stream_init b n)"
  "st_room (stream_init b n) = n mod 2 ^ 32" "st_size (stream_init b n) = n mod 2 ^ 32"
  "st_write (stream_init (Some m) n)"
  by (simp_all add: stream_init_def st_data_def st_room_def)

section \<open>Reading\<close>

text \<open>What is left to read, when the buffer holds what the size says.\<close>

definition st_rest :: "wic_stream \<Rightarrow> bytes" where
  "st_rest s = take (st_size s - st_pos s) (drop (st_pos s) (st_buf s))"

definition reader_ok :: "wic_stream \<Rightarrow> bool" where
  "reader_ok s \<longleftrightarrow> st_pos s \<le> st_size s \<and> st_size s \<le> length (st_buf s)"

lemma stream_get_u8_Some:
  "reader_ok s \<Longrightarrow> \<not> st_error s \<Longrightarrow> st_rest s = b # bs \<Longrightarrow>
   stream_get_u8 s = (Some b, s\<lparr>st_pos := st_pos s + 1\<rparr>) \<and>
   st_rest (s\<lparr>st_pos := st_pos s + 1\<rparr>) = bs \<and> reader_ok (s\<lparr>st_pos := st_pos s + 1\<rparr>)"
proof -
  assume a: "reader_ok s" "\<not> st_error s" "st_rest s = b # bs"
  then have lt: "st_pos s < st_size s"
    by (cases "st_pos s < st_size s") (auto simp: st_rest_def)
  with a(1) have lt': "st_pos s < length (st_buf s)" by (simp add: reader_ok_def)
  then have d: "drop (st_pos s) (st_buf s) = st_buf s ! st_pos s # drop (st_pos s + 1) (st_buf s)"
    by (simp add: Cons_nth_drop_Suc)
  from lt obtain k where k: "st_size s - st_pos s = Suc k" "k = st_size s - (st_pos s + 1)"
    by (metis Suc_diff_Suc Suc_eq_plus1)
  from a(3) have "b = st_buf s ! st_pos s \<and> bs = take k (drop (st_pos s + 1) (st_buf s))"
    unfolding st_rest_def d k(1) by simp
  with a lt lt' k d show ?thesis
    by (auto simp: stream_get_u8_def stream_read_def st_rest_def reader_ok_def take_Suc)
qed

lemma stream_get_u8_None:
  "reader_ok s \<Longrightarrow> \<not> st_error s \<Longrightarrow> st_rest s = [] \<Longrightarrow>
   stream_get_u8 s = (None, s\<lparr>st_error := True\<rparr>)"
  by (auto simp: stream_get_u8_def stream_read_def st_rest_def reader_ok_def)

lemma st_rest_init_ro [simp]:
  "length b < 2 ^ 32 \<Longrightarrow> st_rest (stream_init_ro b (length b)) = b"
  by (simp add: st_rest_def stream_init_ro_def)

lemma reader_ok_init_ro [simp]: "reader_ok (stream_init_ro b (length b))"
  by (simp add: reader_ok_def stream_init_ro_def)

end
