(* ===== verification/Wic_Utf8.thy ===== *)
theory Wic_Utf8
  imports Wic_Prelude
begin

text \<open>
  UTF-8 checking in \<open>src/wic.c\<close>: the table-driven automaton \<open>utf8_parse\<close>, its iteration
  \<open>utf8_parse_string\<close>, and the two tests on its state. The specification is Unicode's:
  a byte string is valid when it is the concatenation of the encodings of Unicode scalar
  values. The automaton accepts exactly the valid strings, and reports \<open>invalid\<close> exactly
  when no continuation could make the input valid.
\<close>

section \<open>The automaton of the code\<close>

text \<open>The table \<open>utf8d\<close>: 256 byte classes, then 16 successors for each of the nine states.\<close>

definition utf8d :: "nat list" where
  "utf8d = [
     0,0,0,0,0,0,0,0,0,0,0,0,0,0,0,0,0,0,0,0,0,0,0,0,0,0,0,0,0,0,0,0,
     0,0,0,0,0,0,0,0,0,0,0,0,0,0,0,0,0,0,0,0,0,0,0,0,0,0,0,0,0,0,0,0,
     0,0,0,0,0,0,0,0,0,0,0,0,0,0,0,0,0,0,0,0,0,0,0,0,0,0,0,0,0,0,0,0,
     0,0,0,0,0,0,0,0,0,0,0,0,0,0,0,0,0,0,0,0,0,0,0,0,0,0,0,0,0,0,0,0,
     1,1,1,1,1,1,1,1,1,1,1,1,1,1,1,1,9,9,9,9,9,9,9,9,9,9,9,9,9,9,9,9,
     7,7,7,7,7,7,7,7,7,7,7,7,7,7,7,7,7,7,7,7,7,7,7,7,7,7,7,7,7,7,7,7,
     8,8,2,2,2,2,2,2,2,2,2,2,2,2,2,2,2,2,2,2,2,2,2,2,2,2,2,2,2,2,2,2,
     10,3,3,3,3,3,3,3,3,3,3,3,3,4,3,3,
     11,6,6,6,5,8,8,8,8,8,8,8,8,8,8,8,
     0,1,2,3,5,8,7,1,1,1,4,6,1,1,1,1,
     1,1,1,1,1,1,1,1,1,1,1,1,1,1,1,1,1,0,1,1,1,1,1,0,1,0,1,1,1,1,1,1,
     1,2,1,1,1,1,1,2,1,2,1,1,1,1,1,1,1,1,1,1,1,1,1,2,1,1,1,1,1,1,1,1,
     1,2,1,1,1,1,1,1,1,2,1,1,1,1,1,1,1,1,1,1,1,1,1,3,1,3,1,1,1,1,1,1,
     1,3,1,1,1,1,1,3,1,3,1,1,1,1,1,1,1,3,1,1,1,1,1,1,1,1,1,1,1,1,1,1]"

definition utf8_parse :: "u16 \<Rightarrow> u8 \<Rightarrow> u16" where
  "utf8_parse s b =
     (let type = utf8d ! unat b
      in of_nat (utf8d ! (256 + unat s * 16 + type)))"

definition utf8_parse_string :: "u16 \<Rightarrow> bytes \<Rightarrow> u16" where
  "utf8_parse_string s bs = fold (\<lambda>b s. utf8_parse s b) bs s"

definition utf8_is_complete :: "u16 \<Rightarrow> bool" where
  "utf8_is_complete s \<longleftrightarrow> s = 0"

definition utf8_is_invalid :: "u16 \<Rightarrow> bool" where
  "utf8_is_invalid s \<longleftrightarrow> s = 1"

section \<open>Reading the table\<close>

text \<open>The byte classes by range.\<close>

definition utf8_class :: "nat \<Rightarrow> nat" where
  "utf8_class n =
     (if n < 128 then 0 else if n < 144 then 1 else if n < 160 then 9 else if n < 192 then 7
      else if n < 194 then 8 else if n < 224 then 2 else if n = 224 then 10
      else if n = 237 then 4 else if n < 240 then 3 else if n = 240 then 11
      else if n < 244 then 6 else if n = 244 then 5 else 8)"

text \<open>The successor by state and class: which continuation bytes each state accepts.\<close>

definition utf8_trans :: "nat \<Rightarrow> nat \<Rightarrow> nat" where
  "utf8_trans s c =
     (if s = 0 then
        (if c = 0 then 0 else if c = 2 then 2 else if c = 3 then 3 else if c = 4 then 5
         else if c = 5 then 8 else if c = 6 then 7 else if c = 10 then 4
         else if c = 11 then 6 else 1)
      else if s = 2 then (if c = 1 \<or> c = 7 \<or> c = 9 then 0 else 1)
      else if s = 3 then (if c = 1 \<or> c = 7 \<or> c = 9 then 2 else 1)
      else if s = 4 then (if c = 7 then 2 else 1)
      else if s = 5 then (if c = 1 \<or> c = 9 then 2 else 1)
      else if s = 6 then (if c = 7 \<or> c = 9 then 3 else 1)
      else if s = 7 then (if c = 1 \<or> c = 7 \<or> c = 9 then 3 else 1)
      else if s = 8 then (if c = 1 then 3 else 1)
      else 1)"

lemma utf8d_eq:
  "utf8d = map utf8_class [0..<256] @ concat (map (\<lambda>s. map (utf8_trans s) [0..<16]) [0..<9])"
  by code_simp


lemma utf8_class_less: "utf8_class n < 16"
  by (simp add: utf8_class_def)

lemma utf8_trans_less: "utf8_trans s c < 9"
  by (simp add: utf8_trans_def)

lemma concat_rows_nth:
  "s < n \<Longrightarrow> c < 16 \<Longrightarrow>
   concat (map (\<lambda>s. map (f s) [0..<16]) [0..<n]) ! (s * 16 + c) = f s (c :: nat)"
proof (induction n)
  case (Suc n)
  have len: "length (concat (map (\<lambda>s. map (f s) [0..<16]) [0..<n])) = n * 16"
    by (induction n) auto
  show ?case
  proof (cases "s < n")
    case True
    then have "s * 16 + c < n * 16" using Suc.prems(2) by linarith
    with Suc True len show ?thesis by (simp add: nth_append)
  next
    case False
    with Suc.prems have "s = n" by simp
    with len Suc.prems show ?thesis by (simp add: nth_append)
  qed
qed simp

lemma utf8d_class: "n < 256 \<Longrightarrow> utf8d ! n = utf8_class n"
  unfolding utf8d_eq by (simp add: nth_append)

lemma utf8d_trans: "s < 9 \<Longrightarrow> c < 16 \<Longrightarrow> utf8d ! (256 + s * 16 + c) = utf8_trans s c"
proof -
  assume a: "s < 9" "c < 16"
  have "utf8d ! (256 + (s * 16 + c)) =
    concat (map (\<lambda>s. map (utf8_trans s) [0..<16]) [0..<9]) ! (s * 16 + c)"
    unfolding utf8d_eq nth_append by (simp del: upt_rec_numeral)
  with concat_rows_nth [OF a] show ?thesis by (simp add: add.assoc)
qed

text \<open>The automaton over natural numbers, without the table.\<close>

definition utf8_run :: "nat \<Rightarrow> bytes \<Rightarrow> nat" where
  "utf8_run s bs = fold (\<lambda>b s. utf8_trans s (utf8_class (unat b))) bs s"

lemma utf8_run_Nil [simp]: "utf8_run s [] = s"
  by (simp add: utf8_run_def)

lemma utf8_run_Cons [simp]:
  "utf8_run s (b # bs) = utf8_run (utf8_trans s (utf8_class (unat b))) bs"
  by (simp add: utf8_run_def)

lemma utf8_run_append [simp]: "utf8_run s (as @ bs) = utf8_run (utf8_run s as) bs"
  by (simp add: utf8_run_def)

lemma utf8_run_less: "s < 9 \<Longrightarrow> utf8_run s bs < 9"
  by (induction bs arbitrary: s) (auto simp: utf8_trans_less)

lemma utf8_run_1 [simp]: "utf8_run 1 bs = 1"
  by (induction bs) (simp_all add: utf8_trans_def)

lemma utf8_run_Suc_0 [simp]: "utf8_run (Suc 0) bs = Suc 0"
  using utf8_run_1 by simp

lemma utf8_parse_trans:
  "s < 9 \<Longrightarrow> utf8_parse (of_nat s) b = of_nat (utf8_trans s (utf8_class (unat b)))"
proof -
  assume s: "s < 9"
  then have "unat (of_nat s :: u16) = s" by (simp add: unat_of_nat)
  with s show ?thesis
    unfolding utf8_parse_def Let_def
    by (simp only: utf8d_class [OF u8_less_256] utf8d_trans [OF s utf8_class_less])
qed

lemma utf8_parse_string_run:
  "s < 9 \<Longrightarrow> utf8_parse_string (of_nat s) bs = of_nat (utf8_run s bs)"
proof (induction bs arbitrary: s)
  case (Cons b bs)
  then have "utf8_parse_string (of_nat s) (b # bs) =
      utf8_parse_string (of_nat (utf8_trans s (utf8_class (unat b)))) bs"
    by (simp add: utf8_parse_string_def utf8_parse_trans)
  with Cons.IH [OF utf8_trans_less] show ?case by simp
qed (simp add: utf8_parse_string_def)

lemma of_nat_less_9_iff:
  "m < 9 \<Longrightarrow> n < 9 \<Longrightarrow> (of_nat m :: u16) = of_nat n \<longleftrightarrow> m = n"
  by (auto simp: word_unat_eq_iff unat_of_nat)

lemma utf8_parse_string_0_iff:
  "n < 9 \<Longrightarrow> utf8_parse_string 0 bs = of_nat n \<longleftrightarrow> utf8_run 0 bs = n"
  using utf8_parse_string_run [of 0 bs] of_nat_less_9_iff [of "utf8_run 0 bs" n]
    utf8_run_less [of 0 bs] by simp

section \<open>The specification: encodings of scalar values\<close>

definition utf8_scalar :: "nat \<Rightarrow> bool" where
  "utf8_scalar n \<longleftrightarrow> n < 1114112 \<and> \<not> (55296 \<le> n \<and> n < 57344)"

definition utf8_encode :: "nat \<Rightarrow> bytes" where
  "utf8_encode n =
     (if n < 128 then [of_nat n]
      else if n < 2048 then [of_nat (192 + n div 64), of_nat (128 + n mod 64)]
      else if n < 65536 then
        [of_nat (224 + n div 4096), of_nat (128 + n div 64 mod 64), of_nat (128 + n mod 64)]
      else
        [of_nat (240 + n div 262144), of_nat (128 + n div 4096 mod 64),
         of_nat (128 + n div 64 mod 64), of_nat (128 + n mod 64)])"

definition utf8_valid :: "bytes \<Rightarrow> bool" where
  "utf8_valid bs \<longleftrightarrow> (\<exists>cs. list_all utf8_scalar cs \<and> bs = concat (map utf8_encode cs))"

lemma utf8_valid_Nil [simp]: "utf8_valid []"
  unfolding utf8_valid_def by (rule exI [of _ "[]"]) simp

lemma utf8_valid_Cons: "utf8_scalar c \<Longrightarrow> utf8_valid bs \<Longrightarrow> utf8_valid (utf8_encode c @ bs)"
proof -
  assume c: "utf8_scalar c" and "utf8_valid bs"
  then obtain cs where "list_all utf8_scalar cs" "bs = concat (map utf8_encode cs)"
    unfolding utf8_valid_def by blast
  with c show ?thesis
    unfolding utf8_valid_def by (intro exI [of _ "c # cs"]) simp
qed

section \<open>Every encoding is accepted\<close>

lemma cont_class:
  "k < 64 \<Longrightarrow> utf8_class (128 + k) = (if k < 16 then 1 else if k < 32 then 9 else 7)"
  by (simp add: utf8_class_def)

lemma unat_u8_of_nat [simp]: "n < 256 \<Longrightarrow> unat (of_nat n :: u8) = n"
  by (simp add: unat_of_nat)

lemma run_of_nat:
  "k < 256 \<Longrightarrow> utf8_run s (of_nat k # bs) = utf8_run (utf8_trans s (utf8_class k)) bs"
  by simp

lemma base_64_digits: "n = n div 4096 * 4096 + n div 64 mod 64 * 64 + n mod (64 :: nat)"
proof -
  have "n = n div 64 * 64 + n mod 64" by simp
  also have "n div 64 = n div 64 div 64 * 64 + n div 64 mod 64" by simp
  also have "n div 64 div 64 = n div 4096" by (simp add: div_mult2_eq [symmetric])
  finally show ?thesis by (simp add: algebra_simps)
qed

lemma run_encode_2:
  "128 \<le> n \<Longrightarrow> n < 2048 \<Longrightarrow> utf8_run 0 (utf8_encode n @ bs) = utf8_run 0 bs"
proof -
  assume n: "128 \<le> n" "n < 2048"
  define a b where ab: "a = n div 64" "b = n mod 64"
  have "2 \<le> a" "a < 32" "b < 64" using n ab by auto
  moreover from this have "utf8_class (192 + a) = 2" by (simp add: utf8_class_def)
  moreover have "utf8_encode n = [of_nat (192 + a), of_nat (128 + b)]"
    using n ab by (simp add: utf8_encode_def)
  ultimately show ?thesis
    by (simp add: run_of_nat cont_class utf8_trans_def del: of_nat_add utf8_run_Cons utf8_run_append)
qed

lemma run_encode_3:
  assumes "2048 \<le> n" "n < 65536" "utf8_scalar n"
  shows "utf8_run 0 (utf8_encode n @ bs) = utf8_run 0 bs"
proof -
  define a b c where abc: "a = n div 4096" "b = n div 64 mod 64" "c = n mod 64"
  have n: "n = a * 4096 + b * 64 + c" and bc: "b < 64" "c < 64"
    unfolding abc using base_64_digits by simp_all
  have a: "a < 16" using assms(2) n by linarith
  have a0: "a = 0 \<Longrightarrow> 32 \<le> b" using assms(1) n bc by linarith
  have a13: "a = 13 \<Longrightarrow> b < 32" using assms(3) n bc unfolding utf8_scalar_def by linarith
  have cl: "utf8_class (224 + a) = (if a = 0 then 10 else if a = 13 then 4 else 3)"
    using a by (simp add: utf8_class_def)
  have r: "utf8_run 0 (of_nat (224 + a) # xs) = utf8_run (utf8_trans 0 (utf8_class (224 + a))) xs" for xs
    using a by (intro run_of_nat) simp
  have e: "utf8_encode n = [of_nat (224 + a), of_nat (128 + b), of_nat (128 + c)]"
    using assms unfolding utf8_encode_def abc by simp
  show ?thesis
    unfolding e append_Cons append_Nil r using a bc a0 a13 cl
    by (cases "a = 0"; cases "a = 13")
       (simp_all add: run_of_nat cont_class utf8_trans_def del: of_nat_add utf8_run_Cons)
qed

lemma run_encode_4:
  assumes "65536 \<le> n" "n < 1114112"
  shows "utf8_run 0 (utf8_encode n @ bs) = utf8_run 0 bs"
proof -
  define a b c d where abcd: "a = n div 262144" "b = n div 4096 mod 64"
    "c = n div 64 mod 64" "d = n mod 64"
  have "n div 4096 = a * 64 + b" unfolding abcd
    using div_mult_mod_eq [of "n div 4096" 64] by (simp add: div_mult2_eq [symmetric])
  then have "n = (a * 64 + b) * 4096 + c * 64 + d"
    using base_64_digits [of n] unfolding abcd by simp
  then have n: "n = a * 262144 + b * 4096 + c * 64 + d" by simp
  have bcd: "b < 64" "c < 64" "d < 64" unfolding abcd by simp_all
  have a: "a < 5" using assms(2) n by linarith
  have a0: "a = 0 \<Longrightarrow> 16 \<le> b" using assms(1) n bcd by linarith
  have a4: "a = 4 \<Longrightarrow> b < 16" using assms(2) n bcd by linarith
  have cl: "utf8_class (240 + a) = (if a = 0 then 11 else if a = 4 then 5 else 6)"
    using a by (simp add: utf8_class_def)
  have r: "utf8_run 0 (of_nat (240 + a) # xs) = utf8_run (utf8_trans 0 (utf8_class (240 + a))) xs" for xs
    using a by (intro run_of_nat) simp
  have e: "utf8_encode n = [of_nat (240 + a), of_nat (128 + b), of_nat (128 + c), of_nat (128 + d)]"
    using assms unfolding utf8_encode_def abcd by simp
  show ?thesis
    unfolding e append_Cons append_Nil r using a bcd a0 a4 cl
    by (cases "a = 0"; cases "a = 4")
       (simp_all add: run_of_nat cont_class utf8_trans_def del: of_nat_add utf8_run_Cons)
qed

lemma run_encode: "utf8_scalar n \<Longrightarrow> utf8_run 0 (utf8_encode n @ bs) = utf8_run 0 bs"
proof -
  assume s: "utf8_scalar n"
  consider "n < 128" | "128 \<le> n" "n < 2048" | "2048 \<le> n" "n < 65536" | "65536 \<le> n" by linarith
  then show ?thesis
  proof cases
    case 1
    then show ?thesis by (simp add: utf8_encode_def utf8_class_def utf8_trans_def)
  qed (use s run_encode_2 run_encode_3 run_encode_4 in \<open>auto simp: utf8_scalar_def\<close>)
qed

lemma utf8_valid_run: "utf8_valid bs \<Longrightarrow> utf8_run 0 bs = 0"
proof -
  assume "utf8_valid bs"
  then obtain cs where cs: "list_all utf8_scalar cs" "bs = concat (map utf8_encode cs)"
    unfolding utf8_valid_def by blast
  from cs(1) have "utf8_run 0 (concat (map utf8_encode cs)) = 0"
    by (induction cs) (simp_all add: run_encode del: utf8_run_append)
  with cs(2) show ?thesis by simp
qed


section \<open>Everything accepted is an encoding\<close>

lemma unat_of_nat_byte: "of_nat (unat (b :: u8)) = b"
  by simp

text \<open>From the byte values back to the code point of each length.\<close>

lemma encode_2I:
  "2 \<le> x \<Longrightarrow> x < 32 \<Longrightarrow> y < 64 \<Longrightarrow> utf8_scalar (x * 64 + y) \<and>
   utf8_encode (x * 64 + y) = [of_nat (192 + x), of_nat (128 + y)]"
  by (auto simp: utf8_scalar_def utf8_encode_def simp del: of_nat_add)

lemma div_mod_64: "w < 64 \<Longrightarrow> (q * 64 + w) div 64 = q \<and> (q * 64 + w) mod 64 = (w :: nat)"
  by simp

lemma encode_3I:
  assumes "x < 16" "y < 64" "z < 64" "x = 0 \<Longrightarrow> 32 \<le> y" "x = 13 \<Longrightarrow> y < 32"
  shows "utf8_scalar (x * 4096 + y * 64 + z)"
    and "utf8_encode (x * 4096 + y * 64 + z) = [of_nat (224 + x), of_nat (128 + y), of_nat (128 + z)]"
proof -
  let ?n = "x * 4096 + y * 64 + z"
  have r: "2048 \<le> ?n" "?n < 65536" using assms by (cases "x = 0"; linarith)+
  have "\<not> (55296 \<le> ?n \<and> ?n < 57344)" using assms(2,3,5) by (cases "x = 13"; linarith)
  with r show "utf8_scalar ?n" by (simp add: utf8_scalar_def)
  have n: "?n = (x * 64 + y) * 64 + z" by simp
  have d: "?n div 64 = x * 64 + y" "?n mod 64 = z"
    unfolding n using div_mod_64 [OF assms(3)] by blast+
  have "?n div 4096 = ?n div 64 div 64" by (simp add: div_mult2_eq [symmetric])
  then have "?n div 4096 = x" "?n div 64 mod 64 = y"
    unfolding d using div_mod_64 [OF assms(2)] by simp_all
  with d r show "utf8_encode ?n = [of_nat (224 + x), of_nat (128 + y), of_nat (128 + z)]"
    unfolding utf8_encode_def by simp
qed

lemma encode_4I:
  assumes "x < 5" "y < 64" "z < 64" "w < 64" "x = 0 \<Longrightarrow> 16 \<le> y" "x = 4 \<Longrightarrow> y < 16"
  shows "utf8_scalar (x * 262144 + y * 4096 + z * 64 + w)"
    and "utf8_encode (x * 262144 + y * 4096 + z * 64 + w) =
      [of_nat (240 + x), of_nat (128 + y), of_nat (128 + z), of_nat (128 + w)]"
proof -
  let ?n = "x * 262144 + y * 4096 + z * 64 + w"
  have r: "65536 \<le> ?n" using assms by (cases "x = 0"; linarith)
  have r': "?n < 1114112" using assms by (cases "x = 4"; linarith)
  from r r' show "utf8_scalar ?n" by (simp add: utf8_scalar_def)
  have n: "?n = ((x * 64 + y) * 64 + z) * 64 + w" by simp
  have d: "?n div 64 = (x * 64 + y) * 64 + z" "?n mod 64 = w"
    unfolding n using div_mod_64 [OF assms(4)] by blast+
  have "?n div 4096 = ?n div 64 div 64" by (simp add: div_mult2_eq [symmetric])
  then have d': "?n div 4096 = x * 64 + y" "?n div 64 mod 64 = z"
    unfolding d using div_mod_64 [OF assms(3), of "x * 64 + y"] by simp_all
  have "?n div 262144 = ?n div 4096 div 64" by (simp add: div_mult2_eq [symmetric])
  then have "?n div 262144 = x" "?n div 4096 mod 64 = y"
    unfolding d' using div_mod_64 [OF assms(2), of x] by simp_all
  with d d' r show "utf8_encode ?n =
      [of_nat (240 + x), of_nat (128 + y), of_nat (128 + z), of_nat (128 + w)]"
    unfolding utf8_encode_def by simp
qed

text \<open>What each state of the automaton still waits for.\<close>

definition cont :: "u8 \<Rightarrow> nat \<Rightarrow> nat \<Rightarrow> bool" where
  "cont b lo hi \<longleftrightarrow> (\<exists>k. lo \<le> k \<and> k < hi \<and> k < 64 \<and> b = of_nat (128 + k))"

lemma contI: "lo \<le> unat b - 128 \<Longrightarrow> unat b - 128 < hi \<Longrightarrow> 128 \<le> unat b \<Longrightarrow> unat b < 192 \<Longrightarrow> cont b lo hi"
  unfolding cont_def by (intro exI [of _ "unat b - 128"]) (simp del: of_nat_add)

lemma run_2: "utf8_run 2 bs = 0 \<Longrightarrow> \<exists>b r. bs = b # r \<and> cont b 0 64 \<and> utf8_run 0 r = 0"
  by (cases bs) (auto simp: utf8_trans_def utf8_class_def split: if_splits intro!: contI)

lemma run_3: "utf8_run 3 bs = 0 \<Longrightarrow> \<exists>b r. bs = b # r \<and> cont b 0 64 \<and> utf8_run 2 r = 0"
  by (cases bs) (auto simp: utf8_trans_def utf8_class_def split: if_splits intro!: contI)

lemma run_4: "utf8_run 4 bs = 0 \<Longrightarrow> \<exists>b r. bs = b # r \<and> cont b 32 64 \<and> utf8_run 2 r = 0"
  by (cases bs) (auto simp: utf8_trans_def utf8_class_def split: if_splits intro!: contI)

lemma run_5: "utf8_run 5 bs = 0 \<Longrightarrow> \<exists>b r. bs = b # r \<and> cont b 0 32 \<and> utf8_run 2 r = 0"
  by (cases bs) (auto simp: utf8_trans_def utf8_class_def split: if_splits intro!: contI)

lemma run_6: "utf8_run 6 bs = 0 \<Longrightarrow> \<exists>b r. bs = b # r \<and> cont b 16 64 \<and> utf8_run 3 r = 0"
  by (cases bs) (auto simp: utf8_trans_def utf8_class_def split: if_splits intro!: contI)

lemma run_7: "utf8_run 7 bs = 0 \<Longrightarrow> \<exists>b r. bs = b # r \<and> cont b 0 64 \<and> utf8_run 3 r = 0"
  by (cases bs) (auto simp: utf8_trans_def utf8_class_def split: if_splits intro!: contI)

lemma run_8: "utf8_run 8 bs = 0 \<Longrightarrow> \<exists>b r. bs = b # r \<and> cont b 0 16 \<and> utf8_run 3 r = 0"
  by (cases bs) (auto simp: utf8_trans_def utf8_class_def split: if_splits intro!: contI)

lemma run_3_2:
  "utf8_run 3 bs = 0 \<Longrightarrow> \<exists>b c r. bs = b # c # r \<and> cont b 0 64 \<and> cont c 0 64 \<and> utf8_run 0 r = 0"
  using run_3 run_2 by blast

text \<open>The lead byte decides which.\<close>

definition lead :: "u8 \<Rightarrow> nat \<Rightarrow> nat \<Rightarrow> nat \<Rightarrow> bool" where
  "lead b base lo hi \<longleftrightarrow> (\<exists>x. lo \<le> x \<and> x < hi \<and> base + x < 256 \<and> b = of_nat (base + x))"

lemma leadI: "base \<le> unat b \<Longrightarrow> lo \<le> unat b - base \<Longrightarrow> unat b - base < hi \<Longrightarrow> lead b base lo hi"
  unfolding lead_def by (intro exI [of _ "unat b - base"]) (simp del: of_nat_add)

lemma run_0_cases:
  assumes "utf8_run 0 (b # bs) = 0"
  shows "unat b < 128 \<and> utf8_run 0 bs = 0 \<or> lead b 192 2 32 \<and> utf8_run 2 bs = 0
    \<or> lead b 224 0 1 \<and> utf8_run 4 bs = 0 \<or> lead b 224 1 13 \<and> utf8_run 3 bs = 0
    \<or> lead b 224 13 14 \<and> utf8_run 5 bs = 0 \<or> lead b 224 14 16 \<and> utf8_run 3 bs = 0
    \<or> lead b 240 0 1 \<and> utf8_run 6 bs = 0 \<or> lead b 240 1 4 \<and> utf8_run 7 bs = 0
    \<or> lead b 240 4 5 \<and> utf8_run 8 bs = 0"
proof -
  have "utf8_run 0 (b # bs) = utf8_run (utf8_trans 0 (utf8_class (unat b))) bs" by simp
  with assms have h: "utf8_run (utf8_trans 0 (utf8_class (unat b))) bs = 0" by simp
  consider "unat b < 128" | "128 \<le> unat b" "unat b < 194" | "194 \<le> unat b" "unat b < 224"
    | "unat b = 224" | "225 \<le> unat b" "unat b < 237" | "unat b = 237"
    | "238 \<le> unat b" "unat b < 240" | "unat b = 240" | "241 \<le> unat b" "unat b < 244"
    | "unat b = 244" | "245 \<le> unat b" by linarith
  then show ?thesis
  proof cases
    case 2
    then have "utf8_trans 0 (utf8_class (unat b)) = 1" by (simp add: utf8_class_def utf8_trans_def)
    with h show ?thesis by simp
  next
    case 11
    then have "utf8_trans 0 (utf8_class (unat b)) = 1" by (simp add: utf8_class_def utf8_trans_def)
    with h show ?thesis by simp
  qed (use h in \<open>simp_all add: utf8_class_def utf8_trans_def leadI\<close>)
qed

lemma valid_2:
  assumes "lead a 192 2 32" "cont b 0 64" "utf8_valid r"
  shows "utf8_valid (a # b # r)"
proof -
  obtain x y where "2 \<le> x" "x < 32" "a = of_nat (192 + x)" "y < 64" "b = of_nat (128 + y)"
    using assms(1,2) unfolding lead_def cont_def by blast
  then have "utf8_scalar (x * 64 + y)" and e: "utf8_encode (x * 64 + y) = [a, b]"
    using encode_2I [of x y] by blast+
  from utf8_valid_Cons [OF this(1) assms(3)] show ?thesis unfolding e by simp
qed

lemma valid_3:
  assumes "lead a 224 lo hi" "hi \<le> 16" "cont b l h" "cont c 0 64" "utf8_valid r"
    and "lo = 0 \<Longrightarrow> 32 \<le> l" "lo \<le> 13 \<Longrightarrow> 13 < hi \<Longrightarrow> h \<le> 32"
  shows "utf8_valid (a # b # c # r)"
proof -
  obtain x y z where d: "lo \<le> x" "x < hi" "a = of_nat (224 + x)" "l \<le> y" "y < h" "y < 64"
    "b = of_nat (128 + y)" "z < 64" "c = of_nat (128 + z)"
    using assms(1,3,4) unfolding lead_def cont_def by blast
  then have "x < 16" "x = 0 \<Longrightarrow> 32 \<le> y" "x = 13 \<Longrightarrow> y < 32"
    using assms(2,6,7) by auto
  with d have "utf8_scalar (x * 4096 + y * 64 + z)"
    and e: "utf8_encode (x * 4096 + y * 64 + z) = [a, b, c]"
    using encode_3I [of x y z] by blast+
  from utf8_valid_Cons [OF this(1) assms(5)] show ?thesis unfolding e by simp
qed

lemma valid_4:
  assumes "lead a 240 lo hi" "hi \<le> 5" "cont b l h" "cont c 0 64" "cont d 0 64" "utf8_valid r"
    and "lo = 0 \<Longrightarrow> 16 \<le> l" "hi = 5 \<Longrightarrow> h \<le> 16"
  shows "utf8_valid (a # b # c # d # r)"
proof -
  obtain x y z w where k: "lo \<le> x" "x < hi" "a = of_nat (240 + x)" "l \<le> y" "y < h" "y < 64"
    "b = of_nat (128 + y)" "z < 64" "c = of_nat (128 + z)" "w < 64" "d = of_nat (128 + w)"
    using assms(1,3,4,5) unfolding lead_def cont_def by blast
  then have "x < 5" "x = 0 \<Longrightarrow> 16 \<le> y" "x = 4 \<Longrightarrow> y < 16"
    using assms(2,7,8) by auto
  with k have "utf8_scalar (x * 262144 + y * 4096 + z * 64 + w)"
    and e: "utf8_encode (x * 262144 + y * 4096 + z * 64 + w) = [a, b, c, d]"
    using encode_4I [of x y z w] by blast+
  from utf8_valid_Cons [OF this(1) assms(6)] show ?thesis unfolding e by simp
qed

lemma valid_1: "unat b < 128 \<Longrightarrow> utf8_valid r \<Longrightarrow> utf8_valid (b # r)"
proof -
  assume b: "unat b < 128" and r: "utf8_valid r"
  have "utf8_scalar (unat b)" "utf8_encode (unat b) = [b]"
    using b by (simp_all add: utf8_scalar_def utf8_encode_def)
  with utf8_valid_Cons [OF this(1) r] show ?thesis by simp
qed

lemma utf8_run_valid: "utf8_run 0 bs = 0 \<Longrightarrow> utf8_valid bs"
proof (induction bs rule: length_induct)
  case (1 bs)
  show ?case
  proof (cases bs)
    case (Cons b r)
    have IH: "length r' < length bs \<Longrightarrow> utf8_run 0 r' = 0 \<Longrightarrow> utf8_valid r'" for r'
      using 1 by blast
    from 1(2) Cons have "utf8_run 0 (b # r) = 0" by simp
    from run_0_cases [OF this] show ?thesis
      unfolding Cons
    proof (elim disjE conjE)
      assume "unat b < 128" "utf8_run 0 r = 0"
      then show "utf8_valid (b # r)" using IH Cons by (auto intro: valid_1)
    next
      assume "lead b 192 2 32" "utf8_run 2 r = 0"
      then show "utf8_valid (b # r)" using IH Cons by (auto dest!: run_2 intro!: valid_2)
    next
      assume "lead b 224 0 1" "utf8_run 4 r = 0"
      then show "utf8_valid (b # r)" using IH Cons by (auto dest!: run_4 run_2 intro!: valid_3)
    next
      assume "lead b 224 1 13" "utf8_run 3 r = 0"
      then show "utf8_valid (b # r)" using IH Cons by (auto dest!: run_3_2 intro!: valid_3)
    next
      assume "lead b 224 13 14" "utf8_run 5 r = 0"
      then show "utf8_valid (b # r)" using IH Cons by (auto dest!: run_5 run_2 intro!: valid_3)
    next
      assume "lead b 224 14 16" "utf8_run 3 r = 0"
      then show "utf8_valid (b # r)" using IH Cons by (auto dest!: run_3_2 intro!: valid_3)
    next
      assume "lead b 240 0 1" "utf8_run 6 r = 0"
      then show "utf8_valid (b # r)" using IH Cons by (auto dest!: run_6 run_3_2 intro!: valid_4)
    next
      assume "lead b 240 1 4" "utf8_run 7 r = 0"
      then show "utf8_valid (b # r)" using IH Cons by (auto dest!: run_7 run_3_2 intro!: valid_4)
    next
      assume "lead b 240 4 5" "utf8_run 8 r = 0"
      then show "utf8_valid (b # r)" using IH Cons by (auto dest!: run_8 run_3_2 intro!: valid_4)
    qed
  qed simp
qed

lemma utf8_run_0_iff: "utf8_run 0 bs = 0 \<longleftrightarrow> utf8_valid bs"
  using utf8_run_valid utf8_valid_run by blast

section \<open>The interface of an incremental checker\<close>

text \<open>
  The receiver and the sender feed a checker chunk by chunk and keep its state between
  fragments. What they rely on: one state is final for failure, and every other state that
  can be reached can still be completed.
\<close>

locale incremental_checker =
  fixes step :: "'s \<Rightarrow> 'b \<Rightarrow> 's"
    and start :: 's
    and accept :: "'s \<Rightarrow> bool"
    and dead :: 's
    and live :: "'s \<Rightarrow> bool"
  assumes live_start: "live start"
    and live_step: "live s \<Longrightarrow> live (step s b)"
    and dead_step: "step dead b = dead"
    and dead_reject: "\<not> accept dead"
    and completable: "live s \<Longrightarrow> s \<noteq> dead \<Longrightarrow> \<exists>r. accept (fold (\<lambda>b s. step s b) r s)"
begin

lemma dead_run: "fold (\<lambda>b s. step s b) bs dead = dead"
  by (induction bs) (auto simp: dead_step)

lemma live_run: "live s \<Longrightarrow> live (fold (\<lambda>b s. step s b) bs s)"
  by (induction bs arbitrary: s) (auto simp: live_step)

lemma dead_iff_hopeless:
  "fold (\<lambda>b s. step s b) bs start = dead \<longleftrightarrow>
   (\<forall>r. \<not> accept (fold (\<lambda>b s. step s b) (bs @ r) start))"
proof
  assume "fold (\<lambda>b s. step s b) bs start = dead"
  then show "\<forall>r. \<not> accept (fold (\<lambda>b s. step s b) (bs @ r) start)"
    by (simp add: dead_run dead_reject)
next
  assume "\<forall>r. \<not> accept (fold (\<lambda>b s. step s b) (bs @ r) start)"
  then show "fold (\<lambda>b s. step s b) bs start = dead"
    using completable [OF live_run [OF live_start, of bs]] by auto
qed

end

lemma utf8_completion:
  "s < 9 \<Longrightarrow> s \<noteq> 1 \<Longrightarrow> \<exists>r. utf8_run s r = 0"
proof -
  assume "s < 9" "s \<noteq> 1"
  then consider "s = 0" | "s = 2" | "s = 3" | "s = 4" | "s = 5" | "s = 6" | "s = 7" | "s = 8" by linarith
  then show ?thesis
  proof cases
    case 1 then show ?thesis by (intro exI [of _ "[]"]) simp
  next
    case 2 then show ?thesis by (intro exI [of _ "[128]"]) (simp add: utf8_trans_def utf8_class_def)
  next
    case 3 then show ?thesis by (intro exI [of _ "[128,128]"]) (simp add: utf8_trans_def utf8_class_def)
  next
    case 4 then show ?thesis by (intro exI [of _ "[160,128]"]) (simp add: utf8_trans_def utf8_class_def)
  next
    case 5 then show ?thesis by (intro exI [of _ "[128,128]"]) (simp add: utf8_trans_def utf8_class_def)
  next
    case 6 then show ?thesis by (intro exI [of _ "[144,128,128]"]) (simp add: utf8_trans_def utf8_class_def)
  next
    case 7 then show ?thesis by (intro exI [of _ "[128,128,128]"]) (simp add: utf8_trans_def utf8_class_def)
  next
    case 8 then show ?thesis by (intro exI [of _ "[128,128,128]"]) (simp add: utf8_trans_def utf8_class_def)
  qed
qed

text \<open>The states the table knows.\<close>

definition utf8_state_ok :: "u16 \<Rightarrow> bool" where
  "utf8_state_ok s \<longleftrightarrow> unat s < 9"

lemma utf8_state_ok_of_nat: "utf8_state_ok s \<longleftrightarrow> (\<exists>n < 9. s = of_nat n)"
  unfolding utf8_state_ok_def
proof
  assume "unat s < 9"
  then show "\<exists>n < 9. s = of_nat n" by (intro exI [of _ "unat s"]) simp
next
  assume "\<exists>n < 9. s = of_nat n"
  then show "unat s < 9" by (auto simp: unat_of_nat)
qed

interpretation utf8: incremental_checker utf8_parse 0 utf8_is_complete 1 utf8_state_ok
proof
  show "utf8_state_ok 0" by (simp add: utf8_state_ok_def)
next
  fix s b assume "utf8_state_ok s"
  then show "utf8_state_ok (utf8_parse s b)"
    unfolding utf8_state_ok_of_nat using utf8_parse_trans utf8_trans_less by metis
next
  fix b show "utf8_parse 1 b = 1"
    using utf8_parse_trans [of 1 b] by (simp add: utf8_trans_def)
next
  show "\<not> utf8_is_complete 1" by (simp add: utf8_is_complete_def)
next
  fix s :: u16 assume a: "utf8_state_ok s" "s \<noteq> 1"
  then obtain n where n: "n < 9" "s = of_nat n" unfolding utf8_state_ok_of_nat by blast
  with a(2) have "n \<noteq> 1" by auto
  with utf8_completion n(1) obtain r where "utf8_run n r = 0" by blast
  then have "utf8_parse_string s r = 0" using utf8_parse_string_run [OF n(1)] n(2) by simp
  then show "\<exists>r. utf8_is_complete (fold (\<lambda>b s. utf8_parse s b) r s)"
    unfolding utf8_parse_string_def utf8_is_complete_def by blast
qed

lemma utf8_parse_string_append:
  "utf8_parse_string s (as @ bs) = utf8_parse_string (utf8_parse_string s as) bs"
  by (simp add: utf8_parse_string_def)

lemma utf8_parse_string_Nil [simp]: "utf8_parse_string s [] = s"
  by (simp add: utf8_parse_string_def)

lemma utf8_parse_string_ok: "utf8_state_ok s \<Longrightarrow> utf8_state_ok (utf8_parse_string s bs)"
  unfolding utf8_parse_string_def by (rule utf8.live_run)

lemma utf8_state_ok_0 [simp]: "utf8_state_ok 0"
  by (simp add: utf8_state_ok_def)

lemma utf8_complete_iff_valid:
  "utf8_is_complete (utf8_parse_string 0 bs) \<longleftrightarrow> utf8_valid bs"
  using utf8_parse_string_0_iff [of 0 bs] by (simp add: utf8_is_complete_def utf8_run_0_iff)

end
