(* ===== verification/Http_Types.thy ===== *)
theory Http_Types
  imports Wic_Prelude
begin

text \<open>
  The data of the HTTP parser (\<open>src/http_parser.c\<close>, \<open>include/http_parser.h\<close>): its states,
  header states, error numbers and flags, and the parser structure. The bit fields keep
  their widths. \<open>parser->data\<close>, which points back to the instance, is not a field here: the
  user state is passed explicitly wherever the parser calls back.
\<close>

datatype http_state =
  s_dead
| s_start_req_or_res | s_res_or_resp_H | s_start_res | s_res_H | s_res_HT | s_res_HTT
| s_res_HTTP | s_res_http_major | s_res_http_dot | s_res_http_minor | s_res_http_end
| s_res_first_status_code | s_res_status_code | s_res_status_start | s_res_status
| s_res_line_almost_done
| s_start_req
| s_req_method | s_req_spaces_before_url | s_req_schema | s_req_schema_slash
| s_req_schema_slash_slash | s_req_server_start | s_req_server | s_req_server_with_at
| s_req_path | s_req_query_string_start | s_req_query_string | s_req_fragment_start
| s_req_fragment | s_req_http_start | s_req_http_H | s_req_http_HT | s_req_http_HTT
| s_req_http_HTTP | s_req_http_I | s_req_http_IC | s_req_http_major | s_req_http_dot
| s_req_http_minor | s_req_http_end | s_req_line_almost_done
| s_header_field_start | s_header_field | s_header_value_discard_ws
| s_header_value_discard_ws_almost_done | s_header_value_discard_lws | s_header_value_start
| s_header_value | s_header_value_lws
| s_header_almost_done
| s_chunk_size_start | s_chunk_size | s_chunk_parameters | s_chunk_size_almost_done
| s_headers_almost_done | s_headers_done
| s_chunk_data | s_chunk_data_almost_done | s_chunk_data_done
| s_body_identity | s_body_identity_eof
| s_message_done

text \<open>\<open>state <= s_headers_done\<close>: all but the body states, which come last.\<close>

fun PARSING_HEADER :: "http_state \<Rightarrow> bool" where
  "PARSING_HEADER s_chunk_data = False"
| "PARSING_HEADER s_chunk_data_almost_done = False"
| "PARSING_HEADER s_chunk_data_done = False"
| "PARSING_HEADER s_body_identity = False"
| "PARSING_HEADER s_body_identity_eof = False"
| "PARSING_HEADER s_message_done = False"
| "PARSING_HEADER _ = True"

datatype http_header_state =
  h_general | h_C | h_CO | h_CON
| h_matching_connection | h_matching_proxy_connection | h_matching_content_length
| h_matching_transfer_encoding | h_matching_upgrade
| h_connection | h_content_length | h_content_length_num | h_content_length_ws
| h_transfer_encoding | h_upgrade
| h_matching_transfer_encoding_token_start | h_matching_transfer_encoding_chunked
| h_matching_transfer_encoding_token
| h_matching_connection_token_start | h_matching_connection_keep_alive
| h_matching_connection_close | h_matching_connection_upgrade | h_matching_connection_token
| h_transfer_encoding_chunked | h_connection_keep_alive | h_connection_close
| h_connection_upgrade

datatype http_parser_type = HTTP_REQUEST | HTTP_RESPONSE | HTTP_BOTH

datatype http_errno =
  HPE_OK
| HPE_CB_message_begin | HPE_CB_url | HPE_CB_header_field | HPE_CB_header_value
| HPE_CB_headers_complete | HPE_CB_body | HPE_CB_message_complete | HPE_CB_status
| HPE_CB_chunk_header | HPE_CB_chunk_complete
| HPE_INVALID_EOF_STATE | HPE_HEADER_OVERFLOW | HPE_CLOSED_CONNECTION | HPE_INVALID_VERSION
| HPE_INVALID_STATUS | HPE_INVALID_METHOD | HPE_INVALID_URL | HPE_INVALID_HOST
| HPE_INVALID_PORT | HPE_INVALID_PATH | HPE_INVALID_QUERY_STRING | HPE_INVALID_FRAGMENT
| HPE_LF_EXPECTED | HPE_INVALID_HEADER_TOKEN | HPE_INVALID_CONTENT_LENGTH
| HPE_UNEXPECTED_CONTENT_LENGTH | HPE_INVALID_CHUNK_SIZE | HPE_INVALID_CONSTANT
| HPE_INVALID_INTERNAL_STATE | HPE_STRICT | HPE_PAUSED | HPE_UNKNOWN
| HPE_INVALID_TRANSFER_ENCODING

text \<open>The request methods, numbered as in \<open>HTTP_METHOD_MAP\<close>; the parser keeps the number.\<close>

definition HTTP_CONNECT :: u8 where
  "HTTP_CONNECT = 5"

text \<open>The bits of \<open>flags\<close>; \<open>extra_flags\<close> keeps the ninth flag shifted down.\<close>

definition F_CHUNKED :: u8 where "F_CHUNKED = 1"
definition F_CONNECTION_KEEP_ALIVE :: u8 where "F_CONNECTION_KEEP_ALIVE = 2"
definition F_CONNECTION_CLOSE :: u8 where "F_CONNECTION_CLOSE = 4"
definition F_CONNECTION_UPGRADE :: u8 where "F_CONNECTION_UPGRADE = 8"
definition F_TRAILING :: u8 where "F_TRAILING = 16"
definition F_UPGRADE :: u8 where "F_UPGRADE = 32"
definition F_SKIPBODY :: u8 where "F_SKIPBODY = 64"
definition F_CONTENTLENGTH :: u8 where "F_CONTENTLENGTH = 128"

record http_parser =
  hp_type :: http_parser_type
  hp_flags :: u8
  hp_state :: http_state
  hp_header_state :: http_header_state
  hp_index :: "5 word"
  hp_extra_flags :: "2 word"
  hp_lenient :: bool
  hp_nread :: u32
  hp_content_length :: u64
  hp_major :: u16
  hp_minor :: u16
  hp_status_code :: u16
  hp_method :: u8
  hp_errno :: http_errno
  hp_upgrade :: bool

definition http_parser_init :: "http_parser_type \<Rightarrow> http_parser" where
  "http_parser_init t =
     \<lparr>hp_type = t, hp_flags = 0,
      hp_state = (if t = HTTP_REQUEST then s_start_req
                  else if t = HTTP_RESPONSE then s_start_res else s_start_req_or_res),
      hp_header_state = h_general, hp_index = 0, hp_extra_flags = 0, hp_lenient = False,
      hp_nread = 0, hp_content_length = 0, hp_major = 0, hp_minor = 0, hp_status_code = 0,
      hp_method = 0, hp_errno = HPE_OK, hp_upgrade = False\<rparr>"

end
