(* ===== verification/Wic_Types.thy ===== *)
theory Wic_Types
  imports Wic_Stream Wic_Utf8 Http_Types
begin

text \<open>
  The data of \<open>include/wic.h\<close>: enumerations, the receive frame, the instance, and the
  application's side of the interface. A function pointer is a number (\<open>fnptr\<close>, \<open>None\<close> for
  \<open>NULL\<close>); what calling it does is given by the \<open>host\<close>, a parameter of the model: each
  handler may change the instance (it may call back into the interface) and the
  application's own state, the field \<open>app\<close>.
\<close>

section \<open>Enumerations\<close>

datatype wic_buffer =
  WIC_BUFFER_HTTP | WIC_BUFFER_USER | WIC_BUFFER_PING | WIC_BUFFER_PONG | WIC_BUFFER_CLOSE
| WIC_BUFFER_CLOSE_RESPONSE

datatype wic_encoding = WIC_ENCODING_UTF8 | WIC_ENCODING_BINARY

datatype wic_handshake_failure =
  WIC_HANDSHAKE_FAILURE_ABNORMAL_1 | WIC_HANDSHAKE_FAILURE_ABNORMAL_2
| WIC_HANDSHAKE_FAILURE_TLS | WIC_HANDSHAKE_FAILURE_IRRELEVANT
| WIC_HANDSHAKE_FAILURE_PROTOCOL | WIC_HANDSHAKE_FAILURE_UPGRADE

datatype wic_role = WIC_ROLE_CLIENT | WIC_ROLE_SERVER

datatype wic_schema = WIC_SCHEMA_HTTP | WIC_SCHEMA_HTTPS | WIC_SCHEMA_WS | WIC_SCHEMA_WSS

datatype wic_rx_state =
  WIC_RX_STATE_OPCODE | WIC_RX_STATE_SIZE | WIC_RX_STATE_SIZE_0 | WIC_RX_STATE_SIZE_1
| WIC_RX_STATE_SIZE_2 | WIC_RX_STATE_SIZE_3 | WIC_RX_STATE_SIZE_4 | WIC_RX_STATE_SIZE_5
| WIC_RX_STATE_SIZE_6 | WIC_RX_STATE_SIZE_7 | WIC_RX_STATE_SIZE_8 | WIC_RX_STATE_SIZE_9
| WIC_RX_STATE_MASK_0 | WIC_RX_STATE_MASK_1 | WIC_RX_STATE_MASK_2 | WIC_RX_STATE_MASK_3
| WIC_RX_STATE_DATA

datatype wic_opcode =
  WIC_OPCODE_CONTINUE | WIC_OPCODE_TEXT | WIC_OPCODE_BINARY
| WIC_OPCODE_RESERVE_3 | WIC_OPCODE_RESERVE_4 | WIC_OPCODE_RESERVE_5 | WIC_OPCODE_RESERVE_6
| WIC_OPCODE_RESERVE_7 | WIC_OPCODE_CLOSE | WIC_OPCODE_PING | WIC_OPCODE_PONG
| WIC_OPCODE_RESERVE_11 | WIC_OPCODE_RESERVE_12 | WIC_OPCODE_RESERVE_13
| WIC_OPCODE_RESERVE_14 | WIC_OPCODE_RESERVE_15

datatype wic_state =
  WIC_STATE_INIT | WIC_STATE_PARSE_HANDSHAKE | WIC_STATE_READY | WIC_STATE_OPEN
| WIC_STATE_CLOSED

datatype wic_header_state =
  WIC_HEADER_STATE_IDLE | WIC_HEADER_STATE_FIELD | WIC_HEADER_STATE_VALUE

datatype wic_status =
  WIC_STATUS_SUCCESS | WIC_STATUS_NOT_OPEN | WIC_STATUS_TOO_LARGE | WIC_STATUS_WOULD_BLOCK
| WIC_STATUS_BAD_STATE | WIC_STATUS_BAD_INPUT | WIC_STATUS_TIMEOUT

text \<open>The close codes.\<close>

definition WIC_CLOSE_NORMAL :: u16 where "WIC_CLOSE_NORMAL = 1000"
definition WIC_CLOSE_GOING_AWAY :: u16 where "WIC_CLOSE_GOING_AWAY = 1001"
definition WIC_CLOSE_PROTOCOL_ERROR :: u16 where "WIC_CLOSE_PROTOCOL_ERROR = 1002"
definition WIC_CLOSE_UNSUPPORTED :: u16 where "WIC_CLOSE_UNSUPPORTED = 1003"
definition WIC_CLOSE_INVALID_DATA :: u16 where "WIC_CLOSE_INVALID_DATA = 1007"
definition WIC_CLOSE_POLICY :: u16 where "WIC_CLOSE_POLICY = 1008"
definition WIC_CLOSE_TOO_BIG :: u16 where "WIC_CLOSE_TOO_BIG = 1009"
definition WIC_CLOSE_EXTENSION_REQUIRED :: u16 where "WIC_CLOSE_EXTENSION_REQUIRED = 1010"
definition WIC_CLOSE_UNEXPECTED_EXCEPTION :: u16 where "WIC_CLOSE_UNEXPECTED_EXCEPTION = 1011"
definition WIC_CLOSE_ABNORMAL_1 :: u16 where "WIC_CLOSE_ABNORMAL_1 = 1005"
definition WIC_CLOSE_ABNORMAL_2 :: u16 where "WIC_CLOSE_ABNORMAL_2 = 1006"
definition WIC_CLOSE_TLS :: u16 where "WIC_CLOSE_TLS = 1015"

lemmas close_code_defs =
  WIC_CLOSE_NORMAL_def WIC_CLOSE_GOING_AWAY_def WIC_CLOSE_PROTOCOL_ERROR_def
  WIC_CLOSE_UNSUPPORTED_def WIC_CLOSE_INVALID_DATA_def WIC_CLOSE_POLICY_def
  WIC_CLOSE_TOO_BIG_def WIC_CLOSE_EXTENSION_REQUIRED_def WIC_CLOSE_UNEXPECTED_EXCEPTION_def
  WIC_CLOSE_ABNORMAL_1_def WIC_CLOSE_ABNORMAL_2_def WIC_CLOSE_TLS_def

section \<open>Opcodes and bytes\<close>

definition opcodes :: "wic_opcode list" where
  "opcodes =
     [WIC_OPCODE_CONTINUE, WIC_OPCODE_TEXT, WIC_OPCODE_BINARY, WIC_OPCODE_RESERVE_3,
      WIC_OPCODE_RESERVE_4, WIC_OPCODE_RESERVE_5, WIC_OPCODE_RESERVE_6, WIC_OPCODE_RESERVE_7,
      WIC_OPCODE_CLOSE, WIC_OPCODE_PING, WIC_OPCODE_PONG, WIC_OPCODE_RESERVE_11,
      WIC_OPCODE_RESERVE_12, WIC_OPCODE_RESERVE_13, WIC_OPCODE_RESERVE_14,
      WIC_OPCODE_RESERVE_15]"

text \<open>The values of the enumeration.\<close>

fun opcode_to_byte :: "wic_opcode \<Rightarrow> u8" where
  "opcode_to_byte WIC_OPCODE_CONTINUE = 0"
| "opcode_to_byte WIC_OPCODE_TEXT = 1"
| "opcode_to_byte WIC_OPCODE_BINARY = 2"
| "opcode_to_byte WIC_OPCODE_RESERVE_3 = 3"
| "opcode_to_byte WIC_OPCODE_RESERVE_4 = 4"
| "opcode_to_byte WIC_OPCODE_RESERVE_5 = 5"
| "opcode_to_byte WIC_OPCODE_RESERVE_6 = 6"
| "opcode_to_byte WIC_OPCODE_RESERVE_7 = 7"
| "opcode_to_byte WIC_OPCODE_CLOSE = 8"
| "opcode_to_byte WIC_OPCODE_PING = 9"
| "opcode_to_byte WIC_OPCODE_PONG = 10"
| "opcode_to_byte WIC_OPCODE_RESERVE_11 = 11"
| "opcode_to_byte WIC_OPCODE_RESERVE_12 = 12"
| "opcode_to_byte WIC_OPCODE_RESERVE_13 = 13"
| "opcode_to_byte WIC_OPCODE_RESERVE_14 = 14"
| "opcode_to_byte WIC_OPCODE_RESERVE_15 = 15"

definition byte_to_opcode :: "u8 \<Rightarrow> wic_opcode" where
  "byte_to_opcode b = opcodes ! unat (b AND 15)"

text \<open>Writing an opcode and reading it back.\<close>

interpretation opc: codec opcode_to_byte "\<lambda>b. Some (byte_to_opcode b)" "\<lambda>_. True"
proof
  fix x :: wic_opcode
  show "Some (byte_to_opcode (opcode_to_byte x)) = Some x"
    by (cases x) (simp_all add: byte_to_opcode_def opcodes_def)
qed

section \<open>Frames, headers and the instance\<close>

type_synonym fnptr = nat

record wic_rx_frame =
  rx_fin :: bool
  rx_rsv1 :: bool
  rx_rsv2 :: bool
  rx_rsv3 :: bool
  rx_opcode :: wic_opcode
  rx_frag :: wic_opcode
  rx_mask :: bytes
  rx_size :: u64
  rx_masked :: bool
  rx_state :: wic_rx_state
  rx_utf8 :: u16
  rx_s :: wic_stream

record wic_tx_frame =
  f_fin :: bool
  f_rsv1 :: bool
  f_rsv2 :: bool
  f_rsv3 :: bool
  f_opcode :: wic_opcode
  f_type :: wic_buffer
  f_code :: u16
  f_masked :: bool
  f_mask :: bytes
  f_size :: u16
  f_payload :: bytes

text \<open>The message handler is never \<open>NULL\<close>: \<open>wic_init\<close> puts the static default there.\<close>

datatype message_fn = Default_message | App_message fnptr

text \<open>
  The instance. \<open>tx_header\<close> is the linked list of headers, newest first; \<open>hostname\<close> the
  string in the array; \<open>redirect_url\<close> a pointer into the receive buffer, kept as an offset.
  The fields \<open>rx.pos\<close> and \<open>tx_max\<close> are not used by the code and are left out.
\<close>

record 'w wic_inst =
  role :: wic_role
  istate :: wic_state
  rx :: wic_rx_frame
  h_message :: message_fn
  h_open :: "fnptr option"
  h_close :: "fnptr option"
  h_close_transport :: "fnptr option"
  h_handshake_failure :: "fnptr option"
  h_send :: fnptr
  h_buffer :: fnptr
  h_rand :: "fnptr option"
  h_ping :: "fnptr option"
  h_pong :: "fnptr option"
  app :: 'w
  url :: "bytes option"
  schema :: wic_schema
  status_code :: u16
  port :: u16
  tx_header :: "(bytes \<times> bytes) list"
  header_state :: wic_header_state
  http :: http_parser
  frag :: wic_opcode
  ipos :: u16
  utf8_tx :: u16
  utf8_rx :: u16
  hash :: bytes
  hostname :: bytes
  redirect_url :: "nat option"

record 'w host =
  run_message :: "fnptr \<Rightarrow> 'w wic_inst \<Rightarrow> wic_encoding \<Rightarrow> bool \<Rightarrow> bytes \<Rightarrow> bool \<times> 'w wic_inst"
  run_open :: "fnptr \<Rightarrow> 'w wic_inst \<Rightarrow> 'w wic_inst"
  run_close :: "fnptr \<Rightarrow> 'w wic_inst \<Rightarrow> u16 \<Rightarrow> bytes \<Rightarrow> 'w wic_inst"
  run_close_transport :: "fnptr \<Rightarrow> 'w wic_inst \<Rightarrow> 'w wic_inst"
  run_handshake_failure :: "fnptr \<Rightarrow> 'w wic_inst \<Rightarrow> wic_handshake_failure \<Rightarrow> 'w wic_inst"
  run_send :: "fnptr \<Rightarrow> 'w wic_inst \<Rightarrow> bytes \<Rightarrow> wic_buffer \<Rightarrow> 'w wic_inst"
  run_buffer :: "fnptr \<Rightarrow> 'w wic_inst \<Rightarrow> nat \<Rightarrow> wic_buffer \<Rightarrow> (bytes option \<times> nat) \<times> 'w wic_inst"
  run_rand :: "fnptr \<Rightarrow> 'w wic_inst \<Rightarrow> u32 \<times> 'w wic_inst"
  run_ping :: "fnptr \<Rightarrow> 'w wic_inst \<Rightarrow> 'w wic_inst"
  run_pong :: "fnptr \<Rightarrow> 'w wic_inst \<Rightarrow> 'w wic_inst"

section \<open>Calling the handlers\<close>

text \<open>An optional handler is called only when it is not \<open>NULL\<close>.\<close>

definition call_open :: "'w host \<Rightarrow> 'w wic_inst \<Rightarrow> 'w wic_inst" where
  "call_open h self = (case h_open self of None \<Rightarrow> self | Some p \<Rightarrow> run_open h p self)"

definition call_close :: "'w host \<Rightarrow> 'w wic_inst \<Rightarrow> u16 \<Rightarrow> bytes \<Rightarrow> 'w wic_inst" where
  "call_close h self code reason =
     (case h_close self of None \<Rightarrow> self | Some p \<Rightarrow> run_close h p self code reason)"

definition call_close_transport :: "'w host \<Rightarrow> 'w wic_inst \<Rightarrow> 'w wic_inst" where
  "call_close_transport h self =
     (case h_close_transport self of None \<Rightarrow> self | Some p \<Rightarrow> run_close_transport h p self)"

definition call_handshake_failure ::
    "'w host \<Rightarrow> 'w wic_inst \<Rightarrow> wic_handshake_failure \<Rightarrow> 'w wic_inst" where
  "call_handshake_failure h self reason =
     (case h_handshake_failure self of None \<Rightarrow> self
      | Some p \<Rightarrow> run_handshake_failure h p self reason)"

definition call_send :: "'w host \<Rightarrow> 'w wic_inst \<Rightarrow> bytes \<Rightarrow> wic_buffer \<Rightarrow> 'w wic_inst" where
  "call_send h self data type = run_send h (h_send self) self data type"

definition call_buffer ::
    "'w host \<Rightarrow> 'w wic_inst \<Rightarrow> nat \<Rightarrow> wic_buffer \<Rightarrow> (bytes option \<times> nat) \<times> 'w wic_inst" where
  "call_buffer h self min_size type = run_buffer h (h_buffer self) self min_size type"

definition call_ping :: "'w host \<Rightarrow> 'w wic_inst \<Rightarrow> 'w wic_inst" where
  "call_ping h self = (case h_ping self of None \<Rightarrow> self | Some p \<Rightarrow> run_ping h p self)"

definition call_pong :: "'w host \<Rightarrow> 'w wic_inst \<Rightarrow> 'w wic_inst" where
  "call_pong h self = (case h_pong self of None \<Rightarrow> self | Some p \<Rightarrow> run_pong h p self)"

text \<open>The static default handler, and the call through the pointer.\<close>

definition on_message :: "'w wic_inst \<Rightarrow> wic_encoding \<Rightarrow> bool \<Rightarrow> bytes \<Rightarrow> bool \<times> 'w wic_inst" where
  "on_message inst enc fin data = (True, inst)"

definition call_message ::
    "'w host \<Rightarrow> 'w wic_inst \<Rightarrow> wic_encoding \<Rightarrow> bool \<Rightarrow> bytes \<Rightarrow> bool \<times> 'w wic_inst" where
  "call_message h self enc fin data =
     (case h_message self of
        Default_message \<Rightarrow> on_message self enc fin data
      | App_message p \<Rightarrow> run_message h p self enc fin data)"

text \<open>The bytes a 16-bit \<open>size\<close> argument denotes, from a pointer to \<open>mem\<close>.\<close>

definition span :: "bytes \<Rightarrow> u16 \<Rightarrow> bytes" where
  "span mem n = take (unat n) mem"

end
