(* ===== verification/Wic_Frame.thy ===== *)
theory Wic_Frame
  imports Wic_Types
begin

text \<open>
  Writing one frame (\<open>min_frame_size\<close>, \<open>init_mask\<close>, \<open>stream_put_frame\<close> of \<open>src/wic.c\<close>) into
  a buffer the application provides, and the frame layout of RFC 6455 section 5.2 as the
  reference. A client frame is written in full into exactly \<open>min_frame_size\<close> bytes, and
  is byte for byte the frame of the reference.
\<close>

section \<open>The code\<close>

definition min_frame_size :: "wic_opcode \<Rightarrow> bool \<Rightarrow> u16 \<Rightarrow> nat" where
  "min_frame_size opcode masked payload_size =
     (let n = unat payload_size;
          n = (if opcode = WIC_OPCODE_CLOSE then n + 2 else n);
          n = (if n > 125 then n + 2 else n);
          n = n + 2
      in if masked then n + 4 else n)"

text \<open>The bytes of a 32-bit value in memory; the targets of the library are little-endian.\<close>

definition u32_bytes :: "u32 \<Rightarrow> bytes" where
  "u32_bytes x = [ucast x, ucast (drop_bit 8 x), ucast (drop_bit 16 x), ucast (drop_bit 24 x)]"

definition init_mask :: "'w host \<Rightarrow> 'w wic_inst \<Rightarrow> wic_tx_frame \<Rightarrow> wic_tx_frame \<times> 'w wic_inst" where
  "init_mask h self f =
     (let (m, self) = (case h_rand self of
             Some p \<Rightarrow> run_rand h p self
           | None \<Rightarrow> (0xaaaaaaaa, self))
      in (f\<lparr>f_masked := (role self = WIC_ROLE_CLIENT), f_mask := u32_bytes m\<rparr>, self))"

text \<open>The sequence of writes, one list per call of a \<open>stream_put_*\<close> or \<open>stream_write\<close>.\<close>

definition frame_puts :: "wic_tx_frame \<Rightarrow> bytes list" where
  "frame_puts f =
     (let payload_size = unat (f_size f) + (if f_opcode f = WIC_OPCODE_CLOSE then 2 else 0);
          ptr = f_payload f;
          m = (if f_masked f then 0x80 else 0 :: u8)
      in [[(if f_fin f then 0x80 else 0) OR (if f_rsv1 f then 0x40 else 0) OR
           (if f_rsv2 f then 0x20 else 0) OR (if f_rsv3 f then 0x10 else 0) OR
           opcode_to_byte (f_opcode f)]]
         @ (if payload_size \<le> 125 then [[m OR of_nat payload_size]]
            else [[m OR 126], [u16_hi (of_nat payload_size), u16_lo (of_nat payload_size)]])
         @ (if f_masked f then
              [f_mask f]
              @ (if f_opcode f = WIC_OPCODE_CLOSE then
                   [[u16_hi (f_code f) XOR f_mask f ! 0], [u16_lo (f_code f) XOR f_mask f ! 1]]
                   @ map (\<lambda>pos. [ptr ! pos XOR f_mask f ! ((pos + 2) mod 4)]) [0..<unat (f_size f)]
                 else map (\<lambda>pos. [ptr ! pos XOR f_mask f ! (pos mod 4)]) [0..<payload_size])
            else
              (if f_opcode f = WIC_OPCODE_CLOSE then [[u16_hi (f_code f)], [u16_lo (f_code f)]]
               else [])
              @ [map (\<lambda>i. ptr ! i) [0..<payload_size]]))"

text \<open>The stream is returned for the caller's \<open>on_send\<close>; it is only set, and only used, on
  success.\<close>

definition stream_put_frame ::
    "'w host \<Rightarrow> 'w wic_inst \<Rightarrow> wic_tx_frame \<Rightarrow> wic_status \<times> wic_stream \<times> 'w wic_inst" where
  "stream_put_frame h self f =
     (let frame_size = min_frame_size (f_opcode f) (f_masked f) (f_size f);
          ((buf, mx), self) = call_buffer h self frame_size (f_type f)
      in if mx \<ge> frame_size then
           if buf \<noteq> None then
             let tx = stream_put_all (frame_puts f) (stream_init buf frame_size)
             in (if stream_error tx then WIC_STATUS_WOULD_BLOCK else WIC_STATUS_SUCCESS, tx, self)
           else (WIC_STATUS_WOULD_BLOCK, stream_init None 0, self)
         else (WIC_STATUS_TOO_LARGE, stream_init None 0, self))"

section \<open>Masking\<close>

primrec mask_from :: "nat \<Rightarrow> bytes \<Rightarrow> bytes \<Rightarrow> bytes" where
  "mask_from k m [] = []"
| "mask_from k m (b # bs) = (b XOR m ! (k mod 4)) # mask_from (Suc k) m bs"

lemma length_mask_from [simp]: "length (mask_from k m bs) = length bs"
  by (induction bs arbitrary: k) auto

lemma mask_from_append: "mask_from k m (as @ bs) = mask_from k m as @ mask_from (k + length as) m bs"
  by (induction as arbitrary: k) auto

lemma mask_from_involution [simp]: "mask_from k m (mask_from k m bs) = bs"
  by (induction bs arbitrary: k) auto

lemma nth_mask_from: "i < length bs \<Longrightarrow> mask_from k m bs ! i = bs ! i XOR m ! ((k + i) mod 4)"
proof (induction bs arbitrary: k i)
  case (Cons b bs)
  then show ?case by (cases i) auto
qed simp

lemma mask_from_map:
  "n \<le> length bs \<Longrightarrow> map (\<lambda>i. bs ! i XOR m ! ((i + k) mod 4)) [0..<n] = mask_from k m (take n bs)"
  by (rule nth_equalityI) (simp_all add: nth_mask_from add.commute)

lemma mask_from_mod [simp]: "mask_from (k + 4) m bs = mask_from k m bs"
proof (rule nth_equalityI)
  fix i assume i: "i < length (mask_from (k + 4) m bs)"
  have "(k + 4 + i) mod 4 = (k + i) mod 4" by (metis add.assoc add.commute mod_add_self2)
  with i show "mask_from (k + 4) m bs ! i = mask_from k m bs ! i" by (simp add: nth_mask_from)
qed simp

section \<open>The frame of RFC 6455\<close>

definition rfc_length_field :: "bool \<Rightarrow> nat \<Rightarrow> bytes" where
  "rfc_length_field masked n =
     (let m = (if masked then 128 else 0) in
      if n \<le> 125 then [of_nat (m + n)]
      else if n < 65536 then [of_nat (m + 126), of_nat (n div 256), of_nat (n mod 256)]
      else of_nat (m + 127) # map (\<lambda>i. of_nat (n div 256 ^ (7 - i) mod 256)) [0..<8])"

definition rfc_frame :: "bool \<Rightarrow> wic_opcode \<Rightarrow> bytes option \<Rightarrow> bytes \<Rightarrow> bytes" where
  "rfc_frame fin opcode msk payload =
     [of_nat (if fin then 128 else 0) + opcode_to_byte opcode]
     @ rfc_length_field (msk \<noteq> None) (length payload)
     @ (case msk of None \<Rightarrow> payload | Some m \<Rightarrow> m @ mask_from 0 m payload)"

text \<open>The payload of a frame: a close frame starts with its code.\<close>

definition tx_payload :: "wic_tx_frame \<Rightarrow> bytes" where
  "tx_payload f =
     (if f_opcode f = WIC_OPCODE_CLOSE then [u16_hi (f_code f), u16_lo (f_code f)] else [])
     @ span (f_payload f) (f_size f)"

text \<open>The memory holds what the size says, and the payload fits the 16-bit length field.\<close>

definition tx_data_ok :: "wic_tx_frame \<Rightarrow> bool" where
  "tx_data_ok f \<longleftrightarrow>
     \<not> f_rsv1 f \<and> \<not> f_rsv2 f \<and> \<not> f_rsv3 f \<and>
     unat (f_size f) \<le> length (f_payload f) \<and> length (tx_payload f) < 65536"

definition tx_frame_ok :: "wic_tx_frame \<Rightarrow> bool" where
  "tx_frame_ok f \<longleftrightarrow> f_masked f \<and> length (f_mask f) = 4 \<and> tx_data_ok f"

lemma tx_payload_mask [simp]: "tx_payload (f\<lparr>f_masked := b, f_mask := m\<rparr>) = tx_payload f"
  unfolding tx_payload_def by (rule arg_cong2 [where f = append]) simp_all

lemma tx_data_ok_mask [simp]: "tx_data_ok (f\<lparr>f_masked := b, f_mask := m\<rparr>) = tx_data_ok f"
  by (simp add: tx_data_ok_def)

lemma length_u32_bytes [simp]: "length (u32_bytes x) = 4"
  by (simp add: u32_bytes_def)

lemma length_span [simp]: "unat n \<le> length mem \<Longrightarrow> length (span mem n) = unat n"
  by (simp add: span_def)

section \<open>The code writes that frame\<close>

lemma first_byte:
  "(if fin then 0x80 else 0 :: u8) OR opcode_to_byte opc = of_nat (if fin then 128 else 0) + opcode_to_byte opc"
  by (cases opc; cases fin) simp_all

lemma small_length_byte: "n \<le> 125 \<Longrightarrow> (0x80 :: u8) OR of_nat n = of_nat (128 + n)"
proof -
  assume "n \<le> 125"
  moreover have "\<forall>n \<in> set [0..<126]. (0x80 :: u8) OR of_nat n = of_nat (128 + n)" by code_simp
  ultimately show ?thesis by (simp only: set_upt ball_simps) auto
qed

lemma u16_bytes_nat:
  "n < 65536 \<Longrightarrow> u16_hi (of_nat n) = of_nat (n div 256) \<and> u16_lo (of_nat n) = of_nat (n mod 256)"
proof -
  assume n: "n < 65536"
  have w: "unat (of_nat n :: u16) = n" using n by (simp add: unat_of_nat)
  have "unat (u16_hi (of_nat n)) = n div 256 mod 256"
    unfolding u16_hi_def
    by (simp only: unsigned_ucast_eq unat_drop_bit_eq w) (simp add: drop_bit_eq_div take_bit_eq_mod)
  moreover have "unat (u16_lo (of_nat n)) = n mod 256"
    unfolding u16_lo_def by (simp add: unsigned_ucast_eq w take_bit_eq_mod)
  ultimately show ?thesis
    using n by (auto intro!: word_unat_eq_iff [THEN iffD2] simp: unat_of_nat)
qed

lemma rfc_length_field_code:
  "n < 65536 \<Longrightarrow>
   concat (if n \<le> 125 then [[0x80 OR of_nat n]]
           else [[0x80 OR 126], [u16_hi (of_nat n), u16_lo (of_nat n)]]) = rfc_length_field True n"
  by (simp add: rfc_length_field_def small_length_byte u16_bytes_nat)

lemma concat_singletons: "concat (map (\<lambda>i. [f i]) xs) = map f xs"
  by (induction xs) auto

lemma length_tx_payload:
  "unat (f_size f) \<le> length (f_payload f) \<Longrightarrow>
   length (tx_payload f) = unat (f_size f) + (if f_opcode f = WIC_OPCODE_CLOSE then 2 else 0)"
  by (simp add: tx_payload_def)

lemma frame_body:
  assumes "tx_frame_ok f"
  shows "concat (if f_opcode f = WIC_OPCODE_CLOSE then
             [[u16_hi (f_code f) XOR f_mask f ! 0], [u16_lo (f_code f) XOR f_mask f ! 1]]
             @ map (\<lambda>pos. [f_payload f ! pos XOR f_mask f ! ((pos + 2) mod 4)]) [0..<unat (f_size f)]
           else map (\<lambda>pos. [f_payload f ! pos XOR f_mask f ! (pos mod 4)])
             [0..<unat (f_size f) + (if f_opcode f = WIC_OPCODE_CLOSE then 2 else 0)]) =
         mask_from 0 (f_mask f) (tx_payload f)"
proof -
  have fit: "unat (f_size f) \<le> length (f_payload f)" using assms by (simp add: tx_frame_ok_def tx_data_ok_def)
  note m = mask_from_map [OF fit, where m = "f_mask f"]
  show ?thesis
    using m [of 0] m [of 2]
    by (simp add: concat_singletons tx_payload_def span_def numeral_2_eq_2)
qed

lemma concat_frame_puts:
  assumes ok: "tx_frame_ok f"
  shows "concat (frame_puts f) = rfc_frame (f_fin f) (f_opcode f) (Some (f_mask f)) (tx_payload f)"
proof -
  let ?n = "unat (f_size f) + (if f_opcode f = WIC_OPCODE_CLOSE then 2 else 0)"
  have n: "length (tx_payload f) = ?n" "?n < 65536"
    using ok length_tx_payload [of f] by (auto simp: tx_frame_ok_def tx_data_ok_def)
  have bits: "f_masked f" "\<not> f_rsv1 f" "\<not> f_rsv2 f" "\<not> f_rsv3 f" using ok by (simp_all add: tx_frame_ok_def tx_data_ok_def)
  have "(if f_fin f then 0x80 else 0) OR opcode_to_byte (f_opcode f) =
    of_nat (if f_fin f then 128 else 0) + opcode_to_byte (f_opcode f)" by (rule first_byte)
  note parts = this rfc_length_field_code [OF n(2)] frame_body [OF ok, unfolded append_Cons append_Nil]
  show ?thesis
    unfolding frame_puts_def rfc_frame_def Let_def n(1) concat_append
    by (simp only: bits if_True if_False or.left_neutral parts concat.simps append_Nil append_Nil2
        concat_append option.simps option.case not_False_eq_True append_assoc append_Cons simp_thms)
qed

text \<open>The size asked of the application is the size of the frame.\<close>

lemma length_rfc_frame:
  "length m = 4 \<Longrightarrow> length p < 65536 \<Longrightarrow>
   length (rfc_frame fin opcode (Some m) p) =
     6 + length p + (if length p \<le> 125 then 0 else 2)"
  by (simp add: rfc_frame_def rfc_length_field_def Let_def)

text \<open>The size of a masked frame with that payload.\<close>

definition frame_len :: "bytes \<Rightarrow> nat" where
  "frame_len p = 6 + length p + (if length p \<le> 125 then 0 else 2)"

lemma min_frame_size_len:
  "tx_frame_ok f \<Longrightarrow> min_frame_size (f_opcode f) (f_masked f) (f_size f) = frame_len (tx_payload f)"
  using length_tx_payload [of f]
  by (auto simp: tx_frame_ok_def tx_data_ok_def frame_len_def min_frame_size_def Let_def)

lemma min_frame_size_exact:
  "tx_frame_ok f \<Longrightarrow>
   min_frame_size (f_opcode f) (f_masked f) (f_size f) =
   length (rfc_frame (f_fin f) (f_opcode f) (Some (f_mask f)) (tx_payload f))"
  by (simp add: min_frame_size_len frame_len_def) (simp add: tx_frame_ok_def tx_data_ok_def length_rfc_frame)

lemma min_frame_size_less: "min_frame_size opc msk n < 2 ^ 32"
  using u16_less_65536 [of n] by (auto simp del: u16_less_65536 simp add: min_frame_size_def Let_def)

text \<open>What \<open>stream_put_frame\<close> reports depends on the buffer alone; on success the whole frame
  is in the buffer and nothing else.\<close>

lemma stream_put_frame_ok:
  assumes ok: "tx_frame_ok f"
    and buf: "call_buffer h self (min_frame_size (f_opcode f) (f_masked f) (f_size f)) (f_type f) = ((b, mx), self')"
  shows "stream_put_frame h self f = (st, tx, self'') \<Longrightarrow>
    self'' = self' \<and>
    st = (if mx < min_frame_size (f_opcode f) (f_masked f) (f_size f) then WIC_STATUS_TOO_LARGE
          else if b = None then WIC_STATUS_WOULD_BLOCK else WIC_STATUS_SUCCESS) \<and>
    (st = WIC_STATUS_SUCCESS \<longrightarrow>
       st_data tx = rfc_frame (f_fin f) (f_opcode f) (Some (f_mask f)) (tx_payload f))"
proof -
  let ?n = "min_frame_size (f_opcode f) (f_masked f) (f_size f)"
  let ?puts = "stream_put_all (frame_puts f) (stream_init b ?n)"
  have room: "?n mod 2 ^ 32 = ?n" using min_frame_size_less by simp
  have fits: "st_data ?puts = concat (frame_puts f) \<and> \<not> st_error ?puts" if "b = Some m" for m
    using stream_put_all_fit [of "stream_init b ?n" "frame_puts f"]
      that min_frame_size_exact [OF ok] concat_frame_puts [OF ok] room by auto
  assume "stream_put_frame h self f = (st, tx, self'')"
  then show ?thesis
    using fits concat_frame_puts [OF ok]
    by (cases b) (auto simp: stream_put_frame_def buf Let_def stream_error_def split: if_splits)
qed

end
