(* ===== verification/Wic_Send.thy ===== *)
theory Wic_Send
  imports Wic_Frame
begin

text \<open>
  The sending side of \<open>src/wic.c\<close>: \<open>wic_send_binary\<close>, \<open>wic_send_text\<close>, \<open>wic_send\<close>,
  \<open>wic_send_ping\<close>, \<open>send_pong_with_payload\<close>, \<open>close_with_reason\<close> and \<open>wic_close\<close>. A \<open>data\<close>
  argument is the memory from the pointer on, and \<open>size\<close> the 16-bit count the C function
  takes. The locale \<open>link\<close> is what the functions rely on in the application's transport
  handlers, the locale \<open>app_contract\<close> what they rely on in its event handlers, which may
  call back into the interface.
\<close>

section \<open>The code\<close>

text \<open>The designated initialiser of \<open>struct wic_tx_frame\<close>; members left out are zero.\<close>

definition tx_frame :: "bool \<Rightarrow> wic_opcode \<Rightarrow> wic_buffer \<Rightarrow> u16 \<Rightarrow> bytes \<Rightarrow> u16 \<Rightarrow> wic_tx_frame" where
  "tx_frame fin opcode type code payload n =
     \<lparr>f_fin = fin, f_rsv1 = False, f_rsv2 = False, f_rsv3 = False, f_opcode = opcode,
      f_type = type, f_code = code, f_masked = False, f_mask = [0, 0, 0, 0], f_size = n,
      f_payload = payload\<rparr>"

definition allowed_to_send :: "'w wic_inst \<Rightarrow> bool \<times> 'w wic_inst" where
  "allowed_to_send self =
     (let self = (if role self = WIC_ROLE_CLIENT \<and> istate self = WIC_STATE_READY
                  then self\<lparr>istate := WIC_STATE_OPEN\<rparr> else self)
      in (istate self = WIC_STATE_OPEN, self))"

definition wic_send_binary ::
    "'w host \<Rightarrow> 'w wic_inst \<Rightarrow> bool \<Rightarrow> bytes \<Rightarrow> u16 \<Rightarrow> wic_status \<times> 'w wic_inst" where
  "wic_send_binary h self fin data n =
     (let f = tx_frame fin WIC_OPCODE_BINARY WIC_BUFFER_USER 0 data n;
          (ok, self) = allowed_to_send self
      in if ok then
           if frag self = WIC_OPCODE_CONTINUE \<or> frag self = WIC_OPCODE_BINARY then
             let f = f\<lparr>f_opcode := (if frag self = WIC_OPCODE_BINARY then WIC_OPCODE_CONTINUE
                                    else f_opcode f)\<rparr>;
                 (f, self) = init_mask h self f;
                 (retval, tx, self) = stream_put_frame h self f
             in if retval = WIC_STATUS_SUCCESS then
                  let self = self\<lparr>frag := (if fin then WIC_OPCODE_CONTINUE
                                          else WIC_OPCODE_BINARY)\<rparr>
                  in (retval, call_send h self (st_data tx) WIC_BUFFER_USER)
                else (retval, self)
           else (WIC_STATUS_BAD_STATE, self)
         else (WIC_STATUS_NOT_OPEN, self))"

definition wic_send_text ::
    "'w host \<Rightarrow> 'w wic_inst \<Rightarrow> bool \<Rightarrow> bytes \<Rightarrow> u16 \<Rightarrow> wic_status \<times> 'w wic_inst" where
  "wic_send_text h self fin data n =
     (let f = tx_frame fin WIC_OPCODE_TEXT WIC_BUFFER_USER 0 data n;
          (ok, self) = allowed_to_send self
      in if ok then
           if frag self = WIC_OPCODE_CONTINUE \<or> frag self = WIC_OPCODE_TEXT then
             let f = f\<lparr>f_opcode := (if frag self = WIC_OPCODE_TEXT then WIC_OPCODE_CONTINUE
                                    else f_opcode f)\<rparr>;
                 st = utf8_parse_string (if frag self = WIC_OPCODE_CONTINUE then 0 else utf8_tx self)
                        (span data n)
             in if utf8_is_invalid st then (WIC_STATUS_BAD_INPUT, self)
                else if \<not> fin \<or> utf8_is_complete st then
                  let (f, self) = init_mask h self f;
                      (retval, tx, self) = stream_put_frame h self f
                  in if retval = WIC_STATUS_SUCCESS then
                       let self = self\<lparr>utf8_tx := st,
                                       frag := (if fin then WIC_OPCODE_CONTINUE
                                                else WIC_OPCODE_TEXT)\<rparr>
                       in (retval, call_send h self (st_data tx) WIC_BUFFER_USER)
                     else (retval, self)
                else (WIC_STATUS_BAD_INPUT, self)
           else (WIC_STATUS_BAD_STATE, self)
         else (WIC_STATUS_NOT_OPEN, self))"

definition wic_send ::
    "'w host \<Rightarrow> 'w wic_inst \<Rightarrow> wic_encoding \<Rightarrow> bool \<Rightarrow> bytes \<Rightarrow> u16 \<Rightarrow> wic_status \<times> 'w wic_inst" where
  "wic_send h self enc fin data n =
     (if enc = WIC_ENCODING_BINARY then wic_send_binary h self fin data n
      else wic_send_text h self fin data n)"

definition wic_send_ping_with_payload ::
    "'w host \<Rightarrow> 'w wic_inst \<Rightarrow> bytes \<Rightarrow> u16 \<Rightarrow> wic_status \<times> 'w wic_inst" where
  "wic_send_ping_with_payload h self data n =
     (let f = tx_frame True WIC_OPCODE_PING WIC_BUFFER_PING 0 data n;
          (ok, self) = allowed_to_send self
      in if ok then
           let (f, self) = init_mask h self f;
               (retval, tx, self) = stream_put_frame h self f
           in if retval = WIC_STATUS_SUCCESS
              then (retval, call_send h self (st_data tx) WIC_BUFFER_PING)
              else (retval, self)
         else (WIC_STATUS_NOT_OPEN, self))"

definition wic_send_ping :: "'w host \<Rightarrow> 'w wic_inst \<Rightarrow> wic_status \<times> 'w wic_inst" where
  "wic_send_ping h self = wic_send_ping_with_payload h self [] 0"

definition send_pong_with_payload ::
    "'w host \<Rightarrow> 'w wic_inst \<Rightarrow> bytes \<Rightarrow> u16 \<Rightarrow> wic_status \<times> 'w wic_inst" where
  "send_pong_with_payload h self data n =
     (let f = tx_frame True WIC_OPCODE_PONG WIC_BUFFER_PONG 0 data n;
          (ok, self) = allowed_to_send self
      in if ok then
           let (f, self) = init_mask h self f;
               (retval, tx, self) = stream_put_frame h self f
           in if retval = WIC_STATUS_SUCCESS
              then (retval, call_send h self (st_data tx) (f_type f))
              else (retval, self)
         else (WIC_STATUS_NOT_OPEN, self))"

definition close_with_reason ::
    "'w host \<Rightarrow> 'w wic_inst \<Rightarrow> u16 \<Rightarrow> bytes \<Rightarrow> u16 \<Rightarrow> wic_buffer \<Rightarrow> 'w wic_inst" where
  "close_with_reason h self code reason n type =
     (let f = tx_frame True WIC_OPCODE_CLOSE type code reason n
      in case istate self of
           WIC_STATE_INIT \<Rightarrow> self\<lparr>istate := WIC_STATE_CLOSED\<rparr>
         | WIC_STATE_CLOSED \<Rightarrow> self
         | WIC_STATE_PARSE_HANDSHAKE \<Rightarrow>
             (let self = self\<lparr>istate := WIC_STATE_CLOSED\<rparr>;
                  self = call_close_transport h self
              in call_handshake_failure h self
                   (if code = WIC_CLOSE_ABNORMAL_1 then WIC_HANDSHAKE_FAILURE_ABNORMAL_1
                    else if code = WIC_CLOSE_ABNORMAL_2 then WIC_HANDSHAKE_FAILURE_ABNORMAL_2
                    else if code = WIC_CLOSE_TLS then WIC_HANDSHAKE_FAILURE_TLS
                    else WIC_HANDSHAKE_FAILURE_IRRELEVANT))
         | _ \<Rightarrow>
             (let self = self\<lparr>istate := WIC_STATE_CLOSED\<rparr>;
                  f = (if \<not> utf8_is_complete (utf8_parse_string 0 (span reason n))
                       then f\<lparr>f_size := 0, f_payload := []\<rparr> else f);
                  self = (if code = WIC_CLOSE_ABNORMAL_1 \<or> code = WIC_CLOSE_ABNORMAL_2 \<or>
                             code = WIC_CLOSE_TLS then self
                          else
                            let (f, self) = init_mask h self f;
                                (retval, tx, self) = stream_put_frame h self f
                            in if retval = WIC_STATUS_SUCCESS
                               then call_send h self (st_data tx) type else self);
                  self = call_close_transport h self
              in call_close h self code (span reason n)))"

definition wic_close_with_reason ::
    "'w host \<Rightarrow> 'w wic_inst \<Rightarrow> u16 \<Rightarrow> bytes \<Rightarrow> u16 \<Rightarrow> 'w wic_inst" where
  "wic_close_with_reason h self code reason n = close_with_reason h self code reason n WIC_BUFFER_CLOSE"

definition wic_close :: "'w host \<Rightarrow> 'w wic_inst \<Rightarrow> 'w wic_inst" where
  "wic_close h self = wic_close_with_reason h self WIC_CLOSE_NORMAL [] 0"

section \<open>What the interface changes\<close>

text \<open>The life of an instance as the interface and the handlers may move it; only the parser
  and \<open>wic_start\<close> take it from one handshake state to the next.\<close>

definition state_le :: "wic_state \<Rightarrow> wic_state \<Rightarrow> bool" where
  "state_le a b \<longleftrightarrow> a = b \<or> b = WIC_STATE_CLOSED \<or> a = WIC_STATE_READY \<and> b = WIC_STATE_OPEN"

lemma state_le_refl [simp]: "state_le a a"
  by (simp add: state_le_def)

lemma state_le_closed [simp]: "state_le a WIC_STATE_CLOSED"
  by (simp add: state_le_def)

lemma state_le_trans: "state_le a b \<Longrightarrow> state_le b c \<Longrightarrow> state_le a c"
  by (auto simp: state_le_def)

lemma state_le_from_closed [simp]: "state_le WIC_STATE_CLOSED b \<longleftrightarrow> b = WIC_STATE_CLOSED"
  by (auto simp: state_le_def)

lemma state_le_from_open [simp]:
  "state_le WIC_STATE_OPEN b \<longleftrightarrow> b = WIC_STATE_OPEN \<or> b = WIC_STATE_CLOSED"
  by (auto simp: state_le_def)

text \<open>A call into the interface changes only the sending side, the header list and its cursor,
  and what belongs to the application.\<close>

definition api_frame :: "'w wic_inst \<Rightarrow> 'w wic_inst \<Rightarrow> bool" where
  "api_frame s s' \<longleftrightarrow>
     state_le (istate s) (istate s') \<and>
     s' = s\<lparr>istate := istate s', frag := frag s', utf8_tx := utf8_tx s', tx_header := tx_header s',
            ipos := ipos s', app := app s'\<rparr>"

lemma api_frameE:
  assumes "api_frame s s'"
  obtains st fr u th ip a where
    "s' = s\<lparr>istate := st, frag := fr, utf8_tx := u, tx_header := th, ipos := ip, app := a\<rparr>"
    "state_le (istate s) st"
  using assms unfolding api_frame_def by metis

lemma api_frameI:
  "state_le (istate s) st \<Longrightarrow>
   api_frame s (s\<lparr>istate := st, frag := fr, utf8_tx := u, tx_header := th, ipos := ip, app := a\<rparr>)"
  by (simp add: api_frame_def)

lemma api_frame_refl [simp]: "api_frame s s"
  by (simp add: api_frame_def)

lemma api_frame_trans: "api_frame a b \<Longrightarrow> api_frame b c \<Longrightarrow> api_frame a c"
  by (elim api_frameE) (auto simp: api_frame_def intro: state_le_trans)

lemma api_frame_fields:
  assumes "api_frame s s'"
  shows "rx s' = rx s" "role s' = role s" "utf8_rx s' = utf8_rx s" "h_message s' = h_message s"
    "hash s' = hash s" "http s' = http s" "header_state s' = header_state s" "url s' = url s"
    "schema s' = schema s" "port s' = port s" "hostname s' = hostname s"
    "h_open s' = h_open s" "h_close s' = h_close s" "h_send s' = h_send s"
    "state_le (istate s) (istate s')"
  using assms by (auto elim: api_frameE)

lemma api_frame_app [simp]: "api_frame s (s\<lparr>app := a\<rparr>)"
  by (simp add: api_frame_def)

lemma api_frame_istate [simp]: "api_frame s (s\<lparr>istate := st\<rparr>) \<longleftrightarrow> state_le (istate s) st"
  by (simp add: api_frame_def)

section \<open>What the code relies on\<close>

text \<open>The application has a buffer for every request of up to \<open>n\<close> bytes.\<close>

definition lends :: "'w host \<Rightarrow> nat \<Rightarrow> bool" where
  "lends h n \<longleftrightarrow>
     (\<forall>p self k t. k \<le> n \<longrightarrow> fst (fst (run_buffer h p self k t)) \<noteq> None \<and> k \<le> snd (fst (run_buffer h p self k t)))"

text \<open>
  The transport handlers: they are told to send, to lend a buffer, to give a random number, and
  touch nothing of the instance but the application's own state. \<open>wire\<close> is everything handed
  to \<open>on_send\<close> so far, read off the application's state.
\<close>

locale link =
  fixes h :: "'w host" and wire :: "'w \<Rightarrow> bytes"
  assumes send_law: "\<exists>a. run_send h p self d t = self\<lparr>app := a\<rparr> \<and> wire a = wire (app self) @ d"
    and buffer_law: "\<exists>r a. run_buffer h p self n t = (r, self\<lparr>app := a\<rparr>) \<and> wire a = wire (app self)"
    and rand_law: "\<exists>m a. run_rand h p self = (m, self\<lparr>app := a\<rparr>) \<and> wire a = wire (app self)"
begin

lemma call_send_law: "\<exists>a. call_send h self d t = self\<lparr>app := a\<rparr> \<and> wire a = wire (app self) @ d"
  unfolding call_send_def by (rule send_law)

lemma call_buffer_law:
  "\<exists>r a. call_buffer h self n t = (r, self\<lparr>app := a\<rparr>) \<and> wire a = wire (app self)"
  unfolding call_buffer_def by (rule buffer_law)

lemma init_mask_law:
  "\<exists>m a. init_mask h self f = (f\<lparr>f_masked := (role self = WIC_ROLE_CLIENT), f_mask := u32_bytes m\<rparr>, self\<lparr>app := a\<rparr>) \<and>
     wire a = wire (app self)"
proof (cases "h_rand self")
  case None
  then show ?thesis
    by (intro exI [of _ "0xaaaaaaaa"] exI [of _ "app self"]) (simp add: init_mask_def)
next
  case (Some p)
  obtain m a where "run_rand h p self = (m, self\<lparr>app := a\<rparr>)" "wire a = wire (app self)"
    using rand_law by blast
  with Some show ?thesis by (auto simp: init_mask_def)
qed

lemma put_law:
  "\<exists>st tx a. stream_put_frame h self f = (st, tx, self\<lparr>app := a\<rparr>) \<and> wire a = wire (app self) \<and>
     (st = WIC_STATUS_SUCCESS \<or> st = WIC_STATUS_TOO_LARGE \<or> st = WIC_STATUS_WOULD_BLOCK) \<and>
     (tx_frame_ok f \<and> st = WIC_STATUS_SUCCESS \<longrightarrow>
        st_data tx = rfc_frame (f_fin f) (f_opcode f) (Some (f_mask f)) (tx_payload f)) \<and>
     (tx_frame_ok f \<and> lends h (frame_len (tx_payload f)) \<longrightarrow> st = WIC_STATUS_SUCCESS)"
proof -
  obtain b mx a where c: "call_buffer h self (min_frame_size (f_opcode f) (f_masked f) (f_size f)) (f_type f) = ((b, mx), self\<lparr>app := a\<rparr>)"
    "wire a = wire (app self)"
    using call_buffer_law by (metis surj_pair)
  obtain st tx self'' where p: "stream_put_frame h self f = (st, tx, self'')"
    by (metis surj_pair)
  from p have "self'' = self\<lparr>app := a\<rparr>"
    by (auto simp: stream_put_frame_def c Let_def split: if_splits)
  moreover from p have "st = WIC_STATUS_SUCCESS \<or> st = WIC_STATUS_TOO_LARGE \<or> st = WIC_STATUS_WOULD_BLOCK"
    by (auto simp: stream_put_frame_def c Let_def split: if_splits)
  moreover have "st = WIC_STATUS_SUCCESS" if "tx_frame_ok f" "lends h (frame_len (tx_payload f))"
  proof -
    have "b \<noteq> None \<and> frame_len (tx_payload f) \<le> mx"
      using that c(1) unfolding lends_def call_buffer_def min_frame_size_len [OF that(1)]
      by (metis fst_conv order_refl snd_conv)
    then show ?thesis using stream_put_frame_ok [OF that(1) c(1) p] min_frame_size_len [OF that(1)] by auto
  qed
  ultimately show ?thesis
    using p c stream_put_frame_ok [OF _ c(1) p] by auto
qed

text \<open>Masking and writing in one step: the application's state is all that changes, nothing is
  sent yet, and on success of a client the stream holds the frame of the reference.\<close>

lemma emit_law:
  "\<exists>f' s1 st tx a. init_mask h self f = (f', s1) \<and> f_type f' = f_type f \<and>
     stream_put_frame h s1 f' = (st, tx, self\<lparr>app := a\<rparr>) \<and> wire a = wire (app self) \<and>
     (st = WIC_STATUS_SUCCESS \<or> st = WIC_STATUS_TOO_LARGE \<or> st = WIC_STATUS_WOULD_BLOCK) \<and>
     (st = WIC_STATUS_SUCCESS \<and> role self = WIC_ROLE_CLIENT \<and> tx_data_ok f \<longrightarrow>
        (\<exists>m. length m = 4 \<and> st_data tx = rfc_frame (f_fin f) (f_opcode f) (Some m) (tx_payload f))) \<and>
     (role self = WIC_ROLE_CLIENT \<and> tx_data_ok f \<and> lends h (frame_len (tx_payload f)) \<longrightarrow> st = WIC_STATUS_SUCCESS)"
proof -
  obtain m a where i: "init_mask h self f = (f\<lparr>f_masked := (role self = WIC_ROLE_CLIENT), f_mask := u32_bytes m\<rparr>, self\<lparr>app := a\<rparr>)"
    and a: "wire a = wire (app self)" using init_mask_law by blast
  let ?f = "f\<lparr>f_masked := (role self = WIC_ROLE_CLIENT), f_mask := u32_bytes m\<rparr>"
  obtain st tx b where p: "stream_put_frame h (self\<lparr>app := a\<rparr>) ?f = (st, tx, self\<lparr>app := b\<rparr>)"
    and b: "wire b = wire a"
    and st: "st = WIC_STATUS_SUCCESS \<or> st = WIC_STATUS_TOO_LARGE \<or> st = WIC_STATUS_WOULD_BLOCK"
    and ok: "tx_frame_ok ?f \<and> st = WIC_STATUS_SUCCESS \<longrightarrow>
        st_data tx = rfc_frame (f_fin ?f) (f_opcode ?f) (Some (f_mask ?f)) (tx_payload ?f)"
    and l: "tx_frame_ok ?f \<and> lends h (frame_len (tx_payload ?f)) \<longrightarrow> st = WIC_STATUS_SUCCESS"
    using put_law [of "self\<lparr>app := a\<rparr>" ?f] by auto
  have "\<exists>m. length m = 4 \<and> st_data tx = rfc_frame (f_fin f) (f_opcode f) (Some m) (tx_payload f)"
    if "st = WIC_STATUS_SUCCESS" "role self = WIC_ROLE_CLIENT" "tx_data_ok f"
    using ok that by (intro exI [of _ "u32_bytes m"]) (simp add: tx_frame_ok_def)
  moreover have "st = WIC_STATUS_SUCCESS"
    if "role self = WIC_ROLE_CLIENT" "tx_data_ok f" "lends h (frame_len (tx_payload f))"
    using l that by (simp add: tx_frame_ok_def)
  ultimately show ?thesis using i p a b st by auto
qed

text \<open>None of the sending operations changes more than an interface call may.\<close>

lemma call_send_frame: "api_frame self (call_send h self d t)"
  using call_send_law by (metis api_frame_app)

end

lemma allowed_to_send_frame: "api_frame self (snd (allowed_to_send self))"
  by (simp add: allowed_to_send_def state_le_def)

lemma allowed_to_send_cases:
  "(fst (allowed_to_send self) \<longleftrightarrow> istate self = WIC_STATE_OPEN \<or> role self = WIC_ROLE_CLIENT \<and> istate self = WIC_STATE_READY) \<and>
   snd (allowed_to_send self) =
     (if fst (allowed_to_send self) then self\<lparr>istate := WIC_STATE_OPEN\<rparr> else self)"
  by (auto simp: allowed_to_send_def)

lemma tx_frame_simps [simp]:
  "f_fin (tx_frame fin opc t c d n) = fin" "f_opcode (tx_frame fin opc t c d n) = opc"
  "f_type (tx_frame fin opc t c d n) = t" "f_code (tx_frame fin opc t c d n) = c"
  "f_size (tx_frame fin opc t c d n) = n" "f_payload (tx_frame fin opc t c d n) = d"
  by (simp_all add: tx_frame_def)

text \<open>A data, ping or pong frame is well formed as soon as the memory holds what the size says.\<close>

lemma tx_data_ok_data:
  "unat n \<le> length data \<Longrightarrow> opc \<noteq> WIC_OPCODE_CLOSE \<Longrightarrow> opc' \<noteq> WIC_OPCODE_CLOSE \<Longrightarrow>
   tx_data_ok ((tx_frame fin opc t c data n)\<lparr>f_opcode := opc'\<rparr>)"
  by (simp add: tx_data_ok_def tx_frame_def tx_payload_def)

lemma tx_payload_data:
  "opc' \<noteq> WIC_OPCODE_CLOSE \<Longrightarrow> tx_payload ((tx_frame fin opc t c data n)\<lparr>f_opcode := opc'\<rparr>) = span data n"
  by (simp add: tx_payload_def)

section \<open>What each operation does\<close>

text \<open>One more frame is on the wire.\<close>

definition sent_one ::
    "('w \<Rightarrow> bytes) \<Rightarrow> 'w wic_inst \<Rightarrow> 'w wic_inst \<Rightarrow> bool \<Rightarrow> wic_opcode \<Rightarrow> bytes \<Rightarrow> bool" where
  "sent_one wire s s' fin opcode p \<longleftrightarrow>
     (\<exists>m. length m = 4 \<and> wire (app s') = wire (app s) @ rfc_frame fin opcode (Some m) p)"

definition can_send :: "'w wic_inst \<Rightarrow> bool" where
  "can_send self \<longleftrightarrow> istate self = WIC_STATE_OPEN \<or> istate self = WIC_STATE_READY"

text \<open>The outcomes of a frame that was put together: sent in full, or, when the application
  has no buffer for it, nothing sent.\<close>

definition send_outcome ::
    "'w host \<Rightarrow> ('w \<Rightarrow> bytes) \<Rightarrow> 'w wic_inst \<Rightarrow> wic_status \<Rightarrow> 'w wic_inst \<Rightarrow> bool \<Rightarrow> wic_opcode \<Rightarrow> bytes \<Rightarrow> wic_opcode \<Rightarrow> u16 \<Rightarrow> bool" where
  "send_outcome h wire s st s' fin opcode p fr u \<longleftrightarrow>
     (lends h (frame_len p) \<longrightarrow> st = WIC_STATUS_SUCCESS) \<and>
     (if st = WIC_STATUS_SUCCESS then
        sent_one wire s s' fin opcode p \<and>
        s' = s\<lparr>istate := WIC_STATE_OPEN, frag := fr, utf8_tx := u, app := app s'\<rparr>
      else (st = WIC_STATUS_TOO_LARGE \<or> st = WIC_STATUS_WOULD_BLOCK) \<and>
        wire (app s') = wire (app s) \<and> s' = s\<lparr>istate := WIC_STATE_OPEN, app := app s'\<rparr>)"

lemma allowed_to_send_client:
  "role self = WIC_ROLE_CLIENT \<Longrightarrow>
   allowed_to_send self =
     (can_send self, if can_send self then self\<lparr>istate := WIC_STATE_OPEN\<rparr> else self)"
  by (auto simp: allowed_to_send_def can_send_def)

context link
begin

text \<open>The common tail of the sending functions: mask, write, and on success note the new
  fragmentation state and hand the buffer over.\<close>

lemma emit_send:
  assumes c: "role self = WIC_ROLE_CLIENT" and ok: "tx_data_ok f"
    and upd: "\<And>a. upd (self\<lparr>istate := WIC_STATE_OPEN, app := a\<rparr>) =
      self\<lparr>istate := WIC_STATE_OPEN, app := a, frag := fr, utf8_tx := u\<rparr>"
  shows "case (case init_mask h (self\<lparr>istate := WIC_STATE_OPEN\<rparr>) f of (f', s1) \<Rightarrow>
       case stream_put_frame h s1 f' of (retval, tx, s2) \<Rightarrow>
         if retval = WIC_STATUS_SUCCESS then (retval, call_send h (upd s2) (st_data tx) (t f'))
         else (retval, s2)) of
     (st, self') \<Rightarrow> send_outcome h wire self st self' (f_fin f) (f_opcode f) (tx_payload f) fr u"
proof -
  let ?s = "self\<lparr>istate := WIC_STATE_OPEN\<rparr>"
  from emit_law [of ?s f] obtain f' s1 st tx a where e: "init_mask h ?s f = (f', s1)"
      "stream_put_frame h s1 f' = (st, tx, ?s\<lparr>app := a\<rparr>)" "wire a = wire (app ?s)"
      "st = WIC_STATUS_SUCCESS \<or> st = WIC_STATUS_TOO_LARGE \<or> st = WIC_STATUS_WOULD_BLOCK"
      "st = WIC_STATUS_SUCCESS \<and> role ?s = WIC_ROLE_CLIENT \<and> tx_data_ok f \<longrightarrow>
        (\<exists>m. length m = 4 \<and> st_data tx = rfc_frame (f_fin f) (f_opcode f) (Some m) (tx_payload f))"
      "role ?s = WIC_ROLE_CLIENT \<and> tx_data_ok f \<and> lends h (frame_len (tx_payload f)) \<longrightarrow> st = WIC_STATUS_SUCCESS"
    by blast
  obtain b where "call_send h (upd (?s\<lparr>app := a\<rparr>)) (st_data tx) (t f') = (upd (?s\<lparr>app := a\<rparr>))\<lparr>app := b\<rparr>"
    "wire b = wire (app (upd (?s\<lparr>app := a\<rparr>))) @ st_data tx" using call_send_law by blast
  with e c ok upd [of a] show ?thesis by (auto simp: send_outcome_def sent_one_def)
qed

lemma send_binary_client:
  assumes c: "role self = WIC_ROLE_CLIENT" and len: "unat n \<le> length data"
  shows "case wic_send_binary h self fin data n of (st, self') \<Rightarrow>
    if \<not> can_send self then st = WIC_STATUS_NOT_OPEN \<and> self' = self
    else if frag self \<noteq> WIC_OPCODE_CONTINUE \<and> frag self \<noteq> WIC_OPCODE_BINARY
    then st = WIC_STATUS_BAD_STATE \<and> self' = self\<lparr>istate := WIC_STATE_OPEN\<rparr>
    else send_outcome h wire self st self' fin
      (if frag self = WIC_OPCODE_BINARY then WIC_OPCODE_CONTINUE else WIC_OPCODE_BINARY)
      (span data n) (if fin then WIC_OPCODE_CONTINUE else WIC_OPCODE_BINARY) (utf8_tx self)"
proof (cases "can_send self \<and> (frag self = WIC_OPCODE_CONTINUE \<or> frag self = WIC_OPCODE_BINARY)")
  case False
  then show ?thesis
    by (auto simp: wic_send_binary_def allowed_to_send_client [OF c] Let_def)
next
  case True
  define opc where "opc = (if frag self = WIC_OPCODE_BINARY then WIC_OPCODE_CONTINUE else WIC_OPCODE_BINARY)"
  define fr where "fr = (if fin then WIC_OPCODE_CONTINUE else WIC_OPCODE_BINARY)"
  define f where "f = (tx_frame fin WIC_OPCODE_BINARY WIC_BUFFER_USER 0 data n)\<lparr>f_opcode := opc\<rparr>"
  have ok: "tx_data_ok f" "tx_payload f = span data n" "f_fin f = fin" "f_opcode f = opc"
    using len by (auto simp: f_def opc_def intro: tx_data_ok_data tx_payload_data)
  have run: "wic_send_binary h self fin data n =
    (case init_mask h (self\<lparr>istate := WIC_STATE_OPEN\<rparr>) f of (f', s1) \<Rightarrow>
       case stream_put_frame h s1 f' of (retval, tx, s2) \<Rightarrow>
         if retval = WIC_STATUS_SUCCESS
         then (retval, call_send h (s2\<lparr>frag := fr\<rparr>) (st_data tx) WIC_BUFFER_USER)
         else (retval, s2))"
    unfolding wic_send_binary_def allowed_to_send_client [OF c] Let_def f_def fr_def opc_def
    using True by (simp add: Let_def cong: if_cong)
  have out: "case wic_send_binary h self fin data n of (st, self') \<Rightarrow>
      send_outcome h wire self st self' fin opc (span data n) fr (utf8_tx self)"
    unfolding run using emit_send [OF c ok(1), of "\<lambda>s. s\<lparr>frag := fr\<rparr>" "utf8_tx self" fr
      "\<lambda>_. WIC_BUFFER_USER"] by (simp add: ok)
  have "(\<not> can_send self) = False"
    "(frag self \<noteq> WIC_OPCODE_CONTINUE \<and> frag self \<noteq> WIC_OPCODE_BINARY) = False"
    using True by blast+
  then show ?thesis using out by (simp only: if_False opc_def fr_def)
qed

lemma send_text_client:
  assumes c: "role self = WIC_ROLE_CLIENT" and len: "unat n \<le> length data"
  defines "u \<equiv> utf8_parse_string (if frag self = WIC_OPCODE_CONTINUE then 0 else utf8_tx self) (span data n)"
  shows "case wic_send_text h self fin data n of (st, self') \<Rightarrow>
    if \<not> can_send self then st = WIC_STATUS_NOT_OPEN \<and> self' = self
    else if frag self \<noteq> WIC_OPCODE_CONTINUE \<and> frag self \<noteq> WIC_OPCODE_TEXT
    then st = WIC_STATUS_BAD_STATE \<and> self' = self\<lparr>istate := WIC_STATE_OPEN\<rparr>
    else if utf8_is_invalid u \<or> fin \<and> \<not> utf8_is_complete u
    then st = WIC_STATUS_BAD_INPUT \<and> self' = self\<lparr>istate := WIC_STATE_OPEN\<rparr>
    else send_outcome h wire self st self' fin
      (if frag self = WIC_OPCODE_TEXT then WIC_OPCODE_CONTINUE else WIC_OPCODE_TEXT)
      (span data n) (if fin then WIC_OPCODE_CONTINUE else WIC_OPCODE_TEXT) u"
proof (cases "can_send self \<and> (frag self = WIC_OPCODE_CONTINUE \<or> frag self = WIC_OPCODE_TEXT) \<and>
    \<not> (utf8_is_invalid u \<or> fin \<and> \<not> utf8_is_complete u)")
  case False
  then show ?thesis
    by (auto simp: wic_send_text_def allowed_to_send_client [OF c] Let_def u_def)
next
  case True
  define opc where "opc = (if frag self = WIC_OPCODE_TEXT then WIC_OPCODE_CONTINUE else WIC_OPCODE_TEXT)"
  define fr where "fr = (if fin then WIC_OPCODE_CONTINUE else WIC_OPCODE_TEXT)"
  define f where "f = (tx_frame fin WIC_OPCODE_TEXT WIC_BUFFER_USER 0 data n)\<lparr>f_opcode := opc\<rparr>"
  have ok: "tx_data_ok f" "tx_payload f = span data n" "f_fin f = fin" "f_opcode f = opc"
    using len by (auto simp: f_def opc_def intro: tx_data_ok_data tx_payload_data)
  have run: "wic_send_text h self fin data n =
    (case init_mask h (self\<lparr>istate := WIC_STATE_OPEN\<rparr>) f of (f', s1) \<Rightarrow>
       case stream_put_frame h s1 f' of (retval, tx, s2) \<Rightarrow>
         if retval = WIC_STATUS_SUCCESS
         then (retval, call_send h (s2\<lparr>utf8_tx := u, frag := fr\<rparr>) (st_data tx) WIC_BUFFER_USER)
         else (retval, s2))"
    unfolding wic_send_text_def allowed_to_send_client [OF c] Let_def f_def fr_def opc_def
    using True by (simp add: u_def [symmetric] cong: if_cong)
  have out: "case wic_send_text h self fin data n of (st, self') \<Rightarrow>
      send_outcome h wire self st self' fin opc (span data n) fr u"
    unfolding run using emit_send [OF c ok(1), of "\<lambda>s. s\<lparr>utf8_tx := u, frag := fr\<rparr>" "u" fr
      "\<lambda>_. WIC_BUFFER_USER"] by (simp add: ok)
  have "(\<not> can_send self) = False"
    "(frag self \<noteq> WIC_OPCODE_CONTINUE \<and> frag self \<noteq> WIC_OPCODE_TEXT) = False"
    "(utf8_is_invalid u \<or> fin \<and> \<not> utf8_is_complete u) = False"
    using True by blast+
  then show ?thesis using out by (simp only: if_False opc_def fr_def)
qed

text \<open>A control frame goes out between the fragments of a message and leaves them alone.\<close>

lemma send_control_client:
  assumes c: "role self = WIC_ROLE_CLIENT" and len: "unat n \<le> length data"
  shows send_ping_client: "case wic_send_ping_with_payload h self data n of (st, self') \<Rightarrow>
      if \<not> can_send self then st = WIC_STATUS_NOT_OPEN \<and> self' = self
      else send_outcome h wire self st self' True WIC_OPCODE_PING (span data n) (frag self) (utf8_tx self)"
    and send_pong_client: "case send_pong_with_payload h self data n of (st, self') \<Rightarrow>
      if \<not> can_send self then st = WIC_STATUS_NOT_OPEN \<and> self' = self
      else send_outcome h wire self st self' True WIC_OPCODE_PONG (span data n) (frag self) (utf8_tx self)"
proof -
  have run: "tx_data_ok (tx_frame True opc t 0 data n) \<and> tx_payload (tx_frame True opc t 0 data n) = span data n"
    if "opc \<noteq> WIC_OPCODE_CLOSE" for opc t
    using len that by (simp add: tx_data_ok_def tx_frame_def tx_payload_def)
  show "case wic_send_ping_with_payload h self data n of (st, self') \<Rightarrow>
      if \<not> can_send self then st = WIC_STATUS_NOT_OPEN \<and> self' = self
      else send_outcome h wire self st self' True WIC_OPCODE_PING (span data n) (frag self) (utf8_tx self)"
    using run [of WIC_OPCODE_PING WIC_BUFFER_PING] c
      emit_send [of self "tx_frame True WIC_OPCODE_PING WIC_BUFFER_PING 0 data n" "\<lambda>s. s" "utf8_tx self" "frag self" "\<lambda>_. WIC_BUFFER_PING"]
    by (simp add: wic_send_ping_with_payload_def allowed_to_send_client [OF c] Let_def)
  show "case send_pong_with_payload h self data n of (st, self') \<Rightarrow>
      if \<not> can_send self then st = WIC_STATUS_NOT_OPEN \<and> self' = self
      else send_outcome h wire self st self' True WIC_OPCODE_PONG (span data n) (frag self) (utf8_tx self)"
    using run [of WIC_OPCODE_PONG WIC_BUFFER_PONG] c
      emit_send [of self "tx_frame True WIC_OPCODE_PONG WIC_BUFFER_PONG 0 data n" "\<lambda>s. s" "utf8_tx self" "frag self" f_type]
    by (simp add: send_pong_with_payload_def allowed_to_send_client [OF c] Let_def)
qed

text \<open>None of the sending functions changes more than an interface call may, whatever the
  role and the arguments.\<close>

lemma emit_frame:
  assumes upd: "\<And>a. api_frame (s\<lparr>app := a\<rparr>) (upd (s\<lparr>app := a\<rparr>))"
  shows "api_frame s (snd (case init_mask h s f of (f', s1) \<Rightarrow>
       case stream_put_frame h s1 f' of (retval, tx, s2) \<Rightarrow>
         if retval = WIC_STATUS_SUCCESS then (retval, call_send h (upd s2) (st_data tx) (t f'))
         else (retval, s2)))"
proof -
  from emit_law [of s f] obtain f' s1 st tx a where e: "init_mask h s f = (f', s1)"
      "stream_put_frame h s1 f' = (st, tx, s\<lparr>app := a\<rparr>)" by blast
  have "api_frame s (s\<lparr>app := a\<rparr>)" by simp
  then have "api_frame s (call_send h (upd (s\<lparr>app := a\<rparr>)) (st_data tx) (t f'))"
    using upd call_send_frame api_frame_trans by blast
  with e show ?thesis by simp
qed

lemma api_frame_upd:
  "api_frame s (s\<lparr>frag := fr\<rparr>)" "api_frame s (s\<lparr>utf8_tx := u, frag := fr\<rparr>)"
  by (simp_all add: api_frame_def)

lemma after_allowed:
  "api_frame (snd (allowed_to_send self)) s' \<Longrightarrow> api_frame self s'"
  using allowed_to_send_frame api_frame_trans by blast

lemma snd_ifI:
  "(b \<Longrightarrow> api_frame s (snd x)) \<Longrightarrow> (\<not> b \<Longrightarrow> api_frame s (snd y)) \<Longrightarrow> api_frame s (snd (if b then x else y))"
  by simp

lemma sndI: "api_frame s x \<Longrightarrow> api_frame s (snd (a, x))"
  by simp

lemma send_frames [api_frame_rules]:
  "api_frame self (snd (wic_send_binary h self fin data n))"
  "api_frame self (snd (wic_send_text h self fin data n))"
  "api_frame self (snd (wic_send h self enc fin data n))"
  "api_frame self (snd (wic_send_ping_with_payload h self data n))"
  "api_frame self (snd (wic_send_ping h self))"
  "api_frame self (snd (send_pong_with_payload h self data n))"
proof -
  obtain ok s where a: "allowed_to_send self = (ok, s)" by fastforce
  have s: "api_frame s s' \<Longrightarrow> api_frame self s'" for s' using after_allowed [of self s'] a by simp
  note rules = snd_ifI emit_frame api_frame_upd api_frame_refl sndI
  show b: "api_frame self (snd (wic_send_binary h self fin data n))" for fin
    by (rule s, unfold wic_send_binary_def Let_def a prod.case) (intro rules)
  show t: "api_frame self (snd (wic_send_text h self fin data n))" for fin
    by (rule s, unfold wic_send_text_def Let_def a prod.case) (intro rules)
  show "api_frame self (snd (wic_send h self enc fin data n))"
    using b t by (simp add: wic_send_def)
  show p: "api_frame self (snd (wic_send_ping_with_payload h self data n))" for data n
    by (rule s, unfold wic_send_ping_with_payload_def Let_def a prod.case) (intro rules)
  show "api_frame self (snd (wic_send_ping h self))"
    using p by (simp add: wic_send_ping_def)
  show "api_frame self (snd (send_pong_with_payload h self data n))"
    by (rule s, unfold send_pong_with_payload_def Let_def a prod.case) (intro rules)
qed

end

text \<open>
  The event handlers: they may call back into the interface, so they change what it may change;
  and once the instance is closed they send nothing more.
\<close>

locale app_contract = link +
  assumes message_frame: "api_frame self (snd (run_message h p self enc fin d))"
    and open_frame: "api_frame self (run_open h p self)"
    and close_frame: "api_frame self (run_close h p self code reason)"
    and close_transport_frame: "api_frame self (run_close_transport h p self)"
    and failure_frame: "api_frame self (run_handshake_failure h p self why)"
    and ping_frame: "api_frame self (run_ping h p self)"
    and pong_frame: "api_frame self (run_pong h p self)"
    and close_silent: "istate self = WIC_STATE_CLOSED \<Longrightarrow>
      wire (app (run_close h p self code reason)) = wire (app self)"
    and close_transport_silent: "istate self = WIC_STATE_CLOSED \<Longrightarrow>
      wire (app (run_close_transport h p self)) = wire (app self)"
    and failure_silent: "istate self = WIC_STATE_CLOSED \<Longrightarrow>
      wire (app (run_handshake_failure h p self why)) = wire (app self)"
begin

lemma call_frames [api_frame_rules]:
  "api_frame self (snd (call_message h self enc fin d))"
  "api_frame self (call_open h self)"
  "api_frame self (call_close h self code reason)"
  "api_frame self (call_close_transport h self)"
  "api_frame self (call_handshake_failure h self why)"
  "api_frame self (call_ping h self)"
  "api_frame self (call_pong h self)"
  by (simp_all add: call_message_def call_open_def call_close_def call_close_transport_def
      call_handshake_failure_def call_ping_def call_pong_def on_message_def message_frame open_frame
      close_frame close_transport_frame failure_frame ping_frame pong_frame
      split: option.split message_fn.split)

lemma call_silent:
  "istate self = WIC_STATE_CLOSED \<Longrightarrow> wire (app (call_close h self code reason)) = wire (app self)"
  "istate self = WIC_STATE_CLOSED \<Longrightarrow> wire (app (call_close_transport h self)) = wire (app self)"
  "istate self = WIC_STATE_CLOSED \<Longrightarrow> wire (app (call_handshake_failure h self why)) = wire (app self)"
  by (simp_all add: call_close_def call_close_transport_def call_handshake_failure_def
      close_silent close_transport_silent failure_silent split: option.split)

end

section \<open>Closing\<close>

text \<open>The payload of the close frame: the code, and the reason when it is UTF-8.\<close>

definition close_payload :: "u16 \<Rightarrow> bytes \<Rightarrow> bytes" where
  "close_payload code reason =
     [u16_hi code, u16_lo code] @ (if utf8_is_complete (utf8_parse_string 0 reason) then reason else [])"

definition code_written :: "u16 \<Rightarrow> bool" where
  "code_written code \<longleftrightarrow>
     code \<noteq> WIC_CLOSE_ABNORMAL_1 \<and> code \<noteq> WIC_CLOSE_ABNORMAL_2 \<and> code \<noteq> WIC_CLOSE_TLS"

context app_contract
begin

text \<open>The part of a close between the state change and the two handlers.\<close>

lemma close_emit:
  fixes f :: wic_tx_frame
  assumes s: "istate s = WIC_STATE_CLOSED"
  shows "\<exists>a. (case init_mask h s f of (f', s1) \<Rightarrow> case stream_put_frame h s1 f' of (retval, tx, s2) \<Rightarrow>
        if retval = WIC_STATUS_SUCCESS then call_send h s2 (st_data tx) t else s2) = s\<lparr>app := a\<rparr> \<and>
      (role s = WIC_ROLE_CLIENT \<and> tx_data_ok f \<longrightarrow>
        (\<exists>m. length m = 4 \<and> wire a = wire (app s) @ rfc_frame (f_fin f) (f_opcode f) (Some m) (tx_payload f)) \<or>
        \<not> lends h (frame_len (tx_payload f)) \<and> wire a = wire (app s))"
proof -
  from emit_law [of s f] obtain f' s1 st tx a where e: "init_mask h s f = (f', s1)"
      "stream_put_frame h s1 f' = (st, tx, s\<lparr>app := a\<rparr>)" "wire a = wire (app s)"
      "st = WIC_STATUS_SUCCESS \<and> role s = WIC_ROLE_CLIENT \<and> tx_data_ok f \<longrightarrow>
        (\<exists>m. length m = 4 \<and> st_data tx = rfc_frame (f_fin f) (f_opcode f) (Some m) (tx_payload f))"
      "role s = WIC_ROLE_CLIENT \<and> tx_data_ok f \<and> lends h (frame_len (tx_payload f)) \<longrightarrow> st = WIC_STATUS_SUCCESS"
    by blast
  obtain b where b: "call_send h (s\<lparr>app := a\<rparr>) (st_data tx) t = s\<lparr>app := a\<rparr>\<lparr>app := b\<rparr>"
    "wire b = wire (app (s\<lparr>app := a\<rparr>)) @ st_data tx" using call_send_law by blast
  show ?thesis
  proof (cases "st = WIC_STATUS_SUCCESS")
    case True
    with e b show ?thesis by (intro exI [of _ b]) auto
  next
    case False
    with e b show ?thesis by (intro exI [of _ a]) auto
  qed
qed

text \<open>The two handlers that end a close.\<close>

lemma close_tail:
  fixes code :: u16 and reason :: bytes
  assumes s: "istate s = WIC_STATE_CLOSED"
  defines "s' \<equiv> call_close h (call_close_transport h s) code reason"
  shows "istate s' = WIC_STATE_CLOSED" "api_frame s s'" "wire (app s') = wire (app s)"
proof -
  have t: "istate (call_close_transport h s) = WIC_STATE_CLOSED"
    using call_frames(4) [of s] s by (auto elim: api_frameE)
  show f: "api_frame s s'"
    unfolding s'_def using call_frames(3,4) api_frame_trans by blast
  show "istate s' = WIC_STATE_CLOSED" using f s by (auto elim: api_frameE)
  show "wire (app s') = wire (app s)"
    unfolding s'_def using t s by (simp add: call_silent)
qed

lemma closing_handshake:
  fixes why :: wic_handshake_failure
  assumes s: "istate s = WIC_STATE_CLOSED"
  defines "s' \<equiv> call_handshake_failure h (call_close_transport h s) why"
  shows "istate s' = WIC_STATE_CLOSED" "api_frame s s'" "wire (app s') = wire (app s)"
proof -
  have t: "istate (call_close_transport h s) = WIC_STATE_CLOSED"
    using call_frames(4) [of s] s by (auto elim: api_frameE)
  show f: "api_frame s s'"
    unfolding s'_def using call_frames(4,5) api_frame_trans by blast
  show "istate s' = WIC_STATE_CLOSED" using f s by (auto elim: api_frameE)
  show "wire (app s') = wire (app s)"
    unfolding s'_def using t s by (simp add: call_silent)
qed

text \<open>An open instance: the state first, then the frame, then the handlers.\<close>

lemma close_open:
  assumes o: "can_send self"
  obtains s where "close_with_reason h self code reason n type =
      call_close h (call_close_transport h s) code (span reason n)"
    "istate s = WIC_STATE_CLOSED" "s = self\<lparr>istate := WIC_STATE_CLOSED, app := app s\<rparr>"
    "\<not> code_written code \<Longrightarrow> app s = app self"
    "role self = WIC_ROLE_CLIENT \<Longrightarrow> unat n \<le> length reason \<Longrightarrow> unat n \<le> 65533 \<Longrightarrow> code_written code \<Longrightarrow>
     sent_one wire self s True WIC_OPCODE_CLOSE (close_payload code (span reason n)) \<or>
     \<not> lends h (frame_len (close_payload code (span reason n))) \<and> wire (app s) = wire (app self)"
proof -
  let ?c = "self\<lparr>istate := WIC_STATE_CLOSED\<rparr>"
  define f where "f = (if \<not> utf8_is_complete (utf8_parse_string 0 (span reason n))
     then tx_frame True WIC_OPCODE_CLOSE type code [] 0 else tx_frame True WIC_OPCODE_CLOSE type code reason n)"
  have f: "f = (if \<not> utf8_is_complete (utf8_parse_string 0 (span reason n))
     then (tx_frame True WIC_OPCODE_CLOSE type code reason n)\<lparr>f_size := 0, f_payload := []\<rparr>
     else tx_frame True WIC_OPCODE_CLOSE type code reason n)"
    by (simp add: f_def tx_frame_def)
  have p: "tx_payload f = close_payload code (span reason n)"
    by (simp add: f_def tx_payload_def close_payload_def span_def)
  obtain a where a: "(case init_mask h ?c f of (f', s1) \<Rightarrow> case stream_put_frame h s1 f' of (retval, tx, s2) \<Rightarrow>
        if retval = WIC_STATUS_SUCCESS then call_send h s2 (st_data tx) type else s2) = ?c\<lparr>app := a\<rparr>"
      "role ?c = WIC_ROLE_CLIENT \<and> tx_data_ok f \<longrightarrow>
        (\<exists>m. length m = 4 \<and> wire a = wire (app ?c) @ rfc_frame (f_fin f) (f_opcode f) (Some m) (tx_payload f)) \<or>
        \<not> lends h (frame_len (tx_payload f)) \<and> wire a = wire (app ?c)"
    using close_emit [of ?c type f] by auto
  define s where "s = (if code_written code then ?c\<lparr>app := a\<rparr> else ?c)"
  have "close_with_reason h self code reason n type =
      call_close h (call_close_transport h s) code (span reason n)"
    using o unfolding can_send_def close_with_reason_def Let_def f [symmetric] s_def code_written_def a(1) [symmetric]
    by (auto simp: disj_commute)
  moreover have "sent_one wire self s True WIC_OPCODE_CLOSE (close_payload code (span reason n)) \<or>
     \<not> lends h (frame_len (close_payload code (span reason n))) \<and> wire (app s) = wire (app self)"
    if "role self = WIC_ROLE_CLIENT" "unat n \<le> length reason" "unat n \<le> 65533" "code_written code"
  proof -
    have "tx_data_ok f" using that by (simp add: tx_data_ok_def p close_payload_def) (simp add: f_def tx_frame_def)
    moreover have "f_fin f" "f_opcode f = WIC_OPCODE_CLOSE" by (simp_all add: f_def)
    ultimately show ?thesis using a(2) that p by (simp add: s_def sent_one_def)
  qed
  moreover have "istate s = WIC_STATE_CLOSED" "s = self\<lparr>istate := WIC_STATE_CLOSED, app := app s\<rparr>"
    "\<not> code_written code \<Longrightarrow> app s = app self" by (simp_all add: s_def)
  ultimately show ?thesis using that [of s] by blast
qed

lemma close_closed: "istate self = WIC_STATE_CLOSED \<Longrightarrow> close_with_reason h self code reason n type = self"
  by (simp add: close_with_reason_def Let_def)

lemma close_before_open:
  "istate self = WIC_STATE_INIT \<Longrightarrow>
   close_with_reason h self code reason n type = self\<lparr>istate := WIC_STATE_CLOSED\<rparr>"
  "istate self = WIC_STATE_PARSE_HANDSHAKE \<Longrightarrow>
   \<exists>why. close_with_reason h self code reason n type =
     call_handshake_failure h (call_close_transport h (self\<lparr>istate := WIC_STATE_CLOSED\<rparr>)) why"
  by (auto simp: close_with_reason_def Let_def)

lemma can_send_close:
  assumes "can_send self"
  shows "istate (close_with_reason h self code reason n type) = WIC_STATE_CLOSED"
    and "api_frame self (close_with_reason h self code reason n type)"
proof -
  obtain s where s: "close_with_reason h self code reason n type =
      call_close h (call_close_transport h s) code (span reason n)"
    "istate s = WIC_STATE_CLOSED" "s = self\<lparr>istate := WIC_STATE_CLOSED, app := app s\<rparr>"
    using close_open [OF assms] by metis
  then have "api_frame self s" by (metis api_frame_app api_frame_istate api_frame_trans state_le_closed)
  with close_tail(1,2) [OF s(2), of code "span reason n"] s(1) api_frame_trans
  show "istate (close_with_reason h self code reason n type) = WIC_STATE_CLOSED"
    "api_frame self (close_with_reason h self code reason n type)" by metis+
qed

lemma close_law [api_frame_rules]:
  "istate (close_with_reason h self code reason n type) = WIC_STATE_CLOSED"
  "api_frame self (close_with_reason h self code reason n type)"
proof -
  have "istate (close_with_reason h self code reason n type) = WIC_STATE_CLOSED \<and>
    api_frame self (close_with_reason h self code reason n type)"
  proof (cases "istate self")
    case WIC_STATE_INIT
    then show ?thesis by (simp add: close_before_open)
  next
    case WIC_STATE_PARSE_HANDSHAKE
    then obtain why where e: "close_with_reason h self code reason n type =
     call_handshake_failure h (call_close_transport h (self\<lparr>istate := WIC_STATE_CLOSED\<rparr>)) why"
      using close_before_open(2) by blast
    have "api_frame self (self\<lparr>istate := WIC_STATE_CLOSED\<rparr>)" by simp
    from api_frame_trans [OF this] closing_handshake(1,2) [of "self\<lparr>istate := WIC_STATE_CLOSED\<rparr>" why]
    show ?thesis unfolding e by simp
  next
    case WIC_STATE_CLOSED
    then show ?thesis by (simp add: close_closed)
  qed (use can_send_close in \<open>simp_all add: can_send_def\<close>)
  then show "istate (close_with_reason h self code reason n type) = WIC_STATE_CLOSED"
    "api_frame self (close_with_reason h self code reason n type)" by blast+
qed

text \<open>What a close puts on the wire.\<close>

lemma close_wire:
  fixes code :: u16 and type :: wic_buffer
  assumes c: "role self = WIC_ROLE_CLIENT" and len: "unat n \<le> length reason" "unat n \<le> 65533"
  defines "s' \<equiv> close_with_reason h self code reason n type"
    and "p \<equiv> close_payload code (span reason n)"
  shows "if can_send self \<and> code_written code
    then sent_one wire self s' True WIC_OPCODE_CLOSE p \<or> \<not> lends h (frame_len p) \<and> wire (app s') = wire (app self)
    else wire (app s') = wire (app self)"
proof (cases "can_send self")
  case True
  show ?thesis
    by (rule close_open [OF True, of code reason n type])
      (use close_tail c len True in \<open>auto simp: s'_def p_def sent_one_def\<close>)
next
  case False
  then consider "istate self = WIC_STATE_INIT" | "istate self = WIC_STATE_PARSE_HANDSHAKE"
    | "istate self = WIC_STATE_CLOSED" unfolding can_send_def by (cases "istate self") auto
  then have "wire (app s') = wire (app self)"
  proof cases
    case 2
    then obtain why where e: "s' = call_handshake_failure h (call_close_transport h (self\<lparr>istate := WIC_STATE_CLOSED\<rparr>)) why"
      unfolding s'_def using close_before_open(2) by blast
    then show ?thesis using closing_handshake(3) [of "self\<lparr>istate := WIC_STATE_CLOSED\<rparr>" why] by simp
  qed (simp_all add: s'_def close_before_open close_closed)
  with False show ?thesis by simp
qed

end

end
