(* ===== verification/Wic_Receive.thy ===== *)
theory Wic_Receive
  imports Wic_Send
begin

text \<open>
  The receiving side of \<open>src/wic.c\<close>: the static functions \<open>parse_opcode\<close>, \<open>parse_size\<close>,
  \<open>parse_extended_size\<close>, \<open>parse_mask\<close> and \<open>parse_data\<close>, and the loop of \<open>wic_parse\<close> that
  drives them. Each function takes the instance and the input stream and returns \<open>blocked\<close>
  with both as it leaves them. The loop is \<open>ws_loop\<close>; \<open>None\<close> is a loop that does not end.
\<close>

section \<open>The code\<close>

abbreviation set_rx :: "(wic_rx_frame \<Rightarrow> wic_rx_frame) \<Rightarrow> 'w wic_inst \<Rightarrow> 'w wic_inst" where
  "set_rx f self \<equiv> self\<lparr>rx := f (rx self)\<rparr>"

definition set_rx_stream :: "wic_stream \<Rightarrow> 'w wic_inst \<Rightarrow> 'w wic_inst" where
  "set_rx_stream s self = set_rx (\<lambda>r. r\<lparr>rx_s := s\<rparr>) self"

definition parse_opcode ::
    "'w host \<Rightarrow> 'w wic_inst \<Rightarrow> wic_stream \<Rightarrow> bool \<times> 'w wic_inst \<times> wic_stream" where
  "parse_opcode h self s =
     (case stream_get_u8 s of
        (None, s) \<Rightarrow> (True, self, s)
      | (Some b, s) \<Rightarrow>
          let self = set_rx_stream (stream_rewind (rx_s (rx self))) self;
              self = set_rx (\<lambda>r. r\<lparr>rx_fin := (b AND 0x80 \<noteq> 0), rx_rsv1 := (b AND 0x40 \<noteq> 0),
                                  rx_rsv2 := (b AND 0x20 \<noteq> 0), rx_rsv3 := (b AND 0x10 \<noteq> 0),
                                  rx_utf8 := 0\<rparr>) self
          in if rx_rsv1 (rx self) \<or> rx_rsv2 (rx self) \<or> rx_rsv3 (rx self) then
               (False, close_with_reason h self WIC_CLOSE_PROTOCOL_ERROR [] 0 WIC_BUFFER_CLOSE, s)
             else
               let self = set_rx (\<lambda>r. r\<lparr>rx_opcode := byte_to_opcode b\<rparr>) self;
                   self =
                     (case rx_opcode (rx self) of
                        WIC_OPCODE_CONTINUE \<Rightarrow>
                          if rx_frag (rx self) = WIC_OPCODE_CONTINUE
                          then close_with_reason h self WIC_CLOSE_PROTOCOL_ERROR [] 0 WIC_BUFFER_CLOSE
                          else set_rx (\<lambda>r. r\<lparr>rx_utf8 := utf8_rx self\<rparr>) self
                      | WIC_OPCODE_TEXT \<Rightarrow>
                          if rx_frag (rx self) \<noteq> WIC_OPCODE_CONTINUE
                          then close_with_reason h self WIC_CLOSE_PROTOCOL_ERROR [] 0 WIC_BUFFER_CLOSE
                          else self
                      | WIC_OPCODE_BINARY \<Rightarrow>
                          if rx_frag (rx self) \<noteq> WIC_OPCODE_CONTINUE
                          then close_with_reason h self WIC_CLOSE_PROTOCOL_ERROR [] 0 WIC_BUFFER_CLOSE
                          else self
                      | WIC_OPCODE_CLOSE \<Rightarrow>
                          if \<not> rx_fin (rx self)
                          then close_with_reason h self WIC_CLOSE_PROTOCOL_ERROR [] 0 WIC_BUFFER_CLOSE
                          else self
                      | WIC_OPCODE_PING \<Rightarrow>
                          if \<not> rx_fin (rx self)
                          then close_with_reason h self WIC_CLOSE_PROTOCOL_ERROR [] 0 WIC_BUFFER_CLOSE
                          else self
                      | WIC_OPCODE_PONG \<Rightarrow>
                          if \<not> rx_fin (rx self)
                          then close_with_reason h self WIC_CLOSE_PROTOCOL_ERROR [] 0 WIC_BUFFER_CLOSE
                          else self
                      | _ \<Rightarrow>
                          close_with_reason h self WIC_CLOSE_PROTOCOL_ERROR [] 0 WIC_BUFFER_CLOSE)
               in (False, set_rx (\<lambda>r. r\<lparr>rx_state := WIC_RX_STATE_SIZE\<rparr>) self, s))"

definition data_or_mask :: "wic_rx_frame \<Rightarrow> wic_rx_state" where
  "data_or_mask r = (if rx_masked r then WIC_RX_STATE_MASK_0 else WIC_RX_STATE_DATA)"

definition parse_size ::
    "'w host \<Rightarrow> 'w wic_inst \<Rightarrow> wic_stream \<Rightarrow> bool \<times> 'w wic_inst \<times> wic_stream" where
  "parse_size h self s =
     (case stream_get_u8 s of
        (None, s) \<Rightarrow> (True, self, s)
      | (Some b, s) \<Rightarrow>
          let self = set_rx (\<lambda>r. r\<lparr>rx_masked := (b AND 0x80 \<noteq> 0), rx_size := ucast (b AND 0x7f)\<rparr>) self;
              self =
                (case rx_opcode (rx self) of
                   WIC_OPCODE_CLOSE \<Rightarrow>
                     if rx_size (rx self) > 125 \<or> rx_size (rx self) = 1
                     then close_with_reason h self WIC_CLOSE_PROTOCOL_ERROR [] 0 WIC_BUFFER_CLOSE
                     else if rx_size (rx self) = 0
                     then close_with_reason h self WIC_CLOSE_NORMAL [] 0 WIC_BUFFER_CLOSE
                     else if unat (rx_size (rx self)) > stream_max (rx_s (rx self))
                     then close_with_reason h self WIC_CLOSE_TOO_BIG [] 0 WIC_BUFFER_CLOSE
                     else self
                 | WIC_OPCODE_PING \<Rightarrow>
                     if rx_size (rx self) > 125
                     then close_with_reason h self WIC_CLOSE_PROTOCOL_ERROR [] 0 WIC_BUFFER_CLOSE
                     else if unat (rx_size (rx self)) > stream_max (rx_s (rx self))
                     then close_with_reason h self WIC_CLOSE_TOO_BIG [] 0 WIC_BUFFER_CLOSE
                     else self
                 | WIC_OPCODE_PONG \<Rightarrow>
                     if rx_size (rx self) > 125
                     then close_with_reason h self WIC_CLOSE_PROTOCOL_ERROR [] 0 WIC_BUFFER_CLOSE
                     else if unat (rx_size (rx self)) > stream_max (rx_s (rx self))
                     then close_with_reason h self WIC_CLOSE_TOO_BIG [] 0 WIC_BUFFER_CLOSE
                     else self
                 | _ \<Rightarrow> self);
              self =
                (if rx_size (rx self) = 127
                 then set_rx (\<lambda>r. r\<lparr>rx_state := WIC_RX_STATE_SIZE_2, rx_size := 0\<rparr>) self
                 else if rx_size (rx self) = 126
                 then set_rx (\<lambda>r. r\<lparr>rx_state := WIC_RX_STATE_SIZE_0, rx_size := 0\<rparr>) self
                 else set_rx (\<lambda>r. r\<lparr>rx_state := data_or_mask r\<rparr>) self)
          in (False, self, s))"

fun next_size_state :: "wic_rx_frame \<Rightarrow> wic_rx_state \<Rightarrow> wic_rx_state" where
  "next_size_state r WIC_RX_STATE_SIZE_2 = WIC_RX_STATE_SIZE_3"
| "next_size_state r WIC_RX_STATE_SIZE_3 = WIC_RX_STATE_SIZE_4"
| "next_size_state r WIC_RX_STATE_SIZE_4 = WIC_RX_STATE_SIZE_5"
| "next_size_state r WIC_RX_STATE_SIZE_5 = WIC_RX_STATE_SIZE_6"
| "next_size_state r WIC_RX_STATE_SIZE_6 = WIC_RX_STATE_SIZE_7"
| "next_size_state r WIC_RX_STATE_SIZE_7 = WIC_RX_STATE_SIZE_8"
| "next_size_state r WIC_RX_STATE_SIZE_8 = WIC_RX_STATE_SIZE_9"
| "next_size_state r WIC_RX_STATE_SIZE_1 = data_or_mask r"
| "next_size_state r WIC_RX_STATE_SIZE_9 = data_or_mask r"
| "next_size_state r _ = WIC_RX_STATE_SIZE_1"

definition parse_extended_size ::
    "'w wic_inst \<Rightarrow> wic_stream \<Rightarrow> bool \<times> 'w wic_inst \<times> wic_stream" where
  "parse_extended_size self s =
     (case stream_get_u8 s of
        (None, s) \<Rightarrow> (True, self, s)
      | (Some b, s) \<Rightarrow>
          let self = set_rx (\<lambda>r. r\<lparr>rx_size := push_bit 8 (rx_size r)\<rparr>) self;
              self = set_rx (\<lambda>r. r\<lparr>rx_size := rx_size r OR ucast b\<rparr>) self
          in (False, set_rx (\<lambda>r. r\<lparr>rx_state := next_size_state r (rx_state r)\<rparr>) self, s))"

fun mask_index :: "wic_rx_state \<Rightarrow> nat" where
  "mask_index WIC_RX_STATE_MASK_1 = 1"
| "mask_index WIC_RX_STATE_MASK_2 = 2"
| "mask_index WIC_RX_STATE_MASK_3 = 3"
| "mask_index _ = 0"

fun next_mask_state :: "wic_rx_state \<Rightarrow> wic_rx_state" where
  "next_mask_state WIC_RX_STATE_MASK_1 = WIC_RX_STATE_MASK_2"
| "next_mask_state WIC_RX_STATE_MASK_2 = WIC_RX_STATE_MASK_3"
| "next_mask_state WIC_RX_STATE_MASK_3 = WIC_RX_STATE_DATA"
| "next_mask_state _ = WIC_RX_STATE_MASK_1"

definition parse_mask ::
    "'w wic_inst \<Rightarrow> wic_stream \<Rightarrow> bool \<times> 'w wic_inst \<times> wic_stream" where
  "parse_mask self s =
     (case stream_get_u8 s of
        (None, s) \<Rightarrow> (True, self, s)
      | (Some b, s) \<Rightarrow>
          let self = set_rx (\<lambda>r. r\<lparr>rx_mask := (rx_mask r)[mask_index (rx_state r) := b]\<rparr>) self
          in (False, set_rx (\<lambda>r. r\<lparr>rx_state := next_mask_state (rx_state r)\<rparr>) self, s))"

text \<open>The kind of message a data frame belongs to: a continuation frame has the kind of the
  frame it continues.\<close>

definition rx_kind :: "wic_rx_frame \<Rightarrow> wic_opcode" where
  "rx_kind r = (if rx_opcode r = WIC_OPCODE_CONTINUE then rx_frag r else rx_opcode r)"

text \<open>The arguments \<open>rx.s.read\<close> and \<open>rx.s.pos\<close>; the size parameter is 16 bits wide.\<close>

definition rx_data :: "wic_rx_frame \<Rightarrow> bytes" where
  "rx_data r = span (st_buf (rx_s r)) (of_nat (st_pos (rx_s r)))"

text \<open>The three parts of \<open>parse_data\<close>: no room left, one more byte, and the end of the frame.\<close>

definition data_flush :: "'w host \<Rightarrow> 'w wic_inst \<Rightarrow> bool \<times> 'w wic_inst" where
  "data_flush h self =
     (let (blocked, self) =
            (case rx_kind (rx self) of
               WIC_OPCODE_TEXT \<Rightarrow>
                 (let (ok, self) = call_message h self WIC_ENCODING_UTF8 False (rx_data (rx self))
                  in (\<not> ok, self))
             | WIC_OPCODE_BINARY \<Rightarrow>
                 (let (ok, self) = call_message h self WIC_ENCODING_BINARY False (rx_data (rx self))
                  in (\<not> ok, self))
             | _ \<Rightarrow> (False, self))
      in (blocked, if \<not> blocked then set_rx_stream (stream_rewind (rx_s (rx self))) self else self))"

definition data_byte :: "'w host \<Rightarrow> 'w wic_inst \<Rightarrow> u8 \<Rightarrow> 'w wic_inst" where
  "data_byte h self b =
     (let self = set_rx (\<lambda>r. r\<lparr>rx_size := rx_size r - 1\<rparr>) self;
          (b, rs) = (if rx_masked (rx self) then
                       let (u, _, rs) = stream_put_u8_masked (rx_s (rx self)) b (rx_mask (rx self))
                       in (u, rs)
                     else (b, snd (stream_put_u8 (rx_s (rx self)) b)));
          self = set_rx_stream rs self
      in case rx_kind (rx self) of
           WIC_OPCODE_TEXT \<Rightarrow>
             (let self = set_rx (\<lambda>r. r\<lparr>rx_utf8 := utf8_parse (rx_utf8 r) b\<rparr>) self
              in if utf8_is_invalid (rx_utf8 (rx self))
                 then close_with_reason h self WIC_CLOSE_INVALID_DATA [] 0 WIC_BUFFER_CLOSE else self)
         | WIC_OPCODE_CLOSE \<Rightarrow>
             (if stream_pos (rx_s (rx self)) > 2 then
                let self = set_rx (\<lambda>r. r\<lparr>rx_utf8 := utf8_parse (rx_utf8 r) b\<rparr>) self
                in if utf8_is_invalid (rx_utf8 (rx self))
                   then close_with_reason h self WIC_CLOSE_INVALID_DATA [] 0 WIC_BUFFER_CLOSE_RESPONSE
                   else self
              else self)
         | _ \<Rightarrow> self)"

definition known_close_code :: "u16 \<Rightarrow> bool" where
  "known_close_code code \<longleftrightarrow>
     code = WIC_CLOSE_NORMAL \<or> code = WIC_CLOSE_GOING_AWAY \<or> code = WIC_CLOSE_PROTOCOL_ERROR \<or>
     code = WIC_CLOSE_UNSUPPORTED \<or> code = WIC_CLOSE_INVALID_DATA \<or> code = WIC_CLOSE_POLICY \<or>
     code = WIC_CLOSE_TOO_BIG \<or> code = WIC_CLOSE_EXTENSION_REQUIRED \<or>
     code = WIC_CLOSE_UNEXPECTED_EXCEPTION"

definition close_response :: "'w host \<Rightarrow> 'w wic_inst \<Rightarrow> 'w wic_inst" where
  "close_response h self =
     (let m = st_buf (rx_s (rx self));
          code = u16_join (m ! 0) (m ! 1)
      in if known_close_code code then
           if utf8_is_complete (rx_utf8 (rx self))
           then close_with_reason h self code (drop 2 m) (of_nat (st_pos (rx_s (rx self)) - 2))
                  WIC_BUFFER_CLOSE_RESPONSE
           else close_with_reason h self WIC_CLOSE_PROTOCOL_ERROR [] 0 WIC_BUFFER_CLOSE_RESPONSE
         else if code \<ge> 3000 \<and> code \<le> 3999
         then close_with_reason h self WIC_CLOSE_NORMAL [] 0 WIC_BUFFER_CLOSE_RESPONSE
         else if code \<ge> 4000 \<and> code \<le> 4999
         then close_with_reason h self WIC_CLOSE_NORMAL [] 0 WIC_BUFFER_CLOSE_RESPONSE
         else close_with_reason h self WIC_CLOSE_PROTOCOL_ERROR [] 0 WIC_BUFFER_CLOSE_RESPONSE)"

definition data_finish :: "'w host \<Rightarrow> bool \<Rightarrow> 'w wic_inst \<Rightarrow> bool \<times> 'w wic_inst" where
  "data_finish h blocked self =
     (let opcode = rx_kind (rx self);
          (blocked, self) =
            (case opcode of
               WIC_OPCODE_TEXT \<Rightarrow>
                 if \<not> rx_fin (rx self) then
                   let (ok, self) = call_message h self WIC_ENCODING_UTF8 (rx_fin (rx self)) (rx_data (rx self))
                   in if ok then (blocked, (set_rx (\<lambda>r. r\<lparr>rx_frag := opcode\<rparr>) self)\<lparr>utf8_rx := rx_utf8 (rx self)\<rparr>)
                      else (True, self)
                 else if utf8_is_complete (rx_utf8 (rx self)) then
                   let (ok, self) = call_message h self WIC_ENCODING_UTF8 (rx_fin (rx self)) (rx_data (rx self))
                   in if ok then (blocked, set_rx (\<lambda>r. r\<lparr>rx_frag := WIC_OPCODE_CONTINUE\<rparr>) self)
                      else (True, self)
                 else (blocked, close_with_reason h self WIC_CLOSE_INVALID_DATA [] 0 WIC_BUFFER_CLOSE)
             | WIC_OPCODE_BINARY \<Rightarrow>
                 (let (ok, self) = call_message h self WIC_ENCODING_BINARY (rx_fin (rx self)) (rx_data (rx self))
                  in if ok then (blocked, set_rx (\<lambda>r. r\<lparr>rx_frag := if rx_fin r then WIC_OPCODE_CONTINUE else opcode\<rparr>) self)
                     else (True, self))
             | WIC_OPCODE_CLOSE \<Rightarrow> (blocked, close_response h self)
             | WIC_OPCODE_PING \<Rightarrow>
                 (let (st, self) = send_pong_with_payload h self (st_buf (rx_s (rx self))) (of_nat (st_pos (rx_s (rx self))))
                  in if st = WIC_STATUS_WOULD_BLOCK then (True, self) else (blocked, call_ping h self))
             | WIC_OPCODE_PONG \<Rightarrow> (blocked, call_pong h self)
             | _ \<Rightarrow> (blocked, self))
      in (blocked, if \<not> blocked then set_rx (\<lambda>r. r\<lparr>rx_state := WIC_RX_STATE_OPCODE\<rparr>) self else self))"

definition parse_data ::
    "'w host \<Rightarrow> 'w wic_inst \<Rightarrow> wic_stream \<Rightarrow> bool \<times> 'w wic_inst \<times> wic_stream" where
  "parse_data h self s =
     (let (blocked, self, s) =
            (if rx_size (rx self) > 0 then
               if stream_eof (rx_s (rx self)) then
                 let (blocked, self) = data_flush h self in (blocked, self, s)
               else
                 case stream_get_u8 s of
                   (Some b, s) \<Rightarrow> (False, data_byte h self b, s)
                 | (None, s) \<Rightarrow> (True, self, s)
             else (False, self, s))
      in if istate self = WIC_STATE_OPEN \<and> rx_size (rx self) = 0 then
           let (blocked, self) = data_finish h blocked self in (blocked, self, s)
         else (blocked, self, s))"

text \<open>The two switches of the loop body, then the loop.\<close>

definition parse_head ::
    "'w host \<Rightarrow> 'w wic_inst \<Rightarrow> wic_stream \<Rightarrow> bool \<times> 'w wic_inst \<times> wic_stream" where
  "parse_head h self s =
     (case rx_state (rx self) of
        WIC_RX_STATE_OPCODE \<Rightarrow> parse_opcode h self s
      | WIC_RX_STATE_SIZE \<Rightarrow> parse_size h self s
      | WIC_RX_STATE_MASK_0 \<Rightarrow> parse_mask self s
      | WIC_RX_STATE_MASK_1 \<Rightarrow> parse_mask self s
      | WIC_RX_STATE_MASK_2 \<Rightarrow> parse_mask self s
      | WIC_RX_STATE_MASK_3 \<Rightarrow> parse_mask self s
      | WIC_RX_STATE_DATA \<Rightarrow> (False, self, s)
      | _ \<Rightarrow> parse_extended_size self s)"

definition ws_step ::
    "'w host \<Rightarrow> 'w wic_inst \<Rightarrow> wic_stream \<Rightarrow> bool \<times> 'w wic_inst \<times> wic_stream" where
  "ws_step h self s =
     (let (blocked, self, s) = parse_head h self s
      in if rx_state (rx self) = WIC_RX_STATE_DATA then parse_data h self s
         else (blocked, self, s))"

partial_function (option) ws_loop ::
    "'w host \<Rightarrow> 'w wic_inst \<Rightarrow> wic_stream \<Rightarrow> ('w wic_inst \<times> wic_stream) option" where
  "ws_loop h self s =
     (case ws_step h self s of (blocked, self', s') \<Rightarrow>
        if \<not> blocked \<and> istate self' = WIC_STATE_OPEN then ws_loop h self' s' else Some (self', s'))"

text \<open>The byte as it is stored, and the receive frame with it.\<close>

definition rx_put :: "wic_rx_frame \<Rightarrow> u8 \<Rightarrow> wic_rx_frame" where
  "rx_put r b =
     (let c = (if rx_masked r then b XOR rx_mask r ! (st_pos (rx_s r) mod 4) else b);
          r = r\<lparr>rx_size := rx_size r - 1, rx_s := snd (stream_write (rx_s r) [c])\<rparr>
      in if rx_kind r = WIC_OPCODE_TEXT \<or> rx_kind r = WIC_OPCODE_CLOSE \<and> st_pos (rx_s r) > 2
         then r\<lparr>rx_utf8 := utf8_parse (rx_utf8 r) c\<rparr> else r)"

lemma rx_kind_upd [simp]:
  "rx_kind (r\<lparr>rx_size := n\<rparr>) = rx_kind r" "rx_kind (r\<lparr>rx_s := s\<rparr>) = rx_kind r"
  "rx_kind (r\<lparr>rx_utf8 := u\<rparr>) = rx_kind r" "rx_kind (r\<lparr>rx_state := st\<rparr>) = rx_kind r"
  by (simp_all add: rx_kind_def)

lemma rx_put_fixed [simp]:
  "rx_state (rx_put r b) = rx_state r" "st_size (rx_s (rx_put r b)) = st_size (rx_s r)"
  "rx_kind (rx_put r b) = rx_kind r" "rx_size (rx_put r b) = rx_size r - 1" "rx_fin (rx_put r b) = rx_fin r"
  "rx_opcode (rx_put r b) = rx_opcode r" "rx_frag (rx_put r b) = rx_frag r" "rx_mask (rx_put r b) = rx_mask r"
  "rx_masked (rx_put r b) = rx_masked r" "st_write (rx_s (rx_put r b)) = st_write (rx_s r)"
  by (simp_all add: rx_put_def Let_def rx_kind_def)

section \<open>What the handlers cannot touch\<close>

context app_contract
begin

lemma call_rx [simp]:
  "rx (close_with_reason h self code reason n type) = rx self"
  "rx (snd (call_message h self enc fin d)) = rx self"
  "rx (snd (send_pong_with_payload h self d n)) = rx self"
  "rx (call_ping h self) = rx self"
  "rx (call_pong h self) = rx self"
  "rx (call_open h self) = rx self"
  by (rule api_frame_fields(1), rule api_frame_rules)+

lemma call_role [simp]:
  "role (close_with_reason h self code reason n type) = role self"
  "role (snd (call_message h self enc fin d)) = role self"
  "role (snd (send_pong_with_payload h self d n)) = role self"
  "role (call_ping h self) = role self"
  "role (call_pong h self) = role self"
  by (rule api_frame_fields(2), rule api_frame_rules)+

lemma call_utf8_rx [simp]:
  "utf8_rx (close_with_reason h self code reason n type) = utf8_rx self"
  "utf8_rx (snd (call_message h self enc fin d)) = utf8_rx self"
  "utf8_rx (snd (send_pong_with_payload h self d n)) = utf8_rx self"
  "utf8_rx (call_ping h self) = utf8_rx self"
  "utf8_rx (call_pong h self) = utf8_rx self"
  by (rule api_frame_fields(3), rule api_frame_rules)+

lemma close_state [simp]: "istate (close_with_reason h self code reason n type) = WIC_STATE_CLOSED"
  by (rule close_law)

lemma close_response_rx [simp]:
  "rx (close_response h self) = rx self" "istate (close_response h self) = WIC_STATE_CLOSED"
  "utf8_rx (close_response h self) = utf8_rx self" "role (close_response h self) = role self"
  by (simp_all add: close_response_def Let_def)

text \<open>The receive frame after each part, with the handlers out of the way.\<close>

lemma data_flush_rx:
  "data_flush h self = (blocked, self') \<Longrightarrow>
   rx self' = (if blocked then rx self else (rx self)\<lparr>rx_s := stream_rewind (rx_s (rx self))\<rparr>)"
  by (auto simp: data_flush_def set_rx_stream_def split_beta Let_def split: wic_opcode.splits if_splits)

lemma data_byte_rx: "rx (data_byte h self b) = rx_put (rx self) b"
  by (cases "rx_masked (rx self)"; cases "rx_kind (rx self)")
    (simp_all add: data_byte_def rx_put_def Let_def set_rx_stream_def stream_put_u8_masked_def
      stream_put_u8_def stream_pos_def split_beta)

lemma data_finish_rx:
  "data_finish h False self = (blocked, self') \<Longrightarrow>
   (if blocked then rx self' = rx self
    else rx_state (rx self') = WIC_RX_STATE_OPCODE \<and> rx_s (rx self') = rx_s (rx self) \<and>
      (\<exists>fr. rx self' = (rx self)\<lparr>rx_frag := fr, rx_state := WIC_RX_STATE_OPCODE\<rparr>))"
  by (cases "rx_kind (rx self)")
    (auto simp: data_finish_def split_beta Let_def split: if_splits intro: exI [of _ "rx_frag (rx self)"])

end

section \<open>The loop ends\<close>

text \<open>Bytes left to read, and whether one more turn of the data part can do without reading.\<close>

definition rem_in :: "wic_stream \<Rightarrow> nat" where
  "rem_in s = st_size s - st_pos s"

definition pending :: "wic_rx_frame \<Rightarrow> nat" where
  "pending r = (if rx_state r = WIC_RX_STATE_DATA \<and> (rx_size r = 0 \<or> stream_eof (rx_s r)) then 1 else 0)"

definition ws_measure :: "'w wic_inst \<Rightarrow> wic_stream \<Rightarrow> nat" where
  "ws_measure self s = 2 * rem_in s + pending (rx self)"

lemma pending_le: "pending r \<le> 1"
  by (simp add: pending_def)

lemma get_u8_rem:
  "stream_get_u8 s = (Some b, s') \<Longrightarrow> Suc (rem_in s') = rem_in s"
  by (auto simp: stream_get_u8_def stream_read_def rem_in_def split: if_splits)

context app_contract
begin

text \<open>A turn of the data part that is not blocked goes forward.\<close>

lemma parse_data_decreases:
  assumes run: "parse_data h self s = (False, self', s')" and o: "istate self' = WIC_STATE_OPEN"
    and room: "0 < st_size (rx_s (rx self))" and d: "rx_state (rx self) = WIC_RX_STATE_DATA"
  shows "ws_measure self' s' < ws_measure self s \<and> st_size (rx_s (rx self')) = st_size (rx_s (rx self))"
proof -
  have fin: "pending (rx t') = 0 \<and> st_size (rx_s (rx t')) = st_size (rx_s (rx t))"
    if "data_finish h False t = (False, t')" for t t'
    using data_finish_rx [OF that] by (auto simp: pending_def)
  consider "rx_size (rx self) > 0" "stream_eof (rx_s (rx self))"
    | "rx_size (rx self) > 0" "\<not> stream_eof (rx_s (rx self))" | "rx_size (rx self) = 0"
    using word_neq_0_conv by blast
  then show ?thesis
  proof cases
    case 1
    obtain b t where f: "data_flush h self = (b, t)" by fastforce
    have "rx_size (rx t) = rx_size (rx self)" using data_flush_rx [OF f] by (auto split: if_splits)
    with run 1 f have "b = False" "t = self'" "s' = s" by (auto simp: parse_data_def split: if_splits)
    then show ?thesis
      using data_flush_rx [OF f] 1 room d
      by (auto simp: ws_measure_def pending_def stream_eof_def stream_rewind_def)
  next
    case 2
    then obtain b s1 where g: "stream_get_u8 s = (Some b, s1)"
      using run by (cases "stream_get_u8 s") (auto simp: parse_data_def Let_def split: option.splits if_splits prod.splits)
    let ?t = "data_byte h self b"
    have sz: "st_size (rx_s (rx ?t)) = st_size (rx_s (rx self))" by (simp add: data_byte_rx)
    show ?thesis
    proof (cases "istate ?t = WIC_STATE_OPEN \<and> rx_size (rx ?t) = 0")
      case True
      then obtain bl where f: "data_finish h False ?t = (bl, self')" "s' = s1" "bl = False"
        using run 2 g by (auto simp: parse_data_def split: prod.splits)
      then show ?thesis using fin [of ?t self'] sz get_u8_rem [OF g] by (simp add: ws_measure_def)
    next
      case False
      then have "self' = ?t" "s' = s1" using run 2 g by (auto simp: parse_data_def)
      then show ?thesis using sz get_u8_rem [OF g] pending_le [of "rx ?t"] by (simp add: ws_measure_def)
    qed
  next
    case 3
    with run o have "istate self = WIC_STATE_OPEN"
      by (cases "istate self = WIC_STATE_OPEN") (simp_all add: parse_data_def)
    with run 3 obtain bl where f: "data_finish h False self = (bl, self')" "s' = s" "bl = False"
      by (auto simp: parse_data_def split: prod.splits)
    then show ?thesis using fin [of self self'] d 3 by (simp add: ws_measure_def pending_def)
  qed
qed

lemma parse_head_consumes:
  assumes "parse_head h self s = (False, self', s')" "rx_state (rx self) \<noteq> WIC_RX_STATE_DATA"
  shows "Suc (rem_in s') = rem_in s" "st_size (rx_s (rx self')) = st_size (rx_s (rx self))"
proof -
  obtain r s1 where g: "stream_get_u8 s = (r, s1)" by fastforce
  with assms obtain b where r: "r = Some b"
    by (cases r; cases "rx_state (rx self)") (auto simp: parse_head_def parse_opcode_def parse_size_def
        parse_extended_size_def parse_mask_def)
  have "s' = s1"
    using assms g r by (cases "rx_state (rx self)")
      (auto simp: parse_head_def parse_opcode_def parse_size_def parse_extended_size_def parse_mask_def Let_def split: if_splits)
  with get_u8_rem g r show "Suc (rem_in s') = rem_in s" by simp
  have op: "st_size (rx_s (rx self')) = st_size (rx_s (rx self))" if "parse_opcode h self s = (False, self', s')"
    using that g r by (cases "byte_to_opcode b")
      (auto simp: parse_opcode_def Let_def set_rx_stream_def stream_rewind_def split: if_splits)
  have sz: "st_size (rx_s (rx self')) = st_size (rx_s (rx self))" if "parse_size h self s = (False, self', s')"
    using that g r by (cases "rx_opcode (rx self)") (auto simp: parse_size_def Let_def split: if_splits)
  show "st_size (rx_s (rx self')) = st_size (rx_s (rx self))"
    using assms op sz g r by (cases "rx_state (rx self)")
      (auto simp: parse_head_def parse_extended_size_def parse_mask_def Let_def)
qed

lemma ws_step_decreases:
  assumes run: "ws_step h self s = (False, self', s')" and o: "istate self' = WIC_STATE_OPEN"
    and room: "0 < st_size (rx_s (rx self))"
  shows "ws_measure self' s' < ws_measure self s \<and> st_size (rx_s (rx self')) = st_size (rx_s (rx self))"
proof -
  obtain bl self1 s1 where hd: "parse_head h self s = (bl, self1, s1)" by (metis surj_pair)
  show ?thesis
  proof (cases "rx_state (rx self) = WIC_RX_STATE_DATA")
    case True
    with hd have "self1 = self" "s1 = s" by (simp_all add: parse_head_def)
    with run hd True parse_data_decreases [OF _ o room True] show ?thesis by (simp add: ws_step_def)
  next
    case False
    show ?thesis
    proof (cases "rx_state (rx self1) = WIC_RX_STATE_DATA")
      case d: True
      have "bl = False"
      proof (rule ccontr)
        assume "bl \<noteq> False"
        then have "self1 = self" using hd False
          by (cases "rx_state (rx self)") (auto simp: parse_head_def parse_opcode_def parse_size_def
            parse_extended_size_def parse_mask_def Let_def split: option.splits prod.splits if_splits)
        with d False show False by simp
      qed
      with hd False have 1: "Suc (rem_in s1) = rem_in s" "st_size (rx_s (rx self1)) = st_size (rx_s (rx self))"
        using parse_head_consumes by auto
      have "parse_data h self1 s1 = (False, self', s')" using run hd d by (simp add: ws_step_def)
      from parse_data_decreases [OF this o _ d] 1 room pending_le [of "rx self1"]
      show ?thesis by (auto simp: ws_measure_def)
    next
      case d: False
      with run hd have "bl = False" "self1 = self'" "s1 = s'" by (simp_all add: ws_step_def)
      with parse_head_consumes [OF _ False, of s self' s'] hd pending_le [of "rx self'"] show ?thesis
        by (auto simp: ws_measure_def)
    qed
  qed
qed

lemma ws_loop_ends:
  "0 < st_size (rx_s (rx self)) \<Longrightarrow> \<exists>self' s'. ws_loop h self s = Some (self', s')"
proof (induction "ws_measure self s" arbitrary: self s rule: less_induct)
  case less
  obtain bl self1 s1 where st: "ws_step h self s = (bl, self1, s1)" by (metis surj_pair)
  show ?case
  proof (cases "\<not> bl \<and> istate self1 = WIC_STATE_OPEN")
    case True
    with ws_step_decreases [of self s self1 s1] st less.prems
    have "ws_measure self1 s1 < ws_measure self s" "0 < st_size (rx_s (rx self1))" by auto
    with less.hyps True st show ?thesis by (subst ws_loop.simps) simp
  next
    case False
    with st show ?thesis by (subst ws_loop.simps) auto
  qed
qed

end

end
