(* ===== verification/Wic_Reception.thy ===== *)
theory Wic_Reception
  imports Wic_Receive
begin

text \<open>
  What the receiving side keeps true of its state (\<open>rx_ok\<close>): the write cursor stays in the
  receive buffer, the masking key and the UTF-8 state stay in their ranges, only opcodes the
  framing rules allow are being received, and a control frame fits the buffer, so that the
  close code is read from bytes that were received.
\<close>

definition control :: "wic_opcode \<Rightarrow> bool" where
  "control opc \<longleftrightarrow> opc = WIC_OPCODE_CLOSE \<or> opc = WIC_OPCODE_PING \<or> opc = WIC_OPCODE_PONG"

text \<open>The opcode, the final bit and the message in progress agree.\<close>

definition rx_legal :: "wic_rx_frame \<Rightarrow> bool" where
  "rx_legal r \<longleftrightarrow>
     (if control (rx_opcode r) then rx_fin r
      else if rx_opcode r = WIC_OPCODE_CONTINUE then rx_frag r \<noteq> WIC_OPCODE_CONTINUE
      else (rx_opcode r = WIC_OPCODE_TEXT \<or> rx_opcode r = WIC_OPCODE_BINARY) \<and>
        rx_frag r = WIC_OPCODE_CONTINUE)"

definition rx_fits :: "wic_rx_frame \<Rightarrow> bool" where
  "rx_fits r \<longleftrightarrow>
     unat (rx_size r) + st_pos (rx_s r) \<le> 125 \<and> unat (rx_size r) + st_pos (rx_s r) \<le> st_size (rx_s r) \<and>
     (rx_opcode r = WIC_OPCODE_CLOSE \<longrightarrow> 2 \<le> unat (rx_size r) + st_pos (rx_s r))"

definition mask_or_data :: "wic_rx_state \<Rightarrow> bool" where
  "mask_or_data st \<longleftrightarrow> st \<in> {WIC_RX_STATE_MASK_0, WIC_RX_STATE_MASK_1, WIC_RX_STATE_MASK_2,
     WIC_RX_STATE_MASK_3, WIC_RX_STATE_DATA}"

definition rx_phase :: "wic_rx_frame \<Rightarrow> bool" where
  "rx_phase r \<longleftrightarrow> rx_state r \<noteq> WIC_RX_STATE_OPCODE \<longrightarrow>
     rx_legal r \<and> (rx_state r \<noteq> WIC_RX_STATE_DATA \<longrightarrow> st_pos (rx_s r) = 0) \<and>
     (rx_state r \<noteq> WIC_RX_STATE_SIZE \<and> control (rx_opcode r) \<longrightarrow> rx_fits r \<and> mask_or_data (rx_state r))"

definition rx_base :: "wic_rx_frame \<Rightarrow> bool" where
  "rx_base r \<longleftrightarrow>
     st_pos (rx_s r) \<le> st_size (rx_s r) \<and> st_size (rx_s r) \<le> length (st_buf (rx_s r)) \<and>
     st_write (rx_s r) \<and> \<not> st_error (rx_s r) \<and> length (rx_mask r) = 4 \<and> utf8_state_ok (rx_utf8 r) \<and>
     (rx_frag r = WIC_OPCODE_CONTINUE \<or> rx_frag r = WIC_OPCODE_TEXT \<or> rx_frag r = WIC_OPCODE_BINARY)"

definition rx_ok :: "'w wic_inst \<Rightarrow> bool" where
  "rx_ok self \<longleftrightarrow> rx_base (rx self) \<and> utf8_state_ok (utf8_rx self) \<and>
     (istate self \<noteq> WIC_STATE_CLOSED \<longrightarrow> rx_phase (rx self))"

section \<open>One byte\<close>

lemma stream_write_byte:
  assumes "st_pos s < st_size s" "st_size s \<le> length (st_buf s)" "st_write s" "\<not> st_error s"
  shows "snd (stream_write s [b]) = s\<lparr>st_buf := (st_buf s)[st_pos s := b], st_pos := st_pos s + 1\<rparr>"
  using assms by (simp add: stream_write_def upd_conv_take_nth_drop Cons_nth_drop_Suc)

lemma utf8_parse_ok: "utf8_state_ok u \<Longrightarrow> utf8_state_ok (utf8_parse u b)"
  using utf8.live_step by blast

text \<open>The byte after unmasking.\<close>

definition rx_unmask :: "wic_rx_frame \<Rightarrow> u8 \<Rightarrow> u8" where
  "rx_unmask r b = (if rx_masked r then b XOR rx_mask r ! (st_pos (rx_s r) mod 4) else b)"

lemma rx_put_eq:
  assumes "rx_base r" "\<not> stream_eof (rx_s r)"
  shows "rx_put r b = r\<lparr>rx_size := rx_size r - 1,
      rx_s := (rx_s r)\<lparr>st_buf := (st_buf (rx_s r))[st_pos (rx_s r) := rx_unmask r b], st_pos := st_pos (rx_s r) + 1\<rparr>,
      rx_utf8 := (if rx_kind r = WIC_OPCODE_TEXT \<or> rx_kind r = WIC_OPCODE_CLOSE \<and> st_pos (rx_s r) + 1 > 2
        then utf8_parse (rx_utf8 r) (rx_unmask r b) else rx_utf8 r)\<rparr>"
proof -
  have "st_pos (rx_s r) < st_size (rx_s r)" using assms by (auto simp: rx_base_def stream_eof_def)
  with stream_write_byte [of "rx_s r"] assms(1) show ?thesis
    by (simp add: rx_put_def Let_def rx_base_def rx_unmask_def)
qed

lemma rx_base_put:
  assumes "rx_base r" "\<not> stream_eof (rx_s r)"
  shows "rx_base (rx_put r b)"
  using assms unfolding rx_put_eq [OF assms] rx_base_def by (auto simp: stream_eof_def utf8_parse_ok)

lemma rx_phase_put:
  assumes "rx_base r" "\<not> stream_eof (rx_s r)" "rx_size r \<noteq> 0" "rx_phase r" "rx_state r = WIC_RX_STATE_DATA"
  shows "rx_phase (rx_put r b)"
proof -
  have "unat (rx_size r) = Suc (unat (rx_size r - 1))"
    using assms(3) by (simp add: unat_minus_one unat_gt_0)
  then have "rx_fits (rx_put r b) = rx_fits r"
    unfolding rx_put_eq [OF assms(1,2)] rx_fits_def by simp
  then show ?thesis using assms(4,5) by (simp add: rx_phase_def rx_legal_def)
qed

lemma rx_base_rewind: "rx_base r \<Longrightarrow> rx_base (r\<lparr>rx_s := stream_rewind (rx_s r)\<rparr>)"
  by (simp add: rx_base_def stream_rewind_def)

lemma rx_phase_rewind:
  "rx_phase r \<Longrightarrow> \<not> control (rx_opcode r) \<Longrightarrow> rx_phase (r\<lparr>rx_s := stream_rewind (rx_s r)\<rparr>)"
  by (auto simp: rx_phase_def stream_rewind_def rx_legal_def)

section \<open>The header bytes\<close>

lemma rx_base_upd [simp]:
  "rx_base (r\<lparr>rx_state := st\<rparr>) = rx_base r" "rx_base (r\<lparr>rx_size := n\<rparr>) = rx_base r"
  "rx_base (r\<lparr>rx_masked := m\<rparr>) = rx_base r" "rx_base (r\<lparr>rx_opcode := opc\<rparr>) = rx_base r"
  "rx_base (r\<lparr>rx_fin := m\<rparr>) = rx_base r" "rx_base (r\<lparr>rx_rsv1 := m\<rparr>) = rx_base r"
  "rx_base (r\<lparr>rx_rsv2 := m\<rparr>) = rx_base r" "rx_base (r\<lparr>rx_rsv3 := m\<rparr>) = rx_base r"
  by (simp_all add: rx_base_def)

lemma rx_base_utf8: "rx_base r \<Longrightarrow> utf8_state_ok u \<Longrightarrow> rx_base (r\<lparr>rx_utf8 := u\<rparr>)"
  by (simp add: rx_base_def)

lemma u7_size: "unat (ucast (b AND 0x7f :: u8) :: u64) = unat (b AND 0x7f) \<and> unat (b AND 0x7f) < 128"
proof -
  have "unat (b AND 0x7f) < 128"
    using word_and_le1 [of b "0x7f"] by (simp add: word_le_nat_alt le_less_trans)
  then show ?thesis by (simp add: unsigned_ucast_eq take_bit_nat_eq_self_iff)
qed

text \<open>The first byte: the frame it announces, and whether the rules allow it.\<close>

definition rx_first :: "wic_rx_frame \<Rightarrow> u8 \<Rightarrow> wic_rx_frame" where
  "rx_first r b = r\<lparr>rx_s := stream_rewind (rx_s r), rx_fin := (b AND 0x80 \<noteq> 0), rx_rsv1 := (b AND 0x40 \<noteq> 0),
     rx_rsv2 := (b AND 0x20 \<noteq> 0), rx_rsv3 := (b AND 0x10 \<noteq> 0), rx_utf8 := 0, rx_opcode := byte_to_opcode b\<rparr>"

definition rsv_bits :: "u8 \<Rightarrow> bool" where
  "rsv_bits b \<longleftrightarrow> b AND 0x40 \<noteq> 0 \<or> b AND 0x20 \<noteq> 0 \<or> b AND 0x10 \<noteq> 0"

lemma parse_opcode_Some:
  assumes g: "stream_get_u8 s = (Some b, s1)"
  shows "parse_opcode h self s = (False,
    (if rsv_bits b then
       close_with_reason h (self\<lparr>rx := (rx_first (rx self) b)\<lparr>rx_opcode := rx_opcode (rx self)\<rparr>\<rparr>)
         WIC_CLOSE_PROTOCOL_ERROR [] 0 WIC_BUFFER_CLOSE
     else if rx_legal (rx_first (rx self) b) then
       self\<lparr>rx := (rx_first (rx self) b)\<lparr>rx_utf8 := if byte_to_opcode b = WIC_OPCODE_CONTINUE then utf8_rx self else 0,
         rx_state := WIC_RX_STATE_SIZE\<rparr>\<rparr>
     else set_rx (\<lambda>r. r\<lparr>rx_state := WIC_RX_STATE_SIZE\<rparr>)
       (close_with_reason h (self\<lparr>rx := rx_first (rx self) b\<rparr>) WIC_CLOSE_PROTOCOL_ERROR [] 0 WIC_BUFFER_CLOSE)), s1)"
proof (cases "rsv_bits b")
  case True
  then show ?thesis
    using g by (simp add: parse_opcode_def Let_def set_rx_stream_def rsv_bits_def rx_first_def)
next
  case False
  then have r: "b AND 0x40 = 0" "b AND 0x20 = 0" "b AND 0x10 = 0" by (simp_all add: rsv_bits_def)
  show ?thesis
    using g False
    by (cases "byte_to_opcode b")
      (simp_all add: parse_opcode_def Let_def set_rx_stream_def r rx_first_def rx_legal_def control_def)
qed

text \<open>The length byte: the reason to close at once, if there is one, and the next state.\<close>

definition rx_len :: "wic_rx_frame \<Rightarrow> u8 \<Rightarrow> wic_rx_frame" where
  "rx_len r b = r\<lparr>rx_masked := (b AND 0x80 \<noteq> 0), rx_size := ucast (b AND 0x7f)\<rparr>"

definition size_code :: "wic_rx_frame \<Rightarrow> u16 option" where
  "size_code r =
     (if \<not> control (rx_opcode r) then None
      else if rx_size r > 125 \<or> rx_opcode r = WIC_OPCODE_CLOSE \<and> rx_size r = 1 then Some WIC_CLOSE_PROTOCOL_ERROR
      else if rx_opcode r = WIC_OPCODE_CLOSE \<and> rx_size r = 0 then Some WIC_CLOSE_NORMAL
      else if unat (rx_size r) > st_size (rx_s r) then Some WIC_CLOSE_TOO_BIG else None)"

definition rx_sized :: "wic_rx_frame \<Rightarrow> wic_rx_frame" where
  "rx_sized r =
     (if rx_size r = 127 then r\<lparr>rx_state := WIC_RX_STATE_SIZE_2, rx_size := 0\<rparr>
      else if rx_size r = 126 then r\<lparr>rx_state := WIC_RX_STATE_SIZE_0, rx_size := 0\<rparr>
      else r\<lparr>rx_state := data_or_mask r\<rparr>)"

context app_contract
begin

lemma parse_size_Some:
  assumes g: "stream_get_u8 s = (Some b, s1)"
  shows "parse_size h self s = (False,
    (case size_code (rx_len (rx self) b) of
       None \<Rightarrow> self\<lparr>rx := rx_sized (rx_len (rx self) b)\<rparr>
     | Some code \<Rightarrow> set_rx rx_sized
         (close_with_reason h (self\<lparr>rx := rx_len (rx self) b\<rparr>) code [] 0 WIC_BUFFER_CLOSE)), s1)"
proof -
  obtain r where r: "rx_len (rx self) b = r" by simp
  have "self\<lparr>rx := (rx self)\<lparr>rx_masked := b AND 0x80 \<noteq> 0, rx_size := ucast (b AND 0x7f)\<rparr>\<rparr> = self\<lparr>rx := r\<rparr>"
    by (simp add: r [symmetric] rx_len_def)
  note u = parse_size_def g prod.case option.case this Let_def
  show ?thesis
    unfolding u r
    by (cases "rx_opcode r") (simp_all add: size_code_def control_def rx_sized_def stream_max_def)
qed

end

lemma rx_base_len [simp]: "rx_base (rx_len r b) = rx_base r"
  by (simp add: rx_len_def)

lemma rx_base_sized [simp]: "rx_base (rx_sized r) = rx_base r"
  by (simp add: rx_sized_def)

lemma rx_legal_len [simp]: "rx_legal (rx_len r b) = rx_legal r" "rx_legal (rx_sized r) = rx_legal r"
  by (auto simp: rx_len_def rx_sized_def rx_legal_def)

lemma rx_sized_fields [simp]:
  "rx_opcode (rx_sized r) = rx_opcode r" "rx_s (rx_sized r) = rx_s r"
  "rx_opcode (rx_len r b) = rx_opcode r" "rx_s (rx_len r b) = rx_s r"
  by (simp_all add: rx_len_def rx_sized_def)

lemma size_code_None:
  assumes "size_code (rx_len r b) = None" "control (rx_opcode r)" "st_pos (rx_s r) = 0"
  shows "rx_fits (rx_sized (rx_len r b)) \<and> mask_or_data (rx_state (rx_sized (rx_len r b)))"
proof -
  let ?n = "rx_size (rx_len r b)"
  have n: "\<not> ?n > 125" "rx_opcode r = WIC_OPCODE_CLOSE \<longrightarrow> ?n \<noteq> 0 \<and> ?n \<noteq> 1" "\<not> unat ?n > st_size (rx_s r)"
    using assms(1,2) by (auto simp: size_code_def split: if_splits)
  then have le: "unat ?n \<le> 125" by (simp add: word_less_nat_alt not_less)
  then have s: "rx_sized (rx_len r b) = (rx_len r b)\<lparr>rx_state := data_or_mask (rx_len r b)\<rparr>"
    by (auto simp: rx_sized_def)
  have two: "2 \<le> unat ?n" if "rx_opcode r = WIC_OPCODE_CLOSE"
  proof -
    have "unat ?n \<noteq> 0" "unat ?n \<noteq> 1" using n(2) that by (auto simp: word_unat_eq_iff)
    then show ?thesis by linarith
  qed
  show ?thesis
    unfolding s using n(3) le two assms(3)
    by (auto simp: rx_fits_def data_or_mask_def mask_or_data_def)
qed

context app_contract
begin

lemma state_alive:
  "istate (snd (call_message h self enc fin d)) \<noteq> WIC_STATE_CLOSED \<Longrightarrow> istate self \<noteq> WIC_STATE_CLOSED"
  "istate (snd (send_pong_with_payload h self d n)) \<noteq> WIC_STATE_CLOSED \<Longrightarrow> istate self \<noteq> WIC_STATE_CLOSED"
  "istate (call_ping h self) \<noteq> WIC_STATE_CLOSED \<Longrightarrow> istate self \<noteq> WIC_STATE_CLOSED"
  "istate (call_pong h self) \<noteq> WIC_STATE_CLOSED \<Longrightarrow> istate self \<noteq> WIC_STATE_CLOSED"
  using api_frame_fields(15) [OF call_frames(1), of self enc fin d] api_frame_fields(15) [OF send_frames(6), of self d n]
    api_frame_fields(15) [OF call_frames(6), of self] api_frame_fields(15) [OF call_frames(7), of self]
  by auto

lemma parse_opcode_ok:
  assumes ok: "rx_ok self" and run: "parse_opcode h self s = (bl, self', s')" and st: "rx_state (rx self) = WIC_RX_STATE_OPCODE"
  shows "rx_ok self'"
proof (cases "stream_get_u8 s")
  case (Pair r s1)
  show ?thesis
  proof (cases r)
    case None
    with run Pair ok show ?thesis by (simp add: parse_opcode_def)
  next
    case (Some b)
    have base: "rx_base (rx self)" "utf8_state_ok (utf8_rx self)" using ok by (simp_all add: rx_ok_def)
    have first: "rx_base (rx_first (rx self) b)" "st_pos (rx_s (rx_first (rx self) b)) = 0"
      "rx_state (rx_first (rx self) b) = WIC_RX_STATE_OPCODE"
      using base st by (simp_all add: rx_base_def rx_first_def stream_rewind_def)
    have legal: "rx_legal (r\<lparr>rx_utf8 := u, rx_state := rs\<rparr>) = rx_legal r" for r u rs
      by (simp add: rx_legal_def)
    from run Some Pair parse_opcode_Some [of s b s1 h self]
    consider "rx self' = (rx_first (rx self) b)\<lparr>rx_opcode := rx_opcode (rx self)\<rparr>" "istate self' = WIC_STATE_CLOSED" "utf8_rx self' = utf8_rx self"
      | "rx_legal (rx_first (rx self) b)"
        "self' = self\<lparr>rx := (rx_first (rx self) b)\<lparr>rx_utf8 := if byte_to_opcode b = WIC_OPCODE_CONTINUE then utf8_rx self else 0,
         rx_state := WIC_RX_STATE_SIZE\<rparr>\<rparr>"
      | "rx self' = (rx_first (rx self) b)\<lparr>rx_state := WIC_RX_STATE_SIZE\<rparr>" "istate self' = WIC_STATE_CLOSED" "utf8_rx self' = utf8_rx self"
      by (auto split: if_splits)
    then show ?thesis
    proof cases
      case 2
      moreover have "rx_base ((rx_first (rx self) b)\<lparr>rx_utf8 := if byte_to_opcode b = WIC_OPCODE_CONTINUE then utf8_rx self else 0\<rparr>)"
        using first(1) base(2) by (intro rx_base_utf8) simp_all
      moreover have "rx_phase (rx self')"
        using 2 first by (simp add: rx_phase_def legal)
      ultimately show ?thesis using base(2) by (simp add: rx_ok_def)
    qed (use first base in \<open>simp_all add: rx_ok_def\<close>)
  qed
qed

lemma parse_size_ok:
  assumes ok: "rx_ok self" and run: "parse_size h self s = (bl, self', s')" and st: "rx_state (rx self) = WIC_RX_STATE_SIZE"
  shows "rx_ok self'"
proof (cases "stream_get_u8 s")
  case (Pair r s1)
  show ?thesis
  proof (cases r)
    case None
    with run Pair ok show ?thesis by (simp add: parse_size_def)
  next
    case (Some b)
    let ?r = "rx_len (rx self) b"
    from run Some Pair parse_size_Some [of s b s1 self]
    consider "size_code ?r = None" "self' = self\<lparr>rx := rx_sized ?r\<rparr>"
      | "rx self' = rx_sized ?r" "istate self' = WIC_STATE_CLOSED" "utf8_rx self' = utf8_rx self"
      by (cases "size_code ?r") auto
    then show ?thesis
    proof cases
      case 1
      have "rx_phase (rx_sized ?r)" if "istate self \<noteq> WIC_STATE_CLOSED"
      proof -
        have "rx_phase (rx self)" using ok that by (simp add: rx_ok_def)
        with st have "rx_legal (rx self)" "st_pos (rx_s (rx self)) = 0" by (simp_all add: rx_phase_def)
        with size_code_None [OF 1(1)] show ?thesis by (simp add: rx_phase_def)
      qed
      with 1 ok show ?thesis by (simp add: rx_ok_def)
    qed (use ok in \<open>simp_all add: rx_ok_def\<close>)
  qed
qed

lemma parse_extended_size_ok:
  assumes ok: "rx_ok self" and run: "parse_extended_size self s = (bl, self', s')"
    and st: "rx_state (rx self) \<noteq> WIC_RX_STATE_OPCODE" "rx_state (rx self) \<noteq> WIC_RX_STATE_SIZE"
      "\<not> mask_or_data (rx_state (rx self))"
  shows "rx_ok self'"
proof (cases "stream_get_u8 s")
  case (Pair r s1)
  show ?thesis
  proof (cases r)
    case None
    with run Pair ok show ?thesis by (simp add: parse_extended_size_def)
  next
    case (Some b)
    have "rx_phase (rx self')" if "istate self \<noteq> WIC_STATE_CLOSED"
    proof -
      have "rx_phase (rx self)" using ok that by (simp add: rx_ok_def)
      then have p: "rx_legal (rx self)" "st_pos (rx_s (rx self)) = 0" "\<not> control (rx_opcode (rx self))"
        using st by (auto simp: rx_phase_def mask_or_data_def)
      have "rx_state (rx self') \<noteq> WIC_RX_STATE_OPCODE \<longrightarrow> rx_legal (rx self') \<and> st_pos (rx_s (rx self')) = 0 \<and>
          \<not> control (rx_opcode (rx self'))"
        using run Pair Some p by (auto simp: parse_extended_size_def Let_def rx_legal_def)
      then show ?thesis by (auto simp: rx_phase_def)
    qed
    with ok run Pair Some show ?thesis by (auto simp: parse_extended_size_def Let_def rx_ok_def)
  qed
qed

lemma parse_mask_ok:
  assumes ok: "rx_ok self" and run: "parse_mask self s = (bl, self', s')"
    and st: "mask_or_data (rx_state (rx self))" "rx_state (rx self) \<noteq> WIC_RX_STATE_DATA"
  shows "rx_ok self'"
proof (cases "stream_get_u8 s")
  case (Pair r s1)
  show ?thesis
  proof (cases r)
    case None
    with run Pair ok show ?thesis by (simp add: parse_mask_def)
  next
    case (Some b)
    then have self': "self' = self\<lparr>rx := (rx self)\<lparr>rx_mask := (rx_mask (rx self))[mask_index (rx_state (rx self)) := b],
        rx_state := next_mask_state (rx_state (rx self))\<rparr>\<rparr>"
      using run Pair by (simp add: parse_mask_def Let_def)
    have "rx_state (rx self) \<noteq> WIC_RX_STATE_SIZE \<and> rx_state (rx self) \<noteq> WIC_RX_STATE_OPCODE"
      using st by (auto simp: mask_or_data_def)
    then have "rx_phase (rx self')" if "rx_phase (rx self)"
      using that st unfolding self' by (auto simp: rx_phase_def rx_legal_def rx_fits_def mask_or_data_def)
    with ok show ?thesis by (auto simp: self' rx_ok_def rx_base_def)
  qed
qed

lemma data_flush_ok:
  assumes ok: "rx_ok self" and run: "data_flush h self = (bl, self')" and d: "rx_state (rx self) = WIC_RX_STATE_DATA"
    and full: "stream_eof (rx_s (rx self))" "0 < rx_size (rx self)"
  shows "rx_ok self'"
proof -
  have "istate self' \<noteq> WIC_STATE_CLOSED \<Longrightarrow> istate self \<noteq> WIC_STATE_CLOSED"
    using run state_alive(1) by (auto simp: data_flush_def set_rx_stream_def split_beta Let_def split: wic_opcode.splits if_splits)
  moreover have "utf8_rx self' = utf8_rx self"
    using run by (auto simp: data_flush_def set_rx_stream_def split_beta Let_def split: wic_opcode.splits if_splits)
  moreover have "rx_phase (rx self')" if p: "rx_phase (rx self)"
  proof -
    have "\<not> control (rx_opcode (rx self))"
      using p d full by (auto simp: rx_phase_def rx_fits_def stream_eof_def word_less_nat_alt)
    then show ?thesis using data_flush_rx [OF run] p rx_phase_rewind by (auto split: if_splits)
  qed
  moreover have "rx_base (rx self')" using data_flush_rx [OF run] ok rx_base_rewind by (auto simp: rx_ok_def)
  ultimately show ?thesis using ok by (auto simp: rx_ok_def)
qed

lemma data_byte_state:
  "istate (data_byte h self b) = istate self \<or> istate (data_byte h self b) = WIC_STATE_CLOSED"
  "utf8_rx (data_byte h self b) = utf8_rx self" "role (data_byte h self b) = role self"
  by (cases "rx_kind (rx self)"; simp add: data_byte_def Let_def set_rx_stream_def split_beta)+

lemma data_byte_ok:
  assumes ok: "rx_ok self" and d: "rx_state (rx self) = WIC_RX_STATE_DATA"
    and room: "\<not> stream_eof (rx_s (rx self))" "0 < rx_size (rx self)"
  shows "rx_ok (data_byte h self b)"
proof -
  have base: "rx_base (rx self)" using ok by (simp add: rx_ok_def)
  have "rx_phase (rx (data_byte h self b))" if "istate (data_byte h self b) \<noteq> WIC_STATE_CLOSED"
    using that data_byte_state(1) [of self b] ok d room rx_phase_put [OF base room(1)]
    by (auto simp: rx_ok_def data_byte_rx)
  then show ?thesis
    using ok rx_base_put [OF base room(1)] data_byte_state(2) [of self b] by (simp add: rx_ok_def data_byte_rx)
qed

lemma data_finish_state:
  assumes "data_finish h False self = (bl, self')"
  shows "(istate self' \<noteq> WIC_STATE_CLOSED \<longrightarrow> istate self \<noteq> WIC_STATE_CLOSED) \<and>
    (utf8_rx self' = utf8_rx self \<or> utf8_rx self' = rx_utf8 (rx self)) \<and> role self' = role self \<and>
    rx_frag (rx self') \<in> {rx_frag (rx self), WIC_OPCODE_CONTINUE, WIC_OPCODE_TEXT, WIC_OPCODE_BINARY}"
proof -
  have "let self' = snd (data_finish h False self) in
    (istate self' \<noteq> WIC_STATE_CLOSED \<longrightarrow> istate self \<noteq> WIC_STATE_CLOSED) \<and>
    (utf8_rx self' = utf8_rx self \<or> utf8_rx self' = rx_utf8 (rx self)) \<and> role self' = role self \<and>
    rx_frag (rx self') \<in> {rx_frag (rx self), WIC_OPCODE_CONTINUE, WIC_OPCODE_TEXT, WIC_OPCODE_BINARY}"
    using state_alive(1) [of self WIC_ENCODING_UTF8 "rx_fin (rx self)" "rx_data (rx self)"]
      state_alive(1) [of self WIC_ENCODING_BINARY "rx_fin (rx self)" "rx_data (rx self)"]
      state_alive(2) [of self "st_buf (rx_s (rx self))" "of_nat (st_pos (rx_s (rx self)))"]
      state_alive(3) [of "snd (send_pong_with_payload h self (st_buf (rx_s (rx self))) (of_nat (st_pos (rx_s (rx self)))))"]
      state_alive(4) [of self]
    by (cases "rx_kind (rx self)") (simp_all add: data_finish_def split_beta Let_def)
  then show ?thesis unfolding Let_def assms snd_conv .
qed

lemma data_finish_ok:
  assumes ok: "rx_ok self" and run: "data_finish h False self = (bl, self')"
  shows "rx_ok self'"
proof -
  have "rx_base (rx self') \<and> (rx_phase (rx self) \<longrightarrow> rx_phase (rx self'))"
  proof (cases bl)
    case True
    then show ?thesis using data_finish_rx [OF run] ok by (simp add: rx_ok_def)
  next
    case False
    then obtain fr where "rx self' = (rx self)\<lparr>rx_frag := fr, rx_state := WIC_RX_STATE_OPCODE\<rparr>"
      using data_finish_rx [OF run] by auto
    then show ?thesis
      using ok data_finish_state [OF run] by (auto simp: rx_ok_def rx_base_def rx_phase_def)
  qed
  moreover have "utf8_state_ok (utf8_rx self')"
    using ok data_finish_state [OF run] by (auto simp: rx_ok_def rx_base_def)
  ultimately show ?thesis using ok data_finish_state [OF run] by (auto simp: rx_ok_def)
qed

lemma parse_data_ok:
  assumes ok: "rx_ok self" and run: "parse_data h self s = (bl, self', s')" and d: "rx_state (rx self) = WIC_RX_STATE_DATA"
  shows "rx_ok self'"
proof -
  consider "rx_size (rx self) > 0" "stream_eof (rx_s (rx self))"
    | "rx_size (rx self) > 0" "\<not> stream_eof (rx_s (rx self))" | "rx_size (rx self) = 0"
    using word_neq_0_conv by blast
  then show ?thesis
  proof cases
    case 1
    obtain b t where f: "data_flush h self = (b, t)" by fastforce
    have "rx_size (rx t) = rx_size (rx self)" using data_flush_rx [OF f] by (auto split: if_splits)
    with run 1 f have "t = self'" by (auto simp: parse_data_def split: if_splits)
    with data_flush_ok [OF ok f d 1(2,1)] show ?thesis by simp
  next
    case 2
    obtain r s1 where g: "stream_get_u8 s = (r, s1)" by fastforce
    show ?thesis
    proof (cases r)
      case None
      with run 2 g have "self' = self" by (auto simp: parse_data_def split: if_splits)
      with ok show ?thesis by simp
    next
      case (Some b)
      with run 2 g consider "self' = data_byte h self b" | "data_finish h False (data_byte h self b) = (bl, self')"
        by (auto simp: parse_data_def split: prod.splits if_splits)
      then show ?thesis using data_byte_ok [OF ok d 2(2,1), of b] data_finish_ok by cases auto
    qed
  next
    case 3
    with run consider "self' = self" | "data_finish h False self = (bl, self')"
      by (auto simp: parse_data_def split: prod.splits if_splits)
    then show ?thesis using ok data_finish_ok by cases auto
  qed
qed

lemma parse_head_ok:
  assumes ok: "rx_ok self" and run: "parse_head h self s = (bl, self', s')"
  shows "rx_ok self'"
  using ok run parse_opcode_ok [OF ok] parse_size_ok [OF ok] parse_extended_size_ok [OF ok] parse_mask_ok [OF ok]
  by (cases "rx_state (rx self)") (auto simp: parse_head_def mask_or_data_def)

lemma ws_step_ok:
  assumes ok: "rx_ok self" and run: "ws_step h self s = (bl, self', s')"
  shows "rx_ok self'"
proof -
  obtain b t u where hd: "parse_head h self s = (b, t, u)" by (metis surj_pair)
  with run parse_head_ok [OF ok hd] parse_data_ok [of t u bl self' s'] show ?thesis
    by (auto simp: ws_step_def split: if_splits)
qed

lemma ws_loop_ok:
  assumes "ws_loop h self s = Some (self', s')" "rx_ok self"
  shows "rx_ok self'"
proof -
  have "h = h \<longrightarrow> rx_ok self \<longrightarrow> rx_ok (fst (self', s'))"
  proof (rule ws_loop.raw_induct [of "\<lambda>h0 self s r. h0 = h \<longrightarrow> rx_ok self \<longrightarrow> rx_ok (fst r)", OF _ assms(1)])
    fix f h0 self s and y :: "'a wic_inst \<times> wic_stream"
    assume IH: "\<And>h0 self s y. f h0 self s = Some y \<Longrightarrow> h0 = h \<longrightarrow> rx_ok self \<longrightarrow> rx_ok (fst y)"
      and run: "(case ws_step h0 self s of (blocked, self', s') \<Rightarrow>
        if \<not> blocked \<and> istate self' = WIC_STATE_OPEN then f h0 self' s' else Some (self', s')) = Some y"
    show "h0 = h \<longrightarrow> rx_ok self \<longrightarrow> rx_ok (fst y)"
    proof (intro impI)
      assume h: "h0 = h" "rx_ok self"
      obtain b t u where st: "ws_step h self s = (b, t, u)" by (metis surj_pair)
      with ws_step_ok [OF h(2) st] run h IH [of h t u y] show "rx_ok (fst y)"
        by (auto split: if_splits)
    qed
  qed
  with assms(2) show ?thesis by simp
qed

end

end
