(* ===== verification/Wic_Chunks.thy ===== *)
theory Wic_Chunks
  imports Wic_Reception
begin

text \<open>
  The receiver is incremental: it looks at its input one byte at a time and keeps everything
  it needs in the instance, so how the network cuts the input into calls of \<open>wic_parse\<close> does
  not matter. \<open>reader s bs\<close> says that \<open>s\<close> is a stream with \<open>bs\<close> left to read.
\<close>

definition reader :: "wic_stream \<Rightarrow> bytes \<Rightarrow> bool" where
  "reader s bs \<longleftrightarrow> reader_ok s \<and> \<not> st_error s \<and> st_rest s = bs"

lemma reader_Cons:
  assumes "reader s (b # bs)"
  obtains s' where "stream_get_u8 s = (Some b, s')" "reader s' bs" "\<not> st_error s'"
  using assms stream_get_u8_Some [of s b bs] by (auto simp: reader_def)

lemma reader_Nil: "reader s [] \<Longrightarrow> stream_get_u8 s = (None, s\<lparr>st_error := True\<rparr>)"
  by (simp add: reader_def stream_get_u8_None)

lemma reader_not_error: "reader s bs \<Longrightarrow> \<not> st_error s"
  by (simp add: reader_def)

lemma reader_init: "length bs < 2 ^ 32 \<Longrightarrow> reader (stream_init_ro bs (length bs)) bs"
  by (simp add: reader_def) (simp add: stream_init_ro_def)

lemma rest_error: "st_rest (s\<lparr>st_error := e\<rparr>) = st_rest s"
  by (simp add: st_rest_def)

text \<open>Two streams with the same bytes left.\<close>

definition alike :: "wic_stream \<Rightarrow> wic_stream \<Rightarrow> bool" where
  "alike s t \<longleftrightarrow> st_error s = st_error t \<and> st_rest s = st_rest t \<and> reader_ok s \<and> reader_ok t"

section \<open>What a step does with a byte\<close>

definition head_byte :: "'w host \<Rightarrow> 'w wic_inst \<Rightarrow> u8 \<Rightarrow> 'w wic_inst" where
  "head_byte h self b = fst (snd (parse_head h self (stream_init_ro [b] 1)))"

lemma get_u8_one:
  "stream_get_u8 (stream_init_ro [b] (Suc 0)) = (Some b, (stream_init_ro [b] (Suc 0))\<lparr>st_pos := Suc 0\<rparr>)"
  by (simp add: stream_get_u8_def stream_read_def stream_init_ro_def)

definition data_read :: "'w host \<Rightarrow> 'w wic_inst \<Rightarrow> u8 \<Rightarrow> bool \<times> 'w wic_inst" where
  "data_read h self b =
     (let self = data_byte h self b
      in if istate self = WIC_STATE_OPEN \<and> rx_size (rx self) = 0 then data_finish h False self
         else (False, self))"

definition wants_byte :: "wic_rx_frame \<Rightarrow> bool" where
  "wants_byte r \<longleftrightarrow> 0 < rx_size r \<and> \<not> stream_eof (rx_s r)"

definition data_idle :: "'w host \<Rightarrow> 'w wic_inst \<Rightarrow> bool \<times> 'w wic_inst" where
  "data_idle h self =
     (if 0 < rx_size (rx self) then
        let (bl, self) = data_flush h self
        in if istate self = WIC_STATE_OPEN \<and> rx_size (rx self) = 0 then data_finish h bl self else (bl, self)
      else if istate self = WIC_STATE_OPEN then data_finish h False self else (False, self))"

lemma parse_data_eq:
  "parse_data h self s =
     (if wants_byte (rx self) then
        (case stream_get_u8 s of
           (None, s') \<Rightarrow> (True, self, s')
         | (Some b, s') \<Rightarrow> (fst (data_read h self b), snd (data_read h self b), s'))
      else (fst (data_idle h self), snd (data_idle h self), s))"
proof (cases "rx_size (rx self) = 0")
  case True
  then show ?thesis by (simp add: parse_data_def wants_byte_def data_idle_def split_beta)
next
  case False
  then have pos: "(0 < rx_size (rx self)) = True" by (simp add: word_neq_0_conv)
  show ?thesis
    by (cases "stream_get_u8 s"; cases "fst (stream_get_u8 s)"; cases "stream_eof (rx_s (rx self))")
      (simp_all add: parse_data_def wants_byte_def data_idle_def data_read_def pos False split_beta Let_def)
qed

lemma parse_head_data: "rx_state (rx self) = WIC_RX_STATE_DATA \<Longrightarrow> parse_head h self s = (False, self, s)"
  by (simp add: parse_head_def)

context app_contract
begin

lemma parse_head_eq:
  assumes "rx_state (rx self) \<noteq> WIC_RX_STATE_DATA"
  shows "parse_head h self s =
    (case stream_get_u8 s of (None, s') \<Rightarrow> (True, self, s') | (Some b, s') \<Rightarrow> (False, head_byte h self b, s'))"
proof (cases "stream_get_u8 s")
  case (Pair r s1)
  show ?thesis
  proof (cases r)
    case None
    with assms Pair show ?thesis
      by (cases "rx_state (rx self)")
        (simp_all add: parse_head_def parse_opcode_def parse_size_def parse_extended_size_def parse_mask_def)
  next
    case (Some b)
    note op = parse_opcode_Some [OF Pair [unfolded Some], of h self] parse_opcode_Some [OF get_u8_one, of h self b]
    note sz = parse_size_Some [OF Pair [unfolded Some], of self] parse_size_Some [OF get_u8_one, of self b]
    show ?thesis
      using assms Pair Some op sz
      by (cases "rx_state (rx self)")
        (simp_all add: head_byte_def parse_head_def parse_extended_size_def parse_mask_def get_u8_one Let_def)
  qed
qed

section \<open>The same bytes, the same result\<close>

text \<open>A step on a longer input: the same step if the shorter one did not run out, and otherwise
  the step it would have gone on with.\<close>

lemma parse_data_more:
  assumes run: "parse_data h self s = (bl, self', s')" and s: "reader s bs" and t: "reader t (bs @ cs)"
    and d: "rx_state (rx self) = WIC_RX_STATE_DATA"
  shows "if st_error s' then bl \<and> bs = [] \<and> self' = self \<and> st_rest s' = [] \<and> reader_ok s'
    else \<exists>bs' t'. reader s' bs' \<and> reader t' (bs' @ cs) \<and> parse_data h self t = (bl, self', t')"
proof (cases "wants_byte (rx self)")
  case False
  with run s t have "s' = s" "parse_data h self t = (bl, self', t)" by (simp_all add: parse_data_eq)
  with s t show ?thesis by (auto simp: reader_not_error)
next
  case True
  show ?thesis
  proof (cases bs)
    case Nil
    with run True s reader_Nil [of s] show ?thesis
      by (auto simp: parse_data_eq rest_error) (auto simp: reader_def reader_ok_def)
  next
    case (Cons b bs')
    obtain s1 where s1: "stream_get_u8 s = (Some b, s1)" "reader s1 bs'" "\<not> st_error s1"
      using s Cons reader_Cons by metis
    obtain t1 where t1: "stream_get_u8 t = (Some b, t1)" "reader t1 (bs' @ cs)"
      using t Cons reader_Cons [of t b "bs' @ cs"] by auto
    from run True s1 t1 show ?thesis by (auto simp: parse_data_eq)
  qed
qed

lemma ws_step_more:
  assumes run: "ws_step h self s = (bl, self', s')" and s: "reader s bs" and t: "reader t (bs @ cs)"
  shows "if st_error s' then bl \<and> st_rest s' = [] \<and> (\<exists>t'. reader t' cs \<and> ws_step h self t = ws_step h self' t')
    else \<exists>bs' t'. reader s' bs' \<and> reader t' (bs' @ cs) \<and> ws_step h self t = (bl, self', t')"
proof (cases "rx_state (rx self) = WIC_RX_STATE_DATA")
  case True
  then have e: "ws_step h self u = parse_data h self u" for u by (simp add: ws_step_def parse_head_data)
  from parse_data_more [OF _ s t True, of bl self' s'] run t e show ?thesis
    by (auto split: if_splits)
next
  case False
  show ?thesis
  proof (cases bs)
    case Nil
    with run s t False reader_Nil [of s] show ?thesis
      by (auto simp: ws_step_def parse_head_eq rest_error) (auto simp: reader_def)
  next
    case (Cons b bs')
    obtain s1 where s1: "stream_get_u8 s = (Some b, s1)" "reader s1 bs'" "\<not> st_error s1"
      using s Cons reader_Cons by metis
    obtain t1 where t1: "stream_get_u8 t = (Some b, t1)" "reader t1 (bs' @ cs)"
      using t Cons reader_Cons [of t b "bs' @ cs"] by auto
    let ?self1 = "head_byte h self b"
    show ?thesis
    proof (cases "rx_state (rx ?self1) = WIC_RX_STATE_DATA")
      case d: True
      then have e: "ws_step h self s = parse_data h ?self1 s1" "ws_step h self t = parse_data h ?self1 t1"
        "ws_step h ?self1 t1 = parse_data h ?self1 t1"
        using s1 t1 False by (simp_all add: ws_step_def parse_head_eq parse_head_data)
      from parse_data_more [OF _ s1(2) t1(2) d, of bl self' s'] run e t1(2) show ?thesis
        by (auto split: if_splits)
    next
      case d: False
      with run s1 t1 False show ?thesis by (auto simp: ws_step_def parse_head_eq)
    qed
  qed
qed

lemma get_u8_alike:
  assumes "reader s bs" "reader t bs"
  obtains r s' t' where "stream_get_u8 s = (r, s')" "stream_get_u8 t = (r, t')" "alike s' t'"
    "st_error s' \<longleftrightarrow> r = None"
proof (cases bs)
  case Nil
  with assms that [of None "s\<lparr>st_error := True\<rparr>" "t\<lparr>st_error := True\<rparr>"] reader_Nil show ?thesis
    by (auto simp: alike_def rest_error) (auto simp: reader_def reader_ok_def)
next
  case (Cons b cs)
  obtain s' where s: "stream_get_u8 s = (Some b, s')" "reader s' cs" using assms Cons reader_Cons by metis
  obtain t' where t: "stream_get_u8 t = (Some b, t')" "reader t' cs" using assms Cons reader_Cons by metis
  show ?thesis by (rule that [OF s(1) t(1)]) (use s t in \<open>auto simp: alike_def reader_def\<close>)
qed

lemma parse_data_alike:
  assumes s: "reader s bs" "reader t bs" and run: "parse_data h self s = (bl, self', s')"
  shows "\<exists>t'. parse_data h self t = (bl, self', t') \<and> alike s' t' \<and> (st_error s' \<longrightarrow> bl)"
proof (cases "wants_byte (rx self)")
  case False
  with s run show ?thesis by (auto simp: parse_data_eq alike_def reader_def)
next
  case True
  obtain r s1 t1 where "stream_get_u8 s = (r, s1)" "stream_get_u8 t = (r, t1)" "alike s1 t1" "st_error s1 \<longleftrightarrow> r = None"
    using get_u8_alike [OF s] .
  with run True show ?thesis by (cases r) (auto simp: parse_data_eq)
qed

lemma ws_step_alike:
  assumes s: "reader s bs" "reader t bs" and run: "ws_step h self s = (bl, self', s')"
  shows "\<exists>t'. ws_step h self t = (bl, self', t') \<and> alike s' t' \<and> (st_error s' \<longrightarrow> bl)"
proof (cases "rx_state (rx self) = WIC_RX_STATE_DATA")
  case True
  with run parse_data_alike [OF s, of self bl self' s'] show ?thesis by (simp add: ws_step_def parse_head_data)
next
  case False
  obtain r s1 t1 where g: "stream_get_u8 s = (r, s1)" "stream_get_u8 t = (r, t1)" "alike s1 t1" "st_error s1 \<longleftrightarrow> r = None"
    using get_u8_alike [OF s] .
  show ?thesis
  proof (cases r)
    case None
    with g run False show ?thesis by (auto simp: ws_step_def parse_head_eq)
  next
    case (Some b)
    then have "reader s1 (st_rest s1)" "reader t1 (st_rest s1)" using g by (auto simp: alike_def reader_def)
    from parse_data_alike [OF this, of "head_byte h self b" bl self' s'] g Some run False show ?thesis
      by (auto simp: ws_step_def parse_head_eq split: if_splits)
  qed
qed

lemma ws_loop_alike:
  assumes "ws_loop h self s = Some (self', s')" "reader s bs" "reader t bs"
  shows "\<exists>t'. ws_loop h self t = Some (self', t') \<and> alike s' t'"
proof -
  let ?P = "\<lambda>h0 self s r. h0 = h \<longrightarrow> (\<forall>bs t. reader s bs \<longrightarrow> reader t bs \<longrightarrow>
     (\<exists>t'. ws_loop h self t = Some (fst r, t') \<and> alike (snd r) t'))"
  have "?P h self s (self', s')"
  proof (rule ws_loop.raw_induct [of ?P, OF _ assms(1)])
    fix f h0 self s and y :: "'a wic_inst \<times> wic_stream"
    assume IH: "\<And>h0 self s y. f h0 self s = Some y \<Longrightarrow> ?P h0 self s y"
      and run: "(case ws_step h0 self s of (blocked, self', s') \<Rightarrow>
        if \<not> blocked \<and> istate self' = WIC_STATE_OPEN then f h0 self' s' else Some (self', s')) = Some y"
    show "?P h0 self s y"
    proof (intro impI allI)
      fix bs t assume a: "h0 = h" "reader s bs" "reader t bs"
      obtain bl u v where st: "ws_step h self s = (bl, u, v)" by (metis surj_pair)
      obtain w where w: "ws_step h self t = (bl, u, w)" "alike v w" "st_error v \<longrightarrow> bl"
        using ws_step_alike [OF a(2,3) st] by blast
      show "\<exists>t'. ws_loop h self t = Some (fst y, t') \<and> alike (snd y) t'"
      proof (cases "\<not> bl \<and> istate u = WIC_STATE_OPEN")
        case True
        with w have "reader v (st_rest v)" "reader w (st_rest v)" by (auto simp: alike_def reader_def)
        with IH [of h u v y] run a st True w(1) show ?thesis by (subst ws_loop.simps) auto
      next
        case False
        with run a st w show ?thesis by (subst ws_loop.simps) auto
      qed
    qed
  qed
  with assms(2,3) show ?thesis by simp
qed

text \<open>The error flag of the input is only set at its end.\<close>

lemma ws_loop_rest:
  assumes "ws_loop h self s = Some (self', s')" "reader s bs" "st_error s'"
  shows "st_rest s' = []"
proof -
  let ?P = "\<lambda>h0 self s r. h0 = h \<longrightarrow> st_error (snd r) \<longrightarrow> (\<forall>bs. reader s bs \<longrightarrow> st_rest (snd r) = [])"
  have "?P h self s (self', s')"
  proof (rule ws_loop.raw_induct [of ?P, OF _ assms(1)])
    fix f h0 self s and y :: "'a wic_inst \<times> wic_stream"
    assume IH: "\<And>h0 self s y. f h0 self s = Some y \<Longrightarrow> ?P h0 self s y"
      and run: "(case ws_step h0 self s of (blocked, self', s') \<Rightarrow>
        if \<not> blocked \<and> istate self' = WIC_STATE_OPEN then f h0 self' s' else Some (self', s')) = Some y"
    show "?P h0 self s y"
    proof (intro impI allI)
      fix bs assume a: "h0 = h" "st_error (snd y)" "reader s bs"
      obtain bl u v where st: "ws_step h self s = (bl, u, v)" by (metis surj_pair)
      have t: "reader s (bs @ [])" using a(3) by simp
      note more = ws_step_more [OF st a(3) t]
      show "st_rest (snd y) = []"
      proof (cases "\<not> bl \<and> istate u = WIC_STATE_OPEN")
        case True
        with more obtain bs' where "reader v bs'" by (auto split: if_splits)
        with IH [of h u v y] run a st True show ?thesis by auto
      next
        case False
        with run a st have "y = (u, v)" by auto
        with more a show ?thesis by auto
      qed
    qed
  qed
  with assms show ?thesis by auto
qed

section \<open>Cutting the input\<close>

text \<open>A loop that ran out of input goes on, given more, where it stopped.\<close>

lemma ws_loop_more:
  assumes "ws_loop h self s = Some (self', s')" "st_error s'" "istate self' = WIC_STATE_OPEN"
    "reader s bs" "reader t (bs @ cs)"
  shows "\<exists>t'. reader t' cs \<and> ws_loop h self t = ws_loop h self' t'"
proof -
  let ?P = "\<lambda>h0 self s r. h0 = h \<longrightarrow> st_error (snd r) \<longrightarrow> istate (fst r) = WIC_STATE_OPEN \<longrightarrow>
     (\<forall>bs t. reader s bs \<longrightarrow> reader t (bs @ cs) \<longrightarrow>
       (\<exists>t'. reader t' cs \<and> ws_loop h self t = ws_loop h (fst r) t'))"
  have "?P h self s (self', s')"
  proof (rule ws_loop.raw_induct [of ?P, OF _ assms(1)])
    fix f h0 self s and y :: "'a wic_inst \<times> wic_stream"
    assume IH: "\<And>h0 self s y. f h0 self s = Some y \<Longrightarrow> ?P h0 self s y"
      and run: "(case ws_step h0 self s of (blocked, self', s') \<Rightarrow>
        if \<not> blocked \<and> istate self' = WIC_STATE_OPEN then f h0 self' s' else Some (self', s')) = Some y"
    show "?P h0 self s y"
    proof (intro impI allI)
      fix bs t assume a: "h0 = h" "st_error (snd y)" "istate (fst y) = WIC_STATE_OPEN" "reader s bs" "reader t (bs @ cs)"
      obtain bl u v where st: "ws_step h self s = (bl, u, v)" by (metis surj_pair)
      note more = ws_step_more [OF st a(4,5)]
      show "\<exists>t'. reader t' cs \<and> ws_loop h self t = ws_loop h (fst y) t'"
      proof (cases "\<not> bl \<and> istate u = WIC_STATE_OPEN")
        case True
        with more obtain bs' t' where w: "reader v bs'" "reader t' (bs' @ cs)" "ws_step h self t = (bl, u, t')"
          by (auto split: if_splits)
        then have "ws_loop h self t = ws_loop h u t'" using True by (subst ws_loop.simps) simp
        with IH [of h u v y] run a st True w show ?thesis by auto
      next
        case False
        with run a st have "y = (u, v)" by auto
        with more a obtain t' where "reader t' cs" "ws_step h self t = ws_step h u t'" by auto
        then have "ws_loop h self t = ws_loop h u t'" by (simp add: ws_loop.simps)
        with \<open>y = (u, v)\<close> \<open>reader t' cs\<close> show ?thesis by auto
      qed
    qed
  qed
  with assms show ?thesis by simp
qed

text \<open>Two calls, or one call with the bytes of both.\<close>

lemma ws_loop_split:
  assumes a: "length (as @ bs) < 2 ^ 32"
    and 1: "ws_loop h self (stream_init_ro as (length as)) = Some (self1, s1)" "st_error s1" "istate self1 = WIC_STATE_OPEN"
    and 2: "ws_loop h self1 (stream_init_ro bs (length bs)) = Some (self2, s2)"
  shows "\<exists>s3. ws_loop h self (stream_init_ro (as @ bs) (length (as @ bs))) = Some (self2, s3) \<and> alike s2 s3"
proof -
  have r: "reader (stream_init_ro as (length as)) as" "reader (stream_init_ro bs (length bs)) bs"
    "reader (stream_init_ro (as @ bs) (length (as @ bs))) (as @ bs)"
    using a by (intro reader_init; simp)+
  obtain t where t: "reader t bs"
    "ws_loop h self (stream_init_ro (as @ bs) (length (as @ bs))) = ws_loop h self1 t"
    using ws_loop_more [OF 1 r(1,3)] by blast
  from ws_loop_alike [OF 2 r(2) t(1)] t(2) show ?thesis by auto
qed

end

end
