(* ===== verification/Wic_Session.thy ===== *)
theory Wic_Session
  imports Wic_Send
begin

text \<open>
  The sending side as a whole: any sequence of calls a client makes puts on the wire a sequence
  of frames the message framing rules of RFC 6455 (sections 5.4 to 5.6) allow. \<open>session_step\<close>
  is those rules as an automaton over frames; \<open>session_inv\<close> relates its state to the
  fragmentation state the code keeps.
\<close>

section \<open>The rules\<close>

type_synonym wframe = "bool \<times> wic_opcode \<times> bytes"

datatype session = Idle | In_text bytes | In_binary | Ended

text \<open>Text received so far can still become UTF-8.\<close>

definition extendable :: "bytes \<Rightarrow> bool" where
  "extendable bs \<longleftrightarrow> (\<exists>r. utf8_valid (bs @ r))"

definition text_end :: "bool \<Rightarrow> bytes \<Rightarrow> session option" where
  "text_end fin bs =
     (if fin then if utf8_valid bs then Some Idle else None
      else if extendable bs then Some (In_text bs) else None)"

fun session_step :: "session \<Rightarrow> wframe \<Rightarrow> session option" where
  "session_step Ended _ = None"
| "session_step s (fin, WIC_OPCODE_PING, p) = (if fin \<and> length p \<le> 125 then Some s else None)"
| "session_step s (fin, WIC_OPCODE_PONG, p) = (if fin \<and> length p \<le> 125 then Some s else None)"
| "session_step s (fin, WIC_OPCODE_CLOSE, p) = (if fin \<and> length p \<le> 125 then Some Ended else None)"
| "session_step Idle (fin, WIC_OPCODE_TEXT, p) = text_end fin p"
| "session_step Idle (fin, WIC_OPCODE_BINARY, p) = Some (if fin then Idle else In_binary)"
| "session_step (In_text bs) (fin, WIC_OPCODE_CONTINUE, p) = text_end fin (bs @ p)"
| "session_step In_binary (fin, WIC_OPCODE_CONTINUE, p) = Some (if fin then Idle else In_binary)"
| "session_step _ _ = None"

fun session_run :: "session \<Rightarrow> wframe list \<Rightarrow> session option" where
  "session_run s [] = Some s"
| "session_run s (f # fs) = (case session_step s f of None \<Rightarrow> None | Some s' \<Rightarrow> session_run s' fs)"

lemma session_run_append:
  "session_run s (fs @ gs) = (case session_run s fs of None \<Rightarrow> None | Some s' \<Rightarrow> session_run s' gs)"
  by (induction fs arbitrary: s) (auto split: option.split)

text \<open>The bytes of a sequence of masked frames, whatever the masks.\<close>

fun wire_of :: "wframe list \<Rightarrow> bytes \<Rightarrow> bool" where
  "wire_of [] w \<longleftrightarrow> w = []"
| "wire_of ((fin, opcode, p) # fs) w \<longleftrightarrow>
     (\<exists>m w'. length m = 4 \<and> w = rfc_frame fin opcode (Some m) p @ w' \<and> wire_of fs w')"

lemma wire_of_append: "wire_of fs v \<Longrightarrow> wire_of gs w \<Longrightarrow> wire_of (fs @ gs) (v @ w)"
  by (induction fs v arbitrary: rule: wire_of.induct) fastforce+

section \<open>The calls\<close>

datatype send_call =
  Call_binary bool bytes | Call_text bool bytes | Call_ping bytes | Call_close u16 bytes

fun run_call :: "'w host \<Rightarrow> 'w wic_inst \<Rightarrow> send_call \<Rightarrow> wic_status option \<times> 'w wic_inst" where
  "run_call h self (Call_binary fin d) =
     (let (st, self) = wic_send_binary h self fin d (of_nat (length d)) in (Some st, self))"
| "run_call h self (Call_text fin d) =
     (let (st, self) = wic_send_text h self fin d (of_nat (length d)) in (Some st, self))"
| "run_call h self (Call_ping d) =
     (let (st, self) = wic_send_ping_with_payload h self d (of_nat (length d)) in (Some st, self))"
| "run_call h self (Call_close code r) =
     (None, wic_close_with_reason h self code r (of_nat (length r)))"

fun run_calls :: "'w host \<Rightarrow> 'w wic_inst \<Rightarrow> send_call list \<Rightarrow> wic_status option list \<times> 'w wic_inst" where
  "run_calls h self [] = ([], self)"
| "run_calls h self (c # cs) =
     (let (st, self) = run_call h self c; (sts, self) = run_calls h self cs in (st # sts, self))"

text \<open>Sizes are 16 bits, and the library leaves the limit on control frames to the caller.\<close>

fun call_ok :: "send_call \<Rightarrow> bool" where
  "call_ok (Call_binary _ d) \<longleftrightarrow> length d < 65536"
| "call_ok (Call_text _ d) \<longleftrightarrow> length d < 65536"
| "call_ok (Call_ping d) \<longleftrightarrow> length d \<le> 125"
| "call_ok (Call_close _ r) \<longleftrightarrow> length r \<le> 123"

fun call_data :: "send_call \<Rightarrow> bool \<times> bytes" where
  "call_data (Call_binary fin d) = (fin, d)"
| "call_data (Call_text fin d) = (fin, d)"
| "call_data (Call_ping d) = (True, d)"
| "call_data (Call_close _ r) = (True, r)"

text \<open>What the calls that report success asked for, and what frames other than close carry.\<close>

definition accepted :: "send_call list \<Rightarrow> wic_status option list \<Rightarrow> (bool \<times> bytes) list" where
  "accepted cs sts = map (call_data \<circ> fst) (filter (\<lambda>(_, st). st = Some WIC_STATUS_SUCCESS) (zip cs sts))"

definition carried :: "wframe list \<Rightarrow> (bool \<times> bytes) list" where
  "carried fs = map (\<lambda>(fin, _, p). (fin, p)) (filter (\<lambda>(_, opcode, _). opcode \<noteq> WIC_OPCODE_CLOSE) fs)"

section \<open>The sending state and the rules\<close>

definition session_inv :: "'w wic_inst \<Rightarrow> session \<Rightarrow> bool" where
  "session_inv self s \<longleftrightarrow> role self = WIC_ROLE_CLIENT \<and>
     (can_send self \<longrightarrow>
       (case s of
          Idle \<Rightarrow> frag self = WIC_OPCODE_CONTINUE
        | In_text bs \<Rightarrow> frag self = WIC_OPCODE_TEXT \<and> utf8_tx self = utf8_parse_string 0 bs
        | In_binary \<Rightarrow> frag self = WIC_OPCODE_BINARY
        | Ended \<Rightarrow> False))"

lemma extendable_iff: "extendable bs \<longleftrightarrow> \<not> utf8_is_invalid (utf8_parse_string 0 bs)"
  using utf8.dead_iff_hopeless [of bs]
  by (simp add: extendable_def utf8_is_invalid_def utf8_complete_iff_valid [symmetric] utf8_parse_string_def)

lemma span_all [simp]: "length d < 65536 \<Longrightarrow> span d (of_nat (length d)) = d"
  by (simp add: span_def unat_of_nat)

lemma unat_length: "length d < 65536 \<Longrightarrow> unat (of_nat (length d) :: u16) = length d"
  by (simp add: unat_of_nat)

text \<open>One call takes the session one step along the rules, or sends nothing.\<close>

definition step_ok ::
    "('w \<Rightarrow> bytes) \<Rightarrow> 'w wic_inst \<Rightarrow> 'w wic_inst \<Rightarrow> session \<Rightarrow> (bool \<times> bytes) list \<Rightarrow> bool" where
  "step_ok wire self self' s datas \<longleftrightarrow>
     (\<exists>fs w s'. wire (app self') = wire (app self) @ w \<and> wire_of fs w \<and> session_run s fs = Some s' \<and>
        session_inv self' s' \<and> carried fs = datas)"

lemma step_ok_silent:
  "session_inv self' s \<Longrightarrow> wire (app self') = wire (app self) \<Longrightarrow> step_ok wire self self' s []"
  unfolding step_ok_def by (intro exI [of _ "[]"] exI [of _ s]) (simp add: carried_def)

lemma step_ok_sent:
  assumes "sent_one wire self self' fin opc p" "session_step s (fin, opc, p) = Some s'"
    "session_inv self' s'" "datas = (if opc = WIC_OPCODE_CLOSE then [] else [(fin, p)])"
  shows "step_ok wire self self' s datas"
proof -
  from assms(1) obtain m where m: "length m = 4"
    "wire (app self') = wire (app self) @ rfc_frame fin opc (Some m) p" unfolding sent_one_def by blast
  show ?thesis
    unfolding step_ok_def
    by (intro exI [of _ "[(fin, opc, p)]"] exI [of _ "rfc_frame fin opc (Some m) p"] exI [of _ s'])
      (use assms m in \<open>auto simp: carried_def\<close>)
qed

lemma step_ok_trans:
  assumes "step_ok wire a b s ds" "\<And>s'. session_inv b s' \<Longrightarrow> step_ok wire b c s' es"
  shows "step_ok wire a c s (ds @ es)"
proof -
  from assms(1) obtain fs w s' where 1: "wire (app b) = wire (app a) @ w" "wire_of fs w"
    "session_run s fs = Some s'" "session_inv b s'" "carried fs = ds" unfolding step_ok_def by blast
  from assms(2) [OF 1(4)] obtain gs v s'' where 2: "wire (app c) = wire (app b) @ v" "wire_of gs v"
    "session_run s' gs = Some s''" "session_inv c s''" "carried gs = es" unfolding step_ok_def by blast
  show ?thesis
    unfolding step_ok_def
    by (intro exI [of _ "fs @ gs"] exI [of _ "w @ v"] exI [of _ s''])
      (use 1 2 wire_of_append in \<open>auto simp: session_run_append carried_def\<close>)
qed

lemma session_step_control:
  "length p \<le> 125 \<Longrightarrow> s \<noteq> Ended \<Longrightarrow>
   session_step s (True, WIC_OPCODE_PING, p) = Some s \<and> session_step s (True, WIC_OPCODE_PONG, p) = Some s \<and>
   session_step s (True, WIC_OPCODE_CLOSE, p) = Some Ended"
  by (cases s) auto

lemma session_inv_can_send: "session_inv self s \<Longrightarrow> can_send self \<Longrightarrow> s \<noteq> Ended"
  by (auto simp: session_inv_def)

lemma session_inv_same:
  "session_inv self s \<Longrightarrow> can_send self \<Longrightarrow>
   session_inv (self\<lparr>istate := WIC_STATE_OPEN\<rparr>) s \<and> session_inv (self\<lparr>istate := WIC_STATE_OPEN, app := a\<rparr>) s"
  by (auto simp: session_inv_def can_send_def split: session.splits)

context link
begin

text \<open>A frame was put together and its opcode is the one the rules ask for.\<close>

lemma outcome_step:
  assumes out: "send_outcome h wire self st self' fin opc p fr u" and inv: "session_inv self s" "can_send self"
    and opc: "opc \<noteq> WIC_OPCODE_CLOSE"
    and next_state: "session_step s (fin, opc, p) = Some s'"
    and inv': "\<And>a. session_inv (self\<lparr>istate := WIC_STATE_OPEN, frag := fr, utf8_tx := u, app := a\<rparr>) s'"
  shows "step_ok wire self self' s (if st = WIC_STATUS_SUCCESS then [(fin, p)] else [])"
proof (cases "st = WIC_STATUS_SUCCESS")
  case True
  with out have "sent_one wire self self' fin opc p"
    and s': "self' = self\<lparr>istate := WIC_STATE_OPEN, frag := fr, utf8_tx := u, app := app self'\<rparr>"
    unfolding send_outcome_def by auto
  moreover have "session_inv self' s'" using inv' [of "app self'"] s' by simp
  ultimately show ?thesis using next_state opc True by (intro step_ok_sent) auto
next
  case False
  with out have "wire (app self') = wire (app self)"
    and s': "self' = self\<lparr>istate := WIC_STATE_OPEN, app := app self'\<rparr>"
    unfolding send_outcome_def by auto
  moreover have "session_inv self' s"
    using session_inv_same [OF inv, of "app self'"] s' by simp
  ultimately show ?thesis using False by (simp add: step_ok_silent)
qed

lemma step_binary:
  assumes inv: "session_inv self s" and len: "length d < 65536"
    and run: "wic_send_binary h self fin d (of_nat (length d)) = (st, self')"
  shows "step_ok wire self self' s (if st = WIC_STATUS_SUCCESS then [(fin, d)] else [])"
proof -
  have c: "role self = WIC_ROLE_CLIENT" using inv by (simp add: session_inv_def)
  note r = send_binary_client [OF c, of "of_nat (length d)" d fin, unfolded run unat_length [OF len] span_all [OF len] prod.case]
  consider "\<not> can_send self" | "can_send self" "frag self \<noteq> WIC_OPCODE_CONTINUE \<and> frag self \<noteq> WIC_OPCODE_BINARY"
    | "can_send self" "frag self = WIC_OPCODE_CONTINUE \<or> frag self = WIC_OPCODE_BINARY" by blast
  then show ?thesis
  proof cases
    case 1
    with r inv show ?thesis by (auto intro: step_ok_silent)
  next
    case 2
    with r inv show ?thesis by (auto intro!: step_ok_silent dest: session_inv_same)
  next
    case 3
    then have out: "send_outcome h wire self st self' fin (if frag self = WIC_OPCODE_BINARY then WIC_OPCODE_CONTINUE else WIC_OPCODE_BINARY)
      d (if fin then WIC_OPCODE_CONTINUE else WIC_OPCODE_BINARY) (utf8_tx self)" using r by auto
    have s: "s = (if frag self = WIC_OPCODE_BINARY then In_binary else Idle)"
      using inv 3 by (auto simp: session_inv_def split: session.splits)
    show ?thesis
      by (rule outcome_step [OF out inv 3(1), where s' = "if fin then Idle else In_binary"])
        (use c s in \<open>auto simp: session_inv_def split: session.splits\<close>)
  qed
qed

lemma step_text:
  assumes inv: "session_inv self s" and len: "length d < 65536"
    and run: "wic_send_text h self fin d (of_nat (length d)) = (st, self')"
  shows "step_ok wire self self' s (if st = WIC_STATUS_SUCCESS then [(fin, d)] else [])"
proof -
  have c: "role self = WIC_ROLE_CLIENT" using inv by (simp add: session_inv_def)
  define u where "u = utf8_parse_string (if frag self = WIC_OPCODE_CONTINUE then 0 else utf8_tx self) d"
  note r = send_text_client [OF c, of "of_nat (length d)" d fin, unfolded run unat_length [OF len] span_all [OF len] prod.case, folded u_def]
  consider "\<not> can_send self" | "can_send self" "frag self \<noteq> WIC_OPCODE_CONTINUE \<and> frag self \<noteq> WIC_OPCODE_TEXT"
    | "can_send self" "frag self = WIC_OPCODE_CONTINUE \<or> frag self = WIC_OPCODE_TEXT" "utf8_is_invalid u \<or> fin \<and> \<not> utf8_is_complete u"
    | "can_send self" "frag self = WIC_OPCODE_CONTINUE \<or> frag self = WIC_OPCODE_TEXT" "\<not> (utf8_is_invalid u \<or> fin \<and> \<not> utf8_is_complete u)"
    by blast
  then show ?thesis
  proof cases
    case 1
    with r inv show ?thesis by (auto intro: step_ok_silent)
  next
    case 2
    with r inv show ?thesis by (auto intro!: step_ok_silent dest: session_inv_same)
  next
    case 3
    then have "st = WIC_STATUS_BAD_INPUT" "self' = self\<lparr>istate := WIC_STATE_OPEN\<rparr>" using r len by auto
    with 3 inv show ?thesis by (auto intro!: step_ok_silent dest: session_inv_same)
  next
    case 4
    then have out: "send_outcome h wire self st self' fin (if frag self = WIC_OPCODE_TEXT then WIC_OPCODE_CONTINUE else WIC_OPCODE_TEXT)
      d (if fin then WIC_OPCODE_CONTINUE else WIC_OPCODE_TEXT) u" using r len by auto
    define bs where "bs = (case s of In_text bs \<Rightarrow> bs | _ \<Rightarrow> [])"
    have s: "s = (if frag self = WIC_OPCODE_TEXT then In_text bs else Idle)" "u = utf8_parse_string 0 (bs @ d)"
      using inv 4(1,2) by (auto simp: session_inv_def u_def bs_def utf8_parse_string_append split: session.splits)
    have t: "text_end fin (bs @ d) = Some (if fin then Idle else In_text (bs @ d))"
      using 4(3) s(2) by (auto simp: text_end_def extendable_iff utf8_complete_iff_valid)
    have bs: "frag self \<noteq> WIC_OPCODE_TEXT \<Longrightarrow> bs = []" by (simp add: bs_def s(1))
    show ?thesis
      by (rule outcome_step [OF out inv 4(1), where s' = "if fin then Idle else In_text (bs @ d)"])
        (use c s t bs in \<open>auto simp: session_inv_def split: session.splits\<close>)
  qed
qed

lemma step_ping:
  assumes inv: "session_inv self s" and len: "length d \<le> 125"
    and run: "wic_send_ping_with_payload h self d (of_nat (length d)) = (st, self')"
  shows "step_ok wire self self' s (if st = WIC_STATUS_SUCCESS then [(True, d)] else [])"
proof -
  have c: "role self = WIC_ROLE_CLIENT" using inv by (simp add: session_inv_def)
  have len': "length d < 65536" using len by simp
  note r = send_ping_client [OF c, of "of_nat (length d)" d, unfolded run unat_length [OF len'] span_all [OF len'] prod.case]
  show ?thesis
  proof (cases "can_send self")
    case False
    with r inv show ?thesis by (auto intro: step_ok_silent)
  next
    case True
    then have out: "send_outcome h wire self st self' True WIC_OPCODE_PING d (frag self) (utf8_tx self)"
      using r by auto
    show ?thesis
      by (rule outcome_step [OF out inv True, where s' = s])
        (use inv len session_step_control [OF len] session_inv_can_send [OF inv True] True in
          \<open>auto simp: session_inv_def can_send_def split: session.splits\<close>)
  qed
qed

end

context app_contract
begin

lemma step_close:
  assumes inv: "session_inv self s" and len: "length d \<le> 123"
  shows "step_ok wire self (wic_close_with_reason h self code d (of_nat (length d))) s []"
proof -
  let ?s' = "wic_close_with_reason h self code d (of_nat (length d))"
  have c: "role self = WIC_ROLE_CLIENT" using inv by (simp add: session_inv_def)
  have len': "length d < 65536" "unat (of_nat (length d) :: u16) \<le> length d" "unat (of_nat (length d) :: u16) \<le> 65533"
    using len by (simp_all add: unat_of_nat)
  have "istate ?s' = WIC_STATE_CLOSED" "api_frame self ?s'"
    by (simp_all add: wic_close_with_reason_def close_law)
  then have inv': "session_inv ?s' s'" for s'
    using c by (auto simp: session_inv_def can_send_def elim: api_frameE)
  let ?p = "close_payload code d"
  have "length ?p \<le> 125" using len by (simp add: close_payload_def)
  note e = session_step_control [OF this]
  from close_wire [OF c len'(2,3), of code WIC_BUFFER_CLOSE, unfolded span_all [OF len'(1)]]
  consider "can_send self" "sent_one wire self ?s' True WIC_OPCODE_CLOSE ?p"
    | "wire (app ?s') = wire (app self)"
    unfolding wic_close_with_reason_def by (auto split: if_splits)
  then show ?thesis
  proof cases
    case 1
    with e session_inv_can_send [OF inv] inv' show ?thesis by (intro step_ok_sent [of wire self ?s']) auto
  next
    case 2
    with inv' show ?thesis by (intro step_ok_silent)
  qed
qed

lemma step_calls:
  "session_inv self s \<Longrightarrow> list_all call_ok cs \<Longrightarrow> run_calls h self cs = (sts, self') \<Longrightarrow>
   step_ok wire self self' s (accepted cs sts)"
proof (induction cs arbitrary: self s sts)
  case Nil
  then show ?case by (simp add: step_ok_silent accepted_def)
next
  case (Cons c cs)
  obtain st self1 where 1: "run_call h self c = (st, self1)" by fastforce
  obtain sts' where 2: "run_calls h self1 cs = (sts', self')" "sts = st # sts'"
    using Cons.prems(3) 1 by (auto split: prod.splits)
  have "step_ok wire self self1 s (if st = Some WIC_STATUS_SUCCESS then [call_data c] else [])"
    using Cons.prems(1,2) 1
    by (cases c) (auto split: prod.splits if_splits dest: step_binary step_text step_ping intro: step_close)
  from step_ok_trans [OF this Cons.IH [OF _ _ 2(1)]] Cons.prems(2)
  have "step_ok wire self self' s
    ((if st = Some WIC_STATUS_SUCCESS then [call_data c] else []) @ accepted cs sts')" by simp
  moreover have "accepted (c # cs) sts =
    (if st = Some WIC_STATUS_SUCCESS then [call_data c] else []) @ accepted cs sts'"
    by (simp add: accepted_def 2(2))
  ultimately show ?case by (simp only:)
qed

end

end
