(* ===== verification/Wic_Headers.thy ===== *)
theory Wic_Headers
  imports Wic_Types
begin

text \<open>
  The headers of a handshake (\<open>src/wic.c\<close>): the two parser callbacks that store them one after
  the other in the receive buffer, each string with a terminating zero, and the functions that
  look a header up, step through all of them, and set one to send. A string in the buffer is
  the memory from its offset on; reading past the end of the buffer, or a failed \<open>WIC_ASSERT\<close>,
  is the result \<open>None\<close> of the reader.
\<close>

section \<open>Strings in memory\<close>

definition to_lower :: "u8 \<Rightarrow> u8" where
  "to_lower c = (if 65 \<le> c \<and> c \<le> 90 then c + 32 else c)"

text \<open>The loop of \<open>str_equal\<close> and of \<open>strcmp\<close>: memory against the characters of a C string, which
  hold no zero.\<close>

fun same_str :: "(u8 \<Rightarrow> u8) \<Rightarrow> bytes \<Rightarrow> bytes \<Rightarrow> bool option" where
  "same_str f [] s = None"
| "same_str f (a # m) [] = Some (f a = f 0)"
| "same_str f (a # m) (b # s) = (if f a \<noteq> f b then Some False else if a = 0 then Some True else same_str f m s)"

definition str_equal :: "bytes option \<Rightarrow> bytes option \<Rightarrow> bool option" where
  "str_equal s1 s2 =
     (case (s1, s2) of (Some m, Some s) \<Rightarrow> same_str to_lower m s | _ \<Rightarrow> Some False)"

definition strlen :: "bytes \<Rightarrow> nat option" where
  "strlen m = (if 0 \<in> set m then Some (length (takeWhile (\<lambda>c. c \<noteq> 0) m)) else None)"

section \<open>Storing\<close>

definition rx_append :: "bytes \<Rightarrow> 'w wic_inst \<Rightarrow> 'w wic_inst" where
  "rx_append bs self = self\<lparr>rx := (rx self)\<lparr>rx_s := snd (stream_write (rx_s (rx self)) bs)\<rparr>\<rparr>"

definition on_header_field :: "bytes \<Rightarrow> 'w wic_inst \<Rightarrow> int \<times> 'w wic_inst" where
  "on_header_field at self =
     (let self = (case header_state self of
             WIC_HEADER_STATE_VALUE \<Rightarrow> rx_append at (rx_append [0] self)
           | _ \<Rightarrow> rx_append at self)
      in (0, self\<lparr>header_state := WIC_HEADER_STATE_FIELD\<rparr>))"

definition on_header_value :: "bytes \<Rightarrow> 'w wic_inst \<Rightarrow> int \<times> 'w wic_inst" where
  "on_header_value at self =
     (case header_state self of
        WIC_HEADER_STATE_IDLE \<Rightarrow> (-1, self)
      | WIC_HEADER_STATE_FIELD \<Rightarrow>
          (0, (rx_append at (rx_append [0] self))\<lparr>header_state := WIC_HEADER_STATE_VALUE\<rparr>)
      | WIC_HEADER_STATE_VALUE \<Rightarrow> (0, (rx_append at self)\<lparr>header_state := WIC_HEADER_STATE_VALUE\<rparr>))"

section \<open>Looking up\<close>

text \<open>The loop from \<open>pos\<close> on, over the memory \<open>buf\<close> of which \<open>n\<close> bytes are written; the result is the
  offset of the value.\<close>

function get_header_loop :: "bytes \<Rightarrow> nat \<Rightarrow> bytes option \<Rightarrow> nat \<Rightarrow> nat option option" where
  "get_header_loop buf n name pos =
     (if pos < n then
        (case str_equal (Some (drop pos buf)) name of
           None \<Rightarrow> None
         | Some True \<Rightarrow> (case strlen (drop pos buf) of None \<Rightarrow> None | Some k \<Rightarrow> Some (Some (pos + k + 1)))
         | Some False \<Rightarrow>
             (case strlen (drop pos buf) of
                None \<Rightarrow> None
              | Some k \<Rightarrow>
                  let pos' = pos + k + 1 in
                  if n = pos' then None
                  else (case strlen (drop pos' buf) of
                          None \<Rightarrow> None
                        | Some k' \<Rightarrow> get_header_loop buf n name (pos' + k' + 1))))
      else Some None)"
  by pat_completeness auto
termination
  by (relation "measure (\<lambda>(_, n, _, pos). n - pos)") auto

declare get_header_loop.simps [simp del]

definition wic_get_header :: "'w wic_inst \<Rightarrow> bytes option \<Rightarrow> nat option option" where
  "wic_get_header self name =
     (if istate self = WIC_STATE_READY
      then get_header_loop (st_buf (rx_s (rx self))) (st_pos (rx_s (rx self))) name 0
      else Some None)"

definition wic_rewind_get_next_header :: "'w wic_inst \<Rightarrow> 'w wic_inst" where
  "wic_rewind_get_next_header self = self\<lparr>ipos := 0\<rparr>"

text \<open>The result is the offsets of name and value. The cursor is a \<open>uint16_t\<close>.\<close>

definition wic_get_next_header :: "'w wic_inst \<Rightarrow> ((nat \<times> nat) option \<times> 'w wic_inst) option" where
  "wic_get_next_header self =
     (let buf = st_buf (rx_s (rx self)); n = st_pos (rx_s (rx self)) in
      if unat (ipos self) < n then
        let name = unat (ipos self) in
        (case strlen (drop name buf) of
           None \<Rightarrow> None
         | Some k \<Rightarrow>
             let pos = ipos self + of_nat k + 1; retval = unat pos in
             if n = retval then None
             else (case strlen (drop retval buf) of
                     None \<Rightarrow> None
                   | Some k' \<Rightarrow> Some (Some (name, retval), self\<lparr>ipos := pos + of_nat k' + 1\<rparr>)))
      else Some (None, self))"

definition wic_set_header :: "'w wic_inst \<Rightarrow> bytes option \<Rightarrow> bytes option \<Rightarrow> bool \<times> 'w wic_inst" where
  "wic_set_header self name val =
     (case (name, val) of
        (Some n, Some v) \<Rightarrow> (True, self\<lparr>tx_header := (n, v) # tx_header self\<rparr>)
      | _ \<Rightarrow> (False, self))"

definition wic_get_state :: "'w wic_inst \<Rightarrow> wic_state" where
  "wic_get_state self = istate self"

section \<open>Strings\<close>

definition cstring :: "bytes \<Rightarrow> bool" where
  "cstring s \<longleftrightarrow> 0 \<notin> set s"

lemma to_lower_0 [simp]: "to_lower 0 = 0" and to_lower_eq_0 [simp]: "to_lower c = 0 \<longleftrightarrow> c = 0"
proof -
  show "to_lower 0 = 0" by (simp add: to_lower_def)
  have "\<forall>n \<in> set [0..<256]. to_lower (of_nat n) = 0 \<longrightarrow> (of_nat n :: u8) = 0" by code_simp
  then have "\<forall>n < 256. to_lower (of_nat n) = 0 \<longrightarrow> (of_nat n :: u8) = 0" by simp
  then show "to_lower c = 0 \<longleftrightarrow> c = 0" using all_u8_iff [of "\<lambda>c. to_lower c = 0 \<longrightarrow> c = 0"] \<open>to_lower 0 = 0\<close> by blast
qed

lemma same_str_terminated:
  assumes "cstring x" "cstring s" "\<And>c. f c = f 0 \<longleftrightarrow> c = 0"
  shows "same_str f (x @ 0 # m) s = Some (map f x = map f s)"
  using assms(1,2)
proof (induction x arbitrary: s)
  case Nil
  then show ?case by (cases s) (auto simp: cstring_def assms(3) eq_commute [of "f 0"])
next
  case (Cons a x)
  then show ?case by (cases s) (auto simp: cstring_def assms(3))
qed

lemma str_equal_terminated:
  "cstring x \<Longrightarrow> cstring s \<Longrightarrow> str_equal (Some (x @ 0 # m)) (Some s) = Some (map to_lower x = map to_lower s)"
  by (simp add: str_equal_def same_str_terminated)

lemma strlen_terminated:
  assumes "cstring x"
  shows "strlen (x @ 0 # m) = Some (length x)"
proof -
  have "takeWhile (\<lambda>c. c \<noteq> 0) (x @ 0 # m) = x" using assms by (induction x) (auto simp: cstring_def)
  then show ?thesis by (simp add: strlen_def)
qed

lemma strlen_unterminated: "cstring m \<Longrightarrow> strlen m = None"
  by (simp add: strlen_def cstring_def)

section \<open>What the buffer holds\<close>

text \<open>The headers as stored.\<close>

definition header_text :: "bytes \<times> bytes \<Rightarrow> bytes" where
  "header_text h = fst h @ 0 # snd h @ [0]"

definition store :: "(bytes \<times> bytes) list \<Rightarrow> bytes" where
  "store hs = concat (map header_text hs)"

definition header_wf :: "bytes \<times> bytes \<Rightarrow> bool" where
  "header_wf h \<longleftrightarrow> cstring (fst h) \<and> cstring (snd h)"

definition lookup :: "(bytes \<times> bytes) list \<Rightarrow> bytes \<Rightarrow> bytes option" where
  "lookup hs name = map_option snd (find (\<lambda>h. map to_lower (fst h) = map to_lower name) hs)"

text \<open>A string starts at offset \<open>off\<close>.\<close>

definition string_at :: "bytes \<Rightarrow> nat \<Rightarrow> bytes \<Rightarrow> bool" where
  "string_at buf off s \<longleftrightarrow> cstring s \<and> (\<exists>m. drop off buf = s @ 0 # m)"

lemma store_simps [simp]: "store [] = []" "store (h # hs) = fst h @ 0 # snd h @ 0 # store hs"
  by (simp_all add: store_def header_text_def)

lemma length_header_text: "length (header_text h) = length (fst h) + length (snd h) + 2"
  by (simp add: header_text_def)

lemma get_header_loop_step:
  assumes "drop pos buf = x @ 0 # v @ 0 # m" "cstring x" "cstring v" "cstring name" "pos + length x + 1 < n"
  shows "get_header_loop buf n (Some name) pos =
    (if map to_lower x = map to_lower name then Some (Some (pos + length x + 1))
     else get_header_loop buf n (Some name) (pos + length x + 1 + length v + 1))"
proof -
  have d: "drop (pos + length x + 1) buf = v @ 0 # m"
    using arg_cong [OF assms(1), of "drop (length x + 1)"] by (simp add: add.commute add.left_commute)
  show ?thesis
    using assms(5) get_header_loop.simps [of buf n "Some name" pos]
    by (simp only: assms(1) d str_equal_terminated [OF assms(2,4)] strlen_terminated [OF assms(2)]
        strlen_terminated [OF assms(3)] Let_def option.case split: bool.split if_split) simp
qed

lemma get_header_loop_store:
  assumes "list_all header_wf hs" "cstring name" "length pre = pos"
  shows "case get_header_loop (pre @ store hs @ post) (pos + length (store hs)) (Some name) pos of
      None \<Rightarrow> False
    | Some None \<Rightarrow> lookup hs name = None
    | Some (Some off) \<Rightarrow> \<exists>v. lookup hs name = Some v \<and> string_at (pre @ store hs @ post) off v \<and>
        off + length v < pos + length (store hs)"
  using assms(1,3)
proof (induction hs arbitrary: pre pos)
  case Nil
  then show ?case by (simp add: get_header_loop.simps lookup_def)
next
  case (Cons h hs)
  let ?buf = "pre @ store (h # hs) @ post" and ?n = "pos + length (store (h # hs))"
  have wf: "cstring (fst h)" "cstring (snd h)" using Cons.prems(1) by (simp_all add: header_wf_def)
  have d: "drop pos ?buf = fst h @ 0 # snd h @ 0 # store hs @ post" using Cons.prems(2) by simp
  then have d': "drop (pos + length (fst h) + 1) ?buf = snd h @ 0 # store hs @ post"
    using Cons.prems(2) by simp
  have "pos + length (fst h) + 1 < ?n" by simp
  note step = get_header_loop_step [OF d wf assms(2) this]
  show ?case
  proof (cases "map to_lower (fst h) = map to_lower name")
    case True
    have "string_at ?buf (pos + length (fst h) + 1) (snd h)"
      unfolding string_at_def d' using wf by blast
    then show ?thesis using True step by (simp add: lookup_def del: store_simps) simp
  next
    case False
    let ?pre = "pre @ fst h @ 0 # snd h @ [0]" and ?pos = "pos + length (fst h) + 1 + length (snd h) + 1"
    have e: "get_header_loop ?buf ?n (Some name) pos = get_header_loop ?buf ?n (Some name) ?pos"
      unfolding step using False by simp
    have b: "?pre @ store hs @ post = ?buf" and n: "?pos + length (store hs) = ?n" by simp_all
    have l: "lookup (h # hs) name = lookup hs name" using False by (simp add: lookup_def)
    have wf': "list_all header_wf hs" and len: "length ?pre = ?pos" using Cons.prems by simp_all
    from Cons.IH [of ?pre ?pos, unfolded b n, OF wf' len] show ?thesis by (simp only: e l)
  qed
qed

section \<open>Reading what was stored\<close>

definition holds :: "'w wic_inst \<Rightarrow> (bytes \<times> bytes) list \<Rightarrow> bool" where
  "holds self hs \<longleftrightarrow> st_data (rx_s (rx self)) = store hs \<and> stream_ok (rx_s (rx self)) \<and> list_all header_wf hs"

lemma holds_buf:
  assumes "holds self hs"
  shows "st_buf (rx_s (rx self)) = store hs @ drop (st_pos (rx_s (rx self))) (st_buf (rx_s (rx self)))"
    "st_pos (rx_s (rx self)) = length (store hs)"
proof -
  have e: "take (st_pos (rx_s (rx self))) (st_buf (rx_s (rx self))) = store hs"
    using assms by (simp add: holds_def st_data_def)
  show "st_buf (rx_s (rx self)) = store hs @ drop (st_pos (rx_s (rx self))) (st_buf (rx_s (rx self)))"
    using append_take_drop_id [of "st_pos (rx_s (rx self))" "st_buf (rx_s (rx self))"] unfolding e by (rule sym)
  show "st_pos (rx_s (rx self)) = length (store hs)"
    using assms arg_cong [OF e, of length] by (simp add: holds_def stream_ok_def)
qed

abbreviation rx_mem :: "'w wic_inst \<Rightarrow> bytes" where
  "rx_mem self \<equiv> st_buf (rx_s (rx self))"

lemma get_header_held:
  assumes "istate self = WIC_STATE_READY" "holds self hs" "cstring name"
  shows "\<exists>r. wic_get_header self (Some name) = Some r \<and>
    (case r of None \<Rightarrow> lookup hs name = None
     | Some off \<Rightarrow> \<exists>v. lookup hs name = Some v \<and> string_at (rx_mem self) off v \<and> off + length v < st_pos (rx_s (rx self)))"
proof -
  obtain post where b: "rx_mem self = store hs @ post" "st_pos (rx_s (rx self)) = length (store hs)"
    using holds_buf [OF assms(2)] by blast
  have "list_all header_wf hs" using assms(2) by (simp add: holds_def)
  from get_header_loop_store [OF this assms(3), of "[]" 0 post] show ?thesis
    using assms(1) b by (auto simp: wic_get_header_def split: option.splits)
qed

text \<open>A buffer that is full before its first terminating zero is read past its end.\<close>

lemma get_header_overrun:
  assumes "istate self = WIC_STATE_READY" "0 < st_pos (rx_s (rx self))" "cstring (rx_mem self)"
  shows "wic_get_header self name = None"
proof -
  have "same_str to_lower m s \<noteq> Some True" if "cstring m" for m s
    using that by (induction to_lower m s rule: same_str.induct) (auto simp: cstring_def)
  then have "str_equal (Some (rx_mem self)) name \<noteq> Some True" using assms(3) by (auto simp: str_equal_def split: option.splits)
  then show ?thesis
    using assms(1,2) strlen_unterminated [OF assms(3)]
    by (subst wic_get_header_def, subst get_header_loop.simps) (auto split: option.split bool.split)
qed

text \<open>Stepping through all headers.\<close>

primrec read_headers :: "nat \<Rightarrow> 'w wic_inst \<Rightarrow> ((nat \<times> nat) list \<times> 'w wic_inst) option" where
  "read_headers 0 self = Some ([], self)"
| "read_headers (Suc k) self =
     (case wic_get_next_header self of
        None \<Rightarrow> None
      | Some (None, self) \<Rightarrow> Some ([], self)
      | Some (Some r, self) \<Rightarrow> map_option (\<lambda>(rs, self). (r # rs, self)) (read_headers k self))"

lemma get_next_header_step:
  assumes "drop (unat (ipos self)) (rx_mem self) = x @ 0 # v @ 0 # m" "cstring x" "cstring v"
    "unat (ipos self) + length x + 1 + length v + 1 \<le> st_pos (rx_s (rx self))" "st_pos (rx_s (rx self)) < 65536"
  shows "wic_get_next_header self =
    Some (Some (unat (ipos self), unat (ipos self) + length x + 1),
      self\<lparr>ipos := of_nat (unat (ipos self) + length x + 1 + length v + 1)\<rparr>)"
proof -
  let ?p = "unat (ipos self)"
  define q where "q = ipos self + of_nat (length x) + 1"
  have "q = of_nat (?p + length x + 1)" by (simp add: q_def)
  then have u: "unat q = ?p + length x + 1"
    using assms(4,5) by (simp only: unat_of_nat) simp
  have d: "drop (unat q) (rx_mem self) = v @ 0 # m"
    using arg_cong [OF assms(1), of "drop (length x + 1)"] unfolding u by (simp add: add.commute add.left_commute)
  have l: "strlen (drop (unat q) (rx_mem self)) = Some (length v)"
    unfolding d by (rule strlen_terminated [OF assms(3)])
  have "unat q < st_pos (rx_s (rx self))" using assms(4) u by simp
  then have "wic_get_next_header self = Some (Some (?p, unat q), self\<lparr>ipos := q + of_nat (length v) + 1\<rparr>)"
    using assms(4) l
    by (simp add: wic_get_next_header_def Let_def assms(1) strlen_terminated [OF assms(2)] q_def [symmetric])
  moreover have "q + of_nat (length v) + 1 = of_nat (?p + length x + 1 + length v + 1)" by (simp add: q_def)
  ultimately show ?thesis by (simp only: u)
qed

lemma read_headers_from:
  assumes "rx_mem self = store hs0 @ store hs @ post" "st_pos (rx_s (rx self)) = length (store hs0) + length (store hs)"
    "list_all header_wf hs" "st_pos (rx_s (rx self)) < 65536" "ipos self = of_nat (length (store hs0))"
  shows "\<exists>rs. read_headers (Suc (length hs)) self = Some (rs, self\<lparr>ipos := of_nat (st_pos (rx_s (rx self)))\<rparr>) \<and>
    list_all2 (\<lambda>(n, v) h. string_at (rx_mem self) n (fst h) \<and> string_at (rx_mem self) v (snd h)) rs hs"
  using assms
proof (induction hs arbitrary: hs0 self)
  case Nil
  then show ?case by (simp add: wic_get_next_header_def Let_def unat_of_nat)
next
  case (Cons h hs)
  let ?p = "length (store hs0)" and ?self = "self\<lparr>ipos := of_nat (length (store (hs0 @ [h])))\<rparr>"
  have wf: "cstring (fst h)" "cstring (snd h)" using Cons.prems(3) by (simp_all add: header_wf_def)
  have p: "unat (ipos self) = ?p" using Cons.prems(2,4,5) by (simp add: unat_of_nat)
  have d: "drop (unat (ipos self)) (rx_mem self) = fst h @ 0 # snd h @ 0 # store hs @ post"
    using p Cons.prems(1) by simp
  have "?p + length (fst h) + 1 + length (snd h) + 1 = length (store (hs0 @ [h]))"
    by (simp add: store_def header_text_def)
  then have n: "wic_get_next_header self = Some (Some (?p, ?p + length (fst h) + 1), ?self)"
    using get_next_header_step [OF d wf] Cons.prems(2,4) p by simp
  have "\<exists>rs. read_headers (Suc (length hs)) ?self = Some (rs, ?self\<lparr>ipos := of_nat (st_pos (rx_s (rx ?self)))\<rparr>) \<and>
    list_all2 (\<lambda>(n, v) h. string_at (rx_mem ?self) n (fst h) \<and> string_at (rx_mem ?self) v (snd h)) rs hs"
    by (rule Cons.IH [of ?self "hs0 @ [h]"])
      (use Cons.prems in \<open>simp_all add: store_def header_text_def\<close>)
  then obtain rs where rs: "read_headers (Suc (length hs)) ?self = Some (rs, self\<lparr>ipos := of_nat (st_pos (rx_s (rx self)))\<rparr>)"
    "list_all2 (\<lambda>(n, v) h. string_at (rx_mem self) n (fst h) \<and> string_at (rx_mem self) v (snd h)) rs hs" by auto
  have "drop (?p + length (fst h) + 1) (rx_mem self) = snd h @ 0 # store hs @ post"
    using Cons.prems(1) by simp
  then have "string_at (rx_mem self) ?p (fst h)" "string_at (rx_mem self) (?p + length (fst h) + 1) (snd h)"
    using wf d p by (auto simp: string_at_def)
  with rs n show ?case by (simp add: read_headers.simps(2) [of "Suc (length hs)"] del: read_headers.simps)
qed

section \<open>Storing what the parser reports\<close>

text \<open>The parser may report a name or a value in several pieces.\<close>

datatype header_event = Field_piece bytes | Value_piece bytes

fun feed :: "header_event \<Rightarrow> 'w wic_inst \<Rightarrow> 'w wic_inst" where
  "feed (Field_piece bs) self = snd (on_header_field bs self)"
| "feed (Value_piece bs) self = snd (on_header_value bs self)"

definition events_of :: "bytes list \<times> bytes list \<Rightarrow> header_event list" where
  "events_of h = map Field_piece (fst h) @ map Value_piece (snd h)"

definition joined :: "bytes list \<times> bytes list \<Rightarrow> bytes \<times> bytes" where
  "joined h = (concat (fst h), concat (snd h))"

text \<open>Only the stream and the header state differ.\<close>

definition touched :: "'w wic_inst \<Rightarrow> 'w wic_inst \<Rightarrow> bool" where
  "touched a b \<longleftrightarrow> (\<exists>s hst. b = a\<lparr>rx := (rx a)\<lparr>rx_s := s\<rparr>, header_state := hst\<rparr>)"

lemma touched_header_state [simp]: "touched a (b\<lparr>header_state := h\<rparr>) \<longleftrightarrow> touched a b"
proof
  assume "touched a (b\<lparr>header_state := h\<rparr>)"
  then obtain s hst where "b\<lparr>header_state := h\<rparr> = a\<lparr>rx := (rx a)\<lparr>rx_s := s\<rparr>, header_state := hst\<rparr>"
    by (auto simp: touched_def)
  then have "b\<lparr>header_state := h\<rparr>\<lparr>header_state := header_state b\<rparr> =
      a\<lparr>rx := (rx a)\<lparr>rx_s := s\<rparr>, header_state := header_state b\<rparr>" by simp
  then have "b = a\<lparr>rx := (rx a)\<lparr>rx_s := s\<rparr>, header_state := header_state b\<rparr>" by simp
  then show "touched a b" unfolding touched_def by blast
next
  assume "touched a b"
  then obtain s hst where "b = a\<lparr>rx := (rx a)\<lparr>rx_s := s\<rparr>, header_state := hst\<rparr>" by (auto simp: touched_def)
  then have "b\<lparr>header_state := h\<rparr> = a\<lparr>rx := (rx a)\<lparr>rx_s := s\<rparr>, header_state := h\<rparr>" by simp
  then show "touched a (b\<lparr>header_state := h\<rparr>)" unfolding touched_def by blast
qed

lemma touched_append: "touched a b \<Longrightarrow> touched a (rx_append bs b)"
proof -
  assume "touched a b"
  then obtain s hst where "b = a\<lparr>rx := (rx a)\<lparr>rx_s := s\<rparr>, header_state := hst\<rparr>" by (auto simp: touched_def)
  then have "rx_append bs b = a\<lparr>rx := (rx a)\<lparr>rx_s := snd (stream_write (rx_s (rx b)) bs)\<rparr>, header_state := hst\<rparr>"
    by (simp add: rx_append_def)
  then show ?thesis unfolding touched_def by blast
qed

lemma touched_refl [simp]: "touched a a"
proof -
  have "a = a\<lparr>rx := (rx a)\<lparr>rx_s := rx_s (rx a)\<rparr>, header_state := header_state a\<rparr>" by simp
  then show ?thesis unfolding touched_def by blast
qed

lemma touched_feed: "touched a b \<Longrightarrow> touched a (feed e b)"
  by (cases e) (auto simp: on_header_field_def on_header_value_def Let_def touched_append split: wic_header_state.splits)

definition appends :: "'w wic_inst \<Rightarrow> bytes \<Rightarrow> 'w wic_inst \<Rightarrow> bool" where
  "appends self bs self' \<longleftrightarrow>
     st_data (rx_s (rx self')) = st_data (rx_s (rx self)) @ bs \<and> \<not> st_error (rx_s (rx self')) \<and>
     st_room (rx_s (rx self')) = st_room (rx_s (rx self)) - length bs \<and> stream_ok (rx_s (rx self')) \<and>
     st_write (rx_s (rx self'))"

definition can_store :: "'w wic_inst \<Rightarrow> nat \<Rightarrow> bool" where
  "can_store self n \<longleftrightarrow> stream_ok (rx_s (rx self)) \<and> st_write (rx_s (rx self)) \<and> \<not> st_error (rx_s (rx self)) \<and> n \<le> st_room (rx_s (rx self))"

lemma appends_rx_append: "can_store self (length bs) \<Longrightarrow> appends self bs (rx_append bs self)"
  by (auto simp: can_store_def appends_def rx_append_def stream_write_fits)

lemma appends_header_state [simp]: "appends self bs (self'\<lparr>header_state := hst\<rparr>) \<longleftrightarrow> appends self bs self'"
  by (auto simp: appends_def)

lemma appends_trans: "appends a xs b \<Longrightarrow> appends b ys c \<Longrightarrow> appends a (xs @ ys) c"
  unfolding appends_def by auto

lemma can_store_after: "appends self bs self' \<Longrightarrow> can_store self (length bs + n) \<Longrightarrow> can_store self' n"
  by (auto simp: appends_def can_store_def)


lemma append_two:
  assumes "can_store self (length xs + length ys)"
  shows "appends self (xs @ ys) (rx_append ys (rx_append xs self))"
proof -
  have "appends self xs (rx_append xs self)" using assms by (intro appends_rx_append) (simp add: can_store_def)
  moreover from this have "appends (rx_append xs self) ys (rx_append ys (rx_append xs self))"
    using can_store_after assms appends_rx_append by blast
  ultimately show ?thesis by (rule appends_trans)
qed

lemma feed_appends:
  assumes "can_store self (length bs + 1)"
  shows "header_state self \<noteq> WIC_HEADER_STATE_VALUE \<Longrightarrow> appends self bs (feed (Field_piece bs) self)"
    "header_state self = WIC_HEADER_STATE_VALUE \<Longrightarrow> appends self (0 # bs) (feed (Field_piece bs) self)"
    "header_state self = WIC_HEADER_STATE_FIELD \<Longrightarrow> appends self (0 # bs) (feed (Value_piece bs) self)"
    "header_state self = WIC_HEADER_STATE_VALUE \<Longrightarrow> appends self bs (feed (Value_piece bs) self)"
    "header_state (feed (Field_piece bs) self) = WIC_HEADER_STATE_FIELD"
    "header_state self \<noteq> WIC_HEADER_STATE_IDLE \<Longrightarrow> header_state (feed (Value_piece bs) self) = WIC_HEADER_STATE_VALUE"
proof -
  have c: "can_store self (length bs)" using assms by (simp add: can_store_def)
  have two: "appends self (0 # bs) (rx_append bs (rx_append [0] self))"
    using append_two [of self "[0]" bs] assms by simp
  show "header_state self \<noteq> WIC_HEADER_STATE_VALUE \<Longrightarrow> appends self bs (feed (Field_piece bs) self)"
    using appends_rx_append [OF c] by (cases "header_state self") (simp_all add: on_header_field_def)
  show "header_state self = WIC_HEADER_STATE_VALUE \<Longrightarrow> appends self (0 # bs) (feed (Field_piece bs) self)"
    using two by (simp add: on_header_field_def)
  show "header_state self = WIC_HEADER_STATE_FIELD \<Longrightarrow> appends self (0 # bs) (feed (Value_piece bs) self)"
    using two by (simp add: on_header_value_def)
  show "header_state self = WIC_HEADER_STATE_VALUE \<Longrightarrow> appends self bs (feed (Value_piece bs) self)"
    using appends_rx_append [OF c] by (simp add: on_header_value_def)
  show "header_state (feed (Field_piece bs) self) = WIC_HEADER_STATE_FIELD"
    by (simp add: on_header_field_def Let_def)
  show "header_state self \<noteq> WIC_HEADER_STATE_IDLE \<Longrightarrow> header_state (feed (Value_piece bs) self) = WIC_HEADER_STATE_VALUE"
    by (cases "header_state self") (simp_all add: on_header_value_def)
qed

text \<open>The rest of a name, and of a value.\<close>

lemma feed_more_field:
  "header_state self = WIC_HEADER_STATE_FIELD \<Longrightarrow> can_store self (length (concat bss) + 1) \<Longrightarrow>
   appends self (concat bss) (fold feed (map Field_piece bss) self) \<and>
   header_state (fold feed (map Field_piece bss) self) = WIC_HEADER_STATE_FIELD"
proof (induction bss arbitrary: self)
  case Nil
  then show ?case by (simp add: appends_def can_store_def)
next
  case (Cons bs bss)
  have c: "can_store self (length bs + 1)" using Cons.prems(2) by (simp add: can_store_def)
  note f = feed_appends(1,5) [OF c]
  have "can_store (feed (Field_piece bs) self) (length (concat bss) + 1)"
    by (rule can_store_after [OF f(1)]) (use Cons.prems in \<open>simp_all add: add.assoc\<close>)
  from Cons.IH [OF f(2) this] f(1) Cons.prems(1) show ?case by (auto intro: appends_trans)
qed

lemma feed_more_value:
  "header_state self = WIC_HEADER_STATE_VALUE \<Longrightarrow> can_store self (length (concat bss) + 1) \<Longrightarrow>
   appends self (concat bss) (fold feed (map Value_piece bss) self) \<and>
   header_state (fold feed (map Value_piece bss) self) = WIC_HEADER_STATE_VALUE"
proof (induction bss arbitrary: self)
  case Nil
  then show ?case by (simp add: appends_def can_store_def)
next
  case (Cons bs bss)
  have c: "can_store self (length bs + 1)" using Cons.prems(2) by (simp add: can_store_def)
  note f = feed_appends(4,6) [OF c]
  have h: "header_state (feed (Value_piece bs) self) = WIC_HEADER_STATE_VALUE" using f(2) Cons.prems(1) by simp
  have "can_store (feed (Value_piece bs) self) (length (concat bss) + 1)"
    by (rule can_store_after [OF f(1)]) (use Cons.prems in \<open>simp_all add: add.assoc\<close>)
  from Cons.IH [OF h this] f(1) Cons.prems(1) show ?case by (auto intro: appends_trans)
qed


text \<open>One header, with the zero that closes the one before it.\<close>

definition closing :: "'w wic_inst \<Rightarrow> bytes" where
  "closing self = (if header_state self = WIC_HEADER_STATE_VALUE then [0] else [])"

lemma feed_header:
  assumes "fst h \<noteq> []" "snd h \<noteq> []" "header_state self \<noteq> WIC_HEADER_STATE_FIELD"
    "can_store self (length (closing self) + length (header_text (joined h)))"
  shows "appends self (closing self @ fst (joined h) @ 0 # snd (joined h)) (fold feed (events_of h) self) \<and>
    header_state (fold feed (events_of h) self) = WIC_HEADER_STATE_VALUE"
proof -
  obtain n ns where n: "fst h = n # ns" using assms(1) by (cases "fst h") auto
  obtain v vs where v: "snd h = v # vs" using assms(2) by (cases "snd h") auto
  have len: "length (header_text (joined h)) = length n + length (concat ns) + length v + length (concat vs) + 2"
    by (simp add: length_header_text joined_def n v)
  let ?a = "feed (Field_piece n) self"
  let ?b = "fold feed (map Field_piece ns) ?a"
  let ?c = "feed (Value_piece v) ?b"
  let ?d = "fold feed (map Value_piece vs) ?c"
  have c: "can_store self (length n + 1)" using assms(4) len by (simp add: can_store_def)
  have a: "appends self (closing self @ n) ?a"
    using feed_appends(1,2) [OF c] by (cases "header_state self = WIC_HEADER_STATE_VALUE") (simp_all add: closing_def)
  have ca: "can_store ?a (length (concat ns) + length v + length (concat vs) + 2)"
    by (rule can_store_after [OF a]) (use assms(4) len in \<open>simp add: add.assoc\<close>)
  then have "can_store ?a (length (concat ns) + 1)" by (simp add: can_store_def)
  from feed_more_field [OF feed_appends(5) [OF c] this]
  have b: "appends ?a (concat ns) ?b" "header_state ?b = WIC_HEADER_STATE_FIELD" by blast+
  have cb: "can_store ?b (length v + length (concat vs) + 2)"
    by (rule can_store_after [OF b(1)]) (use ca in \<open>simp add: add.assoc\<close>)
  then have cv: "can_store ?b (length v + 1)" by (simp add: can_store_def)
  have e: "appends ?b (0 # v) ?c" "header_state ?c = WIC_HEADER_STATE_VALUE"
    using feed_appends(3,6) [OF cv] b(2) by simp_all
  have "can_store ?c (length (concat vs) + 1)"
    by (rule can_store_after [OF e(1)]) (use cb in \<open>simp add: add.assoc\<close>)
  from feed_more_value [OF e(2) this] have d: "appends ?c (concat vs) ?d" "header_state ?d = WIC_HEADER_STATE_VALUE" by blast+
  have "appends self (closing self @ fst (joined h) @ 0 # snd (joined h)) ?d"
    using appends_trans [OF appends_trans [OF appends_trans [OF a b(1)] e(1)] d(1)] by (simp add: joined_def n v)
  with d(2) show ?thesis by (simp add: events_of_def n v)
qed

text \<open>All of them, up to the last terminating zero.\<close>

lemma feed_headers:
  assumes "list_all (\<lambda>h. fst h \<noteq> [] \<and> snd h \<noteq> []) hs" "header_state self \<noteq> WIC_HEADER_STATE_FIELD"
    "can_store self (length (closing self) + length (store (map joined hs)))" "hs \<noteq> []"
  shows "let self' = fold feed (concat (map events_of hs)) self in
    header_state self' = WIC_HEADER_STATE_VALUE \<and> can_store self' 1 \<and>
    st_data (rx_s (rx self')) @ [0] = st_data (rx_s (rx self)) @ closing self @ store (map joined hs)"
  using assms
proof (induction hs arbitrary: self)
  case Nil
  then show ?case by simp
next
  case (Cons h hs)
  let ?a = "fold feed (events_of h) self"
  have "can_store self (length (closing self) + length (header_text (joined h)))"
    using Cons.prems(3) by (simp add: can_store_def store_def)
  with Cons.prems(1,2) have f: "appends self (closing self @ fst (joined h) @ 0 # snd (joined h)) ?a"
    "header_state ?a = WIC_HEADER_STATE_VALUE"
    using feed_header [of h self] by simp_all
  then have cl: "closing ?a = [0]" by (simp add: closing_def)
  have c: "can_store ?a (length (closing ?a) + length (store (map joined hs)))"
    by (rule can_store_after [OF f(1)]) (use Cons.prems(3) in \<open>simp add: cl add.assoc\<close>)
  have d: "st_data (rx_s (rx ?a)) = st_data (rx_s (rx self)) @ closing self @ fst (joined h) @ 0 # snd (joined h)"
    using f(1) by (simp add: appends_def)
  show ?case
  proof (cases "hs = []")
    case True
    with f(2) d c cl show ?thesis by (simp add: can_store_def)
  next
    case False
    have "list_all (\<lambda>h. fst h \<noteq> [] \<and> snd h \<noteq> []) hs" "header_state ?a \<noteq> WIC_HEADER_STATE_FIELD"
      using Cons.prems(1) f(2) by simp_all
    from Cons.IH [OF this c False] d cl show ?thesis by (simp add: Let_def)
  qed
qed

lemma can_store_terminated:
  assumes "can_store self 1"
  shows "st_data (rx_s (rx (rx_append [0] self))) = st_data (rx_s (rx self)) @ [0]"
    "stream_ok (rx_s (rx (rx_append [0] self)))"
  using appends_rx_append [of self "[0]"] assms by (simp_all add: appends_def)

end
