(* ===== verification/Wic_Base64.thy ===== *)
theory Wic_Base64
  imports Wic_Prelude
begin

text \<open>
  Base64 as \<open>src/wic.c\<close> writes nonces and handshake hashes (\<open>b64_encode\<close> and its helpers),
  the encoding of RFC 4648 as a reference (three bytes as one 24-bit group, read as four
  6-bit digits), and a decoder. The code equals the reference, fills exactly
  \<open>b64_encoded_size\<close> characters, and is undone by the decoder.
\<close>

section \<open>The code\<close>

definition b64_map :: bytes where
  "b64_map = ascii ''ABCDEFGHIJKLMNOPQRSTUVWXYZabcdefghijklmnopqrstuvwxyz0123456789+/''"

definition b64_encode_byte :: "u8 \<Rightarrow> u8" where
  "b64_encode_byte b = b64_map ! unat (b AND 63)"

definition b64_encoded_size :: "nat \<Rightarrow> nat" where
  "b64_encoded_size n = 4 * (n div 3 + (if n mod 3 \<noteq> 0 then 1 else 0))"

text \<open>The loop from index \<open>i\<close> with accumulator \<open>acc\<close>: the characters stored from there on
  and the last value of the accumulator.\<close>

fun b64_loop :: "nat \<Rightarrow> u8 \<Rightarrow> bytes \<Rightarrow> bytes \<times> u8" where
  "b64_loop i acc [] = ([], acc)"
| "b64_loop i acc (c # cs) =
     (let (out, acc') =
        (if i mod 3 = 1 then ([b64_encode_byte (acc OR drop_bit 4 c)], push_bit 2 c)
         else if i mod 3 = 2 then
           ([b64_encode_byte (acc OR drop_bit 6 c), b64_encode_byte c], acc)
         else ([b64_encode_byte (drop_bit 2 c)], push_bit 4 c));
        (rest, acc'') = b64_loop (Suc i) acc' cs
      in (out @ rest, acc''))"

text \<open>What is stored at \<open>out\<close>; its length is the value returned. Nothing is stored when
  \<open>max\<close> (here \<open>mx\<close>) is too small.\<close>

definition b64_encode :: "bytes \<Rightarrow> nat \<Rightarrow> bytes" where
  "b64_encode inp mx =
     (let len = length inp in
      if mx \<ge> b64_encoded_size len \<and> b64_encoded_size len \<ge> len then
        let (out, acc) = b64_loop 0 0 inp in
        if len mod 3 > 0 then
          out @ [b64_encode_byte acc] @ ascii ''='' @ (if len mod 3 = 1 then ascii ''='' else [])
        else out
      else [])"

section \<open>The reference\<close>

definition group24 :: "u8 \<Rightarrow> u8 \<Rightarrow> u8 \<Rightarrow> u32" where
  "group24 a b c = push_bit 16 (ucast a) OR push_bit 8 (ucast b) OR ucast c"

text \<open>Digit \<open>k\<close> of a group, \<open>k = 3\<close> the most significant.\<close>

definition digit64 :: "nat \<Rightarrow> u32 \<Rightarrow> u8" where
  "digit64 k g = ucast (drop_bit (6 * k) g AND 63)"

definition alphabet :: "u8 \<Rightarrow> u8" where
  "alphabet d = b64_map ! unat d"

definition pad_char :: u8 where
  "pad_char = 61"

fun rfc4648_encode :: "bytes \<Rightarrow> bytes" where
  "rfc4648_encode [] = []"
| "rfc4648_encode [a] =
     (let g = group24 a 0 0
      in [alphabet (digit64 3 g), alphabet (digit64 2 g), pad_char, pad_char])"
| "rfc4648_encode [a, b] =
     (let g = group24 a b 0
      in [alphabet (digit64 3 g), alphabet (digit64 2 g), alphabet (digit64 1 g), pad_char])"
| "rfc4648_encode (a # b # c # rest) =
     (let g = group24 a b c
      in [alphabet (digit64 3 g), alphabet (digit64 2 g), alphabet (digit64 1 g),
          alphabet (digit64 0 g)] @ rfc4648_encode rest)"

text \<open>The decoder: the value of a character, and four characters back to three bytes.\<close>

definition b64_value :: "u8 \<Rightarrow> u8 option" where
  "b64_value ch =
     (if ch \<in> set b64_map then Some (of_nat (length (takeWhile (\<lambda>x. x \<noteq> ch) b64_map))) else None)"

definition ungroup24 :: "u8 \<Rightarrow> u8 \<Rightarrow> u8 \<Rightarrow> u8 \<Rightarrow> u32" where
  "ungroup24 p q r s =
     push_bit 18 (ucast p) OR push_bit 12 (ucast q) OR push_bit 6 (ucast r) OR ucast s"

fun rfc4648_decode :: "bytes \<Rightarrow> bytes option" where
  "rfc4648_decode [] = Some []"
| "rfc4648_decode (p # q # r # s # rest) =
     (case (b64_value p, b64_value q, b64_value r, b64_value s) of
        (Some p', Some q', Some r', Some s') \<Rightarrow>
          let g = ungroup24 p' q' r' s' in
          map_option (\<lambda>t. [ucast (drop_bit 16 g), ucast (drop_bit 8 g), ucast g] @ t)
            (rfc4648_decode rest)
      | (Some p', Some q', Some r', None) \<Rightarrow>
          if s = pad_char \<and> rest = [] then
            let g = ungroup24 p' q' r' 0 in Some [ucast (drop_bit 16 g), ucast (drop_bit 8 g)]
          else None
      | (Some p', Some q', None, None) \<Rightarrow>
          if r = pad_char \<and> s = pad_char \<and> rest = [] then
            let g = ungroup24 p' q' 0 0 in Some [ucast (drop_bit 16 g)]
          else None
      | _ \<Rightarrow> None)"
| "rfc4648_decode _ = None"

section \<open>The code equals the reference\<close>

lemma and_63: "unat ((b :: u8) AND 63) < 64"
  using word_and_le1 [of b 63] by (simp add: word_le_nat_alt)

lemma digit64_3: "drop_bit 2 a AND 63 = digit64 3 (group24 a b c)"
  unfolding digit64_def group24_def
  by (rule bit_word_eqI) (auto simp: bit_simps dest: bit_imp_le_length)

lemma digit64_2: "(push_bit 4 a OR drop_bit 4 b) AND 63 = digit64 2 (group24 a b c)"
  unfolding digit64_def group24_def
  by (rule bit_word_eqI) (auto simp: bit_simps dest: bit_imp_le_length)


lemma digit64_1: "(push_bit 2 b OR drop_bit 6 c) AND 63 = digit64 1 (group24 a b c)"
  unfolding digit64_def group24_def
  by (rule bit_word_eqI) (auto simp: bit_simps dest: bit_imp_le_length)

lemma digit64_0: "c AND 63 = digit64 0 (group24 a b c)"
  unfolding digit64_def group24_def
  by (rule bit_word_eqI) (auto simp: bit_simps dest: bit_imp_le_length)

lemma encode_digit: "b AND 63 = d \<Longrightarrow> b64_encode_byte b = alphabet d"
  by (simp add: b64_encode_byte_def alphabet_def)

lemmas encode_digits =
  encode_digit [OF digit64_3] encode_digit [OF digit64_2]
  encode_digit [OF digit64_1] encode_digit [OF digit64_0]

lemma encode_digits_pad:
  "b64_encode_byte (push_bit 4 a) = alphabet (digit64 2 (group24 a 0 0))"
  "b64_encode_byte (push_bit 2 b) = alphabet (digit64 1 (group24 a b 0))"
  using encode_digit [OF digit64_2 [of a 0 0]] encode_digit [OF digit64_1 [of b 0 a]] by simp_all

text \<open>Three steps of the loop from a group boundary.\<close>

lemma b64_loop_group:
  assumes "i mod 3 = 0"
  shows "b64_loop i acc (a # b # c # rest) =
    (let g = group24 a b c; (out, acc') = b64_loop (Suc (Suc (Suc i))) (push_bit 2 b) rest
     in ([alphabet (digit64 3 g), alphabet (digit64 2 g), alphabet (digit64 1 g),
          alphabet (digit64 0 g)] @ out, acc'))"
proof -
  have "Suc i mod 3 = 1" "Suc (Suc i) mod 3 = 2" using assms by presburger+
  with assms show ?thesis
    by (simp add: encode_digits(1,2) [of a b c] encode_digit [OF digit64_1 [of b c a]]
      encode_digit [OF digit64_0 [of c a b]] Let_def split: prod.splits)
qed

lemma b64_tail_eq:
  "i mod 3 = 0 \<Longrightarrow>
   (let (out, acc') = b64_loop i acc bs in
    if length bs mod 3 > 0 then
      out @ [b64_encode_byte acc'] @ ascii ''='' @ (if length bs mod 3 = 1 then ascii ''='' else [])
    else out) = rfc4648_encode bs"
proof (induction bs arbitrary: i acc rule: rfc4648_encode.induct)
  case 1
  then show ?case by simp
next
  case (2 a)
  then show ?case
    by (simp add: encode_digits(1) [of a 0 0] encode_digits_pad ascii_def pad_char_def Let_def)
next
  case (3 a b)
  then have "Suc i mod 3 = 1" by presburger
  with 3 show ?case
    by (simp add: encode_digits(1) [of a b 0] encode_digits(2) [of a b 0] encode_digits_pad(2) [of b a]
      ascii_def pad_char_def Let_def)
next
  case (4 a b c rest)
  have "Suc (Suc (Suc i)) mod 3 = 0" using "4.prems" by presburger
  from "4.IH" [OF refl this, of "push_bit 2 b"]
  have IH: "(let (out, acc') = b64_loop (Suc (Suc (Suc i))) (push_bit 2 b) rest in
      if length rest mod 3 > 0 then
        out @ [b64_encode_byte acc'] @ ascii ''='' @ (if length rest mod 3 = 1 then ascii ''='' else [])
      else out) = rfc4648_encode rest" .
  have m: "length (a # b # c # rest) mod 3 = length rest mod 3" by simp
  obtain out acc' where l: "b64_loop (Suc (Suc (Suc i))) (push_bit 2 b) rest = (out, acc')"
    by (cases "b64_loop (Suc (Suc (Suc i))) (push_bit 2 b) rest")
  have r: "rfc4648_encode rest =
     (if length rest mod 3 > 0 then
        out @ [b64_encode_byte acc'] @ ascii ''='' @ (if length rest mod 3 = 1 then ascii ''='' else [])
      else out)"
    using IH unfolding l by simp
  show ?case
    unfolding b64_loop_group [OF "4.prems"] l m Let_def rfc4648_encode.simps r by simp
qed

lemma b64_encoded_size_ge: "n \<le> b64_encoded_size n"
  unfolding b64_encoded_size_def by (cases "n mod 3 = 0"; simp; presburger)

lemma length_rfc4648_encode: "length (rfc4648_encode bs) = b64_encoded_size (length bs)"
proof (induction bs rule: rfc4648_encode.induct)
  case (4 a b c rest)
  have "(3 + length rest) div 3 = 1 + length rest div 3" by presburger
  with 4 show ?case by (simp add: b64_encoded_size_def Let_def)
qed (simp_all add: b64_encoded_size_def Let_def)

lemma b64_encode_eq:
  "b64_encode bs mx = (if b64_encoded_size (length bs) \<le> mx then rfc4648_encode bs else [])"
  using b64_tail_eq [of 0 0 bs] b64_encoded_size_ge [of "length bs"]
  by (simp add: b64_encode_def Let_def)

section \<open>The decoder undoes it\<close>

lemma b64_value_alphabet_nat: "n < 64 \<Longrightarrow> b64_value (b64_map ! n) = Some (of_nat n)"
proof -
  have "\<forall>n \<in> set [0..<64]. b64_value (b64_map ! n) = Some (of_nat n)" by code_simp
  then show "n < 64 \<Longrightarrow> b64_value (b64_map ! n) = Some (of_nat n)" by simp
qed

lemma bit_63 [simp]: "bit (63 :: int) n \<longleftrightarrow> n < 6"
proof -
  have "(63 :: int) = mask 6" by (simp add: mask_eq_exp_minus_1)
  then show ?thesis by (simp only: bit_mask_iff) simp
qed

lemma bit_digit64: "bit (digit64 k g) n \<longleftrightarrow> n < 6 \<and> bit g (6 * k + n)"
  unfolding digit64_def by (auto simp: bit_simps dest: bit_imp_le_length)

lemma b64_value_digit: "b64_value (alphabet (digit64 k g)) = Some (digit64 k g)"
proof -
  have "digit64 k g = digit64 k g AND 63"
    by (rule bit_word_eqI) (auto simp: bit_simps bit_digit64)
  then have "unat (digit64 k g) < 64" using and_63 [of "digit64 k g"] by simp
  then show ?thesis unfolding alphabet_def by (simp add: b64_value_alphabet_nat)
qed

lemma b64_value_pad: "b64_value pad_char = None"
  by code_simp

lemma bit_ungroup_digits:
  "n < 24 \<Longrightarrow> bit (ungroup24 (digit64 3 g) (digit64 2 g) (digit64 1 g) (digit64 0 g)) n = bit g n"
proof -
  assume "n < 24"
  then have "n < 6 \<or> (\<exists>k<6. n = 6 + k) \<or> (\<exists>k<6. n = 12 + k) \<or> (\<exists>k<6. n = 18 + k)"
    by presburger
  then show ?thesis
    unfolding ungroup24_def by (elim disjE exE conjE) (simp_all add: bit_simps bit_digit64)
qed

lemma ungroup_group:
  fixes g defines "u \<equiv> ungroup24 (digit64 3 g) (digit64 2 g) (digit64 1 g) (digit64 0 g)"
  assumes "g = group24 a b c"
  shows "(ucast (drop_bit 16 u) :: u8) = a" "(ucast (drop_bit 8 u) :: u8) = b" "(ucast u :: u8) = c"
proof -
  have u: "bit u n = bit g n" if "n < 24" for n
    using bit_ungroup_digits [OF that] unfolding u_def .
  show "(ucast (drop_bit 16 u) :: u8) = a"
    by (rule bit_word_eqI)
       (auto simp: bit_simps u assms(2) group24_def dest: bit_imp_le_length)
  show "(ucast (drop_bit 8 u) :: u8) = b"
    by (rule bit_word_eqI)
       (auto simp: bit_simps u assms(2) group24_def dest: bit_imp_le_length)
  show "(ucast u :: u8) = c"
    by (rule bit_word_eqI)
       (auto simp: bit_simps u assms(2) group24_def dest: bit_imp_le_length)
qed

lemma group24_zero_digits:
  "digit64 0 (group24 a b 0) = 0" "digit64 (Suc 0) (group24 a 0 0) = 0" "digit64 0 (group24 a 0 0) = 0"
  unfolding digit64_def group24_def
  by (rule bit_word_eqI, auto simp: bit_simps dest: bit_imp_le_length)+

lemma rfc4648_decode_encode: "rfc4648_decode (rfc4648_encode bs) = Some bs"
proof (induction bs rule: rfc4648_encode.induct)
  case (2 a)
  show ?case
    using ungroup_group(1) [OF refl, of a 0 0] by (simp add: Let_def b64_value_digit b64_value_pad group24_zero_digits)
next
  case (3 a b)
  show ?case
    using ungroup_group(1,2) [OF refl, of a b 0] by (simp add: Let_def b64_value_digit b64_value_pad group24_zero_digits)
next
  case (4 a b c rest)
  then show ?case
    using ungroup_group [OF refl, of a b c] by (simp add: Let_def b64_value_digit)
qed simp

text \<open>The encoder with enough room, read back by the decoder.\<close>

interpretation b64: codec "\<lambda>bs. b64_encode bs (b64_encoded_size (length bs))" rfc4648_decode "\<lambda>_. True"
  by unfold_locales (simp add: b64_encode_eq rfc4648_decode_encode)

lemma length_b64_encode:
  "b64_encoded_size (length bs) \<le> mx \<Longrightarrow> length (b64_encode bs mx) = b64_encoded_size (length bs)"
  by (simp add: b64_encode_eq length_rfc4648_encode)

end
