(* ===== verification/Wic_Sha1.thy ===== *)
theory Wic_Sha1
  imports Wic_Prelude
begin

text \<open>
  SHA-1 in \<open>src/wic.c\<close>: the context, the incremental update, the 16-word circular message
  schedule and the unrolled rounds that rename the five registers instead of moving them.
  The reference is FIPS 180-1: an 80-word schedule, one register shift per round, and the
  padding of the whole message. The two agree for every way of cutting the message into
  updates.
\<close>

section \<open>The code: context and rounds\<close>

record sha1_context =
  total0 :: u32
  total1 :: u32
  sha_state :: "u32 \<times> u32 \<times> u32 \<times> u32 \<times> u32"
  sha_buffer :: bytes

definition sha1_init :: sha1_context where
  "sha1_init = \<lparr>total0 = 0, total1 = 0, sha_state = (0, 0, 0, 0, 0), sha_buffer = replicate 64 0\<rparr>"

definition sha1_starts :: "sha1_context \<Rightarrow> sha1_context" where
  "sha1_starts ctx = ctx\<lparr>total0 := 0, total1 := 0,
     sha_state := (0x67452301, 0xEFCDAB89, 0x98BADCFE, 0x10325476, 0xC3D2E1F0)\<rparr>"

definition get_uint32_be :: "bytes \<Rightarrow> nat \<Rightarrow> u32" where
  "get_uint32_be b i =
     push_bit 24 (ucast (b ! i)) OR push_bit 16 (ucast (b ! (i + 1))) OR
     push_bit 8 (ucast (b ! (i + 2))) OR ucast (b ! (i + 3))"

definition put_uint32_be :: "u32 \<Rightarrow> bytes" where
  "put_uint32_be n =
     [ucast (drop_bit 24 n), ucast (drop_bit 16 n), ucast (drop_bit 8 n), ucast n]"

definition sha_S :: "u32 \<Rightarrow> nat \<Rightarrow> u32" where
  "sha_S x n = push_bit n x OR drop_bit (32 - n) (x AND 0xFFFFFFFF)"

text \<open>Macro \<open>R(t)\<close>: the next word of the schedule, stored over the one 16 rounds back.\<close>

definition sha_R :: "nat \<Rightarrow> u32 list \<Rightarrow> u32 \<times> u32 list" where
  "sha_R t W =
     (let temp = W ! ((t - 3) mod 16) XOR W ! ((t - 8) mod 16) XOR
                 W ! ((t - 14) mod 16) XOR W ! (t mod 16);
          x = sha_S temp 1
      in (x, W[t mod 16 := x]))"

text \<open>The word a round takes: \<open>W[t]\<close> for the first sixteen, then \<open>R(t)\<close>.\<close>

definition sha_word :: "nat \<Rightarrow> u32 list \<Rightarrow> u32 \<times> u32 list" where
  "sha_word t W = (if t < 16 then (W ! t, W) else sha_R t W)"

definition sha_F0 :: "u32 \<Rightarrow> u32 \<Rightarrow> u32 \<Rightarrow> u32" where
  "sha_F0 x y z = z XOR (x AND (y XOR z))"

definition sha_F1 :: "u32 \<Rightarrow> u32 \<Rightarrow> u32 \<Rightarrow> u32" where
  "sha_F1 x y z = x XOR y XOR z"

definition sha_F2 :: "u32 \<Rightarrow> u32 \<Rightarrow> u32 \<Rightarrow> u32" where
  "sha_F2 x y z = (x AND y) OR (z AND (x OR y))"

text \<open>Macro \<open>P(a,b,c,d,e,x)\<close> assigns \<open>e\<close> and \<open>b\<close>.\<close>

definition sha_P :: "(u32 \<Rightarrow> u32 \<Rightarrow> u32 \<Rightarrow> u32) \<Rightarrow> u32 \<Rightarrow> u32 \<Rightarrow> u32 \<Rightarrow> u32 \<Rightarrow> u32 \<Rightarrow> u32 \<Rightarrow> u32 \<Rightarrow> u32 \<times> u32" where
  "sha_P F K a b c d e x = (e + (sha_S a 5 + F b c d + K + x), sha_S b 30)"

text \<open>Five consecutive rounds, from round \<open>t\<close> (a multiple of five): the register names
  rotate and are back in place afterwards.\<close>

definition sha_five :: "(u32 \<Rightarrow> u32 \<Rightarrow> u32 \<Rightarrow> u32) \<Rightarrow> u32 \<Rightarrow> nat \<Rightarrow>
    (u32 \<times> u32 \<times> u32 \<times> u32 \<times> u32) \<times> u32 list \<Rightarrow>
    (u32 \<times> u32 \<times> u32 \<times> u32 \<times> u32) \<times> u32 list" where
  "sha_five F K t = (\<lambda>((A, B, C, D, E), W).
     let (x, W) = sha_word t W;       (E, B) = sha_P F K A B C D E x;
         (x, W) = sha_word (t + 1) W; (D, A) = sha_P F K E A B C D x;
         (x, W) = sha_word (t + 2) W; (C, E) = sha_P F K D E A B C x;
         (x, W) = sha_word (t + 3) W; (B, D) = sha_P F K C D E A B x;
         (x, W) = sha_word (t + 4) W; (A, C) = sha_P F K B C D E A x
     in ((A, B, C, D, E), W))"

definition sha_phase :: "(u32 \<Rightarrow> u32 \<Rightarrow> u32 \<Rightarrow> u32) \<Rightarrow> u32 \<Rightarrow> nat \<Rightarrow>
    (u32 \<times> u32 \<times> u32 \<times> u32 \<times> u32) \<times> u32 list \<Rightarrow>
    (u32 \<times> u32 \<times> u32 \<times> u32 \<times> u32) \<times> u32 list" where
  "sha_phase F K t s =
     sha_five F K (t + 15) (sha_five F K (t + 10) (sha_five F K (t + 5) (sha_five F K t s)))"

definition sha_rounds_0 :: "(u32 \<times> u32 \<times> u32 \<times> u32 \<times> u32) \<times> u32 list \<Rightarrow>
    (u32 \<times> u32 \<times> u32 \<times> u32 \<times> u32) \<times> u32 list" where
  "sha_rounds_0 = sha_phase sha_F0 0x5A827999 0"

definition sha_rounds_20 :: "(u32 \<times> u32 \<times> u32 \<times> u32 \<times> u32) \<times> u32 list \<Rightarrow>
    (u32 \<times> u32 \<times> u32 \<times> u32 \<times> u32) \<times> u32 list" where
  "sha_rounds_20 = sha_phase sha_F1 0x6ED9EBA1 20"

definition sha_rounds_40 :: "(u32 \<times> u32 \<times> u32 \<times> u32 \<times> u32) \<times> u32 list \<Rightarrow>
    (u32 \<times> u32 \<times> u32 \<times> u32 \<times> u32) \<times> u32 list" where
  "sha_rounds_40 = sha_phase sha_F2 0x8F1BBCDC 40"

definition sha_rounds_60 :: "(u32 \<times> u32 \<times> u32 \<times> u32 \<times> u32) \<times> u32 list \<Rightarrow>
    (u32 \<times> u32 \<times> u32 \<times> u32 \<times> u32) \<times> u32 list" where
  "sha_rounds_60 = sha_phase sha_F1 0xCA62C1D6 60"

definition internal_sha1_process :: "sha1_context \<Rightarrow> bytes \<Rightarrow> sha1_context" where
  "internal_sha1_process ctx data =
     (let W = map (\<lambda>i. get_uint32_be data (4 * i)) [0..<16];
          (A, B, C, D, E) = sha_state ctx;
          ((A', B', C', D', E'), _) =
            sha_rounds_60 (sha_rounds_40 (sha_rounds_20 (sha_rounds_0 (sha_state ctx, W))))
      in ctx\<lparr>sha_state := (A + A', B + B', C + C', D + D', E + E')\<rparr>)"

section \<open>The code: update and finish\<close>

fun sha1_blocks :: "sha1_context \<Rightarrow> bytes \<Rightarrow> sha1_context \<times> bytes" where
  "sha1_blocks ctx inp =
     (if length inp \<ge> 64 then sha1_blocks (internal_sha1_process ctx inp) (drop 64 inp)
      else (ctx, inp))"

declare sha1_blocks.simps [simp del]

text \<open>\<open>memcpy\<close> into the block buffer at an offset.\<close>

definition sha1_fill :: "sha1_context \<Rightarrow> nat \<Rightarrow> bytes \<Rightarrow> sha1_context" where
  "sha1_fill ctx off bs = ctx\<lparr>sha_buffer := take off (sha_buffer ctx) @ bs @
     drop (off + length bs) (sha_buffer ctx)\<rparr>"

definition sha1_update :: "sha1_context \<Rightarrow> bytes \<Rightarrow> sha1_context" where
  "sha1_update ctx inp =
     (if length inp = 0 then ctx
      else
        let left = unat (total0 ctx AND 0x3F);
            fill = 64 - left;
            ilen = (of_nat (length inp) :: u32);
            ctx = ctx\<lparr>total0 := total0 ctx + ilen\<rparr>;
            ctx = ctx\<lparr>total0 := total0 ctx AND 0xFFFFFFFF\<rparr>;
            ctx = (if total0 ctx < ilen then ctx\<lparr>total1 := total1 ctx + 1\<rparr> else ctx);
            (ctx, inp, left) =
              (if left \<noteq> 0 \<and> length inp \<ge> fill then
                 let ctx = sha1_fill ctx left (take fill inp)
                 in (internal_sha1_process ctx (sha_buffer ctx), drop fill inp, 0)
               else (ctx, inp, left));
            (ctx, inp) = sha1_blocks ctx inp
        in if length inp > 0 then sha1_fill ctx left inp else ctx)"

definition sha1_finish :: "sha1_context \<Rightarrow> sha1_context \<times> bytes" where
  "sha1_finish ctx =
     (let used = unat (total0 ctx AND 0x3F);
          ctx = sha1_fill ctx used [0x80];
          used = used + 1;
          ctx = (if used \<le> 56 then sha1_fill ctx used (replicate (56 - used) 0)
                 else
                   let ctx = sha1_fill ctx used (replicate (64 - used) 0);
                       ctx = internal_sha1_process ctx (sha_buffer ctx)
                   in sha1_fill ctx 0 (replicate 56 0));
          high = drop_bit 29 (total0 ctx) OR push_bit 3 (total1 ctx);
          low = push_bit 3 (total0 ctx);
          ctx = sha1_fill ctx 56 (put_uint32_be high);
          ctx = sha1_fill ctx 60 (put_uint32_be low);
          ctx = internal_sha1_process ctx (sha_buffer ctx);
          (A, B, C, D, E) = sha_state ctx
      in (ctx, put_uint32_be A @ put_uint32_be B @ put_uint32_be C @ put_uint32_be D @
               put_uint32_be E))"

definition sha_guid :: bytes where
  "sha_guid = ascii ''258EAFA5-E914-47DA-95CA-C5AB0DC85B11''"

definition server_hash :: "bytes \<Rightarrow> bytes" where
  "server_hash nonce =
     snd (sha1_finish (sha1_update (sha1_update (sha1_starts sha1_init) nonce) sha_guid))"


section \<open>The reference: FIPS 180-1\<close>

definition fips_f :: "nat \<Rightarrow> u32 \<Rightarrow> u32 \<Rightarrow> u32 \<Rightarrow> u32" where
  "fips_f t x y z =
     (if t < 20 then (x AND y) OR (NOT x AND z)
      else if t < 40 then x XOR y XOR z
      else if t < 60 then (x AND y) OR (x AND z) OR (y AND z)
      else x XOR y XOR z)"

definition fips_K :: "nat \<Rightarrow> u32" where
  "fips_K t = (if t < 20 then 0x5A827999 else if t < 40 then 0x6ED9EBA1
               else if t < 60 then 0x8F1BBCDC else 0xCA62C1D6)"

text \<open>A block of 64 bytes as sixteen big-endian words.\<close>

definition be_value :: "bytes \<Rightarrow> nat" where
  "be_value bs = foldl (\<lambda>n b. n * 256 + unat b) 0 bs"

definition fips_words :: "bytes \<Rightarrow> u32 list" where
  "fips_words bs = map (\<lambda>i. of_nat (be_value (take 4 (drop (4 * i) bs)))) [0..<16]"

text \<open>The schedule, extended by \<open>n\<close> words.\<close>

primrec fips_schedule :: "nat \<Rightarrow> u32 list \<Rightarrow> u32 list" where
  "fips_schedule 0 M = M"
| "fips_schedule (Suc n) M =
     (let W = fips_schedule n M
      in W @ [word_rotl 1 (W ! (n + 13) XOR W ! (n + 8) XOR W ! (n + 2) XOR W ! n)])"

definition fips_round :: "u32 list \<Rightarrow> nat \<Rightarrow> u32 \<times> u32 \<times> u32 \<times> u32 \<times> u32 \<Rightarrow>
    u32 \<times> u32 \<times> u32 \<times> u32 \<times> u32" where
  "fips_round W t = (\<lambda>(a, b, c, d, e).
     (word_rotl 5 a + fips_f t b c d + e + W ! t + fips_K t, a, word_rotl 30 b, c, d))"

definition fips_compress :: "u32 \<times> u32 \<times> u32 \<times> u32 \<times> u32 \<Rightarrow> bytes \<Rightarrow>
    u32 \<times> u32 \<times> u32 \<times> u32 \<times> u32" where
  "fips_compress H block =
     (let W = fips_schedule 64 (fips_words block);
          (h0, h1, h2, h3, h4) = H;
          (a, b, c, d, e) = fold (fips_round W) [0..<80] H
      in (h0 + a, h1 + b, h2 + c, h3 + d, h4 + e))"

function fips_absorb :: "u32 \<times> u32 \<times> u32 \<times> u32 \<times> u32 \<Rightarrow> bytes \<Rightarrow>
    u32 \<times> u32 \<times> u32 \<times> u32 \<times> u32" where
  "fips_absorb H bs =
     (if length bs \<ge> 64 then fips_absorb (fips_compress H (take 64 bs)) (drop 64 bs) else H)"
  by pat_completeness auto
termination
  by (relation "measure (\<lambda>(H, bs). length bs)") auto

declare fips_absorb.simps [simp del]

definition fips_pad :: "bytes \<Rightarrow> bytes" where
  "fips_pad msg =
     msg @ [0x80] @ replicate ((119 - length msg mod 64) mod 64) 0 @
     put_uint32_be (of_nat (8 * length msg div 2 ^ 32)) @ put_uint32_be (of_nat (8 * length msg))"

definition fips_IV :: "u32 \<times> u32 \<times> u32 \<times> u32 \<times> u32" where
  "fips_IV = (0x67452301, 0xEFCDAB89, 0x98BADCFE, 0x10325476, 0xC3D2E1F0)"

definition fips_sha1 :: "bytes \<Rightarrow> bytes" where
  "fips_sha1 msg =
     (let (a, b, c, d, e) = fips_absorb fips_IV (fips_pad msg)
      in put_uint32_be a @ put_uint32_be b @ put_uint32_be c @ put_uint32_be d @ put_uint32_be e)"

section \<open>The rounds agree\<close>

lemma sha_S_rotl: "0 < n \<Longrightarrow> n < 32 \<Longrightarrow> sha_S x n = word_rotl n x"
proof -
  assume n: "0 < n" "n < 32"
  have m: "(0xFFFFFFFF :: u32) = - 1" by simp
  show ?thesis
    unfolding sha_S_def m
  proof (rule bit_word_eqI)
    fix k assume k: "k < LENGTH(32)"
    show "bit (push_bit n x OR drop_bit (32 - n) (x AND - 1)) k = bit (word_rotl n x) k"
    proof (cases "k < n")
      case True
      with n k have "(k + (32 - n)) mod 32 = k + 32 - n" by simp
      with True n k show ?thesis
        by (auto simp: bit_simps add.commute [of k 32] dest: bit_imp_le_length)
    next
      case False
      then obtain j where j: "k = n + j" using le_Suc_ex not_less by blast
      then have "(k + (32 - n)) mod 32 = j" "32 + k - n = 32 + j" using n k by simp_all
      with j n k show ?thesis
        by (auto simp: bit_simps dest: bit_imp_le_length)
    qed
  qed
qed

lemma sha_F0_fips: "t < 20 \<Longrightarrow> sha_F0 x y z = fips_f t x y z"
  unfolding sha_F0_def fips_f_def by (auto intro!: bit_word_eqI simp: bit_simps)

lemma sha_F1_fips: "20 \<le> t \<Longrightarrow> t < 40 \<or> 60 \<le> t \<Longrightarrow> sha_F1 x y z = fips_f t x y z"
  unfolding sha_F1_def fips_f_def by auto

lemma sha_F2_fips: "40 \<le> t \<Longrightarrow> t < 60 \<Longrightarrow> sha_F2 x y z = fips_f t x y z"
  unfolding sha_F2_def fips_f_def by (auto intro!: bit_word_eqI simp: bit_simps)

lemma length_fips_schedule: "length (fips_schedule n M) = length M + n"
  by (induction n) (simp_all add: Let_def)

lemma fips_schedule_nth_mono:
  "k < length M + m \<Longrightarrow> m \<le> n \<Longrightarrow> fips_schedule n M ! k = fips_schedule m M ! k"
  by (induction n) (auto simp: Let_def nth_append length_fips_schedule le_Suc_eq)

lemma fips_schedule_nth:
  assumes "length M = 16" "16 \<le> t" "t < 16 + n"
  shows "fips_schedule n M ! t =
    word_rotl 1 (fips_schedule n M ! (t - 3) XOR fips_schedule n M ! (t - 8) XOR
                 fips_schedule n M ! (t - 14) XOR fips_schedule n M ! (t - 16))"
proof -
  obtain m where t: "t = 16 + m" using assms(2) le_Suc_ex by blast
  with assms have m: "Suc m \<le> n" "m \<le> n" by auto
  have e: "fips_schedule n M ! k = fips_schedule m M ! k" if "k < 16 + m" for k
    using fips_schedule_nth_mono [of k M m n] that m assms(1) by simp
  have "fips_schedule n M ! t = fips_schedule (Suc m) M ! t"
    using fips_schedule_nth_mono [of t M "Suc m" n] m assms(1) t by simp
  also have "\<dots> = word_rotl 1 (fips_schedule m M ! (m + 13) XOR fips_schedule m M ! (m + 8) XOR
      fips_schedule m M ! (m + 2) XOR fips_schedule m M ! m)"
    using assms(1) t by (simp add: Let_def nth_append length_fips_schedule)
  finally show ?thesis
    using e [of "m + 13"] e [of "m + 8"] e [of "m + 2"] e [of m] t by (simp add: add.commute)
qed

text \<open>The circular buffer before round \<open>t\<close> holds the last sixteen words of the schedule.\<close>

definition circular :: "u32 list \<Rightarrow> nat \<Rightarrow> u32 list \<Rightarrow> bool" where
  "circular S t W \<longleftrightarrow> length W = 16 \<and>
     (\<forall>k < max t 16. max t 16 \<le> k + 16 \<longrightarrow> W ! (k mod 16) = S ! k)"

lemma sha_word_schedule:
  assumes "circular (fips_schedule 64 M) t W" "length M = 16" "t < 80"
  shows "fst (sha_word t W) = fips_schedule 64 M ! t \<and>
    circular (fips_schedule 64 M) (t + 1) (snd (sha_word t W))"
proof (cases "t < 16")
  case True
  with assms(1) have "W ! t = fips_schedule 64 M ! t"
    unfolding circular_def by (metis max.absorb4 mod_less le_add2)
  with True assms(1) show ?thesis
    unfolding circular_def sha_word_def by (auto simp: max_def)
next
  case False
  then have t: "16 \<le> t" "max t 16 = t" "max (t + 1) 16 = t + 1" by auto
  let ?S = "fips_schedule 64 M"
  have W: "W ! (k mod 16) = ?S ! k" if "k < t" "t \<le> k + 16" for k
    using assms(1) that t unfolding circular_def by auto
  obtain m where m: "t = m + 16" using t(1) by (metis le_add_diff_inverse2)
  have "W ! (t mod 16) = ?S ! (t - 16)"
    using W [of m] by (simp add: m)
  then have x: "fst (sha_word t W) = ?S ! t"
    using False t W [of "t - 3"] W [of "t - 8"] W [of "t - 14"]
      fips_schedule_nth [OF assms(2) t(1), of 64] assms(3)
    by (simp add: sha_word_def sha_R_def Let_def sha_S_rotl)
  moreover have "snd (sha_word t W) = W[t mod 16 := fst (sha_word t W)]"
    using False by (simp add: sha_word_def sha_R_def Let_def)
  moreover have "W[t mod 16 := ?S ! t] ! (k mod 16) = ?S ! k" if "k < t + 1" "t + 1 \<le> k + 16" for k
  proof (cases "k = t")
    case True
    with assms(1) show ?thesis by (simp add: circular_def)
  next
    case False
    then have k: "k < t" "t \<le> k + 16" using that by auto
    have "k mod 16 \<noteq> t mod 16"
    proof
      assume "k mod 16 = t mod 16"
      then have "16 dvd t - k" using mod_eq_dvd_iff_nat [of k t 16] k(1) by simp
      then show False using k that nat_dvd_not_less [of "t - k" 16] by simp
    qed
    then have "W[t mod 16 := ?S ! t] ! (k mod 16) = W ! (k mod 16)" by (simp only: nth_list_update_neq)
    then show ?thesis using W [OF k] by (simp only:)
  qed
  ultimately show ?thesis
    using assms(1) unfolding circular_def t(3) by simp
qed

text \<open>One use of the macro \<open>P\<close> is one round of the reference, up to the names of the registers.\<close>

lemma sha_P_round:
  assumes "circular (fips_schedule 64 M) t W" "length M = 16" "t < 80"
    and "\<And>x y z. F x y z = fips_f t x y z" "K = fips_K t"
  shows "\<exists>W' e' b'. sha_word t W = (fips_schedule 64 M ! t, W') \<and>
    circular (fips_schedule 64 M) (Suc t) W' \<and>
    sha_P F K a b c d e (fips_schedule 64 M ! t) = (e', b') \<and>
    fips_round (fips_schedule 64 M) t (a, b, c, d, e) = (e', a, b', c, d)"
  using sha_word_schedule [OF assms(1-3)] assms(4,5)
  by (cases "sha_word t W") (auto simp: sha_P_def fips_round_def sha_S_rotl ac_simps)

lemma sha_five_fips:
  assumes c: "circular (fips_schedule 64 M) t W" and M: "length M = 16" and t: "t + 5 \<le> 80"
    and F: "\<And>i x y z. t \<le> i \<Longrightarrow> i < t + 5 \<Longrightarrow> F x y z = fips_f i x y z"
    and K: "\<And>i. t \<le> i \<Longrightarrow> i < t + 5 \<Longrightarrow> K = fips_K i"
  shows "\<exists>W'. sha_five F K t (r, W) = (fold (fips_round (fips_schedule 64 M)) [t..<t + 5] r, W') \<and>
    circular (fips_schedule 64 M) (t + 5) W'"
proof -
  let ?S = "fips_schedule 64 M"
  obtain A B C D E where r: "r = (A, B, C, D, E)" by (cases r)
  obtain W1 E1 B1 where 1: "sha_word t W = (?S ! t, W1)" "circular ?S (Suc t) W1"
    "sha_P F K A B C D E (?S ! t) = (E1, B1)" "fips_round ?S t (A, B, C, D, E) = (E1, A, B1, C, D)"
    using sha_P_round [OF c M, of F K A B C D E] t F [of t] K [of t] by auto
  obtain W2 D1 A1 where 2: "sha_word (Suc t) W1 = (?S ! Suc t, W2)" "circular ?S (Suc (Suc t)) W2"
    "sha_P F K E1 A B1 C D (?S ! Suc t) = (D1, A1)"
    "fips_round ?S (Suc t) (E1, A, B1, C, D) = (D1, E1, A1, B1, C)"
    using sha_P_round [OF 1(2) M, of F K E1 A B1 C D] t F [of "Suc t"] K [of "Suc t"] by auto
  obtain W3 C1 E2 where 3: "sha_word (Suc (Suc t)) W2 = (?S ! Suc (Suc t), W3)"
    "circular ?S (Suc (Suc (Suc t))) W3"
    "sha_P F K D1 E1 A1 B1 C (?S ! Suc (Suc t)) = (C1, E2)"
    "fips_round ?S (Suc (Suc t)) (D1, E1, A1, B1, C) = (C1, D1, E2, A1, B1)"
    using sha_P_round [OF 2(2) M, of F K D1 E1 A1 B1 C] t F [of "Suc (Suc t)"] K [of "Suc (Suc t)"] by auto
  obtain W4 B2 D2 where 4: "sha_word (Suc (Suc (Suc t))) W3 = (?S ! Suc (Suc (Suc t)), W4)"
    "circular ?S (Suc (Suc (Suc (Suc t)))) W4"
    "sha_P F K C1 D1 E2 A1 B1 (?S ! Suc (Suc (Suc t))) = (B2, D2)"
    "fips_round ?S (Suc (Suc (Suc t))) (C1, D1, E2, A1, B1) = (B2, C1, D2, E2, A1)"
    using sha_P_round [OF 3(2) M, of F K C1 D1 E2 A1 B1] t F [of "Suc (Suc (Suc t))"] K [of "Suc (Suc (Suc t))"] by auto
  obtain W5 A2 C2 where 5: "sha_word (Suc (Suc (Suc (Suc t)))) W4 = (?S ! Suc (Suc (Suc (Suc t))), W5)"
    "circular ?S (Suc (Suc (Suc (Suc (Suc t))))) W5"
    "sha_P F K B2 C1 D2 E2 A1 (?S ! Suc (Suc (Suc (Suc t)))) = (A2, C2)"
    "fips_round ?S (Suc (Suc (Suc (Suc t)))) (B2, C1, D2, E2, A1) = (A2, B2, C2, D2, E2)"
    using sha_P_round [OF 4(2) M, of F K B2 C1 D2 E2 A1] t F [of "Suc (Suc (Suc (Suc t)))"]
      K [of "Suc (Suc (Suc (Suc t)))"] by auto
  have u: "[t..<t + 5] = [t, Suc t, Suc (Suc t), Suc (Suc (Suc t)), Suc (Suc (Suc (Suc t)))]"
    "t + 1 = Suc t" "t + 2 = Suc (Suc t)" "t + 3 = Suc (Suc (Suc t))"
    "t + 4 = Suc (Suc (Suc (Suc t)))" "t + 5 = Suc (Suc (Suc (Suc (Suc t))))"
    by (simp_all add: upt_rec)
  have "fold (fips_round ?S) [t..<t + 5] r = (A2, B2, C2, D2, E2)"
    unfolding u(1) r by (simp add: 1 2 3 4 5)
  moreover have "sha_five F K t (r, W) = ((A2, B2, C2, D2, E2), W5)"
    unfolding sha_five_def r u(2-5) by (simp add: 1 2 3 4 5)
  ultimately show ?thesis using 5(2) unfolding u(6) by simp
qed


lemma circular_init: "length M = 16 \<Longrightarrow> circular (fips_schedule 64 M) 0 M"
  unfolding circular_def using fips_schedule_nth_mono [of _ M 0 64] by (auto simp: max_def)

lemma sha_phase_fips:
  assumes c: "circular (fips_schedule 64 M) t W" and M: "length M = 16" and t: "t + 20 \<le> 80"
    and F: "\<And>i x y z. t \<le> i \<Longrightarrow> i < t + 20 \<Longrightarrow> F x y z = fips_f i x y z"
    and K: "\<And>i. t \<le> i \<Longrightarrow> i < t + 20 \<Longrightarrow> K = fips_K i"
  shows "\<exists>W'. sha_phase F K t (r, W) = (fold (fips_round (fips_schedule 64 M)) [t..<t + 20] r, W') \<and>
    circular (fips_schedule 64 M) (t + 20) W'"
proof -
  let ?f = "\<lambda>a b. fold (fips_round (fips_schedule 64 M)) [a..<b]"
  have five: "\<exists>W'. sha_five F K (t + d) (r', V) = (?f (t + d) (t + (d + 5)) r', W') \<and>
      circular (fips_schedule 64 M) (t + (d + 5)) W'"
    if "circular (fips_schedule 64 M) (t + d) V" "d + 5 \<le> 20" for d V r'
    using sha_five_fips [OF that(1) M, of F K r'] that(2) t F K by (simp add: add.assoc)
  have jn: "?f (t + d) (t + e) (?f t (t + d) r) = ?f t (t + e) r" if "d \<le> e" for d e
  proof -
    have "[t..<t + e] = [t..<t + d] @ [t + d..<t + e]"
      using that upt_add_eq_append [of t "t + d" "e - d"] by simp
    then show ?thesis by simp
  qed
  obtain W1 where 1: "sha_five F K t (r, W) = (?f t (t + 5) r, W1)"
    "circular (fips_schedule 64 M) (t + 5) W1"
    using five [of 0 W r] c by auto
  obtain W2 where 2: "sha_five F K (t + 5) (?f t (t + 5) r, W1) = (?f t (t + 10) r, W2)"
    "circular (fips_schedule 64 M) (t + 10) W2"
    using five [OF 1(2), of "?f t (t + 5) r"] jn [of 5 10] by auto
  obtain W3 where 3: "sha_five F K (t + 10) (?f t (t + 10) r, W2) = (?f t (t + 15) r, W3)"
    "circular (fips_schedule 64 M) (t + 15) W3"
    using five [OF 2(2), of "?f t (t + 10) r"] jn [of 10 15] by auto
  obtain W4 where 4: "sha_five F K (t + 15) (?f t (t + 15) r, W3) = (?f t (t + 20) r, W4)"
    "circular (fips_schedule 64 M) (t + 20) W4"
    using five [OF 3(2), of "?f t (t + 15) r"] jn [of 15 20] by auto
  show ?thesis unfolding sha_phase_def by (simp only: 1(1) 2(1) 3(1) 4(1)) (use 4(2) in blast)
qed

text \<open>The 80 unrolled rounds are the 80 rounds of the reference.\<close>

lemma sha_rounds_fips:
  assumes M: "length M = 16"
  shows "fst (sha_rounds_60 (sha_rounds_40 (sha_rounds_20 (sha_rounds_0 (r, M))))) =
    fold (fips_round (fips_schedule 64 M)) [0..<80] r"
proof -
  let ?f = "\<lambda>a b. fold (fips_round (fips_schedule 64 M)) [a..<b]"
  obtain W1 where 1: "sha_rounds_0 (r, M) = (?f 0 20 r, W1)" "circular (fips_schedule 64 M) 20 W1"
    using sha_phase_fips [OF circular_init [OF M] M, of sha_F0 "0x5A827999" r]
    by (auto simp: sha_rounds_0_def sha_F0_fips fips_K_def simp del: upt_rec_numeral)
  obtain W2 where 2: "sha_rounds_20 (?f 0 20 r, W1) = (?f 20 40 (?f 0 20 r), W2)"
    "circular (fips_schedule 64 M) 40 W2"
    using sha_phase_fips [OF 1(2) M, of sha_F1 "0x6ED9EBA1" "?f 0 20 r"]
    by (auto simp: sha_rounds_20_def sha_F1_fips fips_K_def simp del: upt_rec_numeral)
  obtain W3 where 3: "sha_rounds_40 (?f 20 40 (?f 0 20 r), W2) = (?f 40 60 (?f 20 40 (?f 0 20 r)), W3)"
    "circular (fips_schedule 64 M) 60 W3"
    using sha_phase_fips [OF 2(2) M, of sha_F2 "0x8F1BBCDC" "?f 20 40 (?f 0 20 r)"]
    by (auto simp: sha_rounds_40_def sha_F2_fips fips_K_def simp del: upt_rec_numeral)
  obtain W4 where 4: "sha_rounds_60 (?f 40 60 (?f 20 40 (?f 0 20 r)), W3) =
      (?f 60 80 (?f 40 60 (?f 20 40 (?f 0 20 r))), W4)"
    using sha_phase_fips [OF 3(2) M, of sha_F1 "0xCA62C1D6" "?f 40 60 (?f 20 40 (?f 0 20 r))"]
    by (auto simp: sha_rounds_60_def sha_F1_fips fips_K_def simp del: upt_rec_numeral)
  have "[0..<80] = [0..<20] @ [20..<40] @ [40..<60] @ [60..<80]" by code_simp
  then show ?thesis unfolding 1(1) 2(1) 3(1) 4 fst_conv by (simp only: fold_append o_apply)
qed

section \<open>The block function agrees\<close>

lemma or_add_disjoint: "a + b = (a OR b :: 'a::len word)" if "\<And>n. \<not> (bit a n \<and> bit b n)"
  using that by (intro disjunctive_add) blast

lemma be_word_4:
  "push_bit 24 (ucast a) OR push_bit 16 (ucast b) OR push_bit 8 (ucast c) OR ucast d =
   (of_nat (be_value [a, b, c, d]) :: u32)"
proof -
  have "push_bit 24 (ucast a) OR push_bit 16 (ucast b) OR push_bit 8 (ucast c) OR ucast d =
      (push_bit 24 (ucast a) + (push_bit 16 (ucast b) + (push_bit 8 (ucast c) + ucast d)) :: u32)"
    by (subst or_add_disjoint, (auto simp: bit_simps dest: bit_imp_le_length)[1])+ simp
  also have "\<dots> = of_nat (be_value [a, b, c, d])"
    by (simp add: push_bit_eq_mult be_value_def algebra_simps)
  finally show ?thesis .
qed

lemma get_uint32_be_value:
  assumes "i + 4 \<le> length bs"
  shows "get_uint32_be bs i = of_nat (be_value (take 4 (drop i bs)))"
proof -
  have "take 4 (drop i bs) = [bs ! i, bs ! (i + 1), bs ! (i + 2), bs ! (i + 3)]"
    by (rule nth_equalityI) (use assms in \<open>auto simp: less_Suc_eq numeral_eq_Suc\<close>)
  then show ?thesis unfolding get_uint32_be_def by (simp only: be_word_4)
qed

lemma internal_sha1_process_fips:
  assumes "64 \<le> length bs"
  shows "internal_sha1_process ctx bs = ctx\<lparr>sha_state := fips_compress (sha_state ctx) (take 64 bs)\<rparr>"
proof -
  have W: "map (\<lambda>i. get_uint32_be bs (4 * i)) [0..<16] = fips_words (take 64 bs)"
    unfolding fips_words_def
    by (rule map_cong [OF refl])
       (use assms in \<open>auto simp: get_uint32_be_value drop_take min_def simp del: upt_rec_numeral\<close>)
  have len: "length (fips_words (take 64 bs)) = 16" by (simp add: fips_words_def)
  show ?thesis
    unfolding internal_sha1_process_def W Let_def fips_compress_def
    by (simp add: sha_rounds_fips [OF len, symmetric] split: prod.splits del: upt_rec_numeral)
qed


section \<open>Absorbing a message in pieces\<close>

definition sha_tail :: "bytes \<Rightarrow> bytes" where
  "sha_tail m = drop (64 * (length m div 64)) m"

lemma length_sha_tail [simp]: "length (sha_tail m) = length m mod 64"
  by (simp add: sha_tail_def minus_mult_div_eq_mod)

lemma sha_tail_short [simp]: "length m < 64 \<Longrightarrow> sha_tail m = m"
  by (simp add: sha_tail_def)

lemma sha_tail_append: "64 dvd length a \<Longrightarrow> sha_tail (a @ b) = sha_tail b"
proof -
  assume "64 dvd length a"
  then obtain k where "length a = 64 * k" by blast
  then show ?thesis by (simp add: sha_tail_def div_add1_eq)
qed

lemma fips_absorb_short [simp]: "length bs < 64 \<Longrightarrow> fips_absorb H bs = H"
  by (simp add: fips_absorb.simps [of H bs])

lemma fips_absorb_block:
  "length a = 64 \<Longrightarrow> fips_absorb H (a @ b) = fips_absorb (fips_compress H a) b"
  by (simp add: fips_absorb.simps [of H "a @ b"])

lemma fips_absorb_append:
  "length a = 64 * k \<Longrightarrow> fips_absorb H (a @ b) = fips_absorb (fips_absorb H a) b"
proof (induction k arbitrary: H a)
  case (Suc k)
  let ?x = "take 64 a" and ?y = "drop 64 a"
  have x: "length ?x = 64" and y: "length ?y = 64 * k" using Suc.prems by simp_all
  have "fips_absorb H (a @ b) = fips_absorb H (?x @ (?y @ b))"
    by (simp only: append_assoc [symmetric] append_take_drop_id)
  also have "\<dots> = fips_absorb (fips_absorb (fips_compress H ?x) ?y) b"
    by (simp only: fips_absorb_block [OF x] Suc.IH [OF y])
  also have "fips_absorb (fips_compress H ?x) ?y = fips_absorb H (?x @ ?y)"
    by (simp only: fips_absorb_block [OF x])
  finally show ?case by simp
qed simp

lemma sha_split:
  "\<exists>f k. m = f @ sha_tail m \<and> length f = 64 * k \<and> fips_absorb H m = fips_absorb H f"
proof -
  let ?f = "take (64 * (length m div 64)) m"
  have f: "length ?f = 64 * (length m div 64)" by simp
  have m: "m = ?f @ sha_tail m" by (simp add: sha_tail_def)
  have "fips_absorb H (?f @ sha_tail m) = fips_absorb H ?f"
    by (subst fips_absorb_append [OF f]) simp
  with m f show ?thesis by metis
qed

lemma fips_absorb_tail: "fips_absorb H (m @ x) = fips_absorb (fips_absorb H m) (sha_tail m @ x)"
proof -
  obtain f k where f: "m = f @ sha_tail m" "length f = 64 * k" "fips_absorb H m = fips_absorb H f"
    using sha_split by blast
  have "fips_absorb H (m @ x) = fips_absorb H (f @ (sha_tail m @ x))"
    using f(1) by (metis append_assoc)
  then show ?thesis by (simp only: fips_absorb_append [OF f(2)] f(3))
qed

lemma sha_tail_tail: "sha_tail (m @ x) = sha_tail (sha_tail m @ x)"
proof -
  obtain f k where f: "m = f @ sha_tail m" "length f = 64 * k"
    using sha_split by blast
  have "sha_tail (f @ (sha_tail m @ x)) = sha_tail (sha_tail m @ x)"
    by (rule sha_tail_append) (simp add: f(2))
  with f(1) show ?thesis by (metis append_assoc)
qed

lemma sha1_blocks_fips:
  "sha1_blocks ctx inp = (ctx\<lparr>sha_state := fips_absorb (sha_state ctx) inp\<rparr>, sha_tail inp)"
proof (induction ctx inp rule: sha1_blocks.induct)
  case (1 ctx inp)
  show ?case
  proof (cases "64 \<le> length inp")
    case True
    have "sha_tail inp = sha_tail (drop 64 inp)"
      using sha_tail_append [of "take 64 inp" "drop 64 inp"] True by simp
    with 1 [OF True] True show ?thesis
      by (simp add: sha1_blocks.simps [of ctx inp] internal_sha1_process_fips
        fips_absorb.simps [of _ inp])
  next
    case False
    then show ?thesis by (simp add: sha1_blocks.simps [of ctx inp])
  qed
qed

section \<open>The context represents the message so far\<close>

definition sha_rep :: "sha1_context \<Rightarrow> bytes \<Rightarrow> bool" where
  "sha_rep ctx m \<longleftrightarrow>
     sha_state ctx = fips_absorb fips_IV m \<and> length (sha_buffer ctx) = 64 \<and>
     take (length m mod 64) (sha_buffer ctx) = sha_tail m \<and>
     total0 ctx = of_nat (length m) \<and> total1 ctx = of_nat (length m div 2 ^ 32)"

lemma sha_rep_starts: "sha_rep (sha1_starts sha1_init) []"
  by (simp add: sha_rep_def sha1_starts_def sha1_init_def fips_IV_def)

lemma and_0x3F: "unat ((of_nat n :: u32) AND 0x3F) = n mod 64"
proof -
  have "(of_nat n :: u32) AND 0x3F = take_bit 6 (of_nat n)"
    by (simp add: take_bit_eq_mask mask_eq_exp_minus_1)
  then have "unat ((of_nat n :: u32) AND 0x3F) = take_bit 6 (unat (of_nat n :: u32))"
    by (simp add: unsigned_take_bit_eq)
  also have "\<dots> = n mod 2 ^ 32 mod 64" by (simp add: take_bit_eq_mod unat_of_nat)
  also have "\<dots> = n mod 64" by (rule mod_mod_cancel) simp
  finally show ?thesis .
qed

text \<open>The carry into the high word is detected by the wrap-around of the low word.\<close>

lemma carry_nat:
  fixes N :: nat
  assumes "n < N"
  shows "(l + n) div N = l div N + (if N \<le> l mod N + n then 1 else 0)"
    and "(l + n) mod N < n \<longleftrightarrow> N \<le> l mod N + n"
proof -
  have q: "(l + n) div N = l div N + (l mod N + n) div N"
  proof -
    have "l + n = (l mod N + n) + l div N * N" by simp
    moreover have "((l mod N + n) + l div N * N) div N = l div N + (l mod N + n) div N"
      by (rule div_mult_self1) (use assms in auto)
    ultimately show ?thesis by (simp only:)
  qed
  have r: "(l + n) mod N = (l mod N + n) mod N" by (simp add: mod_add_left_eq)
  define x where "x = l mod N"
  have b: "x < N" using assms by (simp add: x_def)
  have d: "(x + n) div N = (if N \<le> x + n then 1 else 0) \<and> ((x + n) mod N < n \<longleftrightarrow> N \<le> x + n)"
  proof (cases "N \<le> x + n")
    case True
    then have "x + n - N < N" using assms b by linarith
    with True assms b show ?thesis by (simp add: le_div_geq le_mod_geq)
  qed simp
  then show "(l + n) div N = l div N + (if N \<le> l mod N + n then 1 else 0)"
    unfolding q x_def by (simp only:)
  show "(l + n) mod N < n \<longleftrightarrow> N \<le> l mod N + n"
    unfolding r using d unfolding x_def by (simp only:)
qed

lemma total_carry:
  assumes "n < 2 ^ 32"
  shows "(of_nat ((l + n) div 2 ^ 32) :: u32) =
    of_nat (l div 2 ^ 32) + (if (of_nat l + of_nat n :: u32) < of_nat n then 1 else 0)"
proof -
  have L: "LENGTH(32) = 32" by simp
  have "unat (of_nat (l + n) :: u32) = (l + n) mod 2 ^ 32" "unat (of_nat n :: u32) = n mod 2 ^ 32"
    by (simp_all only: unat_of_nat L)
  then have "(of_nat l + of_nat n :: u32) < of_nat n \<longleftrightarrow> (l + n) mod 2 ^ 32 < n"
    using assms by (simp only: word_less_nat_alt of_nat_add [symmetric] mod_less)
  then show ?thesis
    unfolding carry_nat(1) [OF assms] carry_nat(2) [OF assms] by simp
qed

text \<open>The two ways an update ends: the rest goes to the front of the buffer, or behind what
  the buffer holds.\<close>

lemma sha_fill_front:
  "length (sha_buffer ctx) = 64 \<Longrightarrow> length r < 64 \<Longrightarrow>
   length (sha_buffer (if length r > 0 then sha1_fill ctx 0 r else ctx)) = 64 \<and>
   take (length r) (sha_buffer (if length r > 0 then sha1_fill ctx 0 r else ctx)) = r"
  by (simp add: sha1_fill_def)

lemma sha1_update_rep:
  assumes rep: "sha_rep ctx m" and n: "length inp < 2 ^ 32"
  shows "sha_rep (sha1_update ctx inp) (m @ inp)"
proof (cases "inp = []")
  case True
  with rep show ?thesis by (simp add: sha1_update_def)
next
  case ne: False
  define H where "H = fips_absorb fips_IV m"
  define tl' where "tl' = sha_tail m"
  define l where "l = length m mod 64"
  have ltl: "length tl' = l" "l < 64" by (simp_all add: tl'_def l_def)
  have buf: "length (sha_buffer ctx) = 64" "take l (sha_buffer ctx) = tl'" and st: "sha_state ctx = H"
    and tot: "total0 ctx = of_nat (length m)" "total1 ctx = of_nat (length m div 2 ^ 32)"
    using rep by (simp_all add: sha_rep_def l_def tl'_def H_def)
  define c1 where "c1 = (let c = ctx\<lparr>total0 := total0 ctx + of_nat (length inp)\<rparr>;
      c = c\<lparr>total0 := total0 c AND 0xFFFFFFFF\<rparr>
    in if total0 c < of_nat (length inp) then c\<lparr>total1 := total1 c + 1\<rparr> else c)"
  have ones: "(0xFFFFFFFF :: u32) = - 1" by simp
  have ff: "x AND 0xFFFFFFFF = x" for x :: u32 unfolding ones by simp
  have c1: "sha_buffer c1 = sha_buffer ctx" "sha_state c1 = H"
    "total0 c1 = of_nat (length (m @ inp))" "total1 c1 = of_nat (length (m @ inp) div 2 ^ 32)"
    using tot st total_carry [OF n, of "length m"] by (simp_all add: c1_def Let_def ff)
  have u: "sha1_update ctx inp =
    (let (c2, inp', left) =
       (if l \<noteq> 0 \<and> length inp \<ge> 64 - l then
          let c = sha1_fill c1 l (take (64 - l) inp)
          in (internal_sha1_process c (sha_buffer c), drop (64 - l) inp, 0)
        else (c1, inp, l));
       (c3, r) = sha1_blocks c2 inp'
     in if length r > 0 then sha1_fill c3 left r else c3)"
    unfolding sha1_update_def c1_def l_def Let_def tot(1) and_0x3F using ne by simp
  have goal: "sha_rep c (m @ inp)" if "sha_state c = fips_absorb H (tl' @ inp)"
    "length (sha_buffer c) = 64" "take (length (sha_tail (tl' @ inp))) (sha_buffer c) = sha_tail (tl' @ inp)"
    "total0 c = total0 c1" "total1 c = total1 c1" for c
  proof -
    have "length (m @ inp) mod 64 = length (sha_tail (tl' @ inp))"
      unfolding tl'_def sha_tail_tail [symmetric] by simp
    with that c1 show ?thesis
      unfolding sha_rep_def H_def tl'_def
      by (simp only: fips_absorb_tail [symmetric] sha_tail_tail [symmetric])
  qed
  show ?thesis
  proof (cases "l \<noteq> 0 \<and> length inp \<ge> 64 - l")
    case True
    define c where "c = sha1_fill c1 l (take (64 - l) inp)"
    have blk: "sha_buffer c = tl' @ take (64 - l) inp" "length (sha_buffer c) = 64" "sha_state c = H"
      using True buf c1 ltl by (simp_all add: c_def sha1_fill_def)
    have split: "tl' @ inp = sha_buffer c @ drop (64 - l) inp" using blk(1) by simp
    have ab: "fips_absorb H (tl' @ inp) = fips_absorb (fips_compress H (sha_buffer c)) (drop (64 - l) inp)"
      unfolding split by (rule fips_absorb_block [OF blk(2)])
    have ta: "sha_tail (tl' @ inp) = sha_tail (drop (64 - l) inp)"
      unfolding split by (rule sha_tail_append) (simp add: blk(2))
    have p: "internal_sha1_process c (sha_buffer c) = c\<lparr>sha_state := fips_compress H (sha_buffer c)\<rparr>"
      using internal_sha1_process_fips [of "sha_buffer c" c] blk(2,3)
      by (simp only: order_refl take_all)
    define c3 where "c3 = c\<lparr>sha_state := fips_absorb (fips_compress H (sha_buffer c)) (drop (64 - l) inp)\<rparr>"
    define r where "r = sha_tail (drop (64 - l) inp)"
    have e: "sha1_update ctx inp = (if length r > 0 then sha1_fill c3 0 r else c3)"
      unfolding u using True
      by (simp add: Let_def c_def [symmetric] p sha1_blocks_fips c3_def [symmetric] r_def [symmetric])
    have t: "total0 c3 = total0 c1" "total1 c3 = total1 c1"
      by (simp_all add: c3_def c_def sha1_fill_def)
    have f: "length r < 64" "length (sha_buffer c3) = 64" "sha_state c3 = fips_absorb H (tl' @ inp)"
      using blk(2) ab by (simp_all add: r_def c3_def)
    show ?thesis
      unfolding e using sha_fill_front [OF f(2,1)] f t ta [folded r_def]
      by (intro goal) (simp_all add: sha1_fill_def)
  next
    case False
    show ?thesis
    proof (cases "l = 0")
      case True
      then have "tl' = []" using ltl by simp
      moreover have "sha_tail inp = [] \<Longrightarrow> length inp mod 64 = 0"
        using length_sha_tail [of inp] by simp
      ultimately show ?thesis
        unfolding u using True by (intro goal) (auto simp: sha1_blocks_fips c1 buf sha1_fill_def)
    next
      case l0: False
      with False have sh: "length inp < 64 - l" by simp
      then have "\<not> 64 \<le> length inp" by linarith
      then have b: "sha1_blocks c1 inp = (c1, inp)"
        by (simp add: sha1_blocks.simps [of c1 inp])
      from sh have "length (tl' @ inp) < 64" using ltl by simp
      then have "sha_tail (tl' @ inp) = tl' @ inp" "fips_absorb H (tl' @ inp) = H"
        by (rule sha_tail_short, intro fips_absorb_short)
      with False l0 b ne buf ltl sh c1 show ?thesis
        unfolding u by (intro goal) (simp_all add: sha1_fill_def)
    qed
  qed
qed


section \<open>Padding and the digest\<close>

lemma put_uint32_be_length [simp]: "length (put_uint32_be x) = 4"
  by (simp add: put_uint32_be_def)

text \<open>Filling behind a prefix, seen from the front of the buffer.\<close>

lemma sha1_fill_prefix:
  assumes "length (sha_buffer c) = 64" "take off (sha_buffer c) = p" "off + length bs = off'"
    and "off' \<le> 64"
  shows "length (sha_buffer (sha1_fill c off bs)) = 64"
    and "take off' (sha_buffer (sha1_fill c off bs)) = p @ bs"
  using assms by (auto simp: sha1_fill_def)

lemma sha1_fill_state [simp]: "sha_state (sha1_fill c off bs) = sha_state c"
  by (simp add: sha1_fill_def)

lemma pad_zeros:
  "l < 64 \<Longrightarrow> (119 - l) mod 64 = (if l \<le> 55 then 55 - l else 119 - l :: nat)"
proof -
  assume l: "l < 64"
  show ?thesis
  proof (cases "l \<le> 55")
    case True
    then have e: "119 - l = (55 - l) + 64" using l by linarith
    have "((55 - l) + 64) mod 64 = (55 - l) mod 64" by (rule mod_add_self2)
    also have "\<dots> = 55 - l" by (rule mod_less) simp
    finally show ?thesis unfolding e using True by (simp only: if_True)
  next
    case False
    then show ?thesis using l by simp
  qed
qed

text \<open>The two words of the bit length, shifted out of the byte count.\<close>

lemma length_high:
  "drop_bit 29 (of_nat n) OR push_bit 3 (of_nat (n div 2 ^ 32)) = (of_nat (8 * n div 2 ^ 32) :: u32)"
proof -
  have L: "LENGTH(32) = 32" by simp
  have E: "drop_bit 29 (of_nat n :: u32) OR push_bit 3 (of_nat (n div 2 ^ 32)) =
      drop_bit 29 (of_nat n :: u32) + push_bit 3 (of_nat (n div 2 ^ 32))"
    by (rule or_add_disjoint [symmetric]) (auto simp: bit_simps dest: bit_imp_le_length)
  have A: "drop_bit 29 (of_nat n :: u32) = of_nat (n mod 2 ^ 32 div 2 ^ 29)"
  proof (rule word_unat_eq_iff [THEN iffD2])
    have "unat (drop_bit 29 (of_nat n :: u32)) = drop_bit 29 (unat (of_nat n :: u32))"
      by (rule unat_drop_bit_eq)
    then have "unat (drop_bit 29 (of_nat n :: u32)) = n mod 2 ^ 32 div 2 ^ 29"
      by (simp only: drop_bit_eq_div unat_of_nat L)
    moreover have "n mod 2 ^ 32 div 2 ^ 29 < (2 :: nat) ^ 32"
      by (rule le_less_trans [OF div_le_dividend]) (rule mod_less_divisor, simp)
    ultimately show "unat (drop_bit 29 (of_nat n :: u32)) =
        unat (of_nat (n mod 2 ^ 32 div 2 ^ 29) :: u32)"
      by (simp only: unat_of_nat L mod_less)
  qed
  have B: "push_bit 3 (of_nat (n div 2 ^ 32) :: u32) = of_nat (8 * (n div 2 ^ 32))"
    by (simp add: push_bit_eq_mult)
  have C: "of_nat (n mod 2 ^ 32 div 2 ^ 29) + of_nat (8 * (n div 2 ^ 32)) =
      (of_nat (8 * n div 2 ^ 32) :: u32)"
  proof -
    have "8 * n div 2 ^ 32 = n div 2 ^ 29" by (simp add: div_mult2_eq)
    also have "\<dots> = (n mod 2 ^ 32 + n div 2 ^ 32 * 8 * 2 ^ 29) div 2 ^ 29"
    proof -
      have "n = n mod 2 ^ 32 + n div 2 ^ 32 * 8 * 2 ^ 29"
        using div_mult_mod_eq [of n "2 ^ 32"] by (simp add: mult.assoc)
      then show ?thesis by (rule arg_cong)
    qed
    also have "\<dots> = n div 2 ^ 32 * 8 + n mod 2 ^ 32 div 2 ^ 29"
      by (rule div_mult_self1) simp
    finally show ?thesis by (simp only: of_nat_add [symmetric] add.commute mult.commute)
  qed
  show ?thesis by (rule trans [OF E]) (unfold A B, rule C)
qed

lemma length_low: "push_bit 3 (of_nat n) = (of_nat (8 * n) :: u32)"
  by (simp add: push_bit_eq_mult)

lemma sha1_finish_fips:
  assumes rep: "sha_rep ctx m"
  shows "snd (sha1_finish ctx) = fips_sha1 m"
proof -
  define l where "l = length m mod 64"
  define H where "H = fips_absorb fips_IV m"
  define hi where "hi = put_uint32_be (of_nat (8 * length m div 2 ^ 32))"
  define lo where "lo = put_uint32_be (of_nat (8 * length m))"
  have l: "l < 64" "length (sha_tail m) = l" by (simp_all add: l_def)
  have len: "length hi = 4" "length lo = 4" by (simp_all add: hi_def lo_def)
  have buf: "length (sha_buffer ctx) = 64" "take l (sha_buffer ctx) = sha_tail m"
    and st: "sha_state ctx = H"
    and tot: "total0 ctx = of_nat (length m)" "total1 ctx = of_nat (length m div 2 ^ 32)"
    using rep by (simp_all add: sha_rep_def l_def H_def)
  have used: "unat (total0 ctx AND 0x3F) = l" unfolding tot(1) and_0x3F l_def ..
  define c3 where "c3 = (let c = sha1_fill ctx l [0x80] in
     if l + 1 \<le> 56 then sha1_fill c (l + 1) (replicate (56 - (l + 1)) 0)
     else sha1_fill (internal_sha1_process (sha1_fill c (l + 1) (replicate (64 - (l + 1)) 0))
       (sha_buffer (sha1_fill c (l + 1) (replicate (64 - (l + 1)) 0)))) 0 (replicate 56 0))"
  have fin: "snd (sha1_finish ctx) =
     (let c = sha1_fill (sha1_fill c3 56 hi) 60 lo;
          (A, B, C, D, E) = sha_state (internal_sha1_process c (sha_buffer c))
      in put_uint32_be A @ put_uint32_be B @ put_uint32_be C @ put_uint32_be D @ put_uint32_be E)"
  proof -
    have t: "total0 c3 = total0 ctx" "total1 c3 = total1 ctx"
      by (simp_all add: c3_def Let_def sha1_fill_def internal_sha1_process_def split: prod.splits)
    have t': "total0 (sha1_fill x n b) = total0 x" "total1 (sha1_fill x n b) = total1 x" for x n b
      by (simp_all add: sha1_fill_def)
    show ?thesis
      unfolding sha1_finish_def Let_def used
      unfolding c3_def [unfolded Let_def, symmetric] t t' tot length_high length_low [of "length m"] hi_def [symmetric]
        lo_def [symmetric]
      by (simp split: prod.splits)
  qed
  have "fips_absorb fips_IV (fips_pad m) =
     sha_state (internal_sha1_process (sha1_fill (sha1_fill c3 56 hi) 60 lo)
       (sha_buffer (sha1_fill (sha1_fill c3 56 hi) 60 lo)))"
  proof (cases "l \<le> 55")
    case True
    define blk where "blk = sha_tail m @ [0x80] @ replicate (55 - l) 0 @ hi @ lo"
    have blk: "length blk = 64" using True l len by (simp add: blk_def)
    have c3: "c3 = sha1_fill (sha1_fill ctx l [0x80]) (l + 1) (replicate (55 - l) 0)"
      using True by (simp add: c3_def)
    let ?x1 = "sha1_fill ctx l [0x80]"
    let ?x2 = "sha1_fill ?x1 (l + 1) (replicate (55 - l) 0)"
    let ?x3 = "sha1_fill ?x2 56 hi"
    have d: "l + length [0x80 :: u8] = l + 1" "l + 1 \<le> 64"
      "l + 1 + length (replicate (55 - l) (0 :: u8)) = 56" "56 + length hi = 60" "60 + length lo = 64"
      "(56 :: nat) \<le> 64" "(60 :: nat) \<le> 64"
      using True l len by simp_all
    have f1: "length (sha_buffer ?x1) = 64" "take (l + 1) (sha_buffer ?x1) = sha_tail m @ [0x80]"
      by (rule sha1_fill_prefix [OF buf d(1,2)])+
    have f2: "length (sha_buffer ?x2) = 64"
      "take 56 (sha_buffer ?x2) = (sha_tail m @ [0x80]) @ replicate (55 - l) 0"
      by (rule sha1_fill_prefix [OF f1 d(3,6)])+
    have f3: "length (sha_buffer ?x3) = 64"
      "take 60 (sha_buffer ?x3) = ((sha_tail m @ [0x80]) @ replicate (55 - l) 0) @ hi"
      by (rule sha1_fill_prefix [OF f2 d(4,7)])+
    have "length (sha_buffer (sha1_fill ?x3 60 lo)) = 64"
      "take 64 (sha_buffer (sha1_fill ?x3 60 lo)) =
        (((sha_tail m @ [0x80]) @ replicate (55 - l) 0) @ hi) @ lo"
      by (rule sha1_fill_prefix [OF f3 d(5) order_refl])+
    then have b: "sha_buffer (sha1_fill (sha1_fill c3 56 hi) 60 lo) = blk"
      "sha_state (sha1_fill (sha1_fill c3 56 hi) 60 lo) = H"
      using st by (simp_all add: c3 blk_def)
    have "fips_absorb fips_IV (fips_pad m) = fips_absorb H (blk @ [])"
      unfolding fips_pad_def fips_absorb_tail [of _ m] H_def blk_def hi_def [symmetric] lo_def [symmetric]
      using True l pad_zeros [of l] by (simp add: l_def)
    then show ?thesis
      unfolding fips_absorb_block [OF blk] using b blk by (simp add: internal_sha1_process_fips)
  next
    case False
    define b1 where "b1 = sha_tail m @ [0x80] @ replicate (63 - l) 0"
    define b2 where "b2 = replicate 56 0 @ hi @ lo"
    have len12: "length b1 = 64" "length b2 = 64" using False l len by (simp_all add: b1_def b2_def)
    define c where "c = sha1_fill (sha1_fill ctx l [0x80]) (l + 1) (replicate (63 - l) 0)"
    have d: "l + length [0x80 :: u8] = l + 1" "l + 1 \<le> 64"
      "l + 1 + length (replicate (63 - l) (0 :: u8)) = 64"
      using False l by simp_all
    have f1: "length (sha_buffer (sha1_fill ctx l [0x80])) = 64"
      "take (l + 1) (sha_buffer (sha1_fill ctx l [0x80])) = sha_tail m @ [0x80]"
      by (rule sha1_fill_prefix [OF buf d(1,2)])+
    have "length (sha_buffer c) = 64"
      "take 64 (sha_buffer c) = (sha_tail m @ [0x80]) @ replicate (63 - l) 0"
      unfolding c_def by (rule sha1_fill_prefix [OF f1 d(3) order_refl])+
    then have c: "sha_buffer c = b1" "sha_state c = H"
      using st by (simp_all add: c_def b1_def)
    have c3: "c3 = sha1_fill (internal_sha1_process c b1) 0 (replicate 56 0)"
      using False c(1) by (simp add: c3_def c_def)
    have b: "sha_buffer (sha1_fill (sha1_fill c3 56 hi) 60 lo) = b2"
      "sha_state (sha1_fill (sha1_fill c3 56 hi) 60 lo) = fips_compress H b1"
      using c len12 len by (simp_all add: c3 b2_def sha1_fill_def internal_sha1_process_fips)
    have z: "replicate (119 - l) 0 = replicate (63 - l) (0 :: u8) @ replicate 56 0"
      unfolding replicate_add [symmetric] using False l by simp
    have "fips_absorb fips_IV (fips_pad m) = fips_absorb H (b1 @ (b2 @ []))"
      unfolding fips_pad_def fips_absorb_tail [of _ m] H_def b1_def b2_def hi_def [symmetric] lo_def [symmetric]
      using False l pad_zeros [of l] z by (simp add: l_def)
    then show ?thesis
      unfolding fips_absorb_block [OF len12(1)] fips_absorb_block [OF len12(2)]
      using b len12 by (simp add: internal_sha1_process_fips)
  qed
  then show ?thesis unfolding fin fips_sha1_def Let_def by simp
qed

section \<open>The interface of an incremental hash\<close>

locale incremental_hash =
  fixes start :: 'c
    and update :: "'c \<Rightarrow> bytes \<Rightarrow> 'c"
    and finish :: "'c \<Rightarrow> bytes"
    and rep :: "'c \<Rightarrow> bytes \<Rightarrow> bool"
    and small :: "bytes \<Rightarrow> bool"
    and hash :: "bytes \<Rightarrow> bytes"
  assumes rep_start: "rep start []"
    and rep_update: "rep c m \<Longrightarrow> small b \<Longrightarrow> rep (update c b) (m @ b)"
    and finish_hash: "rep c m \<Longrightarrow> finish c = hash m"
begin

lemma rep_updates: "rep c m \<Longrightarrow> list_all small bs \<Longrightarrow> rep (fold (\<lambda>b c. update c b) bs c) (m @ concat bs)"
proof (induction bs arbitrary: c m)
  case (Cons b bs)
  then have "rep (update c b) (m @ b)" by (simp add: rep_update)
  with Cons show ?case by fastforce
qed simp

lemma hash_pieces: "list_all small bs \<Longrightarrow> finish (fold (\<lambda>b c. update c b) bs start) = hash (concat bs)"
  using rep_updates [OF rep_start] finish_hash by force

end

interpretation sha1: incremental_hash "sha1_starts sha1_init" sha1_update "\<lambda>c. snd (sha1_finish c)"
  sha_rep "\<lambda>b. length b < 2 ^ 32" fips_sha1
  by unfold_locales (rule sha_rep_starts, rule sha1_update_rep, assumption+, rule sha1_finish_fips)

lemma length_fips_sha1: "length (fips_sha1 m) = 20"
  by (simp add: fips_sha1_def split: prod.splits)

lemma server_hash_fips:
  "length nonce < 2 ^ 32 \<Longrightarrow> server_hash nonce = fips_sha1 (nonce @ sha_guid)"
  using sha1.hash_pieces [of "[nonce, sha_guid]"] by (simp add: server_hash_def sha_guid_def)

end
