(* ===== verification/Http_Chars.thy ===== *)
theory Http_Chars
  imports Wic_Prelude
begin

text \<open>
  The character tables and classes of \<open>src/http_parser.c\<close>, strict mode. A \<open>char\<close> is kept as
  the byte it is; every use in the code is an equality, a range inside ASCII, or goes through
  \<open>unsigned char\<close>, so its sign does not matter.
\<close>

text \<open>A character literal as a byte.\<close>

definition ch8 :: "char \<Rightarrow> u8" where
  "ch8 c = of_char c"

declare ch8_def [simp]

abbreviation (input) CR :: u8 where "CR \<equiv> 13"
abbreviation (input) LF :: u8 where "LF \<equiv> 10"
abbreviation (input) HTAB :: u8 where "HTAB \<equiv> 9"
abbreviation (input) SPACE :: u8 where "SPACE \<equiv> 32"

section \<open>Tables\<close>

text \<open>The second half of each table is zero in the code (it has no initialiser there).\<close>

definition tokens :: "u8 list" where
  "tokens =
     [0, 0, 0, 0, 0, 0, 0, 0, 0, 0, 0, 0, 0, 0, 0, 0] @
     [0, 0, 0, 0, 0, 0, 0, 0, 0, 0, 0, 0, 0, 0, 0, 0] @
     [32, 33, 0, 35, 36, 37, 38, 39, 0, 0, 42, 43, 0, 45, 46, 0] @
     [48, 49, 50, 51, 52, 53, 54, 55, 56, 57, 0, 0, 0, 0, 0, 0] @
     [0, 97, 98, 99, 100, 101, 102, 103, 104, 105, 106, 107, 108, 109, 110, 111] @
     [112, 113, 114, 115, 116, 117, 118, 119, 120, 121, 122, 0, 0, 0, 94, 95] @
     [96, 97, 98, 99, 100, 101, 102, 103, 104, 105, 106, 107, 108, 109, 110, 111] @
     [112, 113, 114, 115, 116, 117, 118, 119, 120, 121, 122, 0, 124, 0, 126, 0] @ replicate 128 0"

definition unhex :: "int list" where
  "unhex =
     [-1, -1, -1, -1, -1, -1, -1, -1, -1, -1, -1, -1, -1, -1, -1, -1] @
     [-1, -1, -1, -1, -1, -1, -1, -1, -1, -1, -1, -1, -1, -1, -1, -1] @
     [-1, -1, -1, -1, -1, -1, -1, -1, -1, -1, -1, -1, -1, -1, -1, -1] @
     [0, 1, 2, 3, 4, 5, 6, 7, 8, 9, -1, -1, -1, -1, -1, -1] @
     [-1, 10, 11, 12, 13, 14, 15, -1, -1, -1, -1, -1, -1, -1, -1, -1] @
     [-1, -1, -1, -1, -1, -1, -1, -1, -1, -1, -1, -1, -1, -1, -1, -1] @
     [-1, 10, 11, 12, 13, 14, 15, -1, -1, -1, -1, -1, -1, -1, -1, -1] @
     [-1, -1, -1, -1, -1, -1, -1, -1, -1, -1, -1, -1, -1, -1, -1, -1] @ replicate 128 0"

definition normal_url_char :: "u8 list" where
  "normal_url_char =
     [0, 0, 0, 0, 246, 255, 255, 127, 255, 255, 255, 255, 255, 255, 255, 127] @ replicate 16 0"

definition BIT_AT :: "u8 list \<Rightarrow> u8 \<Rightarrow> bool" where
  "BIT_AT a i \<longleftrightarrow> a ! (unat i div 8) AND push_bit (unat i mod 8) 1 \<noteq> 0"

section \<open>Classes\<close>

definition LOWER :: "u8 \<Rightarrow> u8" where
  "LOWER c = c OR 0x20"

definition IS_ALPHA :: "u8 \<Rightarrow> bool" where
  "IS_ALPHA c \<longleftrightarrow> ch8 CHR ''a'' \<le> LOWER c \<and> LOWER c \<le> ch8 CHR ''z''"

definition IS_NUM :: "u8 \<Rightarrow> bool" where
  "IS_NUM c \<longleftrightarrow> ch8 CHR ''0'' \<le> c \<and> c \<le> ch8 CHR ''9''"

definition IS_ALPHANUM :: "u8 \<Rightarrow> bool" where
  "IS_ALPHANUM c \<longleftrightarrow> IS_ALPHA c \<or> IS_NUM c"

definition IS_HEX :: "u8 \<Rightarrow> bool" where
  "IS_HEX c \<longleftrightarrow> IS_NUM c \<or> ch8 CHR ''a'' \<le> LOWER c \<and> LOWER c \<le> ch8 CHR ''f''"

definition IS_MARK :: "u8 \<Rightarrow> bool" where
  "IS_MARK c \<longleftrightarrow> c \<in> set (ascii ''-_.!~*'') \<or> c = ch8 CHR 0x27 \<or> c = ch8 CHR ''('' \<or> c = ch8 CHR '')''"

definition IS_USERINFO_CHAR :: "u8 \<Rightarrow> bool" where
  "IS_USERINFO_CHAR c \<longleftrightarrow> IS_ALPHANUM c \<or> IS_MARK c \<or> c \<in> set (ascii ''%;:&=+$,'')"

definition TOKEN :: "u8 \<Rightarrow> u8" where
  "TOKEN c = (if c = SPACE then 0 else tokens ! unat c)"

definition IS_URL_CHAR :: "u8 \<Rightarrow> bool" where
  "IS_URL_CHAR c = BIT_AT normal_url_char c"

definition IS_HOST_CHAR :: "u8 \<Rightarrow> bool" where
  "IS_HOST_CHAR c \<longleftrightarrow> IS_ALPHANUM c \<or> c = ch8 CHR ''.'' \<or> c = ch8 CHR ''-''"

definition IS_HEADER_CHAR :: "u8 \<Rightarrow> bool" where
  "IS_HEADER_CHAR c \<longleftrightarrow> c = CR \<or> c = LF \<or> c = 9 \<or> 31 < c \<and> c \<noteq> 127"

section \<open>What the tables say\<close>

text \<open>A token is a visible ASCII character that is not a separator of RFC 2616; the table also
  maps it to lower case.\<close>

definition separator :: "u8 \<Rightarrow> bool" where
  "separator c \<longleftrightarrow> c \<in> set (ascii ''()<>@,;:/[]?={} '') \<or> c \<in> {9, 34, 92}"

text \<open>A table given by a function of the byte.\<close>

lemma table_nth:
  assumes "xs = map (\<lambda>i. f (word_of_int i)) [0..255]"
  shows "xs ! unat (c :: u8) = f c"
proof -
  have "unat c < 256" by simp
  then have "[0..255] ! unat c = int (unat c)" by (subst nth_upto) linarith+
  with assms \<open>unat c < 256\<close> show ?thesis by simp
qed

lemma tokens_eq:
  "tokens = map (\<lambda>i. let c = word_of_int i in
     if c = 32 then 32 else if 32 < c \<and> c < 127 \<and> \<not> separator c then (if IS_ALPHA c then LOWER c else c) else 0) [0..255]"
  by code_simp

lemma TOKEN_eq:
  "TOKEN c = (if 32 < c \<and> c < 127 \<and> \<not> separator c then (if IS_ALPHA c then LOWER c else c) else 0)"
  using table_nth [OF tokens_eq [unfolded Let_def], of c] by (auto simp: TOKEN_def)

lemma url_bit_eq:
  "map (\<lambda>i. BIT_AT normal_url_char (word_of_int i)) [0..255] =
   map (\<lambda>i. let c = word_of_int i :: u8 in 32 < c \<and> c < 127 \<and> c \<noteq> 35 \<and> c \<noteq> 63) [0..255]"
  by code_simp

lemma IS_URL_CHAR_eq: "IS_URL_CHAR c \<longleftrightarrow> 32 < c \<and> c < 127 \<and> c \<noteq> 35 \<and> c \<noteq> 63"
  using table_nth [OF url_bit_eq [unfolded Let_def], of c]
    table_nth [OF refl, of "BIT_AT normal_url_char" c] by (simp add: IS_URL_CHAR_def)

lemma unhex_table:
  "unhex = map (\<lambda>i. let c = word_of_int i in if c < 128 then if IS_NUM c then uint c - 48
     else if IS_HEX c then uint (LOWER c) - 87 else -1 else 0) [0..255]"
  by code_simp


text \<open>Letters, as ranges.\<close>

lemma alpha_table:
  "map (\<lambda>i. IS_ALPHA (word_of_int i)) [0..255] =
   map (\<lambda>i. let c = word_of_int i :: u8 in 65 \<le> c \<and> c \<le> 90 \<or> 97 \<le> c \<and> c \<le> 122) [0..255]"
  by code_simp

lemma IS_ALPHA_eq: "IS_ALPHA c \<longleftrightarrow> 65 \<le> c \<and> c \<le> 90 \<or> 97 \<le> c \<and> c \<le> 122"
  using table_nth [OF alpha_table [unfolded Let_def], of c] table_nth [OF refl, of IS_ALPHA c] by simp

lemma IS_NUM_eq: "IS_NUM c \<longleftrightarrow> 48 \<le> c \<and> c \<le> 57"
  by (simp add: IS_NUM_def)

lemma IS_HOST_CHAR_eq: "IS_HOST_CHAR c \<longleftrightarrow> IS_ALPHA c \<or> IS_NUM c \<or> c = 46 \<or> c = 45"
  by (simp add: IS_HOST_CHAR_def IS_ALPHANUM_def)

end
