(* ===== verification/Http_Url.thy ===== *)
theory Http_Url
  imports Http_Chars Http_Types
begin

text \<open>
  The URL parser of \<open>src/http_parser.c\<close>: the character automaton \<open>parse_url_char\<close>, the scan
  that records where the fields are, the second scan of the host, and the port number. A URL
  is the list of its bytes; \<open>p - buf\<close> is the index of the byte.
\<close>

section \<open>The result structure\<close>

datatype http_parser_url_fields =
  UF_SCHEMA | UF_HOST | UF_PORT | UF_PATH | UF_QUERY | UF_FRAGMENT | UF_USERINFO

fun uf_bit :: "http_parser_url_fields \<Rightarrow> u16" where
  "uf_bit UF_SCHEMA = 1"
| "uf_bit UF_HOST = 2"
| "uf_bit UF_PORT = 4"
| "uf_bit UF_PATH = 8"
| "uf_bit UF_QUERY = 16"
| "uf_bit UF_FRAGMENT = 32"
| "uf_bit UF_USERINFO = 64"

record url_field =
  uf_off :: u16
  uf_len :: u16

record http_parser_url =
  field_set :: u16
  url_port :: u16
  field_data :: "http_parser_url_fields \<Rightarrow> url_field"

definition http_parser_url_init :: http_parser_url where
  "http_parser_url_init = \<lparr>field_set = 0, url_port = 0, field_data = (\<lambda>_. \<lparr>uf_off = 0, uf_len = 0\<rparr>)\<rparr>"

definition has_field :: "http_parser_url_fields \<Rightarrow> http_parser_url \<Rightarrow> bool" where
  "has_field f u \<longleftrightarrow> field_set u AND uf_bit f \<noteq> 0"

text \<open>\<open>off = p - buf; len = n; field_set |= 1 << f\<close>.\<close>

definition start_field :: "http_parser_url_fields \<Rightarrow> nat \<Rightarrow> u16 \<Rightarrow> http_parser_url \<Rightarrow> http_parser_url" where
  "start_field f i n u =
     u\<lparr>field_data := (field_data u)(f := \<lparr>uf_off = of_nat i, uf_len = n\<rparr>),
       field_set := field_set u OR uf_bit f\<rparr>"

definition grow_field :: "http_parser_url_fields \<Rightarrow> http_parser_url \<Rightarrow> http_parser_url" where
  "grow_field f u =
     u\<lparr>field_data := (field_data u)(f := (field_data u f)\<lparr>uf_len := uf_len (field_data u f) + 1\<rparr>)\<rparr>"

section \<open>One character of a URL\<close>

text \<open>The cases the code reaches by falling through.\<close>

definition server_char :: "u8 \<Rightarrow> http_state" where
  "server_char ch =
     (if ch = ch8 CHR ''/'' then s_req_path
      else if ch = ch8 CHR ''?'' then s_req_query_string_start
      else if ch = ch8 CHR ''@'' then s_req_server_with_at
      else if IS_USERINFO_CHAR ch \<or> ch = ch8 CHR ''['' \<or> ch = ch8 CHR '']'' then s_req_server
      else s_dead)"

definition query_char :: "u8 \<Rightarrow> http_state" where
  "query_char ch =
     (if IS_URL_CHAR ch then s_req_query_string
      else if ch = ch8 CHR ''?'' then s_req_query_string
      else if ch = ch8 CHR ''#'' then s_req_fragment_start
      else s_dead)"

definition parse_url_char :: "http_state \<Rightarrow> u8 \<Rightarrow> http_state" where
  "parse_url_char s ch =
     (if ch = SPACE \<or> ch = CR \<or> ch = LF \<or> ch = HTAB \<or> ch = 12 then s_dead
      else case s of
        s_req_spaces_before_url \<Rightarrow>
          if ch = ch8 CHR ''/'' \<or> ch = ch8 CHR ''*'' then s_req_path
          else if IS_ALPHA ch then s_req_schema
          else s_dead
      | s_req_schema \<Rightarrow>
          if IS_ALPHA ch then s else if ch = ch8 CHR '':'' then s_req_schema_slash else s_dead
      | s_req_schema_slash \<Rightarrow> if ch = ch8 CHR ''/'' then s_req_schema_slash_slash else s_dead
      | s_req_schema_slash_slash \<Rightarrow> if ch = ch8 CHR ''/'' then s_req_server_start else s_dead
      | s_req_server_with_at \<Rightarrow> if ch = ch8 CHR ''@'' then s_dead else server_char ch
      | s_req_server_start \<Rightarrow> server_char ch
      | s_req_server \<Rightarrow> server_char ch
      | s_req_path \<Rightarrow>
          if IS_URL_CHAR ch then s
          else if ch = ch8 CHR ''?'' then s_req_query_string_start
          else if ch = ch8 CHR ''#'' then s_req_fragment_start
          else s_dead
      | s_req_query_string_start \<Rightarrow> query_char ch
      | s_req_query_string \<Rightarrow> query_char ch
      | s_req_fragment_start \<Rightarrow>
          if IS_URL_CHAR ch then s_req_fragment
          else if ch = ch8 CHR ''?'' then s_req_fragment
          else if ch = ch8 CHR ''#'' then s
          else s_dead
      | s_req_fragment \<Rightarrow>
          if IS_URL_CHAR ch \<or> ch = ch8 CHR ''?'' \<or> ch = ch8 CHR ''#'' then s else s_dead
      | _ \<Rightarrow> s_dead)"


section \<open>One character of a host\<close>

datatype http_host_state =
  s_http_host_dead | s_http_userinfo_start | s_http_userinfo | s_http_host_start
| s_http_host_v6_start | s_http_host | s_http_host_v6 | s_http_host_v6_end
| s_http_host_v6_zone_start | s_http_host_v6_zone | s_http_host_port_start | s_http_host_port

definition port_colon :: "u8 \<Rightarrow> http_host_state" where
  "port_colon ch = (if ch = ch8 CHR '':'' then s_http_host_port_start else s_http_host_dead)"

definition zone_char :: "u8 \<Rightarrow> http_host_state" where
  "zone_char ch = (if IS_ALPHANUM ch \<or> ch \<in> set (ascii ''%.-_~'') then s_http_host_v6_zone else s_http_host_dead)"

definition v6_char :: "http_host_state \<Rightarrow> u8 \<Rightarrow> http_host_state" where
  "v6_char s ch =
     (if IS_HEX ch \<or> ch = ch8 CHR '':'' \<or> ch = ch8 CHR ''.'' then s_http_host_v6
      else if s = s_http_host_v6 \<and> ch = ch8 CHR ''%'' then s_http_host_v6_zone_start
      else s_http_host_dead)"

definition userinfo_char :: "u8 \<Rightarrow> http_host_state" where
  "userinfo_char ch =
     (if ch = ch8 CHR ''@'' then s_http_host_start
      else if IS_USERINFO_CHAR ch then s_http_userinfo
      else s_http_host_dead)"

definition http_parse_host_char :: "http_host_state \<Rightarrow> u8 \<Rightarrow> http_host_state" where
  "http_parse_host_char s ch =
     (case s of
        s_http_userinfo \<Rightarrow> userinfo_char ch
      | s_http_userinfo_start \<Rightarrow> userinfo_char ch
      | s_http_host_start \<Rightarrow>
          if ch = ch8 CHR ''['' then s_http_host_v6_start
          else if IS_HOST_CHAR ch then s_http_host
          else s_http_host_dead
      | s_http_host \<Rightarrow> if IS_HOST_CHAR ch then s_http_host else port_colon ch
      | s_http_host_v6_end \<Rightarrow> port_colon ch
      | s_http_host_v6 \<Rightarrow> if ch = ch8 CHR '']'' then s_http_host_v6_end else v6_char s ch
      | s_http_host_v6_start \<Rightarrow> v6_char s ch
      | s_http_host_v6_zone \<Rightarrow> if ch = ch8 CHR '']'' then s_http_host_v6_end else zone_char ch
      | s_http_host_v6_zone_start \<Rightarrow> zone_char ch
      | s_http_host_port \<Rightarrow> if IS_NUM ch then s_http_host_port else s_http_host_dead
      | s_http_host_port_start \<Rightarrow> if IS_NUM ch then s_http_host_port else s_http_host_dead
      | s_http_host_dead \<Rightarrow> s_http_host_dead)"

section \<open>The host\<close>

text \<open>What a new state does to the fields; \<open>i\<close> is the index of the character.\<close>

definition host_fields :: "http_host_state \<Rightarrow> http_host_state \<Rightarrow> nat \<Rightarrow> http_parser_url \<Rightarrow> http_parser_url" where
  "host_fields s new_s i u =
     (let set_off = (\<lambda>u. u\<lparr>field_data := (field_data u)(UF_HOST := (field_data u UF_HOST)\<lparr>uf_off := of_nat i\<rparr>)\<rparr>) in
      case new_s of
        s_http_host \<Rightarrow> grow_field UF_HOST (if s \<noteq> s_http_host then set_off u else u)
      | s_http_host_v6 \<Rightarrow> grow_field UF_HOST (if s \<noteq> s_http_host_v6 then set_off u else u)
      | s_http_host_v6_zone_start \<Rightarrow> grow_field UF_HOST u
      | s_http_host_v6_zone \<Rightarrow> grow_field UF_HOST u
      | s_http_host_port \<Rightarrow> grow_field UF_PORT (if s \<noteq> s_http_host_port then start_field UF_PORT i 0 u else u)
      | s_http_userinfo \<Rightarrow> grow_field UF_USERINFO (if s \<noteq> s_http_userinfo then start_field UF_USERINFO i 0 u else u)
      | _ \<Rightarrow> u)"

text \<open>The loop over the characters from index \<open>i\<close> on; \<open>None\<close> is the state when it is dead.\<close>

fun host_loop :: "http_host_state \<Rightarrow> nat \<Rightarrow> bytes \<Rightarrow> http_parser_url \<Rightarrow> http_host_state option \<times> http_parser_url" where
  "host_loop s i [] u = (Some s, u)"
| "host_loop s i (ch # rest) u =
     (let new_s = http_parse_host_char s ch
      in if new_s = s_http_host_dead then (None, u)
         else host_loop new_s (Suc i) rest (host_fields s new_s i u))"

text \<open>The states the host may not end in.\<close>

definition host_unfinished :: "http_host_state \<Rightarrow> bool" where
  "host_unfinished s \<longleftrightarrow>
     s \<in> {s_http_host_start, s_http_host_v6_start, s_http_host_v6, s_http_host_v6_zone_start,
          s_http_host_v6_zone, s_http_host_port_start, s_http_userinfo, s_http_userinfo_start}"

text \<open>The result is the value returned, nonzero for a failure.\<close>

definition http_parse_host :: "bytes \<Rightarrow> http_parser_url \<Rightarrow> bool \<Rightarrow> int \<times> http_parser_url" where
  "http_parse_host buf u found_at =
     (let off = unat (uf_off (field_data u UF_HOST));
          buflen = off + unat (uf_len (field_data u UF_HOST));
          u = u\<lparr>field_data := (field_data u)(UF_HOST := (field_data u UF_HOST)\<lparr>uf_len := 0\<rparr>)\<rparr>
      in case host_loop (if found_at then s_http_userinfo_start else s_http_host_start) off
             (drop off (take buflen buf)) u of
           (None, u) \<Rightarrow> (1, u)
         | (Some s, u) \<Rightarrow> (if host_unfinished s then 1 else 0, u))"

section \<open>The whole URL\<close>

text \<open>The field a state belongs to: none for the delimiters.\<close>

datatype url_action = Url_fail | Url_skip | Url_field http_parser_url_fields

definition url_action :: "http_state \<Rightarrow> url_action" where
  "url_action s =
     (case s of
        s_dead \<Rightarrow> Url_fail
      | s_req_schema_slash \<Rightarrow> Url_skip
      | s_req_schema_slash_slash \<Rightarrow> Url_skip
      | s_req_server_start \<Rightarrow> Url_skip
      | s_req_query_string_start \<Rightarrow> Url_skip
      | s_req_fragment_start \<Rightarrow> Url_skip
      | s_req_schema \<Rightarrow> Url_field UF_SCHEMA
      | s_req_server_with_at \<Rightarrow> Url_field UF_HOST
      | s_req_server \<Rightarrow> Url_field UF_HOST
      | s_req_path \<Rightarrow> Url_field UF_PATH
      | s_req_query_string \<Rightarrow> Url_field UF_QUERY
      | s_req_fragment \<Rightarrow> Url_field UF_FRAGMENT
      | _ \<Rightarrow> Url_fail)"

text \<open>The loop over the characters from index \<open>i\<close> on. \<open>old_uf\<close> is \<open>None\<close> for \<open>UF_MAX\<close>; the
  first component of the result is \<open>None\<close> when the loop returns 1, else \<open>found_at\<close>.\<close>

fun url_loop :: "http_state \<Rightarrow> http_parser_url_fields option \<Rightarrow> bool \<Rightarrow> nat \<Rightarrow> bytes \<Rightarrow> http_parser_url \<Rightarrow>
    bool option \<times> http_parser_url" where
  "url_loop s old_uf found_at i [] u = (Some found_at, u)"
| "url_loop s old_uf found_at i (ch # rest) u =
     (let s = parse_url_char s ch;
          found_at = (found_at \<or> s = s_req_server_with_at)
      in case url_action s of
           Url_fail \<Rightarrow> (None, u)
         | Url_skip \<Rightarrow> url_loop s old_uf found_at (Suc i) rest u
         | Url_field uf \<Rightarrow>
             if old_uf = Some uf then url_loop s old_uf found_at (Suc i) rest (grow_field uf u)
             else url_loop s (Some uf) found_at (Suc i) rest (start_field uf i 1 u))"

text \<open>\<open>v\<close> never exceeds ten times \<open>0xffff\<close> plus nine, so it does not wrap.\<close>

fun port_loop :: "nat \<Rightarrow> bytes \<Rightarrow> nat option" where
  "port_loop v [] = Some v"
| "port_loop v (c # rest) =
     (let v = v * 10 + (unat c - 48) in if v > 0xffff then None else port_loop v rest)"

text \<open>The bytes of a field.\<close>

definition field_bytes :: "bytes \<Rightarrow> http_parser_url \<Rightarrow> http_parser_url_fields \<Rightarrow> bytes" where
  "field_bytes buf u f = take (unat (uf_len (field_data u f))) (drop (unat (uf_off (field_data u f))) buf)"

text \<open>After the scan: the host, the rule for \<open>CONNECT\<close>, and the port.\<close>

definition url_finish :: "bytes \<Rightarrow> bool \<Rightarrow> bool \<Rightarrow> http_parser_url \<Rightarrow> int \<times> http_parser_url" where
  "url_finish buf is_connect found_at u =
     (if has_field UF_SCHEMA u \<and> \<not> has_field UF_HOST u then (1, u)
      else let (r, u) = (if has_field UF_HOST u then http_parse_host buf u found_at else (0, u))
      in if r \<noteq> 0 then (1, u)
         else if is_connect \<and> field_set u \<noteq> uf_bit UF_HOST OR uf_bit UF_PORT then (1, u)
         else if has_field UF_PORT u
         then case port_loop 0 (field_bytes buf u UF_PORT) of
                None \<Rightarrow> (1, u)
              | Some v \<Rightarrow> (0, u\<lparr>url_port := of_nat v\<rparr>)
         else (0, u))"

definition http_parser_parse_url :: "bytes \<Rightarrow> bool \<Rightarrow> http_parser_url \<Rightarrow> int \<times> http_parser_url" where
  "http_parser_parse_url buf is_connect u =
     (if buf = [] then (1, u)
      else case url_loop (if is_connect then s_req_server_start else s_req_spaces_before_url) None False 0 buf
             (u\<lparr>field_set := 0, url_port := 0\<rparr>) of
             (None, u) \<Rightarrow> (1, u)
           | (Some found_at, u) \<Rightarrow> url_finish buf is_connect found_at u)"


section \<open>Setting fields\<close>

lemma uf_bit_neq_0 [simp]: "uf_bit f \<noteq> 0"
  by (cases f) simp_all

lemma uf_bit_disjoint: "f \<noteq> g \<Longrightarrow> uf_bit f AND uf_bit g = 0"
  by (cases f; cases g) simp_all

lemma has_field_or:
  "(x OR uf_bit f) AND uf_bit g \<noteq> 0 \<longleftrightarrow> f = g \<or> x AND uf_bit g \<noteq> 0"
proof (cases "f = g")
  case True
  have "(x OR uf_bit f) AND uf_bit f = uf_bit f" by (auto simp: bit_simps bit_eq_iff)
  with True show ?thesis by simp
next
  case False
  have "(x OR uf_bit f) AND uf_bit g = (x AND uf_bit g) OR (uf_bit f AND uf_bit g)"
    by (auto simp: bit_simps bit_eq_iff)
  with False uf_bit_disjoint [OF False] show ?thesis by simp
qed

lemma has_field_start [simp]: "has_field g (start_field f i n u) \<longleftrightarrow> f = g \<or> has_field g u"
  by (simp add: has_field_def start_field_def has_field_or)

lemma has_field_grow [simp]: "has_field g (grow_field f u) = has_field g u"
  by (simp add: has_field_def grow_field_def)

lemma has_field_data [simp]:
  "has_field g (u\<lparr>field_data := d\<rparr>) = has_field g u" "has_field g (u\<lparr>url_port := v\<rparr>) = has_field g u"
  by (simp_all add: has_field_def)

lemma field_data_start [simp]:
  "field_data (start_field f i n u) g = (if g = f then \<lparr>uf_off = of_nat i, uf_len = n\<rparr> else field_data u g)"
  by (simp add: start_field_def)

lemma field_data_grow [simp]:
  "field_data (grow_field f u) g =
     (if g = f then (field_data u f)\<lparr>uf_len := uf_len (field_data u f) + 1\<rparr> else field_data u g)"
  by (simp add: grow_field_def)

lemma grow_start: "grow_field f (start_field f i n u) = start_field f i (n + 1) u"
  by (simp add: grow_field_def start_field_def)

section \<open>Every field is inside the URL\<close>

text \<open>Offsets and lengths are 16-bit and wrap for longer URLs, but only downwards.\<close>

definition inside :: "nat \<Rightarrow> url_field \<Rightarrow> bool" where
  "inside i r \<longleftrightarrow> unat (uf_off r) + unat (uf_len r) \<le> i"

definition fields_inside :: "(http_parser_url_fields \<Rightarrow> nat) \<Rightarrow> http_parser_url \<Rightarrow> bool" where
  "fields_inside lim u \<longleftrightarrow> (\<forall>f. has_field f u \<longrightarrow> inside (lim f) (field_data u f))"

lemma unat_of_nat_le: "unat (of_nat i :: 'a::len word) \<le> i"
  by (simp add: unat_of_nat)

lemma unat_Suc_le: "unat (n + 1 :: 'a::len word) \<le> Suc (unat n)"
  using unat_of_nat_le [of "Suc (unat n)", where 'a = 'a] by (simp add: add.commute)

lemma inside_mono: "inside i r \<Longrightarrow> i \<le> j \<Longrightarrow> inside j r"
  by (simp add: inside_def)

lemma fields_inside_mono: "fields_inside lim u \<Longrightarrow> (\<And>f. lim f \<le> lim' f) \<Longrightarrow> fields_inside lim' u"
  by (auto simp: fields_inside_def intro: inside_mono)

lemma fields_inside_start:
  assumes "fields_inside lim u" "\<And>f. lim f \<le> lim' f" "i + unat n \<le> lim' f"
  shows "fields_inside lim' (start_field f i n u)"
  using assms unat_of_nat_le [of i, where 'a = 16] order_trans
  by (fastforce simp: fields_inside_def inside_def)

lemma fields_inside_grow:
  assumes "fields_inside lim u" "\<And>f. lim f \<le> lim' f" "lim f < lim' f"
  shows "fields_inside lim' (grow_field f u)"
proof -
  have "inside (lim' g) (field_data (grow_field f u) g)" if "has_field g u" for g
  proof (cases "g = f")
    case True
    with assms(1,3) that unat_Suc_le [of "uf_len (field_data u f)"] show ?thesis
      by (force simp: fields_inside_def inside_def)
  next
    case False
    with assms(1,2) that show ?thesis by (auto simp: fields_inside_def intro: inside_mono)
  qed
  then show ?thesis by (simp add: fields_inside_def)
qed

text \<open>The first scan sets neither the port nor the user information.\<close>

definition scan_inside :: "nat \<Rightarrow> http_parser_url \<Rightarrow> bool" where
  "scan_inside i u \<longleftrightarrow> fields_inside (\<lambda>_. i) u \<and> \<not> has_field UF_PORT u \<and> \<not> has_field UF_USERINFO u"

lemma url_action_fields: "url_action s = Url_field f \<Longrightarrow> f \<noteq> UF_PORT \<and> f \<noteq> UF_USERINFO"
  by (cases s) (auto simp: url_action_def)

lemma url_loop_inside:
  "scan_inside i u \<Longrightarrow> url_loop s old fa i bs u = (r, u') \<Longrightarrow> scan_inside (i + length bs) u'"
proof (induction s old fa i bs u arbitrary: r u' rule: url_loop.induct)
  case (2 s old fa i ch rest u)
  have in0: "fields_inside (\<lambda>_. i) u" using 2(4) by (simp add: scan_inside_def)
  have m: "scan_inside j u" if "i \<le> j" for j
    using 2(4) fields_inside_mono [OF in0] that by (simp add: scan_inside_def)
  show ?case
  proof (cases "url_action (parse_url_char s ch)")
    case Url_fail
    with 2(5) m show ?thesis by (simp add: Let_def)
  next
    case Url_skip
    with 2(1) [OF refl refl Url_skip m] 2(5) show ?thesis by (simp add: Let_def)
  next
    case (Url_field f)
    note nf = url_action_fields [OF Url_field]
    show ?thesis
    proof (cases "old = Some f")
      case True
      have "scan_inside (Suc i) (grow_field f u)"
        using 2(4) fields_inside_grow [OF in0] by (simp add: scan_inside_def)
      with 2(2) [OF refl refl Url_field True this] 2(5) Url_field True show ?thesis by (simp add: Let_def)
    next
      case False
      have "scan_inside (Suc i) (start_field f i 1 u)"
        using 2(4) fields_inside_start [OF in0] nf by (simp add: scan_inside_def)
      with 2(3) [OF refl refl Url_field False this] 2(5) Url_field False show ?thesis by (simp add: Let_def)
    qed
  qed
qed simp

text \<open>The host is entered once, with a length of zero.\<close>

definition before_host :: "http_host_state \<Rightarrow> bool" where
  "before_host s \<longleftrightarrow> s \<in> {s_http_userinfo_start, s_http_userinfo, s_http_host_start, s_http_host_v6_start}"

lemma host_char_enter:
  "http_parse_host_char s ch = s_http_host \<Longrightarrow> s \<noteq> s_http_host \<Longrightarrow> before_host s"
  "http_parse_host_char s ch = s_http_host_v6 \<Longrightarrow> s \<noteq> s_http_host_v6 \<Longrightarrow> before_host s"
  "before_host (http_parse_host_char s ch) \<Longrightarrow> before_host s"
  by (cases s; auto simp: http_parse_host_char_def userinfo_char_def port_colon_def zone_char_def v6_char_def before_host_def
        split: if_splits)+

text \<open>While the host is scanned, its own fields end before the current character, the others before
  the end of the URL.\<close>

definition host_limit :: "nat \<Rightarrow> nat \<Rightarrow> http_parser_url_fields \<Rightarrow> nat" where
  "host_limit n i f = (if f \<in> {UF_HOST, UF_PORT, UF_USERINFO} then i else n)"

definition host_inside :: "nat \<Rightarrow> nat \<Rightarrow> http_host_state \<Rightarrow> http_parser_url \<Rightarrow> bool" where
  "host_inside n i s u \<longleftrightarrow> fields_inside (host_limit n i) u \<and> (before_host s \<longrightarrow> uf_len (field_data u UF_HOST) = 0)"

lemma host_limit_Suc [simp]: "host_limit n i f \<le> host_limit n (Suc i) f"
  by (simp add: host_limit_def)

lemma host_inside_step:
  assumes "host_inside n i s u" "t = http_parse_host_char s ch"
  shows "host_inside n (Suc i) t (host_fields s t i u)"
proof -
  let ?o = "u\<lparr>field_data := (field_data u)(UF_HOST := (field_data u UF_HOST)\<lparr>uf_off := of_nat i\<rparr>)\<rparr>"
  have f: "fields_inside (host_limit n i) u" and b: "before_host s \<Longrightarrow> uf_len (field_data u UF_HOST) = 0"
    using assms(1) by (simp_all add: host_inside_def)
  have g: "fields_inside (host_limit n (Suc i)) (grow_field g v)"
    if "fields_inside (host_limit n i) v" "g \<in> {UF_HOST, UF_PORT, UF_USERINFO}" for g v
    by (rule fields_inside_grow [OF that(1) host_limit_Suc]) (use that(2) in \<open>auto simp: host_limit_def\<close>)
  have o: "fields_inside (host_limit n i) ?o" if "before_host s"
    using f b [OF that] unat_of_nat_le [of i, where 'a = 16] by (auto simp: fields_inside_def inside_def host_limit_def)
  have z: "fields_inside (host_limit n i) (start_field g i 0 u)" if "g \<in> {UF_HOST, UF_PORT, UF_USERINFO}" for g
    by (rule fields_inside_start [OF f order_refl]) (use that in \<open>auto simp: host_limit_def\<close>)
  have "fields_inside (host_limit n (Suc i)) (host_fields s t i u)"
    using fields_inside_mono [OF f host_limit_Suc] g [OF f] g [OF z] g [OF o]
      host_char_enter(1,2) [of s ch] assms(2) by (cases t) (auto simp: host_fields_def Let_def)
  moreover have "before_host t \<Longrightarrow> uf_len (field_data (host_fields s t i u) UF_HOST) = 0"
    using b host_char_enter(3) [of s ch] assms(2) by (auto simp: before_host_def host_fields_def)
  ultimately show ?thesis by (simp add: host_inside_def)
qed

lemma host_loop_inside:
  "host_inside n i s u \<Longrightarrow> host_loop s i bs u = (r, u') \<Longrightarrow> fields_inside (host_limit n (i + length bs)) u'"
proof (induction s i bs u arbitrary: r u' rule: host_loop.induct)
  case (2 s i ch rest u)
  let ?t = "http_parse_host_char s ch"
  show ?case
  proof (cases "?t = s_http_host_dead")
    case True
    with 2(2,3) show ?thesis by (auto simp: host_inside_def host_limit_def intro: fields_inside_mono)
  next
    case False
    with 2(1) [OF refl False host_inside_step [OF 2(2) refl]] 2(3) show ?thesis by (simp add: Let_def)
  qed
qed (simp add: host_inside_def)

lemma parse_host_inside:
  assumes "scan_inside (length buf) u" "has_field UF_HOST u" "http_parse_host buf u fa = (r, u')"
  shows "fields_inside (\<lambda>_. length buf) u'"
proof -
  define off where "off = unat (uf_off (field_data u UF_HOST))"
  define len where "len = unat (uf_len (field_data u UF_HOST))"
  let ?v = "u\<lparr>field_data := (field_data u)(UF_HOST := (field_data u UF_HOST)\<lparr>uf_len := 0\<rparr>)\<rparr>"
  let ?s = "if fa then s_http_userinfo_start else s_http_host_start"
  obtain st w where l: "host_loop ?s off (drop off (take (off + len) buf)) ?v = (st, w)" by fastforce
  have "off + len \<le> length buf" using assms(1,2) by (auto simp: scan_inside_def fields_inside_def inside_def off_def len_def)
  then have "off + length (drop off (take (off + len) buf)) \<le> length buf" by simp
  moreover have "host_inside (length buf) off ?s ?v"
    using assms(1) unfolding host_inside_def scan_inside_def fields_inside_def inside_def host_limit_def off_def by auto
  ultimately have "fields_inside (\<lambda>_. length buf) w"
    using fields_inside_mono [OF host_loop_inside [OF _ l]] by (auto simp: host_limit_def)
  moreover have "u' = w"
    using assms(3) l by (auto simp: http_parse_host_def Let_def off_def len_def split: option.splits prod.splits)
  ultimately show ?thesis by simp
qed

lemma parse_url_inside:
  assumes "http_parser_parse_url buf is_connect u = (0, u')" "has_field f u'"
  shows "unat (uf_off (field_data u' f)) + unat (uf_len (field_data u' f)) \<le> length buf"
proof -
  define u0 where "u0 = u\<lparr>field_set := 0, url_port := 0\<rparr>"
  obtain r v where l: "url_loop (if is_connect then s_req_server_start else s_req_spaces_before_url) None False 0 buf u0 = (r, v)"
    by fastforce
  have "scan_inside 0 u0" by (simp add: u0_def scan_inside_def fields_inside_def has_field_def)
  from url_loop_inside [OF this l] have v: "scan_inside (length buf) v" by simp
  obtain fa where fa: "url_finish buf is_connect fa v = (0, u')"
    using assms(1) l by (cases r) (auto simp: http_parser_parse_url_def u0_def split: if_splits)
  obtain q w where w: "(if has_field UF_HOST v then http_parse_host buf v fa else (0, v)) = (q, w)" by fastforce
  have "fields_inside (\<lambda>_. length buf) w"
    using parse_host_inside [OF v] v w by (auto simp: scan_inside_def split: if_splits)
  moreover have "field_data u' = field_data w \<and> has_field f u' = has_field f w"
    using fa w by (auto simp: url_finish_def Let_def split: if_splits option.splits)
  ultimately show ?thesis using assms(2) by (auto simp: fields_inside_def inside_def)
qed

end
