(* ===== verification/Http_Parser.thy ===== *)
theory Http_Parser
  imports Http_Chars Http_Url
begin

text \<open>
  The message parser \<open>http_parser_execute\<close> of \<open>src/http_parser.c\<close>, in strict mode (the
  default). A run keeps the parser structure, the user data behind \<open>parser->data\<close>, and the
  locals of the function: the state, the header byte count, the position \<open>p - data\<close>, the
  current character and the marks. One turn of the big \<open>switch\<close> is \<open>http_step\<close>; it ends the way
  the code leaves the \<open>switch\<close>: by \<open>break\<close>, \<open>goto reexecute\<close>, \<open>goto error\<close> or \<open>return\<close>.
\<close>

section \<open>Methods\<close>

abbreviation (input) HTTP_DELETE :: u8 where "HTTP_DELETE \<equiv> 0"
abbreviation (input) HTTP_GET :: u8 where "HTTP_GET \<equiv> 1"
abbreviation (input) HTTP_HEAD :: u8 where "HTTP_HEAD \<equiv> 2"
abbreviation (input) HTTP_POST :: u8 where "HTTP_POST \<equiv> 3"
abbreviation (input) HTTP_PUT :: u8 where "HTTP_PUT \<equiv> 4"
abbreviation (input) HTTP_OPTIONS :: u8 where "HTTP_OPTIONS \<equiv> 6"
abbreviation (input) HTTP_TRACE :: u8 where "HTTP_TRACE \<equiv> 7"
abbreviation (input) HTTP_COPY :: u8 where "HTTP_COPY \<equiv> 8"
abbreviation (input) HTTP_LOCK :: u8 where "HTTP_LOCK \<equiv> 9"
abbreviation (input) HTTP_MKCOL :: u8 where "HTTP_MKCOL \<equiv> 10"
abbreviation (input) HTTP_MOVE :: u8 where "HTTP_MOVE \<equiv> 11"
abbreviation (input) HTTP_PROPFIND :: u8 where "HTTP_PROPFIND \<equiv> 12"
abbreviation (input) HTTP_PROPPATCH :: u8 where "HTTP_PROPPATCH \<equiv> 13"
abbreviation (input) HTTP_SEARCH :: u8 where "HTTP_SEARCH \<equiv> 14"
abbreviation (input) HTTP_UNLOCK :: u8 where "HTTP_UNLOCK \<equiv> 15"
abbreviation (input) HTTP_BIND :: u8 where "HTTP_BIND \<equiv> 16"
abbreviation (input) HTTP_REBIND :: u8 where "HTTP_REBIND \<equiv> 17"
abbreviation (input) HTTP_UNBIND :: u8 where "HTTP_UNBIND \<equiv> 18"
abbreviation (input) HTTP_ACL :: u8 where "HTTP_ACL \<equiv> 19"
abbreviation (input) HTTP_REPORT :: u8 where "HTTP_REPORT \<equiv> 20"
abbreviation (input) HTTP_MKACTIVITY :: u8 where "HTTP_MKACTIVITY \<equiv> 21"
abbreviation (input) HTTP_CHECKOUT :: u8 where "HTTP_CHECKOUT \<equiv> 22"
abbreviation (input) HTTP_MERGE :: u8 where "HTTP_MERGE \<equiv> 23"
abbreviation (input) HTTP_MSEARCH :: u8 where "HTTP_MSEARCH \<equiv> 24"
abbreviation (input) HTTP_NOTIFY :: u8 where "HTTP_NOTIFY \<equiv> 25"
abbreviation (input) HTTP_SUBSCRIBE :: u8 where "HTTP_SUBSCRIBE \<equiv> 26"
abbreviation (input) HTTP_UNSUBSCRIBE :: u8 where "HTTP_UNSUBSCRIBE \<equiv> 27"
abbreviation (input) HTTP_PATCH :: u8 where "HTTP_PATCH \<equiv> 28"
abbreviation (input) HTTP_PURGE :: u8 where "HTTP_PURGE \<equiv> 29"
abbreviation (input) HTTP_MKCALENDAR :: u8 where "HTTP_MKCALENDAR \<equiv> 30"
abbreviation (input) HTTP_LINK :: u8 where "HTTP_LINK \<equiv> 31"
abbreviation (input) HTTP_UNLINK :: u8 where "HTTP_UNLINK \<equiv> 32"
abbreviation (input) HTTP_SOURCE :: u8 where "HTTP_SOURCE \<equiv> 33"

definition method_strings :: "bytes list" where
  "method_strings = map ascii
    [''DELETE'', ''GET'', ''HEAD'', ''POST'', ''PUT'', ''CONNECT'',
     ''OPTIONS'', ''TRACE'', ''COPY'', ''LOCK'', ''MKCOL'', ''MOVE'',
     ''PROPFIND'', ''PROPPATCH'', ''SEARCH'', ''UNLOCK'', ''BIND'', ''REBIND'',
     ''UNBIND'', ''ACL'', ''REPORT'', ''MKACTIVITY'', ''CHECKOUT'', ''MERGE'',
     ''M-SEARCH'', ''NOTIFY'', ''SUBSCRIBE'', ''UNSUBSCRIBE'', ''PATCH'', ''PURGE'',
     ''MKCALENDAR'', ''LINK'', ''UNLINK'', ''SOURCE'']"

text \<open>\<open>s[i]\<close> of a C string: at its end the terminating zero.\<close>

definition cstr_at :: "bytes \<Rightarrow> nat \<Rightarrow> u8" where
  "cstr_at s i = (if i < length s then s ! i else 0)"

text \<open>The table of the methods that share a beginning with another: method, index, character and
  the method it then is.\<close>

definition method_switch :: "((u8 \<times> nat \<times> u8) \<times> u8) list" where
  "method_switch =
     [((HTTP_POST, 1, ch8 CHR ''U''), HTTP_PUT),
      ((HTTP_POST, 1, ch8 CHR ''A''), HTTP_PATCH),
      ((HTTP_POST, 1, ch8 CHR ''R''), HTTP_PROPFIND),
      ((HTTP_PUT, 2, ch8 CHR ''R''), HTTP_PURGE),
      ((HTTP_CONNECT, 1, ch8 CHR ''H''), HTTP_CHECKOUT),
      ((HTTP_CONNECT, 2, ch8 CHR ''P''), HTTP_COPY),
      ((HTTP_MKCOL, 1, ch8 CHR ''O''), HTTP_MOVE),
      ((HTTP_MKCOL, 1, ch8 CHR ''E''), HTTP_MERGE),
      ((HTTP_MKCOL, 1, ch8 CHR ''-''), HTTP_MSEARCH),
      ((HTTP_MKCOL, 2, ch8 CHR ''A''), HTTP_MKACTIVITY),
      ((HTTP_MKCOL, 3, ch8 CHR ''A''), HTTP_MKCALENDAR),
      ((HTTP_SUBSCRIBE, 1, ch8 CHR ''E''), HTTP_SEARCH),
      ((HTTP_SUBSCRIBE, 1, ch8 CHR ''O''), HTTP_SOURCE),
      ((HTTP_REPORT, 2, ch8 CHR ''B''), HTTP_REBIND),
      ((HTTP_PROPFIND, 4, ch8 CHR ''P''), HTTP_PROPPATCH),
      ((HTTP_LOCK, 1, ch8 CHR ''I''), HTTP_LINK),
      ((HTTP_UNLOCK, 2, ch8 CHR ''S''), HTTP_UNSUBSCRIBE),
      ((HTTP_UNLOCK, 2, ch8 CHR ''B''), HTTP_UNBIND),
      ((HTTP_UNLOCK, 3, ch8 CHR ''I''), HTTP_UNLINK)]"

text \<open>The first guess from the first letter.\<close>

definition method_start :: "(u8 \<times> u8) list" where
  "method_start =
     [(ch8 CHR ''A'', HTTP_ACL), (ch8 CHR ''B'', HTTP_BIND), (ch8 CHR ''C'', HTTP_CONNECT),
      (ch8 CHR ''D'', HTTP_DELETE), (ch8 CHR ''G'', HTTP_GET), (ch8 CHR ''H'', HTTP_HEAD),
      (ch8 CHR ''L'', HTTP_LOCK), (ch8 CHR ''M'', HTTP_MKCOL), (ch8 CHR ''N'', HTTP_NOTIFY),
      (ch8 CHR ''O'', HTTP_OPTIONS), (ch8 CHR ''P'', HTTP_POST), (ch8 CHR ''R'', HTTP_REPORT),
      (ch8 CHR ''S'', HTTP_SUBSCRIBE), (ch8 CHR ''T'', HTTP_TRACE), (ch8 CHR ''U'', HTTP_UNLOCK)]"

section \<open>The state of a run\<close>

datatype http_mark = Header_field_mark | Header_value_mark | Url_mark | Body_mark | Status_mark

record 'd http_run =
  r_parser :: http_parser
  r_data :: 'd
  r_state :: http_state
  r_nread :: u32
  r_lenient :: bool
  r_p :: nat
  r_ch :: u8
  r_mark :: "http_mark \<Rightarrow> nat option"

text \<open>A callback gets the parser and may change it and the user data; nonzero is an error.\<close>

type_synonym 'd http_cb = "http_parser \<Rightarrow> 'd \<Rightarrow> int \<times> http_parser \<times> 'd"
type_synonym 'd http_data_cb = "http_parser \<Rightarrow> bytes \<Rightarrow> 'd \<Rightarrow> int \<times> http_parser \<times> 'd"

record 'd http_parser_settings =
  cb_message_begin :: "'d http_cb option"
  cb_url :: "'d http_data_cb option"
  cb_status :: "'d http_data_cb option"
  cb_header_field :: "'d http_data_cb option"
  cb_header_value :: "'d http_data_cb option"
  cb_headers_complete :: "'d http_cb option"
  cb_body :: "'d http_data_cb option"
  cb_message_complete :: "'d http_cb option"
  cb_chunk_header :: "'d http_cb option"
  cb_chunk_complete :: "'d http_cb option"

definition http_parser_settings_init :: "'d http_parser_settings" where
  "http_parser_settings_init =
     \<lparr>cb_message_begin = None, cb_url = None, cb_status = None, cb_header_field = None,
      cb_header_value = None, cb_headers_complete = None, cb_body = None, cb_message_complete = None,
      cb_chunk_header = None, cb_chunk_complete = None\<rparr>"

text \<open>\<open>HTTP_MAX_HEADER_SIZE\<close>; nothing here calls \<open>http_parser_set_max_header_size\<close>.\<close>

definition max_header_size :: nat where
  "max_header_size = 80 * 1024"


section \<open>Leaving the switch\<close>

text \<open>\<open>Abort\<close> is a failed \<open>assert\<close>.\<close>

datatype flow = Break | Reexecute | Error_exit | Return nat | Abort

type_synonym 'd step = "flow \<times> 'd http_run"

definition set_parser :: "(http_parser \<Rightarrow> http_parser) \<Rightarrow> 'd http_run \<Rightarrow> 'd http_run" where
  "set_parser f r = r\<lparr>r_parser := f (r_parser r)\<rparr>"

definition UPDATE_STATE :: "http_state \<Rightarrow> 'd http_run \<Rightarrow> 'd http_run" where
  "UPDATE_STATE s r = r\<lparr>r_state := s\<rparr>"

definition set_header_state :: "http_header_state \<Rightarrow> 'd http_run \<Rightarrow> 'd http_run" where
  "set_header_state h = set_parser (\<lambda>q. q\<lparr>hp_header_state := h\<rparr>)"

definition set_index :: "5 word \<Rightarrow> 'd http_run \<Rightarrow> 'd http_run" where
  "set_index i = set_parser (\<lambda>q. q\<lparr>hp_index := i\<rparr>)"

definition set_flag :: "u8 \<Rightarrow> 'd http_run \<Rightarrow> 'd http_run" where
  "set_flag f = set_parser (\<lambda>q. q\<lparr>hp_flags := hp_flags q OR f\<rparr>)"

definition has_flag :: "u8 \<Rightarrow> http_parser \<Rightarrow> bool" where
  "has_flag f q \<longleftrightarrow> hp_flags q AND f \<noteq> 0"

text \<open>\<open>extra_flags & (F_TRANSFER_ENCODING >> 8)\<close>.\<close>

definition has_transfer_encoding :: "http_parser \<Rightarrow> bool" where
  "has_transfer_encoding q \<longleftrightarrow> hp_extra_flags q AND 1 \<noteq> 0"

definition SET_ERRNO :: "http_errno \<Rightarrow> 'd http_run \<Rightarrow> 'd http_run" where
  "SET_ERRNO e r = r\<lparr>r_parser := (r_parser r)\<lparr>hp_nread := r_nread r, hp_errno := e\<rparr>\<rparr>"

definition goto_error :: "http_errno \<Rightarrow> 'd http_run \<Rightarrow> 'd step" where
  "goto_error e r = (Error_exit, SET_ERRNO e r)"

definition RETURN :: "nat \<Rightarrow> 'd http_run \<Rightarrow> 'd step" where
  "RETURN n r = (Return n, r\<lparr>r_parser := (r_parser r)\<lparr>hp_nread := r_nread r, hp_state := r_state r\<rparr>\<rparr>)"

definition ASSERT :: "bool \<Rightarrow> 'd http_run \<Rightarrow> ('d http_run \<Rightarrow> 'd step) \<Rightarrow> 'd step" where
  "ASSERT c r k = (if c then k r else (Abort, r))"

definition STRICT_CHECK :: "bool \<Rightarrow> 'd http_run \<Rightarrow> ('d http_run \<Rightarrow> 'd step) \<Rightarrow> 'd step" where
  "STRICT_CHECK c r k = (if c then goto_error HPE_STRICT r else k r)"

definition COUNT_HEADER_SIZE :: "nat \<Rightarrow> 'd http_run \<Rightarrow> ('d http_run \<Rightarrow> 'd step) \<Rightarrow> 'd step" where
  "COUNT_HEADER_SIZE v r k =
     (let r = r\<lparr>r_nread := r_nread r + of_nat v\<rparr>
      in if unat (r_nread r) > max_header_size then goto_error HPE_HEADER_OVERFLOW r else k r)"

definition MARK :: "http_mark \<Rightarrow> 'd http_run \<Rightarrow> 'd http_run" where
  "MARK m r = (if r_mark r m = None then r\<lparr>r_mark := (r_mark r)(m \<mapsto> r_p r)\<rparr> else r)"

section \<open>Calling back\<close>

text \<open>After the callback: its error, the state it left, and out if there is an error.\<close>

definition after_callback ::
    "int \<times> http_parser \<times> 'd \<Rightarrow> http_errno \<Rightarrow> nat \<Rightarrow> 'd http_run \<Rightarrow> ('d http_run \<Rightarrow> 'd step) \<Rightarrow> 'd step" where
  "after_callback res e er r k =
     (case res of (v, q, d) \<Rightarrow>
        let r = r\<lparr>r_parser := q, r_data := d\<rparr>;
            r = (if v \<noteq> 0 then SET_ERRNO e r else r);
            r = UPDATE_STATE (hp_state (r_parser r)) r
        in if hp_errno (r_parser r) \<noteq> HPE_OK then (Return er, r) else k r)"

definition CALLBACK_NOTIFY_AT ::
    "'d http_cb option \<Rightarrow> http_errno \<Rightarrow> nat \<Rightarrow> 'd http_run \<Rightarrow> ('d http_run \<Rightarrow> 'd step) \<Rightarrow> 'd step" where
  "CALLBACK_NOTIFY_AT cb e er r k =
     ASSERT (hp_errno (r_parser r) = HPE_OK) r (\<lambda>r.
       case cb of None \<Rightarrow> k r
       | Some f \<Rightarrow> after_callback (f ((r_parser r)\<lparr>hp_state := r_state r\<rparr>) (r_data r)) e er r k)"

definition CALLBACK_NOTIFY ::
    "'d http_cb option \<Rightarrow> http_errno \<Rightarrow> 'd http_run \<Rightarrow> ('d http_run \<Rightarrow> 'd step) \<Rightarrow> 'd step" where
  "CALLBACK_NOTIFY cb e r k = CALLBACK_NOTIFY_AT cb e (r_p r + 1) r k"

definition CALLBACK_NOTIFY_NOADVANCE ::
    "'d http_cb option \<Rightarrow> http_errno \<Rightarrow> 'd http_run \<Rightarrow> ('d http_run \<Rightarrow> 'd step) \<Rightarrow> 'd step" where
  "CALLBACK_NOTIFY_NOADVANCE cb e r k = CALLBACK_NOTIFY_AT cb e (r_p r) r k"

fun data_cb :: "http_mark \<Rightarrow> 'd http_parser_settings \<Rightarrow> 'd http_data_cb option" where
  "data_cb Header_field_mark S = cb_header_field S"
| "data_cb Header_value_mark S = cb_header_value S"
| "data_cb Url_mark S = cb_url S"
| "data_cb Body_mark S = cb_body S"
| "data_cb Status_mark S = cb_status S"

fun data_errno :: "http_mark \<Rightarrow> http_errno" where
  "data_errno Header_field_mark = HPE_CB_header_field"
| "data_errno Header_value_mark = HPE_CB_header_value"
| "data_errno Url_mark = HPE_CB_url"
| "data_errno Body_mark = HPE_CB_body"
| "data_errno Status_mark = HPE_CB_status"

text \<open>The bytes from the mark to \<open>stop\<close>; the mark is taken back when the callback succeeds.\<close>

definition CALLBACK_DATA_AT ::
    "'d http_parser_settings \<Rightarrow> bytes \<Rightarrow> http_mark \<Rightarrow> nat \<Rightarrow> nat \<Rightarrow> 'd http_run \<Rightarrow> ('d http_run \<Rightarrow> 'd step) \<Rightarrow> 'd step" where
  "CALLBACK_DATA_AT S data m stop er r k =
     ASSERT (hp_errno (r_parser r) = HPE_OK) r (\<lambda>r.
       case r_mark r m of None \<Rightarrow> k r
       | Some at \<Rightarrow>
           let k' = (\<lambda>r. k (r\<lparr>r_mark := (r_mark r)(m := None)\<rparr>)) in
           case data_cb m S of None \<Rightarrow> k' r
           | Some f \<Rightarrow>
               after_callback (f ((r_parser r)\<lparr>hp_state := r_state r\<rparr>) (drop at (take stop data)) (r_data r))
                 (data_errno m) er r k')"

definition CALLBACK_DATA ::
    "'d http_parser_settings \<Rightarrow> bytes \<Rightarrow> http_mark \<Rightarrow> 'd http_run \<Rightarrow> ('d http_run \<Rightarrow> 'd step) \<Rightarrow> 'd step" where
  "CALLBACK_DATA S data m r k = CALLBACK_DATA_AT S data m (r_p r) (r_p r + 1) r k"

definition CALLBACK_DATA_NOADVANCE ::
    "'d http_parser_settings \<Rightarrow> bytes \<Rightarrow> http_mark \<Rightarrow> 'd http_run \<Rightarrow> ('d http_run \<Rightarrow> 'd step) \<Rightarrow> 'd step" where
  "CALLBACK_DATA_NOADVANCE S data m r k = CALLBACK_DATA_AT S data m (r_p r) (r_p r) r k"

section \<open>Messages\<close>

definition http_message_needs_eof :: "http_parser \<Rightarrow> bool" where
  "http_message_needs_eof q =
     (if hp_type q = HTTP_REQUEST then False
      else if hp_status_code q div 100 = 1 \<or> hp_status_code q = 204 \<or> hp_status_code q = 304 \<or> has_flag F_SKIPBODY q
      then False
      else if has_transfer_encoding q \<and> \<not> has_flag F_CHUNKED q then True
      else if has_flag F_CHUNKED q \<or> hp_content_length q \<noteq> - 1 then False
      else True)"

definition http_should_keep_alive :: "http_parser \<Rightarrow> bool" where
  "http_should_keep_alive q =
     (if hp_major q > 0 \<and> hp_minor q > 0
      then if has_flag F_CONNECTION_CLOSE q then False else \<not> http_message_needs_eof q
      else if \<not> has_flag F_CONNECTION_KEEP_ALIVE q then False else \<not> http_message_needs_eof q)"

definition NEW_MESSAGE :: "http_parser \<Rightarrow> http_state" where
  "NEW_MESSAGE q =
     (if http_should_keep_alive q then if hp_type q = HTTP_REQUEST then s_start_req else s_start_res else s_dead)"

text \<open>\<open>None\<close> is the failed assertion.\<close>

definition http_parser_pause :: "http_parser \<Rightarrow> bool \<Rightarrow> http_parser option" where
  "http_parser_pause q paused =
     (if hp_errno q = HPE_OK \<or> hp_errno q = HPE_PAUSED
      then Some (q\<lparr>hp_errno := if paused then HPE_PAUSED else HPE_OK\<rparr>) else None)"

definition http_body_is_final :: "http_parser \<Rightarrow> bool" where
  "http_body_is_final q \<longleftrightarrow> hp_state q = s_message_done"


section \<open>The start of a message and the status line\<close>

text \<open>The three resets at the first byte of a message.\<close>

definition new_message :: "'d http_run \<Rightarrow> 'd http_run" where
  "new_message = set_parser (\<lambda>q. q\<lparr>hp_flags := 0, hp_extra_flags := 0, hp_content_length := - 1\<rparr>)"

definition step_start :: "'d http_parser_settings \<Rightarrow> 'd http_run \<Rightarrow> 'd step" where
  "step_start S r =
     (let ch = r_ch r in
      case r_state r of
        s_dead \<Rightarrow> if ch = CR \<or> ch = LF then (Break, r) else goto_error HPE_CLOSED_CONNECTION r
      | s_start_req_or_res \<Rightarrow>
          if ch = CR \<or> ch = LF then (Break, r)
          else let r = new_message r in
            if ch = ch8 CHR ''H''
            then CALLBACK_NOTIFY (cb_message_begin S) HPE_CB_message_begin (UPDATE_STATE s_res_or_resp_H r) (Pair Break)
            else (Reexecute, UPDATE_STATE s_start_req (set_parser (\<lambda>q. q\<lparr>hp_type := HTTP_REQUEST\<rparr>) r))
      | s_res_or_resp_H \<Rightarrow>
          if ch = ch8 CHR ''T''
          then (Break, UPDATE_STATE s_res_HT (set_parser (\<lambda>q. q\<lparr>hp_type := HTTP_RESPONSE\<rparr>) r))
          else if ch \<noteq> ch8 CHR ''E'' then goto_error HPE_INVALID_CONSTANT r
          else (Break, UPDATE_STATE s_req_method
            (set_parser (\<lambda>q. q\<lparr>hp_type := HTTP_REQUEST, hp_method := HTTP_HEAD, hp_index := 2\<rparr>) r))
      | _ \<Rightarrow>
          if ch = CR \<or> ch = LF then (Break, r)
          else let r = new_message r in
            if ch = ch8 CHR ''H''
            then CALLBACK_NOTIFY (cb_message_begin S) HPE_CB_message_begin (UPDATE_STATE s_res_H r) (Pair Break)
            else goto_error HPE_INVALID_CONSTANT r)"

text \<open>\<open>STRICT_CHECK(ch != x)\<close> and on to the next state.\<close>

definition expect :: "u8 \<Rightarrow> http_state \<Rightarrow> 'd http_run \<Rightarrow> 'd step" where
  "expect x s r = STRICT_CHECK (r_ch r \<noteq> x) r (\<lambda>r. (Break, UPDATE_STATE s r))"

text \<open>A digit of the version, by one of the two setters, or the character between two.\<close>

definition version_digit :: "(u16 \<Rightarrow> http_parser \<Rightarrow> http_parser) \<Rightarrow> http_state \<Rightarrow> 'd http_run \<Rightarrow> 'd step" where
  "version_digit f s r =
     (if \<not> IS_NUM (r_ch r) then goto_error HPE_INVALID_VERSION r
      else (Break, UPDATE_STATE s (set_parser (f (ucast (r_ch r - ch8 CHR ''0''))) r)))"

definition set_major :: "u16 \<Rightarrow> http_parser \<Rightarrow> http_parser" where
  "set_major n q = q\<lparr>hp_major := n\<rparr>"

definition set_minor :: "u16 \<Rightarrow> http_parser \<Rightarrow> http_parser" where
  "set_minor n q = q\<lparr>hp_minor := n\<rparr>"

definition version_char :: "u8 \<Rightarrow> http_state \<Rightarrow> 'd http_run \<Rightarrow> 'd step" where
  "version_char x s r =
     (if r_ch r \<noteq> x then goto_error HPE_INVALID_VERSION r else (Break, UPDATE_STATE s r))"

definition step_status :: "'d http_parser_settings \<Rightarrow> bytes \<Rightarrow> 'd http_run \<Rightarrow> 'd step" where
  "step_status S data r =
     (let ch = r_ch r in
      case r_state r of
        s_res_H \<Rightarrow> expect (ch8 CHR ''T'') s_res_HT r
      | s_res_HT \<Rightarrow> expect (ch8 CHR ''T'') s_res_HTT r
      | s_res_HTT \<Rightarrow> expect (ch8 CHR ''P'') s_res_HTTP r
      | s_res_HTTP \<Rightarrow> expect (ch8 CHR ''/'') s_res_http_major r
      | s_res_http_major \<Rightarrow> version_digit set_major s_res_http_dot r
      | s_res_http_dot \<Rightarrow> version_char (ch8 CHR ''.'') s_res_http_minor r
      | s_res_http_minor \<Rightarrow> version_digit set_minor s_res_http_end r
      | s_res_http_end \<Rightarrow> version_char SPACE s_res_first_status_code r
      | s_res_first_status_code \<Rightarrow>
          if \<not> IS_NUM ch then if ch = SPACE then (Break, r) else goto_error HPE_INVALID_STATUS r
          else (Break, UPDATE_STATE s_res_status_code
            (set_parser (\<lambda>q. q\<lparr>hp_status_code := ucast (ch - ch8 CHR ''0'')\<rparr>) r))
      | s_res_status_code \<Rightarrow>
          if \<not> IS_NUM ch
          then if ch = SPACE then (Break, UPDATE_STATE s_res_status_start r)
            else if ch = CR \<or> ch = LF then (Reexecute, UPDATE_STATE s_res_status_start r)
            else goto_error HPE_INVALID_STATUS r
          else let r = set_parser (\<lambda>q. q\<lparr>hp_status_code := hp_status_code q * 10 + ucast (ch - ch8 CHR ''0'')\<rparr>) r
            in if hp_status_code (r_parser r) > 999 then goto_error HPE_INVALID_STATUS r else (Break, r)
      | s_res_status_start \<Rightarrow>
          let r = set_index 0 (UPDATE_STATE s_res_status (MARK Status_mark r))
          in (if ch = CR \<or> ch = LF then Reexecute else Break, r)
      | s_res_status \<Rightarrow>
          if ch = CR then CALLBACK_DATA S data Status_mark (UPDATE_STATE s_res_line_almost_done r) (Pair Break)
          else if ch = LF then CALLBACK_DATA S data Status_mark (UPDATE_STATE s_header_field_start r) (Pair Break)
          else (Break, r)
      | _ \<Rightarrow> expect LF s_header_field_start r)"


section \<open>The request line\<close>

definition step_method :: "'d http_parser_settings \<Rightarrow> 'd http_run \<Rightarrow> 'd step" where
  "step_method S r =
     (let ch = r_ch r in
      case r_state r of
        s_start_req \<Rightarrow>
          if ch = CR \<or> ch = LF then (Break, r)
          else let r = new_message r in
            if \<not> IS_ALPHA ch then goto_error HPE_INVALID_METHOD r
            else let r = set_parser (\<lambda>q. q\<lparr>hp_method := 0, hp_index := 1\<rparr>) r in
              (case map_of method_start ch of
                 None \<Rightarrow> goto_error HPE_INVALID_METHOD r
               | Some m \<Rightarrow>
                   CALLBACK_NOTIFY (cb_message_begin S) HPE_CB_message_begin
                     (UPDATE_STATE s_req_method (set_parser (\<lambda>q. q\<lparr>hp_method := m\<rparr>) r)) (Pair Break))
      | _ \<Rightarrow>
          if ch = 0 then goto_error HPE_INVALID_METHOD r
          else let q = r_parser r;
                   matcher = method_strings ! unat (hp_method q);
                   i = unat (hp_index q);
                   next_index = set_parser (\<lambda>q. q\<lparr>hp_index := hp_index q + 1\<rparr>)
            in if ch = SPACE \<and> cstr_at matcher i = 0
               then (Break, next_index (UPDATE_STATE s_req_spaces_before_url r))
               else if ch = cstr_at matcher i then (Break, next_index r)
               else if ch8 CHR ''A'' \<le> ch \<and> ch \<le> ch8 CHR ''Z'' \<or> ch = ch8 CHR ''-''
               then (case map_of method_switch (hp_method q, i, ch) of
                       None \<Rightarrow> goto_error HPE_INVALID_METHOD r
                     | Some m \<Rightarrow> (Break, next_index (set_parser (\<lambda>q. q\<lparr>hp_method := m\<rparr>) r)))
               else goto_error HPE_INVALID_METHOD r)"

text \<open>\<open>UPDATE_STATE(parse_url_char(CURRENT_STATE(), ch))\<close>, and out when that is dead.\<close>

definition url_char :: "'d http_run \<Rightarrow> 'd step" where
  "url_char r =
     (let r = UPDATE_STATE (parse_url_char (r_state r) (r_ch r)) r
      in if r_state r = s_dead then goto_error HPE_INVALID_URL r else (Break, r))"

definition step_url :: "'d http_parser_settings \<Rightarrow> bytes \<Rightarrow> 'd http_run \<Rightarrow> 'd step" where
  "step_url S data r =
     (let ch = r_ch r in
      if r_state r = s_req_spaces_before_url
      then if ch = SPACE then (Break, r)
        else let r = MARK Url_mark r;
                 r = (if hp_method (r_parser r) = HTTP_CONNECT then UPDATE_STATE s_req_server_start r else r)
          in url_char r
      else if r_state r \<in> {s_req_schema, s_req_schema_slash, s_req_schema_slash_slash, s_req_server_start}
      then if ch = SPACE \<or> ch = CR \<or> ch = LF then goto_error HPE_INVALID_URL r else url_char r
      else if ch = SPACE then CALLBACK_DATA S data Url_mark (UPDATE_STATE s_req_http_start r) (Pair Break)
      else if ch = CR \<or> ch = LF
      then CALLBACK_DATA S data Url_mark
        (UPDATE_STATE (if ch = CR then s_req_line_almost_done else s_header_field_start)
          (set_parser (\<lambda>q. q\<lparr>hp_major := 0, hp_minor := 9\<rparr>) r)) (Pair Break)
      else url_char r)"

definition step_version :: "'d http_run \<Rightarrow> 'd step" where
  "step_version r =
     (let ch = r_ch r in
      case r_state r of
        s_req_http_start \<Rightarrow>
          if ch = SPACE then (Break, r)
          else if ch = ch8 CHR ''H'' then (Break, UPDATE_STATE s_req_http_H r)
          else if ch = ch8 CHR ''I'' \<and> hp_method (r_parser r) = HTTP_SOURCE then (Break, UPDATE_STATE s_req_http_I r)
          else goto_error HPE_INVALID_CONSTANT r
      | s_req_http_H \<Rightarrow> expect (ch8 CHR ''T'') s_req_http_HT r
      | s_req_http_HT \<Rightarrow> expect (ch8 CHR ''T'') s_req_http_HTT r
      | s_req_http_HTT \<Rightarrow> expect (ch8 CHR ''P'') s_req_http_HTTP r
      | s_req_http_I \<Rightarrow> expect (ch8 CHR ''C'') s_req_http_IC r
      | s_req_http_IC \<Rightarrow> expect (ch8 CHR ''E'') s_req_http_HTTP r
      | s_req_http_HTTP \<Rightarrow> expect (ch8 CHR ''/'') s_req_http_major r
      | s_req_http_major \<Rightarrow> version_digit set_major s_req_http_dot r
      | s_req_http_dot \<Rightarrow> version_char (ch8 CHR ''.'') s_req_http_minor r
      | s_req_http_minor \<Rightarrow> version_digit set_minor s_req_http_end r
      | s_req_http_end \<Rightarrow>
          if ch = CR then (Break, UPDATE_STATE s_req_line_almost_done r)
          else if ch = LF then (Break, UPDATE_STATE s_header_field_start r)
          else goto_error HPE_INVALID_VERSION r
      | _ \<Rightarrow>
          if ch \<noteq> LF then goto_error HPE_LF_EXPECTED r
          else (Break, UPDATE_STATE s_header_field_start r))"

section \<open>Header names\<close>

text \<open>\<open>index > sizeof(NAME)-1 || c != NAME[index]\<close>, and the last letter but for the zero.\<close>

definition match_name :: "string \<Rightarrow> http_header_state \<Rightarrow> http_header_state \<Rightarrow> http_header_state \<Rightarrow> 5 word \<Rightarrow> u8 \<Rightarrow> http_header_state" where
  "match_name name cur no yes i c =
     (if unat i > length name \<or> c \<noteq> cstr_at (ascii name) (unat i) then no
      else if unat i = length name - 1 then yes
      else cur)"

text \<open>One character of a name. \<open>None\<close> is the assertion in the default branch; \<open>h_general\<close> has a
  loop of its own.\<close>

definition field_char :: "u8 \<Rightarrow> u8 \<Rightarrow> http_parser \<Rightarrow> http_parser option" where
  "field_char ch c q =
     (let q' = q\<lparr>hp_index := hp_index q + 1\<rparr>;
          to = (\<lambda>h. Some (q'\<lparr>hp_header_state := h\<rparr>));
          name = (\<lambda>nm yes. match_name nm (hp_header_state q) h_general yes (hp_index q') c)
      in case hp_header_state q of
           h_C \<Rightarrow> to (if c = ch8 CHR ''o'' then h_CO else h_general)
         | h_CO \<Rightarrow> to (if c = ch8 CHR ''n'' then h_CON else h_general)
         | h_CON \<Rightarrow> to (if c = ch8 CHR ''n'' then h_matching_connection
                         else if c = ch8 CHR ''t'' then h_matching_content_length else h_general)
         | h_matching_connection \<Rightarrow> to (name ''connection'' h_connection)
         | h_matching_proxy_connection \<Rightarrow> to (name ''proxy-connection'' h_connection)
         | h_matching_content_length \<Rightarrow> to (name ''content-length'' h_content_length)
         | h_matching_transfer_encoding \<Rightarrow>
             let h = name ''transfer-encoding'' h_transfer_encoding
             in Some (q'\<lparr>hp_header_state := h,
                  hp_extra_flags := if h = h_transfer_encoding then hp_extra_flags q OR 1 else hp_extra_flags q\<rparr>)
         | h_matching_upgrade \<Rightarrow> to (name ''upgrade'' h_upgrade)
         | h_connection \<Rightarrow> Some (if ch \<noteq> SPACE then q\<lparr>hp_header_state := h_general\<rparr> else q)
         | h_content_length \<Rightarrow> Some (if ch \<noteq> SPACE then q\<lparr>hp_header_state := h_general\<rparr> else q)
         | h_transfer_encoding \<Rightarrow> Some (if ch \<noteq> SPACE then q\<lparr>hp_header_state := h_general\<rparr> else q)
         | h_upgrade \<Rightarrow> Some (if ch \<noteq> SPACE then q\<lparr>hp_header_state := h_general\<rparr> else q)
         | _ \<Rightarrow> None)"


text \<open>\<open>while (p+1 < pe && TOKEN(p[1])) p++\<close> with \<open>pe = p + MIN(left, max_header_size)\<close>.\<close>

definition skip_tokens :: "bytes \<Rightarrow> nat \<Rightarrow> nat" where
  "skip_tokens data p =
     p + length (takeWhile (\<lambda>c. TOKEN c \<noteq> 0)
       (drop (p + 1) (take (p + min (length data - p) max_header_size) data)))"

text \<open>The loop over the characters of a name, up to its end or the end of the data; \<open>False\<close> is a
  failed assertion.\<close>

function field_loop :: "bytes \<Rightarrow> 'd http_run \<Rightarrow> bool \<times> 'd http_run" where
  "field_loop data r =
     (if r_p r < length data
      then let ch = data ! r_p r; r = r\<lparr>r_ch := ch\<rparr>
        in if TOKEN ch = 0 then (True, r)
           else if hp_header_state (r_parser r) = h_general
           then field_loop data (r\<lparr>r_p := skip_tokens data (r_p r) + 1\<rparr>)
           else case field_char ch (TOKEN ch) (r_parser r) of
                  None \<Rightarrow> (False, r)
                | Some q \<Rightarrow> field_loop data (r\<lparr>r_parser := q, r_p := r_p r + 1\<rparr>)
      else (True, r))"
  by pat_completeness auto
termination
  by (relation "measure (\<lambda>(data, r). length data - r_p r)") (auto simp: skip_tokens_def)

declare field_loop.simps [simp del]

definition field_start :: "u8 \<Rightarrow> http_header_state" where
  "field_start c =
     (if c = ch8 CHR ''c'' then h_C
      else if c = ch8 CHR ''p'' then h_matching_proxy_connection
      else if c = ch8 CHR ''t'' then h_matching_transfer_encoding
      else if c = ch8 CHR ''u'' then h_matching_upgrade
      else h_general)"

definition step_field :: "'d http_parser_settings \<Rightarrow> bytes \<Rightarrow> 'd http_run \<Rightarrow> 'd step" where
  "step_field S data r =
     (let ch = r_ch r in
      if r_state r = s_header_field_start
      then if ch = CR then (Break, UPDATE_STATE s_headers_almost_done r)
        else if ch = LF then (Reexecute, UPDATE_STATE s_headers_almost_done r)
        else let c = TOKEN ch in
          if c = 0 then goto_error HPE_INVALID_HEADER_TOKEN r
          else (Break, set_header_state (field_start c) (UPDATE_STATE s_header_field (set_index 0 (MARK Header_field_mark r))))
      else let start = r_p r; (ok, r) = field_loop data r in
        ASSERT ok r (\<lambda>r.
          if r_p r = length data
          then let r = r\<lparr>r_p := r_p r - 1\<rparr> in COUNT_HEADER_SIZE (r_p r - start) r (Pair Break)
          else COUNT_HEADER_SIZE (r_p r - start) r (\<lambda>r.
            if r_ch r = ch8 CHR '':''
            then CALLBACK_DATA S data Header_field_mark (UPDATE_STATE s_header_value_discard_ws r) (Pair Break)
            else goto_error HPE_INVALID_HEADER_TOKEN r)))"

section \<open>Header values\<close>

text \<open>The first character of a value.\<close>

definition value_start :: "'d http_run \<Rightarrow> 'd step" where
  "value_start r =
     (let ch = r_ch r;
          r = set_index 0 (UPDATE_STATE s_header_value (MARK Header_value_mark r));
          c = LOWER ch;
          q = r_parser r;
          to = (\<lambda>h. (Break, set_header_state h r))
      in case hp_header_state q of
           h_upgrade \<Rightarrow> (Break, set_header_state h_general (set_flag F_UPGRADE r))
         | h_transfer_encoding \<Rightarrow>
             to (if c = ch8 CHR ''c'' then h_matching_transfer_encoding_chunked else h_matching_transfer_encoding_token)
         | h_matching_transfer_encoding_token_start \<Rightarrow> (Break, r)
         | h_content_length \<Rightarrow>
             if \<not> IS_NUM ch then goto_error HPE_INVALID_CONTENT_LENGTH r
             else if has_flag F_CONTENTLENGTH q then goto_error HPE_UNEXPECTED_CONTENT_LENGTH r
             else (Break, set_header_state h_content_length_num
               (set_parser (\<lambda>q. q\<lparr>hp_content_length := ucast (ch - ch8 CHR ''0'')\<rparr>) (set_flag F_CONTENTLENGTH r)))
         | h_content_length_ws \<Rightarrow> (Break, r)
         | h_connection \<Rightarrow>
             to (if c = ch8 CHR ''k'' then h_matching_connection_keep_alive
                 else if c = ch8 CHR ''c'' then h_matching_connection_close
                 else if c = ch8 CHR ''u'' then h_matching_connection_upgrade
                 else h_matching_connection_token)
         | h_matching_connection_token_start \<Rightarrow> (Break, r)
         | _ \<Rightarrow> to h_general)"

definition step_value_start :: "'d http_run \<Rightarrow> 'd step" where
  "step_value_start r =
     (let ch = r_ch r in
      if r_state r = s_header_value_discard_ws
      then if ch = SPACE \<or> ch = HTAB then (Break, r)
        else if ch = CR then (Break, UPDATE_STATE s_header_value_discard_ws_almost_done r)
        else if ch = LF then (Break, UPDATE_STATE s_header_value_discard_lws r)
        else value_start r
      else value_start r)"

text \<open>A flag for a connection option that ends here.\<close>

definition connection_flag :: "http_header_state \<Rightarrow> u8" where
  "connection_flag h =
     (case h of
        h_connection_keep_alive \<Rightarrow> F_CONNECTION_KEEP_ALIVE
      | h_connection_close \<Rightarrow> F_CONNECTION_CLOSE
      | h_connection_upgrade \<Rightarrow> F_CONNECTION_UPGRADE
      | _ \<Rightarrow> 0)"

text \<open>The result of a character of a value: an error, an assertion, or the parser and the header
  state.\<close>

datatype value_result = Value_error http_header_state | Value_assert | Value http_parser http_header_state

definition content_length_digit :: "u8 \<Rightarrow> http_parser \<Rightarrow> value_result" where
  "content_length_digit ch q =
     (if ch = SPACE then Value q h_content_length_ws
      else if \<not> IS_NUM ch then Value_error h_content_length_num
      else let t = hp_content_length q * 10 + ucast (ch - ch8 CHR ''0'')
        in if (- 1 - 10) div 10 < hp_content_length q then Value_error h_content_length_num
           else Value (q\<lparr>hp_content_length := t\<rparr>) h_content_length_num)"


text \<open>A connection option is over at a comma.\<close>

definition connection_end :: "u8 \<Rightarrow> http_parser \<Rightarrow> http_header_state \<Rightarrow> value_result" where
  "connection_end ch q h =
     (if ch = ch8 CHR '',''
      then Value (q\<lparr>hp_flags := hp_flags q OR connection_flag h, hp_index := 0\<rparr>) h_matching_connection_token_start
      else if ch \<noteq> SPACE then Value q h_matching_connection_token
      else Value q h)"

text \<open>One character of a value in header state \<open>h\<close>, but for \<open>h_general\<close>, which has a loop of its own.\<close>

definition value_char :: "u8 \<Rightarrow> http_parser \<Rightarrow> http_header_state \<Rightarrow> value_result" where
  "value_char ch q h =
     (let c = LOWER ch;
          q' = q\<lparr>hp_index := hp_index q + 1\<rparr>;
          q0 = q\<lparr>hp_index := 0\<rparr>;
          name = (\<lambda>nm no yes. Value q' (match_name nm h no yes (hp_index q') c))
      in case h of
           h_connection \<Rightarrow> Value_assert
         | h_transfer_encoding \<Rightarrow> Value_assert
         | h_content_length \<Rightarrow> if ch = SPACE then Value q h else content_length_digit ch q
         | h_content_length_num \<Rightarrow> content_length_digit ch q
         | h_content_length_ws \<Rightarrow> if ch = SPACE then Value q h else Value_error h
         | h_matching_transfer_encoding_token_start \<Rightarrow>
             Value q (if c = ch8 CHR ''c'' then h_matching_transfer_encoding_chunked
                      else if TOKEN c \<noteq> 0 then h_matching_transfer_encoding_token
                      else if c = SPACE \<or> c = HTAB then h
                      else h_general)
         | h_matching_transfer_encoding_chunked \<Rightarrow>
             name ''chunked'' h_matching_transfer_encoding_token h_transfer_encoding_chunked
         | h_matching_transfer_encoding_token \<Rightarrow>
             if ch = ch8 CHR '','' then Value q0 h_matching_transfer_encoding_token_start else Value q h
         | h_matching_connection_token_start \<Rightarrow>
             Value q (if c = ch8 CHR ''k'' then h_matching_connection_keep_alive
                      else if c = ch8 CHR ''c'' then h_matching_connection_close
                      else if c = ch8 CHR ''u'' then h_matching_connection_upgrade
                      else if TOKEN c \<noteq> 0 then h_matching_connection_token
                      else if c = SPACE \<or> c = HTAB then h
                      else h_general)
         | h_matching_connection_keep_alive \<Rightarrow> name ''keep-alive'' h_matching_connection_token h_connection_keep_alive
         | h_matching_connection_close \<Rightarrow> name ''close'' h_matching_connection_token h_connection_close
         | h_matching_connection_upgrade \<Rightarrow> name ''upgrade'' h_matching_connection_token h_connection_upgrade
         | h_matching_connection_token \<Rightarrow>
             if ch = ch8 CHR '','' then Value q0 h_matching_connection_token_start else Value q h
         | h_transfer_encoding_chunked \<Rightarrow> Value q (if ch \<noteq> SPACE then h_matching_transfer_encoding_token else h)
         | h_connection_keep_alive \<Rightarrow> connection_end ch q h
         | h_connection_close \<Rightarrow> connection_end ch q h
         | h_connection_upgrade \<Rightarrow> connection_end ch q h
         | _ \<Rightarrow> Value q h_general)"

text \<open>The inner loop for a value of no interest: from \<open>p\<close> up to a line end, an invalid character or
  \<open>pe\<close>. The first component is \<open>False\<close> for an invalid character; then the position, which is
  that of the last character before the line end or the end of the data, and the last character seen.\<close>

definition value_skip :: "bool \<Rightarrow> bytes \<Rightarrow> nat \<Rightarrow> bool \<times> nat \<times> u8" where
  "value_skip lenient data p =
     (let seg = take (min (length data - p) max_header_size) (drop p data);
          n = length (takeWhile (\<lambda>ch. ch \<noteq> CR \<and> ch \<noteq> LF \<and> (lenient \<or> IS_HEADER_CHAR ch)) seg)
      in if n < length seg
         then if seg ! n = CR \<or> seg ! n = LF then (True, p + n - 1, seg ! n) else (False, p + n, seg ! n)
         else (True, if p + n = length data then p + n - 1 else p + n, last seg))"

lemma value_skip_ge:
  assumes "p < length data" "data ! p \<noteq> CR" "data ! p \<noteq> LF" "lenient \<or> IS_HEADER_CHAR (data ! p)"
    "value_skip lenient data p = (ok, q, ch)"
  shows "p \<le> q"
proof -
  define seg where "seg = take (min (length data - p) max_header_size) (drop p data)"
  define n where "n = length (takeWhile (\<lambda>ch. ch \<noteq> CR \<and> ch \<noteq> LF \<and> (lenient \<or> IS_HEADER_CHAR ch)) seg)"
  have "drop p data = data ! p # drop (Suc p) data" using assms(1) by (simp add: Cons_nth_drop_Suc)
  moreover obtain k where "min (length data - p) max_header_size = Suc k"
    using assms(1) by (cases "min (length data - p) max_header_size") (auto simp: max_header_size_def min_def split: if_splits)
  ultimately have "seg = data ! p # take k (drop (Suc p) data)" by (simp add: seg_def)
  then have "0 < n" using assms(2-4) by (simp add: n_def)
  with assms(5) show ?thesis by (auto simp: value_skip_def Let_def seg_def [symmetric] n_def [symmetric] split: if_splits)
qed

text \<open>After the loop.\<close>

definition value_done :: "bytes \<Rightarrow> nat \<Rightarrow> http_header_state \<Rightarrow> 'd http_run \<Rightarrow> 'd step" where
  "value_done data start h r =
     (let r = set_header_state h r;
          r = (if r_p r = length data then r\<lparr>r_p := r_p r - 1\<rparr> else r)
      in COUNT_HEADER_SIZE (r_p r - start) r (Pair Break))"

function value_loop :: "'d http_parser_settings \<Rightarrow> bytes \<Rightarrow> nat \<Rightarrow> http_header_state \<Rightarrow> 'd http_run \<Rightarrow> 'd step" where
  "value_loop S data start h r =
     (if r_p r < length data
      then let ch = data ! r_p r; r = r\<lparr>r_ch := ch\<rparr> in
        if ch = CR
        then CALLBACK_DATA S data Header_value_mark (set_header_state h (UPDATE_STATE s_header_almost_done r))
          (value_done data start h)
        else if ch = LF
        then COUNT_HEADER_SIZE (r_p r - start) (UPDATE_STATE s_header_almost_done r) (\<lambda>r.
          CALLBACK_DATA_NOADVANCE S data Header_value_mark (set_header_state h r) (Pair Reexecute))
        else if \<not> r_lenient r \<and> \<not> IS_HEADER_CHAR ch then goto_error HPE_INVALID_HEADER_TOKEN r
        else if h = h_general
        then case value_skip (r_lenient r) data (r_p r) of (ok, p, ch) \<Rightarrow>
          let r = r\<lparr>r_p := p, r_ch := ch\<rparr> in
          if ok then value_loop S data start h (r\<lparr>r_p := r_p r + 1\<rparr>) else goto_error HPE_INVALID_HEADER_TOKEN r
        else case value_char ch (r_parser r) h of
            Value_error h \<Rightarrow> (Error_exit, set_header_state h (SET_ERRNO HPE_INVALID_CONTENT_LENGTH r))
          | Value_assert \<Rightarrow> (Abort, r)
          | Value q h \<Rightarrow> value_loop S data start h (r\<lparr>r_parser := q, r_p := r_p r + 1\<rparr>)
      else value_done data start h r)"
  by pat_completeness auto
termination
proof (relation "measure (\<lambda>(S, data, start, h, r). length data - r_p r)", goal_cases)
  case (2 S data start h r ch r' res ok p ch')
  then have "r_p r \<le> p" using value_skip_ge [of "r_p r" data "r_lenient r" "res" p ch'] by auto
  with 2 show ?case by auto
qed auto

declare value_loop.simps [simp del]

definition step_value :: "'d http_parser_settings \<Rightarrow> bytes \<Rightarrow> 'd http_run \<Rightarrow> 'd step" where
  "step_value S data r = value_loop S data (r_p r) (hp_header_state (r_parser r)) r"


section \<open>The end of a header\<close>

text \<open>The flag of the header that ends here.\<close>

definition header_flag :: "http_header_state \<Rightarrow> u8" where
  "header_flag h = (if h = h_transfer_encoding_chunked then F_CHUNKED else connection_flag h)"

definition step_header_end :: "'d http_parser_settings \<Rightarrow> bytes \<Rightarrow> 'd http_run \<Rightarrow> 'd step" where
  "step_header_end S data r =
     (let ch = r_ch r; h = hp_header_state (r_parser r) in
      case r_state r of
        s_header_almost_done \<Rightarrow>
          if ch \<noteq> LF then goto_error HPE_LF_EXPECTED r else (Break, UPDATE_STATE s_header_value_lws r)
      | s_header_value_lws \<Rightarrow>
          if ch = SPACE \<or> ch = HTAB
          then (Reexecute, UPDATE_STATE s_header_value_start
            (if h = h_content_length_num then set_header_state h_content_length_ws r else r))
          else (Reexecute, UPDATE_STATE s_header_field_start (set_flag (header_flag h) r))
      | s_header_value_discard_ws_almost_done \<Rightarrow> expect LF s_header_value_discard_lws r
      | _ \<Rightarrow>
          if ch = SPACE \<or> ch = HTAB then (Break, UPDATE_STATE s_header_value_discard_ws r)
          else if h = h_content_length then goto_error HPE_INVALID_CONTENT_LENGTH r
          else CALLBACK_DATA_NOADVANCE S data Header_value_mark
            (UPDATE_STATE s_header_field_start (MARK Header_value_mark (set_flag (header_flag h) r))) (Pair Reexecute))"

section \<open>The end of the headers\<close>

text \<open>\<open>parser->upgrade\<close>.\<close>

definition upgrade_wanted :: "http_parser \<Rightarrow> bool" where
  "upgrade_wanted q =
     (if has_flag F_UPGRADE q \<and> has_flag F_CONNECTION_UPGRADE q
      then hp_type q = HTTP_REQUEST \<or> hp_status_code q = 101
      else hp_method q = HTTP_CONNECT)"

text \<open>The call of \<open>on_headers_complete\<close>, whose result is more than an error.\<close>

definition call_headers_complete :: "'d http_parser_settings \<Rightarrow> 'd http_run \<Rightarrow> 'd step" where
  "call_headers_complete S r =
     (let finish = (\<lambda>r. if hp_errno (r_parser r) \<noteq> HPE_OK then RETURN (r_p r) r else (Reexecute, r)) in
      case cb_headers_complete S of
        None \<Rightarrow> finish r
      | Some f \<Rightarrow>
          (case f (r_parser r) (r_data r) of (v, q, d) \<Rightarrow>
             let r = r\<lparr>r_parser := q, r_data := d\<rparr> in
             if v = 0 then finish r
             else if v = 2 then finish (set_flag F_SKIPBODY (set_parser (\<lambda>q. q\<lparr>hp_upgrade := True\<rparr>) r))
             else if v = 1 then finish (set_flag F_SKIPBODY r)
             else let r = SET_ERRNO HPE_CB_headers_complete r in RETURN (r_p r) r))"

definition step_headers_almost_done :: "'d http_parser_settings \<Rightarrow> 'd http_run \<Rightarrow> 'd step" where
  "step_headers_almost_done S r =
     STRICT_CHECK (r_ch r \<noteq> LF) r (\<lambda>r.
       let q = r_parser r in
       if has_flag F_TRAILING q
       then CALLBACK_NOTIFY_NOADVANCE (cb_chunk_complete S) HPE_CB_chunk_complete (UPDATE_STATE s_message_done r)
         (Pair Reexecute)
       else if has_transfer_encoding q \<and> has_flag F_CONTENTLENGTH q \<and> (\<not> r_lenient r \<or> has_flag F_CHUNKED q)
       then goto_error HPE_UNEXPECTED_CONTENT_LENGTH r
       else call_headers_complete S
         (set_parser (\<lambda>q. q\<lparr>hp_upgrade := upgrade_wanted q\<rparr>) (UPDATE_STATE s_headers_done r)))"

text \<open>\<open>UPDATE_STATE(NEW_MESSAGE()); CALLBACK_NOTIFY(message_complete)\<close>.\<close>

definition message_complete :: "'d http_parser_settings \<Rightarrow> 'd http_run \<Rightarrow> ('d http_run \<Rightarrow> 'd step) \<Rightarrow> 'd step" where
  "message_complete S r k =
     CALLBACK_NOTIFY (cb_message_complete S) HPE_CB_message_complete (UPDATE_STATE (NEW_MESSAGE (r_parser r)) r) k"

definition reset_nread :: "'d http_run \<Rightarrow> 'd http_run" where
  "reset_nread r = (set_parser (\<lambda>q. q\<lparr>hp_nread := 0\<rparr>) r)\<lparr>r_nread := 0\<rparr>"

definition has_body :: "http_parser \<Rightarrow> bool" where
  "has_body q \<longleftrightarrow> has_flag F_CHUNKED q \<or> hp_content_length q > 0 \<and> hp_content_length q \<noteq> - 1"

definition step_headers_done :: "'d http_parser_settings \<Rightarrow> 'd http_run \<Rightarrow> 'd step" where
  "step_headers_done S r =
     STRICT_CHECK (r_ch r \<noteq> LF) r (\<lambda>r.
       let r = reset_nread r; q = r_parser r in
       if hp_upgrade q \<and> (hp_method q = HTTP_CONNECT \<or> has_flag F_SKIPBODY q \<or> \<not> has_body q)
       then message_complete S r (\<lambda>r. RETURN (r_p r + 1) r)
       else if has_flag F_SKIPBODY q then message_complete S r (Pair Break)
       else if has_flag F_CHUNKED q then (Break, UPDATE_STATE s_chunk_size_start r)
       else if has_transfer_encoding q
       then if hp_type q = HTTP_REQUEST \<and> \<not> r_lenient r
         then let r = SET_ERRNO HPE_INVALID_TRANSFER_ENCODING r in RETURN (r_p r) r
         else (Break, UPDATE_STATE s_body_identity_eof r)
       else if hp_content_length q = 0 then message_complete S r (Pair Break)
       else if hp_content_length q \<noteq> - 1 then (Break, UPDATE_STATE s_body_identity r)
       else if \<not> http_message_needs_eof q then message_complete S r (Pair Break)
       else (Break, UPDATE_STATE s_body_identity_eof r))"

section \<open>Bodies and chunks\<close>

text \<open>\<open>MARK(body); content_length -= to_read; p += to_read - 1\<close>.\<close>

definition take_body :: "bytes \<Rightarrow> 'd http_run \<Rightarrow> 'd http_run" where
  "take_body data r =
     (let to_read = min (unat (hp_content_length (r_parser r))) (length data - r_p r);
          r = set_parser (\<lambda>q. q\<lparr>hp_content_length := hp_content_length q - of_nat to_read\<rparr>) (MARK Body_mark r)
      in r\<lparr>r_p := r_p r + to_read - 1\<rparr>)"

definition step_body :: "'d http_parser_settings \<Rightarrow> bytes \<Rightarrow> 'd http_run \<Rightarrow> 'd step" where
  "step_body S data r =
     (case r_state r of
        s_body_identity \<Rightarrow>
          ASSERT (hp_content_length (r_parser r) \<noteq> 0 \<and> hp_content_length (r_parser r) \<noteq> - 1) r (\<lambda>r.
            let r = take_body data r in
            if hp_content_length (r_parser r) = 0
            then let r = UPDATE_STATE s_message_done r in
              CALLBACK_DATA_AT S data Body_mark (r_p r + 1) (r_p r) r (Pair Reexecute)
            else (Break, r))
      | s_body_identity_eof \<Rightarrow> (Break, (MARK Body_mark r)\<lparr>r_p := length data - 1\<rparr>)
      | _ \<Rightarrow>
          message_complete S r (\<lambda>r. if hp_upgrade (r_parser r) then RETURN (r_p r + 1) r else (Break, r)))"

definition step_chunk :: "'d http_parser_settings \<Rightarrow> bytes \<Rightarrow> 'd http_run \<Rightarrow> 'd step" where
  "step_chunk S data r =
     ASSERT (has_flag F_CHUNKED (r_parser r)) r (\<lambda>r.
       let ch = r_ch r; q = r_parser r; unhex_val = unhex ! unat ch in
       case r_state r of
         s_chunk_size_start \<Rightarrow>
           ASSERT (r_nread r = 1) r (\<lambda>r.
             if unhex_val = -1 then goto_error HPE_INVALID_CHUNK_SIZE r
             else (Break, UPDATE_STATE s_chunk_size (set_parser (\<lambda>q. q\<lparr>hp_content_length := of_int unhex_val\<rparr>) r)))
       | s_chunk_size \<Rightarrow>
           if ch = CR then (Break, UPDATE_STATE s_chunk_size_almost_done r)
           else if unhex_val = -1
           then if ch = ch8 CHR '';'' \<or> ch = SPACE then (Break, UPDATE_STATE s_chunk_parameters r)
             else goto_error HPE_INVALID_CHUNK_SIZE r
           else if (- 1 - 16) div 16 < hp_content_length q then goto_error HPE_INVALID_CONTENT_LENGTH r
           else (Break, set_parser (\<lambda>q. q\<lparr>hp_content_length := hp_content_length q * 16 + of_int unhex_val\<rparr>) r)
       | s_chunk_parameters \<Rightarrow>
           if ch = CR then (Break, UPDATE_STATE s_chunk_size_almost_done r) else (Break, r)
       | s_chunk_size_almost_done \<Rightarrow>
           STRICT_CHECK (ch \<noteq> LF) r (\<lambda>r.
             let r = reset_nread r in
             CALLBACK_NOTIFY (cb_chunk_header S) HPE_CB_chunk_header
               (if hp_content_length (r_parser r) = 0
                then UPDATE_STATE s_header_field_start (set_flag F_TRAILING r)
                else UPDATE_STATE s_chunk_data r) (Pair Break))
       | s_chunk_data \<Rightarrow>
           ASSERT (hp_content_length q \<noteq> 0 \<and> hp_content_length q \<noteq> - 1) r (\<lambda>r.
             let r = take_body data r in
             (Break, if hp_content_length (r_parser r) = 0 then UPDATE_STATE s_chunk_data_almost_done r else r))
       | s_chunk_data_almost_done \<Rightarrow>
           ASSERT (hp_content_length q = 0) r (\<lambda>r.
             STRICT_CHECK (ch \<noteq> CR) r (\<lambda>r.
               CALLBACK_DATA S data Body_mark (UPDATE_STATE s_chunk_data_done r) (Pair Break)))
       | _ \<Rightarrow>
           STRICT_CHECK (ch \<noteq> LF) r (\<lambda>r.
             CALLBACK_NOTIFY (cb_chunk_complete S) HPE_CB_chunk_complete
               (UPDATE_STATE s_chunk_size_start (reset_nread r)) (Pair Break)))"


section \<open>The switch and the loop\<close>

text \<open>Which group of cases a state belongs to.\<close>

datatype step_group =
  Start_group | Status_group | Method_group | Url_group | Version_group | Field_group | Value_start_group
| Value_group | Header_end_group | Headers_almost_done_group | Headers_done_group | Body_group | Chunk_group

fun group_of :: "http_state \<Rightarrow> step_group" where
  "group_of s_dead = Start_group"
| "group_of s_start_req_or_res = Start_group"
| "group_of s_res_or_resp_H = Start_group"
| "group_of s_start_res = Start_group"
| "group_of s_res_H = Status_group"
| "group_of s_res_HT = Status_group"
| "group_of s_res_HTT = Status_group"
| "group_of s_res_HTTP = Status_group"
| "group_of s_res_http_major = Status_group"
| "group_of s_res_http_dot = Status_group"
| "group_of s_res_http_minor = Status_group"
| "group_of s_res_http_end = Status_group"
| "group_of s_res_first_status_code = Status_group"
| "group_of s_res_status_code = Status_group"
| "group_of s_res_status_start = Status_group"
| "group_of s_res_status = Status_group"
| "group_of s_res_line_almost_done = Status_group"
| "group_of s_start_req = Method_group"
| "group_of s_req_method = Method_group"
| "group_of s_req_spaces_before_url = Url_group"
| "group_of s_req_schema = Url_group"
| "group_of s_req_schema_slash = Url_group"
| "group_of s_req_schema_slash_slash = Url_group"
| "group_of s_req_server_start = Url_group"
| "group_of s_req_server = Url_group"
| "group_of s_req_server_with_at = Url_group"
| "group_of s_req_path = Url_group"
| "group_of s_req_query_string_start = Url_group"
| "group_of s_req_query_string = Url_group"
| "group_of s_req_fragment_start = Url_group"
| "group_of s_req_fragment = Url_group"
| "group_of s_req_http_start = Version_group"
| "group_of s_req_http_H = Version_group"
| "group_of s_req_http_HT = Version_group"
| "group_of s_req_http_HTT = Version_group"
| "group_of s_req_http_HTTP = Version_group"
| "group_of s_req_http_I = Version_group"
| "group_of s_req_http_IC = Version_group"
| "group_of s_req_http_major = Version_group"
| "group_of s_req_http_dot = Version_group"
| "group_of s_req_http_minor = Version_group"
| "group_of s_req_http_end = Version_group"
| "group_of s_req_line_almost_done = Version_group"
| "group_of s_header_field_start = Field_group"
| "group_of s_header_field = Field_group"
| "group_of s_header_value_discard_ws = Value_start_group"
| "group_of s_header_value_start = Value_start_group"
| "group_of s_header_value = Value_group"
| "group_of s_header_almost_done = Header_end_group"
| "group_of s_header_value_lws = Header_end_group"
| "group_of s_header_value_discard_ws_almost_done = Header_end_group"
| "group_of s_header_value_discard_lws = Header_end_group"
| "group_of s_headers_almost_done = Headers_almost_done_group"
| "group_of s_headers_done = Headers_done_group"
| "group_of s_body_identity = Body_group"
| "group_of s_body_identity_eof = Body_group"
| "group_of s_message_done = Body_group"
| "group_of s_chunk_size_start = Chunk_group"
| "group_of s_chunk_size = Chunk_group"
| "group_of s_chunk_parameters = Chunk_group"
| "group_of s_chunk_size_almost_done = Chunk_group"
| "group_of s_chunk_data = Chunk_group"
| "group_of s_chunk_data_almost_done = Chunk_group"
| "group_of s_chunk_data_done = Chunk_group"

definition http_step :: "'d http_parser_settings \<Rightarrow> bytes \<Rightarrow> 'd http_run \<Rightarrow> 'd step" where
  "http_step S data r =
     (case group_of (r_state r) of
        Start_group \<Rightarrow> step_start S r
      | Status_group \<Rightarrow> step_status S data r
      | Method_group \<Rightarrow> step_method S r
      | Url_group \<Rightarrow> step_url S data r
      | Version_group \<Rightarrow> step_version r
      | Field_group \<Rightarrow> step_field S data r
      | Value_start_group \<Rightarrow> step_value_start r
      | Value_group \<Rightarrow> step_value S data r
      | Header_end_group \<Rightarrow> step_header_end S data r
      | Headers_almost_done_group \<Rightarrow> step_headers_almost_done S r
      | Headers_done_group \<Rightarrow> step_headers_done S r
      | Body_group \<Rightarrow> step_body S data r
      | Chunk_group \<Rightarrow> step_chunk S data r)"

text \<open>The top of the loop: the next character, counted while the headers last.\<close>

definition http_next :: "'d http_parser_settings \<Rightarrow> bytes \<Rightarrow> 'd http_run \<Rightarrow> 'd step" where
  "http_next S data r =
     (let r = r\<lparr>r_ch := data ! r_p r\<rparr>
      in if PARSING_HEADER (r_state r) then COUNT_HEADER_SIZE 1 r (http_step S data) else http_step S data r)"

text \<open>After the loop: the callbacks for the marks that are left.\<close>

definition http_finish :: "'d http_parser_settings \<Rightarrow> bytes \<Rightarrow> 'd http_run \<Rightarrow> 'd step" where
  "http_finish S data r =
     ASSERT (length (filter (\<lambda>m. r_mark r m \<noteq> None)
         [Header_field_mark, Header_value_mark, Url_mark, Body_mark, Status_mark]) \<le> 1) r (\<lambda>r.
       CALLBACK_DATA_NOADVANCE S data Header_field_mark r (\<lambda>r.
       CALLBACK_DATA_NOADVANCE S data Header_value_mark r (\<lambda>r.
       CALLBACK_DATA_NOADVANCE S data Url_mark r (\<lambda>r.
       CALLBACK_DATA_NOADVANCE S data Body_mark r (\<lambda>r.
       CALLBACK_DATA_NOADVANCE S data Status_mark r (\<lambda>r. RETURN (length data) r))))))"

definition http_error :: "'d http_run \<Rightarrow> 'd step" where
  "http_error r = (let r = (if hp_errno (r_parser r) = HPE_OK then SET_ERRNO HPE_UNKNOWN r else r) in RETURN (r_p r) r)"

text \<open>The loop from the end of a turn of the switch on; \<open>Break\<close> takes it to the next character.\<close>

partial_function (option) http_loop ::
    "'d http_parser_settings \<Rightarrow> bytes \<Rightarrow> 'd step \<Rightarrow> (flow \<times> 'd http_run) option" where
  "http_loop S data st =
     (let (f, r) = st in
        case f of
          Break \<Rightarrow>
            (let r = r\<lparr>r_p := r_p r + 1\<rparr> in
             if r_p r = length data then Some (http_finish S data r) else http_loop S data (http_next S data r))
        | Reexecute \<Rightarrow> http_loop S data (http_step S data r)
        | Error_exit \<Rightarrow> Some (http_error r)
        | Return n \<Rightarrow> Some (f, r)
        | Abort \<Rightarrow> Some (f, r))"

text \<open>The marks a run starts with.\<close>

definition first_mark :: "http_state \<Rightarrow> http_mark \<Rightarrow> nat option" where
  "first_mark s m =
     (if s = s_header_field \<and> m = Header_field_mark \<or> s = s_header_value \<and> m = Header_value_mark \<or>
         s = s_res_status \<and> m = Status_mark \<or>
         s \<in> {s_req_path, s_req_schema, s_req_schema_slash, s_req_schema_slash_slash, s_req_server_start,
               s_req_server, s_req_server_with_at, s_req_query_string_start, s_req_query_string,
               s_req_fragment_start, s_req_fragment} \<and> m = Url_mark
      then Some 0 else None)"

definition http_run_start :: "http_parser \<Rightarrow> 'd \<Rightarrow> 'd http_run" where
  "http_run_start q d =
     \<lparr>r_parser = q, r_data = d, r_state = hp_state q, r_nread = hp_nread q, r_lenient = hp_lenient q,
      r_p = 0, r_ch = 0, r_mark = first_mark (hp_state q)\<rparr>"

text \<open>An end of input: no data at all.\<close>

definition http_eof :: "'d http_parser_settings \<Rightarrow> 'd http_run \<Rightarrow> 'd step" where
  "http_eof S r =
     (if r_state r = s_body_identity_eof
      then CALLBACK_NOTIFY_NOADVANCE (cb_message_complete S) HPE_CB_message_complete r (Pair (Return 0))
      else if r_state r \<in> {s_dead, s_start_req_or_res, s_start_res, s_start_req} then (Return 0, r)
      else (Return 1, SET_ERRNO HPE_INVALID_EOF_STATE r))"

text \<open>The result is the number of bytes parsed, \<open>None\<close> for a failed assertion, with the parser and
  the user data; no result at all is a loop without end.\<close>

definition http_parser_execute ::
    "'d http_parser_settings \<Rightarrow> http_parser \<Rightarrow> 'd \<Rightarrow> bytes \<Rightarrow> (nat option \<times> http_parser \<times> 'd) option" where
  "http_parser_execute S q d data =
     (let r = http_run_start q d;
          res = (if hp_errno q \<noteq> HPE_OK then Some (Return 0, r)
                 else if data = [] then Some (http_eof S r)
                 else http_loop S data (http_next S data r))
      in map_option (\<lambda>(f, r). (case f of Return n \<Rightarrow> Some n | _ \<Rightarrow> None, r_parser r, r_data r)) res)"

end
