(* ===== verification/Http_Safety.thy ===== *)
theory Http_Safety
  imports Http_Parser
begin

text \<open>
  What the message parser keeps true, for callbacks that leave the parser structure alone: no
  assertion fails, the position stays inside the data, the table of methods is read inside its
  strings, and the parser comes to an end. The invariant is carried from one call of
  \<open>http_parser_execute\<close> to the next by the parser structure.
\<close>

section \<open>Flags\<close>

lemma flag_defs:
  "F_CHUNKED = 1" "F_CONNECTION_KEEP_ALIVE = 2" "F_CONNECTION_CLOSE = 4" "F_CONNECTION_UPGRADE = 8"
  "F_TRAILING = 16" "F_UPGRADE = 32" "F_SKIPBODY = 64" "F_CONTENTLENGTH = 128"
  by (simp_all add: F_CHUNKED_def F_CONNECTION_KEEP_ALIVE_def F_CONNECTION_CLOSE_def F_CONNECTION_UPGRADE_def
    F_TRAILING_def F_UPGRADE_def F_SKIPBODY_def F_CONTENTLENGTH_def)

lemma flag_or_keeps: "(x :: u8) AND f \<noteq> 0 \<Longrightarrow> (x OR y) AND f \<noteq> 0"
proof
  assume a: "x AND f \<noteq> 0" "(x OR y) AND f = 0"
  then obtain n where n: "bit (x AND f) n" by (auto simp: bit_eq_iff)
  then have "bit ((x OR y) AND f) n" by (simp add: bit_simps)
  with a(2) show False by simp
qed

section \<open>The invariant\<close>

text \<open>The only mark a state may have set.\<close>

fun mark_of :: "http_state \<Rightarrow> http_mark option" where
  "mark_of s_header_field = Some Header_field_mark"
| "mark_of s_header_value = Some Header_value_mark"
| "mark_of s_res_status = Some Status_mark"
| "mark_of s_body_identity = Some Body_mark"
| "mark_of s_body_identity_eof = Some Body_mark"
| "mark_of s_chunk_data = Some Body_mark"
| "mark_of s_chunk_data_almost_done = Some Body_mark"
| "mark_of s_req_schema = Some Url_mark"
| "mark_of s_req_schema_slash = Some Url_mark"
| "mark_of s_req_schema_slash_slash = Some Url_mark"
| "mark_of s_req_server_start = Some Url_mark"
| "mark_of s_req_server = Some Url_mark"
| "mark_of s_req_server_with_at = Some Url_mark"
| "mark_of s_req_path = Some Url_mark"
| "mark_of s_req_query_string_start = Some Url_mark"
| "mark_of s_req_query_string = Some Url_mark"
| "mark_of s_req_fragment_start = Some Url_mark"
| "mark_of s_req_fragment = Some Url_mark"
| "mark_of _ = None"

definition field_state :: "http_header_state \<Rightarrow> bool" where
  "field_state h \<longleftrightarrow>
     h \<in> {h_general, h_C, h_CO, h_CON, h_matching_connection, h_matching_proxy_connection,
          h_matching_content_length, h_matching_transfer_encoding, h_matching_upgrade,
          h_connection, h_content_length, h_transfer_encoding, h_upgrade}"

definition value_state :: "http_header_state \<Rightarrow> bool" where
  "value_state h \<longleftrightarrow> h \<noteq> h_connection \<and> h \<noteq> h_transfer_encoding"

definition method_ok :: "u8 \<Rightarrow> 5 word \<Rightarrow> bool" where
  "method_ok m i \<longleftrightarrow> unat m < 34 \<and> unat i \<le> length (method_strings ! unat m)"

text \<open>What a state says of the parser structure.\<close>

definition state_inv :: "http_state \<Rightarrow> http_parser \<Rightarrow> bool" where
  "state_inv s q \<longleftrightarrow>
     hp_status_code q \<le> 999 \<and>
     (s = s_req_method \<longrightarrow> method_ok (hp_method q) (hp_index q)) \<and>
     (s = s_header_field \<longrightarrow> field_state (hp_header_state q)) \<and>
     (s = s_header_value \<longrightarrow> value_state (hp_header_state q)) \<and>
     (group_of s = Chunk_group \<longrightarrow> has_flag F_CHUNKED q) \<and>
     (s \<in> {s_chunk_size, s_chunk_parameters, s_chunk_size_almost_done, s_chunk_data, s_body_identity} \<longrightarrow>
       hp_content_length q \<noteq> - 1) \<and>
     (s \<in> {s_chunk_data, s_body_identity} \<longrightarrow> hp_content_length q \<noteq> 0) \<and>
     (s = s_chunk_data_almost_done \<longrightarrow> hp_content_length q = 0)"

text \<open>The parser between two calls.\<close>

definition parser_inv :: "http_parser \<Rightarrow> bool" where
  "parser_inv q \<longleftrightarrow>
     hp_errno q \<noteq> HPE_OK \<or> state_inv (hp_state q) q \<and> (hp_state q = s_chunk_size_start \<longrightarrow> hp_nread q = 0)"

definition marks_inv :: "http_state \<Rightarrow> (http_mark \<Rightarrow> nat option) \<Rightarrow> nat \<Rightarrow> bool" where
  "marks_inv s mk p \<longleftrightarrow> (\<forall>m at. mk m = Some at \<longrightarrow> mark_of s = Some m \<and> at \<le> p)"

text \<open>A run inside the loop; \<open>n\<close> is the header count in the state that asserts it.\<close>

definition run_inv :: "u32 \<Rightarrow> 'd http_run \<Rightarrow> bool" where
  "run_inv n r \<longleftrightarrow>
     hp_errno (r_parser r) = HPE_OK \<and> state_inv (r_state r) (r_parser r) \<and>
     (r_state r = s_chunk_size_start \<longrightarrow> r_nread r = n) \<and> marks_inv (r_state r) (r_mark r) (r_p r)"

text \<open>How many times the switch may still be entered for the same character.\<close>

fun rank :: "http_state \<Rightarrow> nat" where
  "rank s_header_value_lws = 5"
| "rank s_header_value_discard_lws = 5"
| "rank s_header_field_start = 4"
| "rank s_headers_almost_done = 3"
| "rank s_headers_done = 2"
| "rank s_message_done = 2"
| "rank s_body_identity = 3"
| "rank s_header_value = 2"
| "rank s_header_almost_done = 1"
| "rank s_res_status_code = 3"
| "rank s_res_status_start = 2"
| "rank s_res_status = 1"
| "rank s_start_req_or_res = 2"
| "rank s_start_req = 1"
| "rank _ = 0"

definition step_spec :: "bytes \<Rightarrow> http_state \<Rightarrow> nat \<Rightarrow> 'd step \<Rightarrow> bool" where
  "step_spec data s p st \<longleftrightarrow>
     (case st of (f, r) \<Rightarrow>
        (case f of
           Break \<Rightarrow> run_inv 0 r \<and> p \<le> r_p r \<and> r_p r < length data
         | Reexecute \<Rightarrow>
             run_inv 1 r \<and> r_state r \<noteq> s_chunk_size_start \<and> p \<le> r_p r \<and> r_p r < length data \<and>
             rank (r_state r) < rank s
         | Error_exit \<Rightarrow> hp_errno (r_parser r) \<noteq> HPE_OK \<and> r_p r \<le> length data
         | Return n \<Rightarrow> n \<le> length data \<and> parser_inv (r_parser r)
         | Abort \<Rightarrow> False))"


lemma state_inv_state [simp]: "state_inv s (q\<lparr>hp_state := t\<rparr>) = state_inv s q"
  by (simp add: state_inv_def has_flag_def)

lemma state_inv_nread [simp]: "state_inv s (q\<lparr>hp_nread := n\<rparr>) = state_inv s q"
  by (simp add: state_inv_def has_flag_def)

lemma spec_Break [simp]: "step_spec data s p (Break, r) \<longleftrightarrow> run_inv 0 r \<and> p \<le> r_p r \<and> r_p r < length data"
  and spec_Reexecute [simp]: "step_spec data s p (Reexecute, r) \<longleftrightarrow>
    run_inv 1 r \<and> r_state r \<noteq> s_chunk_size_start \<and> p \<le> r_p r \<and> r_p r < length data \<and> rank (r_state r) < rank s"
  by (simp_all add: step_spec_def)

section \<open>The macros\<close>

lemma spec_goto_error [simp]: "step_spec data s p (goto_error e r) \<longleftrightarrow> e \<noteq> HPE_OK \<and> r_p r \<le> length data"
  by (simp add: step_spec_def goto_error_def SET_ERRNO_def)

lemma spec_ASSERT: "c \<Longrightarrow> step_spec data s p (k r) \<Longrightarrow> step_spec data s p (ASSERT c r k)"
  by (simp add: ASSERT_def)

lemma spec_STRICT:
  "r_p r \<le> length data \<Longrightarrow> (\<not> c \<Longrightarrow> step_spec data s p (k r)) \<Longrightarrow> step_spec data s p (STRICT_CHECK c r k)"
  by (simp add: STRICT_CHECK_def)

lemma spec_COUNT:
  "r_p r \<le> length data \<Longrightarrow> (\<And>n. step_spec data s p (k (r\<lparr>r_nread := n\<rparr>))) \<Longrightarrow>
   step_spec data s p (COUNT_HEADER_SIZE v r k)"
  by (simp add: COUNT_HEADER_SIZE_def Let_def)

lemma spec_RETURN:
  "n \<le> length data \<Longrightarrow>
   hp_errno (r_parser r) \<noteq> HPE_OK \<or> state_inv (r_state r) (r_parser r) \<and> (r_state r = s_chunk_size_start \<longrightarrow> r_nread r = 0) \<Longrightarrow>
   step_spec data s p (RETURN n r)"
  by (auto simp: step_spec_def RETURN_def parser_inv_def)

text \<open>A run after a callback that left the parser alone and succeeded.\<close>

definition called :: "'d \<Rightarrow> 'd http_run \<Rightarrow> 'd http_run" where
  "called d r = r\<lparr>r_parser := (r_parser r)\<lparr>hp_state := r_state r\<rparr>, r_data := d\<rparr>"

definition unmark :: "http_mark \<Rightarrow> 'd http_run \<Rightarrow> 'd http_run" where
  "unmark m r = r\<lparr>r_mark := (r_mark r)(m := None)\<rparr>"

lemma called_fields [simp]:
  "r_p (called d r) = r_p r" "r_state (called d r) = r_state r" "r_nread (called d r) = r_nread r"
  "r_mark (called d r) = r_mark r" "r_lenient (called d r) = r_lenient r" "r_ch (called d r) = r_ch r"
  "hp_errno (r_parser (called d r)) = hp_errno (r_parser r)" "hp_upgrade (r_parser (called d r)) = hp_upgrade (r_parser r)"
  "state_inv s (r_parser (called d r)) = state_inv s (r_parser r)" "run_inv n (called d r) = run_inv n r"
  "hp_header_state (r_parser (called d r)) = hp_header_state (r_parser r)" "hp_flags (r_parser (called d r)) = hp_flags (r_parser r)"
  "hp_status_code (r_parser (called d r)) = hp_status_code (r_parser r)" "hp_method (r_parser (called d r)) = hp_method (r_parser r)"
  "hp_index (r_parser (called d r)) = hp_index (r_parser r)" "has_flag f (r_parser (called d r)) = has_flag f (r_parser r)"
  "hp_content_length (r_parser (called d r)) = hp_content_length (r_parser r)"
  by (simp_all add: called_def run_inv_def has_flag_def)

lemma unmark_fields [simp]:
  "r_p (unmark m r) = r_p r" "r_state (unmark m r) = r_state r" "r_nread (unmark m r) = r_nread r"
  "r_parser (unmark m r) = r_parser r" "r_lenient (unmark m r) = r_lenient r" "r_ch (unmark m r) = r_ch r"
  "r_mark (unmark m r) = (r_mark r)(m := None)" "r_data (unmark m r) = r_data r"
  by (simp_all add: unmark_def)

text \<open>Callbacks that leave the parser alone.\<close>

locale quiet =
  fixes S :: "'d http_parser_settings"
  assumes notify_quiet:
    "cb_message_begin S = Some f \<or> cb_headers_complete S = Some f \<or> cb_message_complete S = Some f \<or>
     cb_chunk_header S = Some f \<or> cb_chunk_complete S = Some f \<Longrightarrow> fst (snd (f q d)) = q"
    and data_quiet: "data_cb m S = Some g \<Longrightarrow> fst (snd (g q bs d)) = q"
begin

definition notify :: "'d http_cb option \<Rightarrow> bool" where
  "notify cb \<longleftrightarrow> cb \<in> {cb_message_begin S, cb_message_complete S, cb_chunk_header S, cb_chunk_complete S}"

lemma notify_simps [simp]:
  "notify (cb_message_begin S)" "notify (cb_message_complete S)" "notify (cb_chunk_header S)" "notify (cb_chunk_complete S)"
  by (simp_all add: notify_def)

lemma spec_after:
  assumes "fst (snd res) = (r_parser r)\<lparr>hp_state := r_state r\<rparr>" "hp_errno (r_parser r) = HPE_OK" "e \<noteq> HPE_OK"
    "er \<le> length data" "\<And>d. step_spec data s p (k (called d r))"
  shows "step_spec data s p (after_callback res e er r k)"
proof -
  obtain v d where res: "res = (v, (r_parser r)\<lparr>hp_state := r_state r\<rparr>, d)" using assms(1) by (cases res) auto
  show ?thesis
  proof (cases "v = 0")
    case True
    have "(r\<lparr>r_parser := (r_parser r)\<lparr>hp_state := r_state r\<rparr>, r_data := d\<rparr>)\<lparr>r_state := r_state r\<rparr> = called d r"
      by (simp add: called_def)
    with True res assms(2,5) show ?thesis by (simp add: after_callback_def UPDATE_STATE_def called_def)
  next
    case False
    with res assms(3,4) show ?thesis
      by (simp add: after_callback_def UPDATE_STATE_def SET_ERRNO_def step_spec_def parser_inv_def)
  qed
qed

lemma spec_NOTIFY_AT:
  assumes "notify cb" "hp_errno (r_parser r) = HPE_OK" "e \<noteq> HPE_OK" "er \<le> length data"
    "step_spec data s p (k r)" "\<And>d. step_spec data s p (k (called d r))"
  shows "step_spec data s p (CALLBACK_NOTIFY_AT cb e er r k)"
proof (cases cb)
  case None
  with assms show ?thesis by (simp add: CALLBACK_NOTIFY_AT_def ASSERT_def)
next
  case (Some f)
  then have "fst (snd (f q d)) = q" for q d using assms(1) notify_quiet by (auto simp: notify_def)
  with Some assms show ?thesis by (auto simp: CALLBACK_NOTIFY_AT_def ASSERT_def intro!: spec_after)
qed

lemma spec_DATA_AT:
  assumes "hp_errno (r_parser r) = HPE_OK" "er \<le> length data"
    "\<And>d r'. r' = unmark m r \<or> r' = unmark m (called d r) \<Longrightarrow> step_spec data s p (k r')"
  shows "step_spec data s p (CALLBACK_DATA_AT S data m stop er r k)"
proof (cases "r_mark r m")
  case None
  then have "(r_mark r)(m := None) = r_mark r" by (simp add: fun_upd_idem)
  then have "unmark m r = r" by (simp add: unmark_def)
  with assms(3) [of r] have "step_spec data s p (k r)" by simp
  with None assms(1) show ?thesis by (simp add: CALLBACK_DATA_AT_def ASSERT_def)
next
  case (Some at)
  have e: "data_errno m \<noteq> HPE_OK" by (cases m) simp_all
  show ?thesis
  proof (cases "data_cb m S")
    case None
    with Some assms show ?thesis by (simp add: CALLBACK_DATA_AT_def ASSERT_def unmark_def)
  next
    case cb: (Some g)
    have "step_spec data s p (after_callback (g ((r_parser r)\<lparr>hp_state := r_state r\<rparr>) (drop at (take stop data)) (r_data r))
        (data_errno m) er r (\<lambda>r. k (unmark m r)))"
      by (rule spec_after) (use assms data_quiet [OF cb] e in auto)
    with Some cb assms(1) show ?thesis by (simp add: CALLBACK_DATA_AT_def ASSERT_def unmark_def)
  qed
qed

end


section \<open>The groups of cases\<close>

lemmas run_upd = set_parser_def UPDATE_STATE_def set_header_state_def set_index_def set_flag_def new_message_def
  set_major_def set_minor_def MARK_def reset_nread_def

lemmas inv_defs = run_inv_def state_inv_def marks_inv_def

lemma no_marks: "run_inv n r \<Longrightarrow> mark_of (r_state r) = None \<Longrightarrow> r_mark r = (\<lambda>_. None)"
  by (rule ext) (metis not_None_eq marks_inv_def run_inv_def)

text \<open>States that ask nothing of the parser but the bound on the status code.\<close>

definition plain :: "http_state \<Rightarrow> bool" where
  "plain s \<longleftrightarrow> s \<notin> {s_req_method, s_header_field, s_header_value, s_body_identity} \<and> group_of s \<noteq> Chunk_group"

lemma plain_inv: "plain s \<Longrightarrow> state_inv s q \<longleftrightarrow> hp_status_code q \<le> 999"
  by (auto simp: plain_def state_inv_def)

lemma state_inv_code: "state_inv s q \<Longrightarrow> hp_status_code q \<le> 999"
  by (simp add: state_inv_def)

lemma plain_run:
  "plain (r_state r) \<Longrightarrow> run_inv n r \<longleftrightarrow>
    hp_errno (r_parser r) = HPE_OK \<and> hp_status_code (r_parser r) \<le> 999 \<and> marks_inv (r_state r) (r_mark r) (r_p r)"
  by (auto simp: run_inv_def plain_inv) (auto simp: plain_def)

lemma marks_none [simp]: "marks_inv s (\<lambda>_. None) p"
  by (simp add: marks_inv_def)

lemma marks_clear: "marks_inv s mk p \<Longrightarrow> mark_of s = Some m \<Longrightarrow> mk(m := None) = (\<lambda>_. None)"
  by (rule ext) (metis fun_upd_apply marks_inv_def not_None_eq option.inject)

lemma marked:
  assumes "run_inv n r" "mark_of (r_state r) = Some m"
  shows "(r_mark r)(m := None) = (\<lambda>_. None)" "hp_errno (r_parser r) = HPE_OK" "hp_status_code (r_parser r) \<le> 999"
    "marks_inv (r_state r) (r_mark r) (r_p r)"
  using assms marks_clear state_inv_code by (auto simp: run_inv_def)

text \<open>What is known in a state without a mark.\<close>

lemma unmarked:
  assumes "run_inv n r" "mark_of (r_state r) = None"
  shows "r_mark r = (\<lambda>_. None)" "hp_errno (r_parser r) = HPE_OK" "hp_status_code (r_parser r) \<le> 999"
  using assms no_marks state_inv_code by (auto simp: run_inv_def)

lemma digit_le [simp]: "(ucast (b :: u8) :: u16) \<le> 999"
  using u8_less_256 [of b] by (simp add: word_le_nat_alt unsigned_ucast_eq take_bit_nat_eq_self del: u8_less_256)

text \<open>Moving on to a plain state.\<close>

lemma spec_move:
  assumes "run_inv 1 r" "mark_of (r_state r) = None" "r_p r < length data" "plain s" "hp_errno q = HPE_OK" "hp_status_code q \<le> 999"
  shows "step_spec data t (r_p r) (Break, UPDATE_STATE s (r\<lparr>r_parser := q\<rparr>))"
  using assms unmarked [OF assms(1,2)] by (simp add: plain_run UPDATE_STATE_def)

lemma expect_ok:
  assumes "run_inv 1 r" "mark_of (r_state r) = None" "r_p r < length data" "plain s"
  shows "step_spec data t (r_p r) (expect x s r)"
  unfolding expect_def
  by (rule spec_STRICT) (use assms spec_move [OF assms, of "r_parser r" t] unmarked [OF assms(1,2)] in simp_all)

lemma version_ok:
  assumes "run_inv 1 r" "mark_of (r_state r) = None" "r_p r < length data" "plain s"
  shows "step_spec data t (r_p r) (version_digit set_major s r)" "step_spec data t (r_p r) (version_digit set_minor s r)"
    "step_spec data t (r_p r) (version_char x s r)"
  using assms spec_move [OF assms] unmarked [OF assms(1,2)] spec_move [OF assms, of "r_parser r"]
  by (simp_all add: version_digit_def version_char_def set_parser_def set_major_def set_minor_def)

context quiet
begin

lemma start_ok:
  assumes "run_inv 1 r" "r_p r < length data" "group_of (r_state r) = Start_group"
  shows "step_spec data (r_state r) (r_p r) (step_start S r)"
proof -
  have "mark_of (r_state r) = None" using assms(3) by (cases "r_state r") simp_all
  note u = unmarked [OF assms(1) this]
  show ?thesis
    using assms u
    by (cases "r_state r")
      (auto simp: step_start_def Let_def CALLBACK_NOTIFY_def run_upd inv_defs method_ok_def method_strings_def intro!: spec_NOTIFY_AT)
qed

text \<open>A data callback and on to a plain state.\<close>

lemma spec_data_move:
  assumes "run_inv 1 r" "mark_of (r_state r) = Some m" "r_p r < length data" "plain s" "hp_errno q = HPE_OK" "hp_status_code q \<le> 999"
  shows "step_spec data t (r_p r) (CALLBACK_DATA S data m (UPDATE_STATE s (r\<lparr>r_parser := q\<rparr>)) (Pair Break))"
  unfolding CALLBACK_DATA_def
  by (rule spec_DATA_AT) (use assms marked [OF assms(1,2)] in \<open>auto simp: plain_run UPDATE_STATE_def\<close>)

lemma status_ok:
  assumes "run_inv 1 r" "r_p r < length data" "group_of (r_state r) = Status_group"
  shows "step_spec data (r_state r) (r_p r) (step_status S data r)"
proof (cases "r_state r = s_res_status")
  case True
  then have m: "mark_of (r_state r) = Some Status_mark" by simp
  note u = marked [OF assms(1) m] spec_data_move [OF assms(1) m assms(2), of _ "r_parser r"]
  with assms True show ?thesis
    by (auto simp: step_status_def Let_def plain_def run_inv_def state_inv_def)
next
  case False
  then have "mark_of (r_state r) = None" using assms(3) by (cases "r_state r") simp_all
  note u = unmarked [OF assms(1) this] expect_ok [OF assms(1) this assms(2)] version_ok [OF assms(1) this assms(2)]
  show ?thesis
    using assms u False
    by (cases "r_state r")
      (auto simp: step_status_def Let_def run_upd plain_run plain_def marks_inv_def)
qed

lemma url_char_ok:
  assumes "hp_errno (r_parser r) = HPE_OK" "hp_status_code (r_parser r) \<le> 999" "r_p r < length data"
    "marks_inv s_req_path (r_mark r) (r_p r)" "p \<le> r_p r"
  shows "step_spec data t p (url_char r)"
proof -
  let ?s = "parse_url_char (r_state r) (r_ch r)"
  have m: "?s = s_dead \<or> mark_of ?s = Some Url_mark \<and> plain ?s"
    by (cases "r_state r") (auto simp: parse_url_char_def server_char_def query_char_def plain_def)
  then have "?s \<noteq> s_dead \<Longrightarrow> marks_inv ?s (r_mark r) (r_p r)" using assms(4) by (auto simp: marks_inv_def)
  with assms m show ?thesis by (auto simp: url_char_def Let_def UPDATE_STATE_def plain_run)
qed

lemma url_ok:
  assumes "run_inv 1 r" "r_p r < length data" "group_of (r_state r) = Url_group"
  shows "step_spec data (r_state r) (r_p r) (step_url S data r)"
proof (cases "r_state r = s_req_spaces_before_url")
  case True
  then have "mark_of (r_state r) = None" by simp
  from unmarked [OF assms(1) this] True assms show ?thesis
    by (auto simp: step_url_def Let_def run_upd plain_run plain_def marks_inv_def intro!: url_char_ok)
next
  case False
  then have m: "mark_of (r_state r) = Some Url_mark" using assms(3) by (cases "r_state r") simp_all
  then have "marks_inv s_req_path (r_mark r) (r_p r)" using marked [OF assms(1) m] by (simp add: marks_inv_def)
  with url_char_ok [of r data "r_p r"] marked [OF assms(1) m] assms False
    spec_data_move [OF assms(1) m assms(2)] spec_data_move [OF assms(1) m assms(2), of _ "r_parser r"]
  show ?thesis
    by (auto simp: step_url_def Let_def set_parser_def plain_def)
qed

lemma req_version_ok:
  assumes "run_inv 1 r" "r_p r < length data" "group_of (r_state r) = Version_group"
  shows "step_spec data (r_state r) (r_p r) (step_version r)"
proof -
  have "mark_of (r_state r) = None" using assms(3) by (cases "r_state r") simp_all
  note u = unmarked [OF assms(1) this] expect_ok [OF assms(1) this assms(2)] version_ok [OF assms(1) this assms(2)]
  show ?thesis
    using assms u by (cases "r_state r") (auto simp: step_version_def Let_def run_upd plain_run plain_def)
qed

text \<open>The tables of methods stay inside their strings.\<close>

lemma method_start_ok: "map_of method_start ch = Some m \<Longrightarrow> method_ok m 1"
  by (auto simp: method_start_def method_ok_def method_strings_def HTTP_CONNECT_def split: if_splits)

lemma method_switch_ok: "map_of method_switch (m, i, ch) = Some m' \<Longrightarrow> unat m' < 34 \<and> i < length (method_strings ! unat m')"
  by (auto simp: method_switch_def method_strings_def HTTP_CONNECT_def split: if_splits)

lemma method_length: "n < 34 \<Longrightarrow> length (method_strings ! n) \<le> 11"
proof -
  have "list_all (\<lambda>s. length s \<le> 11) method_strings" "length method_strings = 34" by (simp_all add: method_strings_def)
  then show "n < 34 \<Longrightarrow> length (method_strings ! n) \<le> 11" by (simp add: list_all_length)
qed

lemma index_next:
  assumes "unat (i :: 5 word) < k" "k \<le> 11"
  shows "unat (i + 1) \<le> k"
  using assms unat_Suc_le [of i] by simp

lemma step_method_ok:
  assumes "run_inv 1 r" "r_p r < length data" "group_of (r_state r) = Method_group"
  shows "step_spec data (r_state r) (r_p r) (step_method S r)"
proof (cases "r_state r = s_start_req")
  case True
  then have "mark_of (r_state r) = None" by simp
  from unmarked [OF assms(1) this] True assms method_start_ok show ?thesis
    by (auto simp: step_method_def Let_def CALLBACK_NOTIFY_def run_upd inv_defs split: option.split intro!: spec_NOTIFY_AT)
next
  case False
  then have st: "r_state r = s_req_method" using assms(3) by (cases "r_state r") simp_all
  then have "mark_of (r_state r) = None" by simp
  note u = unmarked [OF assms(1) this]
  let ?m = "hp_method (r_parser r)" and ?i = "hp_index (r_parser r)"
  have mi: "unat ?m < 34" "unat ?i \<le> length (method_strings ! unat ?m)"
    using assms(1) st by (simp_all add: run_inv_def state_inv_def method_ok_def)
  have nx: "method_ok ?m (?i + 1)" if "r_ch r = cstr_at (method_strings ! unat ?m) (unat ?i)" "r_ch r \<noteq> 0"
  proof -
    have "unat ?i < length (method_strings ! unat ?m)" using that by (simp add: cstr_at_def split: if_splits)
    with index_next method_length mi show ?thesis by (simp add: method_ok_def)
  qed
  have sw: "method_ok m (?i + 1)" if "map_of method_switch (?m, unat ?i, r_ch r) = Some m" for m
    using method_switch_ok [OF that] index_next method_length by (simp add: method_ok_def)
  show ?thesis
    using assms u st nx sw
    by (auto simp: step_method_def Let_def run_upd plain_run run_inv_def state_inv_def split: option.split)
qed

end

text \<open>The loop over a name.\<close>

lemma match_name_field: "field_state cur \<Longrightarrow> field_state yes \<Longrightarrow> field_state (match_name nm cur h_general yes i c)"
  by (auto simp: match_name_def field_state_def)

lemma field_char_ok:
  assumes "field_state (hp_header_state q)" "hp_header_state q \<noteq> h_general"
  obtains q' where "field_char ch c q = Some q'" "field_state (hp_header_state q')" "hp_errno q' = hp_errno q"
    "hp_status_code q' = hp_status_code q"
proof -
  have m: "field_state yes \<Longrightarrow> field_state (match_name nm (hp_header_state q) h_general yes i c)" for nm yes i
    using match_name_field assms(1) by blast
  from assms m have "\<exists>q'. field_char ch c q = Some q' \<and> field_state (hp_header_state q') \<and> hp_errno q' = hp_errno q \<and>
      hp_status_code q' = hp_status_code q"
    by (cases "hp_header_state q") (auto simp: field_char_def Let_def field_state_def)
  with that show ?thesis by blast
qed

lemma skip_tokens_bounds: "p < length data \<Longrightarrow> p \<le> skip_tokens data p \<and> skip_tokens data p < length data"
proof -
  assume p: "p < length data"
  have "length (takeWhile (\<lambda>c. TOKEN c \<noteq> 0) (drop (p + 1) (take (p + min (length data - p) max_header_size) data)))
      \<le> length (drop (p + 1) (take (p + min (length data - p) max_header_size) data))" by (rule length_takeWhile_le)
  also have "\<dots> < length data - p" using p by simp
  finally show ?thesis using p by (simp add: skip_tokens_def)
qed

definition field_post :: "bytes \<Rightarrow> 'd http_run \<Rightarrow> bool \<times> 'd http_run \<Rightarrow> bool" where
  "field_post data r res \<longleftrightarrow>
     (case res of (ok, r') \<Rightarrow> ok \<and> r_p r \<le> r_p r' \<and> r_p r' \<le> length data \<and> field_state (hp_header_state (r_parser r')) \<and>
       hp_errno (r_parser r') = hp_errno (r_parser r) \<and> hp_status_code (r_parser r') = hp_status_code (r_parser r) \<and>
       r_state r' = r_state r \<and> r_mark r' = r_mark r)"

lemma field_post_step:
  assumes "field_post data s res" "r_p r \<le> r_p s" "hp_errno (r_parser s) = hp_errno (r_parser r)"
    "hp_status_code (r_parser s) = hp_status_code (r_parser r)" "r_state s = r_state r" "r_mark s = r_mark r"
  shows "field_post data r res"
  using assms by (auto simp: field_post_def)

lemma field_loop_ok:
  assumes "field_state (hp_header_state (r_parser r))" "r_p r \<le> length data"
  shows "field_post data r (field_loop data r)"
  using assms
proof (induction data r rule: field_loop.induct)
  case (1 data r)
  show ?case
  proof (cases "r_p r < length data \<and> TOKEN (data ! r_p r) \<noteq> 0")
    case False
    with 1(3,4) show ?thesis by (subst field_loop.simps) (auto simp: Let_def field_post_def)
  next
    case True
    let ?r = "r\<lparr>r_ch := data ! r_p r\<rparr>"
    show ?thesis
    proof (cases "hp_header_state (r_parser r) = h_general")
      case g: True
      let ?s = "?r\<lparr>r_p := skip_tokens data (r_p r) + 1\<rparr>"
      have "field_post data ?s (field_loop data ?s)"
        using 1(1) [of "data ! r_p r" ?r] True g 1(3) skip_tokens_bounds [of "r_p r" data] by simp
      then have "field_post data r (field_loop data ?s)"
        by (rule field_post_step) (use skip_tokens_bounds [of "r_p r" data] True in simp_all)
      moreover have "field_loop data r = field_loop data ?s"
        using True g by (subst field_loop.simps) (simp add: Let_def)
      ultimately show ?thesis by simp
    next
      case ng: False
      obtain q where q: "field_char (data ! r_p r) (TOKEN (data ! r_p r)) (r_parser r) = Some q" "field_state (hp_header_state q)"
        "hp_errno q = hp_errno (r_parser r)" "hp_status_code q = hp_status_code (r_parser r)"
        using field_char_ok [OF 1(3) ng] by metis
      let ?s = "?r\<lparr>r_parser := q, r_p := r_p r + 1\<rparr>"
      have "field_post data ?s (field_loop data ?s)"
        using 1(2) [of "data ! r_p r" ?r q] True ng q by simp
      then have "field_post data r (field_loop data ?s)"
        by (rule field_post_step) (use q in simp_all)
      moreover have "field_loop data r = field_loop data ?s"
        using True ng q by (subst field_loop.simps) (simp add: Let_def)
      ultimately show ?thesis by simp
    qed
  qed
qed

lemma field_start_ok: "field_state (field_start c)"
  by (simp add: field_start_def field_state_def)

context quiet
begin

lemma field_ok:
  assumes "run_inv 1 r" "r_p r < length data" "group_of (r_state r) = Field_group"
  shows "step_spec data (r_state r) (r_p r) (step_field S data r)"
proof (cases "r_state r = s_header_field_start")
  case True
  then have "mark_of (r_state r) = None" by simp
  from unmarked [OF assms(1) this] True assms field_start_ok show ?thesis
    by (auto simp: step_field_def Let_def run_upd run_inv_def state_inv_def marks_inv_def)
next
  case False
  then have st: "r_state r = s_header_field" using assms(3) by (cases "r_state r") simp_all
  then have m: "mark_of (r_state r) = Some Header_field_mark" by simp
  note u = marked [OF assms(1) m]
  obtain ok r' where l: "field_loop data r = (ok, r')" by fastforce
  have "field_state (hp_header_state (r_parser r))" using assms(1) st by (simp add: run_inv_def state_inv_def)
  then have f: "field_post data r (ok, r')" using field_loop_ok [of r data] assms(2) l by simp
  have pl: "plain s_header_value_discard_ws" by (simp add: plain_def)
  have mk: "marks_inv s_header_field (r_mark r) p" if "r_p r \<le> p" for p
    using u(4) st that by (auto simp: marks_inv_def intro: order_trans)
  have e: "step_field S data r = ASSERT ok r' (\<lambda>r'.
          if r_p r' = length data
          then COUNT_HEADER_SIZE (r_p r' - 1 - r_p r) (r'\<lparr>r_p := r_p r' - 1\<rparr>) (Pair Break)
          else COUNT_HEADER_SIZE (r_p r' - r_p r) r' (\<lambda>r'.
            if r_ch r' = ch8 CHR '':''
            then CALLBACK_DATA S data Header_field_mark (UPDATE_STATE s_header_value_discard_ws r') (Pair Break)
            else goto_error HPE_INVALID_HEADER_TOKEN r'))"
    using st l by (simp add: step_field_def Let_def cong: if_cong)
  have "step_spec data s_header_field (r_p r) (step_field S data r)"
    unfolding e
  proof (intro spec_ASSERT)
    show ok using f by (simp add: field_post_def)
  next
    show "step_spec data s_header_field (r_p r) (if r_p r' = length data
          then COUNT_HEADER_SIZE (r_p r' - 1 - r_p r) (r'\<lparr>r_p := r_p r' - 1\<rparr>) (Pair Break)
          else COUNT_HEADER_SIZE (r_p r' - r_p r) r' (\<lambda>r'.
            if r_ch r' = ch8 CHR '':''
            then CALLBACK_DATA S data Header_field_mark (UPDATE_STATE s_header_value_discard_ws r') (Pair Break)
            else goto_error HPE_INVALID_HEADER_TOKEN r'))"
    proof (cases "r_p r' = length data")
      case True
      with f u st assms(2) mk show ?thesis
        by (auto simp: field_post_def run_inv_def state_inv_def intro!: spec_COUNT)
    next
      case False
      with f u st assms(2) pl show ?thesis
        by (auto simp: field_post_def plain_run UPDATE_STATE_def CALLBACK_DATA_def intro!: spec_COUNT spec_DATA_AT)
    qed
  qed
  with st show ?thesis by simp
qed

lemma value_start_ok:
  assumes "run_inv 1 r" "r_p r < length data" "mark_of (r_state r) = None"
  shows "step_spec data t (r_p r) (value_start r)"
  using unmarked [OF assms(1,3)] assms(2)
  by (cases "hp_header_state (r_parser r)")
    (auto simp: value_start_def Let_def run_upd run_inv_def state_inv_def marks_inv_def value_state_def)

lemma step_value_start_ok:
  assumes "run_inv 1 r" "r_p r < length data" "group_of (r_state r) = Value_start_group"
  shows "step_spec data (r_state r) (r_p r) (step_value_start r)"
proof -
  have m: "mark_of (r_state r) = None" using assms(3) by (cases "r_state r") simp_all
  note unmarked [OF assms(1) m] value_start_ok [OF assms(1,2) m]
  then show ?thesis
    using assms by (auto simp: step_value_start_def Let_def UPDATE_STATE_def plain_run plain_def)
qed

end

text \<open>One character of a value never meets the assertion, and keeps what matters.\<close>

lemma value_char_ok:
  assumes "value_state h"
  shows "case value_char ch q h of Value_assert \<Rightarrow> False | Value_error _ \<Rightarrow> True
    | Value q' h' \<Rightarrow> value_state h' \<and> hp_errno q' = hp_errno q \<and> hp_status_code q' = hp_status_code q"
proof -
  have m: "value_state (match_name nm h no yes i c)" if "value_state no" "value_state yes" for nm no yes i c
    using assms that by (auto simp: match_name_def)
  show ?thesis
    using assms m
    by (cases h) (auto simp: value_char_def connection_end_def content_length_digit_def value_state_def Let_def)
qed

lemma value_skip_bounds:
  assumes "p < length data" "data ! p \<noteq> CR" "data ! p \<noteq> LF" "lenient \<or> IS_HEADER_CHAR (data ! p)"
    "value_skip lenient data p = (ok, q, ch)"
  shows "p \<le> q \<and> q \<le> length data \<and> (ok \<longrightarrow> q < length data)"
proof -
  define seg where "seg = take (min (length data - p) max_header_size) (drop p data)"
  define n where "n = length (takeWhile (\<lambda>ch. ch \<noteq> CR \<and> ch \<noteq> LF \<and> (lenient \<or> IS_HEADER_CHAR ch)) seg)"
  have "n \<le> length seg" unfolding n_def by (rule length_takeWhile_le)
  moreover have "length seg \<le> length data - p" by (simp add: seg_def)
  ultimately have "q \<le> length data \<and> (ok \<longrightarrow> q < length data)"
    using assms(1,5) by (auto simp: value_skip_def Let_def seg_def [symmetric] n_def [symmetric] split: if_splits)
  with value_skip_ge [OF assms] show ?thesis by simp
qed

context quiet
begin

lemma value_done_ok:
  assumes "r_state r = s_header_value \<and> value_state h \<and> marks_inv s_header_value (r_mark r) p \<and> p \<le> r_p r \<and> p < length data \<or>
      r_state r = s_header_almost_done \<and> r_mark r = (\<lambda>_. None) \<and> r_p r < length data"
    "hp_errno (r_parser r) = HPE_OK" "hp_status_code (r_parser r) \<le> 999" "p \<le> r_p r" "p < length data" "r_p r \<le> length data"
  shows "step_spec data t p (value_done data start h r)"
proof -
  have mk: "marks_inv s (r_mark r) k" if "marks_inv s (r_mark r) p" "p \<le> k" for s k
    using that by (auto simp: marks_inv_def intro: order_trans)
  show ?thesis
    using assms mk by (auto simp: value_done_def Let_def run_upd run_inv_def state_inv_def intro!: spec_COUNT)
qed

lemma value_loop_ok:
  assumes "r_state r = s_header_value" "value_state h" "marks_inv s_header_value (r_mark r) p"
    "hp_errno (r_parser r) = HPE_OK" "hp_status_code (r_parser r) \<le> 999" "p \<le> r_p r" "p < length data" "r_p r \<le> length data"
  shows "step_spec data s_header_value p (value_loop S data start h r)"
  using assms
proof (induction "length data - r_p r" arbitrary: r h rule: less_induct)
  case less
  note prems = less.prems
  let ?ch = "data ! r_p r" and ?r = "r\<lparr>r_ch := data ! r_p r\<rparr>"
  have mc: "(r_mark r)(Header_value_mark := None) = (\<lambda>_. None)" using marks_clear [OF prems(3)] by simp
  show ?case
  proof (cases "r_p r < length data")
    case False
    then have "value_loop S data start h r = value_done data start h r" by (subst value_loop.simps) simp
    then show ?thesis using value_done_ok [of r h p data] prems by simp
  next
    case p: True
    consider "?ch = CR" | "?ch = LF" | "\<not> r_lenient r \<and> \<not> IS_HEADER_CHAR ?ch" "?ch \<noteq> CR" "?ch \<noteq> LF"
      | "?ch \<noteq> CR" "?ch \<noteq> LF" "r_lenient r \<or> IS_HEADER_CHAR ?ch" by blast
    then show ?thesis
    proof cases
      case 1
      then have "value_loop S data start h r = CALLBACK_DATA S data Header_value_mark
          (set_header_state h (UPDATE_STATE s_header_almost_done ?r)) (value_done data start h)"
        using p by (subst value_loop.simps) (simp add: Let_def)
      then show ?thesis using prems p mc
        by (auto simp: CALLBACK_DATA_def run_upd intro!: spec_DATA_AT value_done_ok)
    next
      case 2
      then have "value_loop S data start h r = COUNT_HEADER_SIZE (r_p r - start) (UPDATE_STATE s_header_almost_done ?r) (\<lambda>r.
          CALLBACK_DATA_NOADVANCE S data Header_value_mark (set_header_state h r) (Pair Reexecute))"
        using p by (subst value_loop.simps) (simp add: Let_def)
      then show ?thesis using prems p mc
        by (auto simp: CALLBACK_DATA_NOADVANCE_def run_upd run_inv_def state_inv_def intro!: spec_COUNT spec_DATA_AT)
    next
      case 3
      then have "value_loop S data start h r = goto_error HPE_INVALID_HEADER_TOKEN ?r"
        using p by (subst value_loop.simps) (simp add: Let_def)
      then show ?thesis using p by simp
    next
      case 4
      show ?thesis
      proof (cases "h = h_general")
        case True
        obtain ok q c where sk: "value_skip (r_lenient r) data (r_p r) = (ok, q, c)" by (metis prod_cases3)
        note b = value_skip_bounds [OF p 4(1,2) 4(3) sk]
        have "value_loop S data start h r =
            (if ok then value_loop S data start h (?r\<lparr>r_p := q, r_ch := c\<rparr>\<lparr>r_p := q + 1\<rparr>)
             else goto_error HPE_INVALID_HEADER_TOKEN (?r\<lparr>r_p := q, r_ch := c\<rparr>))"
          using p 4 True sk by (subst value_loop.simps) (auto simp: Let_def)
        then show ?thesis using less.hyps [of "?r\<lparr>r_p := q, r_ch := c\<rparr>\<lparr>r_p := q + 1\<rparr>" h] prems p b by (cases ok) auto
      next
        case False
        note vc = value_char_ok [OF prems(2), where ch = ?ch and q = "r_parser r"]
        have "value_loop S data start h r = (case value_char ?ch (r_parser r) h of
            Value_error h \<Rightarrow> (Error_exit, set_header_state h (SET_ERRNO HPE_INVALID_CONTENT_LENGTH ?r))
          | Value_assert \<Rightarrow> (Abort, ?r)
          | Value q h \<Rightarrow> value_loop S data start h (?r\<lparr>r_parser := q, r_p := r_p r + 1\<rparr>))"
          using p 4 False by (subst value_loop.simps) (auto simp: Let_def split: value_result.split)
        then show ?thesis using vc prems p
            less.hyps [of "?r\<lparr>r_parser := _, r_p := r_p r + 1\<rparr>"]
          by (cases "value_char ?ch (r_parser r) h") (simp_all add: step_spec_def run_upd SET_ERRNO_def)
      qed
    qed
  qed
qed

lemma value_ok:
  assumes "run_inv 1 r" "r_p r < length data" "group_of (r_state r) = Value_group"
  shows "step_spec data (r_state r) (r_p r) (step_value S data r)"
proof -
  have st: "r_state r = s_header_value" using assms(3) by (cases "r_state r") simp_all
  then show ?thesis
    using assms value_loop_ok [of r "hp_header_state (r_parser r)" "r_p r" data "r_p r"]
    by (simp add: step_value_def run_inv_def state_inv_def)
qed

lemma header_end_ok:
  assumes "run_inv 1 r" "r_p r < length data" "group_of (r_state r) = Header_end_group"
  shows "step_spec data (r_state r) (r_p r) (step_header_end S data r)"
proof -
  have m: "mark_of (r_state r) = None" using assms(3) by (cases "r_state r") simp_all
  note u = unmarked [OF assms(1) m] expect_ok [OF assms(1) m assms(2)]
  show ?thesis
    using assms u
    by (cases "r_state r")
      (auto simp: step_header_end_def Let_def run_upd plain_run plain_def CALLBACK_DATA_NOADVANCE_def intro!: spec_DATA_AT)
qed

lemma headers_almost_done_ok:
  assumes "run_inv 1 r" "r_p r < length data" "group_of (r_state r) = Headers_almost_done_group"
  shows "step_spec data (r_state r) (r_p r) (step_headers_almost_done S r)"
proof -
  have st: "r_state r = s_headers_almost_done" using assms(3) by (cases "r_state r") simp_all
  then have "mark_of (r_state r) = None" by simp
  note u = unmarked [OF assms(1) this]
  have hc: "step_spec data s_headers_almost_done (r_p r) (call_headers_complete S
      (set_parser (\<lambda>q. q\<lparr>hp_upgrade := upgrade_wanted q\<rparr>) (UPDATE_STATE s_headers_done r)))"
  proof (cases "cb_headers_complete S")
    case None
    with u assms(2) show ?thesis
      by (simp add: call_headers_complete_def run_upd plain_run plain_def)
  next
    case (Some f)
    let ?r = "set_parser (\<lambda>q. q\<lparr>hp_upgrade := upgrade_wanted q\<rparr>) (UPDATE_STATE s_headers_done r)"
    obtain v q d where f: "f (r_parser ?r) (r_data ?r) = (v, q, d)" by (rule prod_cases3)
    have "q = r_parser ?r" using notify_quiet [of f "r_parser ?r" "r_data ?r"] Some f by simp
    with Some f u assms(2) show ?thesis
      by (auto simp: call_headers_complete_def Let_def run_upd plain_run plain_def SET_ERRNO_def intro!: spec_RETURN)
  qed
  have cc: "step_spec data s_headers_almost_done (r_p r)
      (CALLBACK_NOTIFY_NOADVANCE (cb_chunk_complete S) HPE_CB_chunk_complete (UPDATE_STATE s_message_done r) (Pair Reexecute))"
    unfolding CALLBACK_NOTIFY_NOADVANCE_def
    by (rule spec_NOTIFY_AT) (use u assms(2) in \<open>simp_all add: UPDATE_STATE_def plain_run plain_def\<close>)
  show ?thesis
    unfolding step_headers_almost_done_def Let_def st
    by (rule spec_STRICT) (use assms(2) hc cc in simp_all)
qed

lemma NEW_MESSAGE_plain: "plain (NEW_MESSAGE q)" "mark_of (NEW_MESSAGE q) = None" "NEW_MESSAGE q \<noteq> s_chunk_size_start"
  by (simp_all add: NEW_MESSAGE_def plain_def)

lemma message_complete_ok:
  assumes "r_mark r = (\<lambda>_. None)" "hp_errno (r_parser r) = HPE_OK" "hp_status_code (r_parser r) \<le> 999" "r_p r < length data"
    "\<And>r'. plain (r_state r') \<Longrightarrow> r_mark r' = (\<lambda>_. None) \<Longrightarrow> hp_errno (r_parser r') = HPE_OK \<Longrightarrow>
      hp_status_code (r_parser r') \<le> 999 \<Longrightarrow> r_p r' = r_p r \<Longrightarrow> step_spec data s p (k r')"
  shows "step_spec data s p (message_complete S r k)"
  unfolding message_complete_def CALLBACK_NOTIFY_def
  by (rule spec_NOTIFY_AT) (use assms NEW_MESSAGE_plain [of "r_parser r"] in \<open>auto simp: UPDATE_STATE_def\<close>)

lemma message_complete_Break:
  assumes "r_mark r = (\<lambda>_. None)" "hp_errno (r_parser r) = HPE_OK" "hp_status_code (r_parser r) \<le> 999" "r_p r < length data" "p \<le> r_p r"
  shows "step_spec data s p (message_complete S r (Pair Break))"
    "step_spec data s p (message_complete S r (\<lambda>r. RETURN (r_p r + 1) r))"
    "step_spec data s p (message_complete S r (\<lambda>r. if hp_upgrade (r_parser r) then RETURN (r_p r + 1) r else (Break, r)))"
  using assms by (auto intro!: message_complete_ok spec_RETURN simp: plain_run plain_inv) (auto simp: plain_def)

lemma headers_done_ok:
  assumes "run_inv 1 r" "r_p r < length data" "group_of (r_state r) = Headers_done_group"
  shows "step_spec data (r_state r) (r_p r) (step_headers_done S r)"
proof -
  have st: "r_state r = s_headers_done" using assms(3) by (cases "r_state r") simp_all
  then have "mark_of (r_state r) = None" by simp
  note u = unmarked [OF assms(1) this]
  let ?r = "reset_nread r"
  have f: "r_mark ?r = (\<lambda>_. None)" "hp_errno (r_parser ?r) = HPE_OK" "hp_status_code (r_parser ?r) \<le> 999" "r_p ?r = r_p r" "r_nread ?r = 0"
    using u by (simp_all add: reset_nread_def set_parser_def)
  note mc = message_complete_Break [OF f(1-3), of data "r_p r"]
  show ?thesis
    unfolding step_headers_done_def
    by (rule spec_STRICT)
      (use assms(2) f mc in \<open>auto simp: Let_def UPDATE_STATE_def run_inv_def state_inv_def SET_ERRNO_def intro!: spec_RETURN\<close>)
qed

text \<open>Taking a piece of the body.\<close>

lemma take_body_fields:
  assumes "hp_content_length (r_parser r) \<noteq> 0" "r_p r < length data"
  shows "r_p r \<le> r_p (take_body data r)" "r_p (take_body data r) < length data" "r_state (take_body data r) = r_state r"
    "hp_errno (r_parser (take_body data r)) = hp_errno (r_parser r)"
    "hp_status_code (r_parser (take_body data r)) = hp_status_code (r_parser r)"
    "has_flag f (r_parser (take_body data r)) = has_flag f (r_parser r)"
    "hp_content_length (r_parser (take_body data r)) \<le> hp_content_length (r_parser r)"
    "mark_of (r_state r) = Some Body_mark \<Longrightarrow> marks_inv (r_state r) (r_mark r) (r_p r) \<Longrightarrow>
      marks_inv (r_state r) (r_mark (take_body data r)) (r_p (take_body data r))"
proof -
  let ?n = "min (unat (hp_content_length (r_parser r))) (length data - r_p r)"
  have n: "0 < ?n" "?n \<le> length data - r_p r" using assms(1,2) by (simp_all add: unat_gt_0)
  have p: "r_p (take_body data r) = r_p r + ?n - 1" by (simp add: take_body_def Let_def run_upd)
  show "r_p r \<le> r_p (take_body data r)" "r_p (take_body data r) < length data"
    unfolding p using n assms(2) by linarith+
  show "r_state (take_body data r) = r_state r"
    "hp_errno (r_parser (take_body data r)) = hp_errno (r_parser r)"
    "hp_status_code (r_parser (take_body data r)) = hp_status_code (r_parser r)"
    "has_flag f (r_parser (take_body data r)) = has_flag f (r_parser r)"
    by (simp_all add: take_body_def Let_def run_upd has_flag_def)
  have "?n < 2 ^ 64"
    using unsigned_less [of "hp_content_length (r_parser r)", where 'a = nat] by (simp add: min_less_iff_disj)
  then have "unat (of_nat ?n :: u64) = ?n" by (simp only: unat_of_nat len_num0 len_num1 len_bit0 len_bit1) simp
  then have "(of_nat ?n :: u64) \<le> hp_content_length (r_parser r)" by (simp add: word_le_nat_alt)
  then show "hp_content_length (r_parser (take_body data r)) \<le> hp_content_length (r_parser r)"
    by (simp add: take_body_def Let_def run_upd word_sub_le)
  show "marks_inv (r_state r) (r_mark (take_body data r)) (r_p (take_body data r))"
    if "mark_of (r_state r) = Some Body_mark" "marks_inv (r_state r) (r_mark r) (r_p r)"
  proof -
    have "r_mark (take_body data r) m = Some at \<Longrightarrow> m = Body_mark \<and> at \<le> r_p r" for m at
      using that by (auto simp: take_body_def Let_def run_upd marks_inv_def split: if_splits)
    moreover have "r_p r \<le> r_p (take_body data r)" unfolding p using n by linarith
    ultimately show ?thesis using that(1) unfolding marks_inv_def by fastforce
  qed
qed

lemma content_length_not_max:
  "hp_content_length q \<le> n \<Longrightarrow> n \<noteq> - 1 \<Longrightarrow> hp_content_length q \<noteq> (- 1 :: u64)"
  using word_n1_ge [of n] by (metis order_antisym)

lemma body_ok:
  assumes "run_inv 1 r" "r_p r < length data" "group_of (r_state r) = Body_group"
  shows "step_spec data (r_state r) (r_p r) (step_body S data r)"
proof -
  consider "r_state r = s_body_identity" | "r_state r = s_body_identity_eof" | "r_state r = s_message_done"
    using assms(3) by (cases "r_state r") simp_all
  then show ?thesis
  proof cases
    case 1
    let ?t = "take_body data r"
    have m: "mark_of (r_state r) = Some Body_mark" using 1 by simp
    have cl: "hp_content_length (r_parser r) \<noteq> 0" "hp_content_length (r_parser r) \<noteq> - 1"
      using assms(1) 1 by (simp_all add: run_inv_def state_inv_def)
    note t = take_body_fields [OF cl(1) assms(2)] and u = marked [OF assms(1) m]
    have mk: "marks_inv s_body_identity (r_mark ?t) (r_p ?t)" using t(8) m u(4) 1 by simp
    then have "(r_mark ?t)(Body_mark := None) = (\<lambda>_. None)" using marks_clear by simp
    with 1 cl t u mk assms(2) content_length_not_max [OF t(7) cl(2)] show ?thesis
      by (auto simp: step_body_def Let_def UPDATE_STATE_def plain_run plain_def run_inv_def state_inv_def
          intro!: spec_ASSERT spec_DATA_AT)
  next
    case 2
    then have m: "mark_of (r_state r) = Some Body_mark" by simp
    have pl: "plain s_body_identity_eof" by (simp add: plain_def)
    from marked [OF assms(1) m] 2 assms(2) pl show ?thesis
      by (auto simp: step_body_def MARK_def plain_run marks_inv_def intro: order_trans [of _ "r_p r"])
  next
    case 3
    then have "mark_of (r_state r) = None" by simp
    from unmarked [OF assms(1) this] 3 assms(2) show ?thesis
      by (simp add: step_body_def message_complete_Break)
  qed
qed

end

text \<open>The value of a chunk size never is the mark for no length.\<close>

lemma unhex_range: "unhex ! unat (c :: u8) \<noteq> -1 \<Longrightarrow> 0 \<le> unhex ! unat c \<and> unhex ! unat c \<le> 15"
proof -
  have "list_all (\<lambda>v. v = -1 \<or> 0 \<le> v \<and> v \<le> 15) unhex" "length unhex = 256" by (simp_all add: unhex_def list_all_iff)
  then have "\<forall>n < 256. unhex ! n = -1 \<or> 0 \<le> unhex ! n \<and> unhex ! n \<le> 15" by (simp add: list_all_length)
  from spec [OF this, of "unat c"] show "unhex ! unat c \<noteq> -1 \<Longrightarrow> ?thesis" by simp
qed

lemma uint_digit: "0 \<le> v \<Longrightarrow> v \<le> 15 \<Longrightarrow> uint (of_int v :: u64) = v"
  by (subst uint_word_of_int) simp

lemma hex_digit_small:
  assumes "0 \<le> v" "v \<le> 15"
  shows "of_int v \<noteq> (- 1 :: u64)"
proof
  assume "of_int v = (- 1 :: u64)"
  then have "uint (of_int v :: u64) = uint (- 1 :: u64)" by simp
  then show False using assms uint_digit [OF assms] by (simp add: unsigned_minus_1_eq_mask mask_eq_exp_minus_1)
qed

lemma hex_digit_next:
  assumes "\<not> (- 1 - 16) div 16 < (cl :: u64)" "0 \<le> v" "v \<le> 15"
  shows "cl * 16 + of_int v \<noteq> - 1"
proof
  assume e: "cl * 16 + of_int v = - 1"
  have "uint ((- 1 - 16) div 16 :: u64) = (2 ^ 64 - 17) div 16" by (simp add: uint_div)
  then have cl: "uint cl \<le> (2 ^ 64 - 17) div 16" using assms(1) by (simp add: word_less_def not_less)
  have "uint (cl * 16 + of_int v) = (uint cl * 16 + v) mod 2 ^ 64"
    using uint_digit [OF assms(2,3)] by (simp add: uint_word_ariths mod_simps)
  also have "\<dots> = uint cl * 16 + v" using cl assms(2,3) by (intro mod_pos_pos_trivial) auto
  finally have "uint (- 1 :: u64) = uint cl * 16 + v" using e by simp
  then show False using cl assms(3) by (simp add: unsigned_minus_1_eq_mask mask_eq_exp_minus_1)
qed

context quiet
begin

lemma chunk_ok:
  assumes "run_inv 1 r" "r_p r < length data" "group_of (r_state r) = Chunk_group"
  shows "step_spec data (r_state r) (r_p r) (step_chunk S data r)"
proof -
  have ck: "has_flag F_CHUNKED (r_parser r)" and ok: "hp_errno (r_parser r) = HPE_OK" "hp_status_code (r_parser r) \<le> 999"
    using assms by (simp_all add: run_inv_def state_inv_def)
  show ?thesis
  proof (cases "mark_of (r_state r)")
    case None
    note u = unmarked [OF assms(1) None]
    show ?thesis
      using assms u ck None unhex_range [of "r_ch r"] hex_digit_small hex_digit_next
      by (cases "r_state r")
        (auto simp: step_chunk_def Let_def run_upd run_inv_def state_inv_def CALLBACK_NOTIFY_def has_flag_def
          intro!: spec_ASSERT spec_STRICT spec_NOTIFY_AT)
  next
    case (Some m)
    then have m: "m = Body_mark" and st: "r_state r = s_chunk_data \<or> r_state r = s_chunk_data_almost_done"
      using assms(3) by (cases "r_state r"; simp)+
    note u = marked [OF assms(1) Some]
    from st show ?thesis
    proof
      assume st: "r_state r = s_chunk_data"
      then have cl: "hp_content_length (r_parser r) \<noteq> 0" "hp_content_length (r_parser r) \<noteq> - 1"
        using assms(1) by (simp_all add: run_inv_def state_inv_def)
      note t = take_body_fields [OF cl(1) assms(2)]
      have "marks_inv s (r_mark (take_body data r)) (r_p (take_body data r))" if "mark_of s = Some Body_mark" for s
        using t(8) u(4) st that by (simp add: marks_inv_def)
      with st cl t u ck content_length_not_max [OF t(7) cl(2)] show ?thesis
        by (auto simp: step_chunk_def Let_def UPDATE_STATE_def run_inv_def state_inv_def intro!: spec_ASSERT)
    next
      assume st: "r_state r = s_chunk_data_almost_done"
      then have "hp_content_length (r_parser r) = 0" using assms(1) by (simp add: run_inv_def state_inv_def)
      with st u ck m assms(2) show ?thesis
        by (auto simp: step_chunk_def Let_def UPDATE_STATE_def run_inv_def state_inv_def CALLBACK_DATA_def
            intro!: spec_ASSERT spec_STRICT spec_DATA_AT)
    qed
  qed
qed

text \<open>One turn of the switch.\<close>

lemma http_step_ok:
  assumes "run_inv 1 r" "r_p r < length data"
  shows "step_spec data (r_state r) (r_p r) (http_step S data r)"
  using start_ok [OF assms] status_ok [OF assms] step_method_ok [OF assms] url_ok [OF assms] req_version_ok [OF assms]
    field_ok [OF assms] step_value_start_ok [OF assms] value_ok [OF assms] header_end_ok [OF assms]
    headers_almost_done_ok [OF assms] headers_done_ok [OF assms] body_ok [OF assms] chunk_ok [OF assms]
  by (cases "group_of (r_state r)") (simp_all add: http_step_def)

section \<open>The loop\<close>

lemma http_next_ok:
  assumes "run_inv 0 r" "r_p r < length data"
  shows "step_spec data (r_state r) (r_p r) (http_next S data r)"
proof -
  let ?r = "r\<lparr>r_ch := data ! r_p r\<rparr>"
  have a: "run_inv 1 (?r\<lparr>r_nread := r_nread r + 1\<rparr>)" "r_state r \<noteq> s_chunk_size_start \<Longrightarrow> run_inv 1 ?r"
    using assms(1) by (simp_all add: run_inv_def)
  show ?thesis
  proof (cases "PARSING_HEADER (r_state r)")
    case True
    with a(1) assms(2) http_step_ok [of "?r\<lparr>r_nread := r_nread r + 1\<rparr>" data] show ?thesis
      by (simp add: http_next_def COUNT_HEADER_SIZE_def Let_def)
  next
    case False
    then have "r_state r \<noteq> s_chunk_size_start" by auto
    with a(2) assms(2) False http_step_ok [of ?r data] show ?thesis by (simp add: http_next_def)
  qed
qed

definition at_end :: "bytes \<Rightarrow> 'd http_run \<Rightarrow> bool" where
  "at_end data r \<longleftrightarrow> hp_errno (r_parser r) = HPE_OK \<and> state_inv (r_state r) (r_parser r) \<and>
     (r_state r = s_chunk_size_start \<longrightarrow> r_nread r = 0) \<and> r_p r = length data"

lemma finish_callback:
  assumes "at_end data r" "\<And>r. at_end data r \<Longrightarrow> step_spec data s p (k r)"
  shows "step_spec data s p (CALLBACK_DATA_NOADVANCE S data m r k)"
  unfolding CALLBACK_DATA_NOADVANCE_def
  by (rule spec_DATA_AT) (use assms in \<open>auto simp: at_end_def\<close>)

lemma one_mark:
  assumes "marks_inv s mk p"
  shows "length (filter (\<lambda>m. mk m \<noteq> None)
      [Header_field_mark, Header_value_mark, Url_mark, Body_mark, Status_mark]) \<le> 1"
proof -
  have "mk m = None" if "mark_of s \<noteq> Some m" for m using assms that by (cases "mk m") (auto simp: marks_inv_def)
  then show ?thesis by (cases "mark_of s"; simp; cases "the (mark_of s)"; simp)
qed

text \<open>The end of the loop leaves the function.\<close>

definition leaves :: "'d step \<Rightarrow> bool" where
  "leaves st \<longleftrightarrow> (case fst st of Return n \<Rightarrow> True | _ \<Rightarrow> False)"

lemma leaves_ASSERT: "c \<Longrightarrow> leaves (k r) \<Longrightarrow> leaves (ASSERT c r k)"
  by (simp add: ASSERT_def)

lemma leaves_callback:
  assumes "at_end data r" "\<And>r. at_end data r \<Longrightarrow> leaves (k r)"
  shows "leaves (CALLBACK_DATA_NOADVANCE S data m r k)"
proof -
  have e: "at_end data (unmark m r)" "\<And>d. at_end data (unmark m (called d r))" "\<And>d. at_end data (called d r)"
    using assms(1) by (simp_all add: at_end_def)
  show ?thesis
  proof (cases "r_mark r m")
    case None
    with assms show ?thesis by (simp add: CALLBACK_DATA_NOADVANCE_def CALLBACK_DATA_AT_def ASSERT_def at_end_def)
  next
    case (Some at)
    show ?thesis
    proof (cases "data_cb m S")
      case None
      with Some assms(1) assms(2) [OF e(1)] show ?thesis
        by (simp add: CALLBACK_DATA_NOADVANCE_def CALLBACK_DATA_AT_def ASSERT_def at_end_def unmark_def)
    next
      case cb: (Some g)
      let ?q = "(r_parser r)\<lparr>hp_state := r_state r\<rparr>"
      obtain v q d where g: "g ?q (drop at (take (r_p r) data)) (r_data r) = (v, q, d)" by (rule prod_cases3)
      have er: "data_errno m \<noteq> HPE_OK" by (cases m) simp_all
      have q: "q = ?q" using data_quiet [OF cb, of ?q "drop at (take (r_p r) data)" "r_data r"] g by simp
      have "(unmark m (called d r)) = (r\<lparr>r_parser := q, r_data := d, r_state := hp_state q, r_mark := (r_mark r)(m := None)\<rparr>)"
        by (simp add: unmark_def called_def q)
      with assms(2) [OF e(2), of d] Some cb g assms(1) er show ?thesis
        by (cases "v = 0")
          (simp_all add: CALLBACK_DATA_NOADVANCE_def CALLBACK_DATA_AT_def ASSERT_def at_end_def after_callback_def
            UPDATE_STATE_def SET_ERRNO_def Let_def leaves_def q)
    qed
  qed
qed

lemma http_finish_ok:
  assumes "run_inv 0 r" "r_p r = length data"
  shows "step_spec data s p (http_finish S data r)" "leaves (http_finish S data r)"
proof -
  have one: "length (filter (\<lambda>m. r_mark r m \<noteq> None)
      [Header_field_mark, Header_value_mark, Url_mark, Body_mark, Status_mark]) \<le> 1"
    by (rule one_mark [of "r_state r" _ "r_p r"]) (use assms(1) in \<open>simp add: run_inv_def\<close>)
  have e: "at_end data r" using assms by (simp add: at_end_def run_inv_def)
  have R: "step_spec data s p (RETURN (length data) r)" if "at_end data r" for r
    by (rule spec_RETURN) (use that in \<open>simp_all add: at_end_def\<close>)
  show "step_spec data s p (http_finish S data r)"
    unfolding http_finish_def by (intro spec_ASSERT finish_callback one e R)
  have "leaves (RETURN n r)" for n and r :: "'d http_run" by (simp add: leaves_def RETURN_def)
  then show "leaves (http_finish S data r)"
    unfolding http_finish_def by (intro leaves_ASSERT leaves_callback one e)
qed

definition loop_measure :: "bytes \<Rightarrow> 'd step \<Rightarrow> nat" where
  "loop_measure data st =
     (case st of (Break, r) \<Rightarrow> 8 * (length data - r_p r - 1) + 7
      | (Reexecute, r) \<Rightarrow> 8 * (length data - r_p r) + rank (r_state r)
      | _ \<Rightarrow> 0)"

lemma rank_le: "rank s \<le> 5"
  by (cases s) simp_all

text \<open>A turn of the switch from a position inside the data is below the end of the turn before.\<close>

lemma loop_measure_turn:
  assumes "step_spec data s p st" "p < length data"
  shows "loop_measure data st < 8 * (length data - p) + max 1 (rank s)"
  using assms by (cases st; cases "fst st") (auto simp: loop_measure_def)

lemma http_loop_ok:
  assumes "step_spec data s p st"
  shows "\<exists>n r. http_loop S data st = Some (Return n, r) \<and> n \<le> length data \<and> parser_inv (r_parser r)"
  using assms
proof (induction "loop_measure data st" arbitrary: st s p rule: less_induct)
  case less
  obtain f r where st: "st = (f, r)" by (cases st)
  show ?case
  proof (cases f)
    case Break
    let ?r = "r\<lparr>r_p := r_p r + 1\<rparr>"
    from less.prems st Break have i: "run_inv 0 r" "r_p r < length data" by simp_all
    then have r: "run_inv 0 ?r" by (auto simp: run_inv_def marks_inv_def intro: le_SucI)
    show ?thesis
    proof (cases "r_p ?r = length data")
      case True
      obtain g t where g: "http_finish S data ?r = (g, t)" by fastforce
      with http_finish_ok [OF r True] st Break True show ?thesis
        by (cases g) (simp_all add: http_loop.simps step_spec_def leaves_def)
    next
      case False
      then have l: "r_p ?r < length data" using i(2) by simp
      note n = http_next_ok [OF r l]
      have "loop_measure data (http_next S data ?r) < loop_measure data st"
        using loop_measure_turn [OF n l] rank_le [of "r_state r"] l by (simp add: st Break loop_measure_def)
      from less.hyps [OF this n] False show ?thesis by (simp add: st Break http_loop.simps)
    qed
  next
    case Reexecute
    from less.prems st Reexecute have i: "run_inv 1 r" "r_p r < length data" "r_state r \<noteq> s_chunk_size_start" by simp_all
    note n = http_step_ok [OF i(1,2)]
    have "loop_measure data (http_step S data r) < loop_measure data st \<or> rank (r_state r) = 0"
      using loop_measure_turn [OF n i(2)] by (auto simp: st Reexecute loop_measure_def max_def split: if_splits)
    moreover have "loop_measure data (http_step S data r) < loop_measure data st" if "rank (r_state r) = 0"
      using n that i(2) by (cases "http_step S data r"; cases "fst (http_step S data r)")
        (auto simp: st Reexecute loop_measure_def step_spec_def)
    ultimately have "loop_measure data (http_step S data r) < loop_measure data st" by blast
    from less.hyps [OF this n] show ?thesis by (simp add: st Reexecute http_loop.simps)
  next
    case Error_exit
    with less.prems st show ?thesis
      by (auto simp: http_loop.simps http_error_def step_spec_def RETURN_def parser_inv_def Let_def)
  next
    case (Return n)
    with less.prems st show ?thesis by (simp add: http_loop.simps step_spec_def)
  next
    case Abort
    with less.prems st show ?thesis by (simp add: step_spec_def)
  qed
qed

section \<open>A call\<close>

lemma first_marks: "marks_inv s (first_mark s) 0"
  by (cases s) (auto simp: marks_inv_def first_mark_def split: if_splits)

lemma eof_ok:
  assumes "parser_inv (r_parser r)" "hp_errno (r_parser r) = HPE_OK" "r_state r = hp_state (r_parser r)" "r_p r = 0"
  shows "\<exists>n t. http_eof S r = (Return n, t) \<and> n \<le> 1 \<and> parser_inv (r_parser t)"
proof (cases "r_state r = s_body_identity_eof")
  case False
  with assms(1) show ?thesis
    by (auto simp: http_eof_def SET_ERRNO_def parser_inv_def)
next
  case s: True
  show ?thesis
  proof (cases "cb_message_complete S")
    case None
    with s assms show ?thesis by (simp add: http_eof_def CALLBACK_NOTIFY_NOADVANCE_def CALLBACK_NOTIFY_AT_def ASSERT_def)
  next
    case (Some f)
    let ?q = "(r_parser r)\<lparr>hp_state := r_state r\<rparr>"
    obtain v q d where f: "f ?q (r_data r) = (v, q, d)" by (rule prod_cases3)
    have "q = ?q" using notify_quiet [of f ?q "r_data r"] Some f by simp
    with s assms Some f show ?thesis
      by (cases "v = 0")
        (simp_all add: http_eof_def CALLBACK_NOTIFY_NOADVANCE_def CALLBACK_NOTIFY_AT_def ASSERT_def after_callback_def
          UPDATE_STATE_def SET_ERRNO_def Let_def parser_inv_def)
  qed
qed

lemma http_execute_ok:
  assumes "parser_inv q"
  shows "\<exists>n q' d'. http_parser_execute S q d data = Some (Some n, q', d') \<and> n \<le> max 1 (length data) \<and> parser_inv q'"
proof (cases "hp_errno q = HPE_OK")
  case False
  with assms show ?thesis by (simp add: http_parser_execute_def http_run_start_def Let_def)
next
  case ok: True
  let ?r = "http_run_start q d"
  have r: "r_parser ?r = q" "r_state ?r = hp_state q" "r_p ?r = 0" by (simp_all add: http_run_start_def)
  show ?thesis
  proof (cases "data = []")
    case False
    then have l: "r_p ?r < length data" by (simp add: r)
    have i: "run_inv 0 ?r"
      using assms ok first_marks by (simp add: run_inv_def parser_inv_def http_run_start_def)
    from http_loop_ok [OF http_next_ok [OF i l]] ok False show ?thesis
      by (fastforce simp: http_parser_execute_def Let_def)
  next
    case True
    have "\<exists>n t. http_eof S ?r = (Return n, t) \<and> n \<le> 1 \<and> parser_inv (r_parser t)"
      using eof_ok [of ?r] assms ok r by simp
    with ok True show ?thesis by (auto simp: http_parser_execute_def Let_def)
  qed
qed

end

lemma parser_inv_init: "parser_inv (http_parser_init t)"
  by (cases t) (simp_all add: parser_inv_def state_inv_def http_parser_init_def)

end
