(* ===== verification/Wic_Handshake.thy ===== *)
theory Wic_Handshake
  imports Wic_Headers Wic_Receive Wic_Base64 Wic_Sha1 Http_Safety
begin

text \<open>
  Setting an instance up and the opening handshake (\<open>src/wic.c\<close>): \<open>wic_init\<close> and the getters,
  the requests and responses \<open>wic_start\<close> writes, the callbacks that decide about a message of
  the peer, and \<open>wic_parse\<close>, which joins the handshake and the receive loop. \<open>None\<close> is a run
  with no result: a loop without end, a failed assertion, or a read outside a buffer.
\<close>

section \<open>Setting up\<close>

record 'w wic_init_arg =
  ia_rx :: "bytes option"
  ia_rx_max :: nat
  ia_on_message :: "fnptr option"
  ia_on_open :: "fnptr option"
  ia_on_close :: "fnptr option"
  ia_on_close_transport :: "fnptr option"
  ia_on_handshake_failure :: "fnptr option"
  ia_on_ping :: "fnptr option"
  ia_on_pong :: "fnptr option"
  ia_rand :: "fnptr option"
  ia_on_send :: "fnptr option"
  ia_on_buffer :: "fnptr option"
  ia_app :: 'w
  ia_url :: "bytes option"
  ia_role :: wic_role

text \<open>\<open>Refused\<close> is the return value \<open>false\<close>; the instance is of no use then. \<open>Wild_read\<close> is a read
  outside the URL, possible because the structure \<open>u\<close> the URL parser fills in is not initialised:
  what the stack held there, \<open>u0\<close>, is an argument here.\<close>

datatype init_error = Refused | Wild_read

definition supported_schema :: "(bytes \<times> wic_schema) list" where
  "supported_schema =
     [(ascii ''http'', WIC_SCHEMA_HTTP), (ascii ''https'', WIC_SCHEMA_HTTPS),
      (ascii ''ws'', WIC_SCHEMA_WS), (ascii ''wss'', WIC_SCHEMA_WSS)]"

definition url_inside :: "bytes \<Rightarrow> http_parser_url \<Rightarrow> http_parser_url_fields \<Rightarrow> bool" where
  "url_inside buf u f \<longleftrightarrow>
     unat (uf_off (field_data u f)) + unat (uf_len (field_data u f)) \<le> length buf"

fun find_schema :: "bytes \<Rightarrow> http_parser_url \<Rightarrow> (bytes \<times> wic_schema) list \<Rightarrow> init_error + wic_schema" where
  "find_schema buf u [] = Inl Refused"
| "find_schema buf u ((s, x) # rest) =
     (if unat (uf_len (field_data u UF_SCHEMA)) = length s then
        if \<not> url_inside buf u UF_SCHEMA then Inl Wild_read
        else if field_bytes buf u UF_SCHEMA = s then Inr x else find_schema buf u rest
      else find_schema buf u rest)"

definition WIC_HOSTNAME_MAXLEN :: nat where
  "WIC_HOSTNAME_MAXLEN = 256"

text \<open>Schema, port and host of the URL.\<close>

definition init_url :: "http_parser_url \<Rightarrow> bytes \<Rightarrow> init_error + wic_schema \<times> u16 \<times> bytes" where
  "init_url u0 buf =
     (let (retval, u) = http_parser_parse_url buf False u0 in
      if retval \<noteq> 0 then Inl Refused
      else (case find_schema buf u supported_schema of
          Inl e \<Rightarrow> Inl e
        | Inr sch \<Rightarrow>
            let port = (if has_field UF_PORT u then url_port u
                        else if sch = WIC_SCHEMA_HTTP \<or> sch = WIC_SCHEMA_WS then 80 else 443)
            in if unat (uf_len (field_data u UF_HOST)) > WIC_HOSTNAME_MAXLEN - 1 then Inl Refused
               else if \<not> url_inside buf u UF_HOST then Inl Wild_read
               else Inr (sch, port, field_bytes buf u UF_HOST)))"

text \<open>The receive frame after \<open>memset\<close> and \<open>stream_init\<close>.\<close>

definition init_rx :: "bytes option \<Rightarrow> nat \<Rightarrow> wic_rx_frame" where
  "init_rx buf n =
     \<lparr>rx_fin = False, rx_rsv1 = False, rx_rsv2 = False, rx_rsv3 = False, rx_opcode = WIC_OPCODE_CONTINUE,
      rx_frag = WIC_OPCODE_CONTINUE, rx_mask = [0, 0, 0, 0], rx_size = 0, rx_masked = False,
      rx_state = WIC_RX_STATE_OPCODE, rx_utf8 = 0, rx_s = stream_init buf n\<rparr>"

definition wic_init :: "http_parser_url \<Rightarrow> 'w wic_init_arg \<Rightarrow> init_error + 'w wic_inst" where
  "wic_init u0 arg =
     (case (ia_on_send arg, ia_on_buffer arg) of
        (Some snd_fn, Some buf_fn) \<Rightarrow>
          if ia_role arg = WIC_ROLE_CLIENT \<and> ia_url arg = None then Inl Refused
          else (case (case ia_url arg of None \<Rightarrow> Inr (WIC_SCHEMA_WS, 0, []) | Some buf \<Rightarrow> init_url u0 buf) of
              Inl e \<Rightarrow> Inl e
            | Inr (sch, prt, hst) \<Rightarrow>
                if ia_role arg \<noteq> WIC_ROLE_CLIENT then Inl Refused
                else Inr
                  \<lparr>role = ia_role arg,
                   istate = (if ia_role arg = WIC_ROLE_CLIENT then WIC_STATE_INIT else WIC_STATE_PARSE_HANDSHAKE),
                   rx = init_rx (ia_rx arg) (ia_rx_max arg),
                   h_message = (case ia_on_message arg of Some p \<Rightarrow> App_message p | None \<Rightarrow> Default_message),
                   h_open = ia_on_open arg, h_close = ia_on_close arg,
                   h_close_transport = ia_on_close_transport arg,
                   h_handshake_failure = ia_on_handshake_failure arg,
                   h_send = snd_fn, h_buffer = buf_fn, h_rand = ia_rand arg, h_ping = None, h_pong = None,
                   app = ia_app arg, url = ia_url arg, schema = sch, status_code = 0, port = prt,
                   tx_header = [], header_state = WIC_HEADER_STATE_IDLE,
                   http = http_parser_init (if ia_role arg = WIC_ROLE_CLIENT then HTTP_RESPONSE else HTTP_REQUEST),
                   frag = WIC_OPCODE_CONTINUE, ipos = 0, utf8_tx = 0, utf8_rx = 0,
                   hash = replicate 20 0, hostname = hst, redirect_url = None\<rparr>)
      | _ \<Rightarrow> Inl Refused)"

definition wic_get_url :: "'w wic_inst \<Rightarrow> bytes option" where
  "wic_get_url self = url self"

definition wic_get_url_hostname :: "'w wic_inst \<Rightarrow> bytes option" where
  "wic_get_url_hostname self = (if url self \<noteq> None then Some (hostname self) else None)"

definition wic_get_status_code :: "'w wic_inst \<Rightarrow> u16" where
  "wic_get_status_code self = status_code self"

definition wic_get_url_port :: "'w wic_inst \<Rightarrow> u16" where
  "wic_get_url_port self = port self"

definition wic_get_url_schema :: "'w wic_inst \<Rightarrow> wic_schema" where
  "wic_get_url_schema self = schema self"

definition wic_get_redirect_url :: "'w wic_inst \<Rightarrow> nat option" where
  "wic_get_redirect_url self = redirect_url self"

definition wic_get_app :: "'w wic_inst \<Rightarrow> 'w" where
  "wic_get_app self = app self"

section \<open>Starting\<close>

definition CRLF :: bytes where
  "CRLF = [13, 10]"

text \<open>The loop over the headers set by the application.\<close>

definition tx_header_puts :: "(bytes \<times> bytes) list \<Rightarrow> bytes list" where
  "tx_header_puts hs = concat (map (\<lambda>(n, v). [n, ascii '': '', v, CRLF]) hs)"

definition request_puts :: "bytes \<Rightarrow> http_parser_url \<Rightarrow> bytes \<Rightarrow> (bytes \<times> bytes) list \<Rightarrow> bytes list" where
  "request_puts buf u nonce_b64 hs =
     [ascii ''GET '', field_bytes buf u UF_PATH]
     @ (if uf_len (field_data u UF_QUERY) > 0 then [ascii ''?'', field_bytes buf u UF_QUERY] else [])
     @ (if uf_len (field_data u UF_FRAGMENT) > 0 then [ascii ''#'', field_bytes buf u UF_FRAGMENT] else [])
     @ [ascii '' HTTP/1.1'' @ CRLF, ascii ''Host: '', field_bytes buf u UF_HOST]
     @ (if url_port u \<noteq> 0 then [ascii '':'', field_bytes buf u UF_PORT] else [])
     @ [CRLF, ascii ''Upgrade: websocket'' @ CRLF, ascii ''Connection: upgrade'' @ CRLF,
        ascii ''Sec-WebSocket-Version: 13'' @ CRLF, ascii ''Sec-WebSocket-Key: '', nonce_b64, CRLF]
     @ tx_header_puts hs @ [CRLF]"

text \<open>Four calls of the generator, or the default.\<close>

primrec rand_words :: "'w host \<Rightarrow> fnptr \<Rightarrow> nat \<Rightarrow> 'w wic_inst \<Rightarrow> bytes \<times> 'w wic_inst" where
  "rand_words h p 0 self = ([], self)"
| "rand_words h p (Suc n) self =
     (let (x, self) = run_rand h p self; (bs, self) = rand_words h p n self in (u32_bytes x @ bs, self))"

definition client_nonce :: "'w host \<Rightarrow> 'w wic_inst \<Rightarrow> bytes \<times> 'w wic_inst" where
  "client_nonce h self =
     (case h_rand self of Some p \<Rightarrow> rand_words h p 4 self | None \<Rightarrow> (replicate 16 0xaa, self))"

definition start_client :: "'w host \<Rightarrow> 'w wic_inst \<Rightarrow> (wic_status \<times> 'w wic_inst) option" where
  "start_client h self =
     (if istate self = WIC_STATE_INIT then
        (case url self of
           None \<Rightarrow> None
         | Some buf \<Rightarrow>
             let (bad, u) = http_parser_parse_url buf False http_parser_url_init in
             if bad = 0 then
               Some (case call_buffer h self 0 WIC_BUFFER_HTTP of
                   ((None, mx), self) \<Rightarrow> (WIC_STATUS_WOULD_BLOCK, self)
                 | ((Some mem, mx), self) \<Rightarrow>
                     let (nonce, self) = client_nonce h self;
                         nonce_b64 = b64_encode nonce 24;
                         self = self\<lparr>hash := server_hash nonce_b64\<rparr>;
                         tx = stream_put_all (request_puts buf u nonce_b64 (tx_header self)) (stream_init (Some mem) mx)
                     in if \<not> stream_error tx
                        then (WIC_STATUS_SUCCESS,
                              call_send h (self\<lparr>istate := WIC_STATE_PARSE_HANDSHAKE\<rparr>) (st_data tx) WIC_BUFFER_HTTP)
                        else (WIC_STATUS_TOO_LARGE, call_send h self [] WIC_BUFFER_HTTP))
             else Some (WIC_STATUS_BAD_INPUT, self))
      else Some (WIC_STATUS_BAD_STATE, self))"

definition response_puts :: "bytes \<Rightarrow> (bytes \<times> bytes) list \<Rightarrow> bytes list" where
  "response_puts hsh hs =
     [ascii ''HTTP/1.1 101 Switching Protocols'' @ CRLF, ascii ''Upgrade: websocket'' @ CRLF,
      ascii ''Connection: upgrade'' @ CRLF, ascii ''Sec-WebSocket-Accept: '', b64_encode hsh 28, CRLF]
     @ tx_header_puts hs @ [CRLF]"

definition start_server :: "'w host \<Rightarrow> 'w wic_inst \<Rightarrow> wic_status \<times> 'w wic_inst" where
  "start_server h self =
     (if istate self = WIC_STATE_READY then
        (case call_buffer h self 0 WIC_BUFFER_HTTP of
           ((None, mx), self) \<Rightarrow> (WIC_STATUS_WOULD_BLOCK, self)
         | ((Some mem, mx), self) \<Rightarrow>
             let tx = stream_put_all (response_puts (hash self) (tx_header self)) (stream_init (Some mem) mx)
             in if \<not> stream_error tx
                then (WIC_STATUS_SUCCESS,
                      call_send h (self\<lparr>istate := WIC_STATE_OPEN\<rparr>) (st_data tx) WIC_BUFFER_HTTP)
                else (WIC_STATUS_TOO_LARGE, call_send h self [] WIC_BUFFER_HTTP))
      else (WIC_STATUS_BAD_STATE, self))"

definition wic_start :: "'w host \<Rightarrow> 'w wic_inst \<Rightarrow> (wic_status \<times> 'w wic_inst) option" where
  "wic_start h self =
     (case role self of WIC_ROLE_CLIENT \<Rightarrow> start_client h self | WIC_ROLE_SERVER \<Rightarrow> Some (start_server h self))"

section \<open>Deciding about a message\<close>

text \<open>The terminating zero of the last value.\<close>

definition end_headers :: "'w wic_inst \<Rightarrow> 'w wic_inst" where
  "end_headers self = (if header_state self = WIC_HEADER_STATE_VALUE then rx_append [0] self else self)"

text \<open>A comparison with the string at an offset of the receive buffer.\<close>

definition value_equal :: "'w wic_inst \<Rightarrow> nat \<Rightarrow> bytes \<Rightarrow> bool option" where
  "value_equal self off s = str_equal (Some (drop off (rx_mem self))) (Some s)"

definition strcmp_equal :: "'w wic_inst \<Rightarrow> nat \<Rightarrow> bytes \<Rightarrow> bool option" where
  "strcmp_equal self off s = same_str (\<lambda>c. c) (drop off (rx_mem self)) s"

definition strlen_at :: "'w wic_inst \<Rightarrow> nat \<Rightarrow> nat option" where
  "strlen_at self off = strlen (drop off (rx_mem self))"

definition on_request_complete :: "http_parser \<Rightarrow> 'w wic_inst \<Rightarrow> (int \<times> 'w wic_inst) option" where
  "on_request_complete q self =
     (if header_state self = WIC_HEADER_STATE_FIELD then Some (-1, self)
      else
        let self = (end_headers self)\<lparr>istate := WIC_STATE_READY\<rparr> in
        if \<not> hp_upgrade q then Some (-1, self)
        else (case wic_get_header self (Some (ascii ''upgrade'')) of
            None \<Rightarrow> None
          | Some None \<Rightarrow> Some (-1, self)
          | Some (Some off) \<Rightarrow>
              (case value_equal self off (ascii ''websocket'') of
                 None \<Rightarrow> None
               | Some False \<Rightarrow> Some (-1, self)
               | Some True \<Rightarrow>
                   (case wic_get_header self (Some (ascii ''Sec-WebSocket-Key'')) of
                      None \<Rightarrow> None
                    | Some None \<Rightarrow> Some (-1, self)
                    | Some (Some off) \<Rightarrow>
                        (case strlen_at self off of
                           None \<Rightarrow> None
                         | Some n \<Rightarrow>
                             Some (0, self\<lparr>hash := server_hash (take n (drop off (rx_mem self))),
                                           istate := WIC_STATE_READY\<rparr>))))))"

definition on_response_complete :: "http_parser \<Rightarrow> 'w wic_inst \<Rightarrow> (int \<times> 'w wic_inst) option" where
  "on_response_complete q self =
     (let self = (end_headers self)\<lparr>istate := WIC_STATE_READY\<rparr> in
      if hp_status_code q \<noteq> 101 then
        if hp_status_code q \<in> {300, 301, 302, 303, 304, 307}
        then (case wic_get_header self (Some (ascii ''location'')) of
                None \<Rightarrow> None
              | Some r \<Rightarrow> Some (-1, self\<lparr>redirect_url := r\<rparr>))
        else Some (-1, self)
      else if \<not> hp_upgrade q then Some (-1, self)
      else (case wic_get_header self (Some (ascii ''upgrade'')) of
          None \<Rightarrow> None
        | Some None \<Rightarrow> Some (-1, self)
        | Some (Some off) \<Rightarrow>
            (case value_equal self off (ascii ''websocket'') of
               None \<Rightarrow> None
             | Some False \<Rightarrow> Some (-1, self)
             | Some True \<Rightarrow>
                 (case wic_get_header self (Some (ascii ''Sec-WebSocket-Accept'')) of
                    None \<Rightarrow> None
                  | Some None \<Rightarrow> Some (-1, self)
                  | Some (Some off) \<Rightarrow>
                      (case strcmp_equal self off (b64_encode (hash self) 29) of
                         None \<Rightarrow> None
                       | Some eq \<Rightarrow> Some (if eq then 0 else -1, self))))))"

section \<open>Parsing\<close>

text \<open>The callbacks as the parser calls them: the user data is the instance, \<open>None\<close> once a read went
  outside the buffer. The instance's own copy of the parser is written back after the call.\<close>

definition data_callback ::
    "(bytes \<Rightarrow> 'w wic_inst \<Rightarrow> int \<times> 'w wic_inst) \<Rightarrow> 'w wic_inst option http_data_cb" where
  "data_callback f q at d =
     (case d of None \<Rightarrow> (-1, q, None) | Some self \<Rightarrow> let (v, self) = f at self in (v, q, Some self))"

definition complete_callback ::
    "(http_parser \<Rightarrow> 'w wic_inst \<Rightarrow> (int \<times> 'w wic_inst) option) \<Rightarrow> 'w wic_inst option http_cb" where
  "complete_callback f q d =
     (case d of None \<Rightarrow> (-1, q, None)
      | Some self \<Rightarrow> (case f q self of None \<Rightarrow> (-1, q, None) | Some (v, self) \<Rightarrow> (v, q, Some self)))"

definition parse_settings :: "wic_role \<Rightarrow> 'w wic_inst option http_parser_settings" where
  "parse_settings r =
     http_parser_settings_init
       \<lparr>cb_header_field := Some (data_callback on_header_field),
        cb_header_value := Some (data_callback on_header_value),
        cb_message_complete := Some (complete_callback
          (if r = WIC_ROLE_CLIENT then on_response_complete else on_request_complete))\<rparr>"

definition parse_handshake ::
    "'w host \<Rightarrow> 'w wic_inst \<Rightarrow> wic_stream \<Rightarrow> bytes \<Rightarrow> ('w wic_inst \<times> wic_stream) option" where
  "parse_handshake h self s data =
     (case http_parser_execute (parse_settings (role self)) (http self) (Some self) data of
        Some (Some n, q, Some self) \<Rightarrow>
          let self = self\<lparr>http := q\<rparr>; s = snd (stream_seek s n) in
          Some
            (if hp_errno (http self) \<noteq> HPE_OK then
               let self = call_close_transport h self;
                   self = call_handshake_failure h self
                     (if hp_errno (http self) = HPE_CB_message_complete then WIC_HANDSHAKE_FAILURE_UPGRADE
                      else WIC_HANDSHAKE_FAILURE_PROTOCOL)
               in (self\<lparr>istate := WIC_STATE_CLOSED\<rparr>, s)
             else if istate self = WIC_STATE_READY then ((call_open h self)\<lparr>istate := WIC_STATE_OPEN\<rparr>, s)
             else (self, s))
      | _ \<Rightarrow> None)"

text \<open>The result is the number of bytes consumed.\<close>

definition wic_parse :: "'w host \<Rightarrow> 'w wic_inst \<Rightarrow> bytes \<Rightarrow> (nat \<times> 'w wic_inst) option" where
  "wic_parse h self data =
     (let s = stream_init_ro data (length data) in
      case (if istate self = WIC_STATE_PARSE_HANDSHAKE then parse_handshake h self s data else Some (self, s)) of
        None \<Rightarrow> None
      | Some (self, s) \<Rightarrow>
          (case (if istate self = WIC_STATE_OPEN then ws_loop h self s else Some (self, s)) of
             None \<Rightarrow> None
           | Some (self, s) \<Rightarrow> Some (if istate self = WIC_STATE_OPEN then stream_pos s else length data, self)))"

section \<open>The parser under these callbacks\<close>

text \<open>The callbacks leave the parser structure alone.\<close>

lemma data_callback_quiet: "fst (snd (data_callback f q bs d)) = q"
  by (auto simp: data_callback_def split: option.split prod.split)

lemma complete_callback_quiet: "fst (snd (complete_callback f q d)) = q"
  by (auto simp: complete_callback_def split: option.split prod.split)

interpretation hs: quiet "parse_settings r :: 'w wic_inst option http_parser_settings" for r
proof
  fix f q d
  assume "cb_message_begin (parse_settings r) = Some f \<or> cb_headers_complete (parse_settings r) = Some f \<or>
    cb_message_complete (parse_settings r) = Some f \<or> cb_chunk_header (parse_settings r) = Some f \<or>
    cb_chunk_complete (parse_settings r) = Some f"
  then show "fst (snd (f q d)) = q"
    by (auto simp: parse_settings_def http_parser_settings_init_def complete_callback_quiet)
next
  fix m g q bs d
  assume "data_cb m (parse_settings r) = Some g"
  then show "fst (snd (g q bs d)) = q"
    by (cases m) (auto simp: parse_settings_def http_parser_settings_init_def data_callback_quiet)
qed

end
