(* ===== verification/Http_Url_Text.thy ===== *)
theory Http_Url_Text
  imports Http_Url
begin

text \<open>
  What the URL parser makes of a URL written from its parts: schema, host, optional port, path,
  query and fragment, in the syntax of RFC 3986 that the parser takes.
\<close>

record url_parts =
  up_schema :: bytes
  up_host :: bytes
  up_port :: "bytes option"
  up_path :: bytes
  up_query :: "bytes option"
  up_fragment :: "bytes option"

definition opt_part :: "char \<Rightarrow> bytes option \<Rightarrow> bytes" where
  "opt_part c x = (case x of None \<Rightarrow> [] | Some bs \<Rightarrow> ch8 c # bs)"

definition url_print :: "url_parts \<Rightarrow> bytes" where
  "url_print p = up_schema p @ ascii ''://'' @ (up_host p @ opt_part CHR '':'' (up_port p)) @ up_path p @
     opt_part CHR ''?'' (up_query p) @ opt_part CHR ''#'' (up_fragment p)"

text \<open>The value of a decimal number.\<close>

definition decimal :: "bytes \<Rightarrow> nat" where
  "decimal ds = fold (\<lambda>d v. v * 10 + (unat d - 48)) ds 0"

definition url_wf :: "url_parts \<Rightarrow> bool" where
  "url_wf p \<longleftrightarrow>
     up_schema p \<noteq> [] \<and> list_all IS_ALPHA (up_schema p) \<and>
     up_host p \<noteq> [] \<and> list_all IS_HOST_CHAR (up_host p) \<and>
     (\<forall>d. up_port p = Some d \<longrightarrow> d \<noteq> [] \<and> list_all IS_NUM d \<and> decimal d < 65536) \<and>
     (up_path p = [] \<or> hd (up_path p) = ch8 CHR ''/'' \<and> list_all IS_URL_CHAR (up_path p)) \<and>
     (\<forall>q. up_query p = Some q \<longrightarrow> list_all (\<lambda>c. IS_URL_CHAR c \<or> c = ch8 CHR ''?'') q) \<and>
     (\<forall>f. up_fragment p = Some f \<longrightarrow> list_all (\<lambda>c. IS_URL_CHAR c \<or> c = ch8 CHR ''?'') f \<and>
        (up_path p \<noteq> [] \<or> up_query p \<noteq> None)) \<and>
     length (url_print p) < 65536"

text \<open>The same, to evaluate.\<close>

lemma all_option: "(\<forall>x. y = Some x \<longrightarrow> P x) \<longleftrightarrow> (case y of None \<Rightarrow> True | Some x \<Rightarrow> P x)"
  by (simp split: option.split)

lemma url_wf_code [code]:
  "url_wf p \<longleftrightarrow>
     up_schema p \<noteq> [] \<and> list_all IS_ALPHA (up_schema p) \<and> up_host p \<noteq> [] \<and> list_all IS_HOST_CHAR (up_host p) \<and>
     (case up_port p of None \<Rightarrow> True | Some d \<Rightarrow> d \<noteq> [] \<and> list_all IS_NUM d \<and> decimal d < 65536) \<and>
     (up_path p = [] \<or> hd (up_path p) = ch8 CHR ''/'' \<and> list_all IS_URL_CHAR (up_path p)) \<and>
     (case up_query p of None \<Rightarrow> True | Some q \<Rightarrow> list_all (\<lambda>c. IS_URL_CHAR c \<or> c = ch8 CHR ''?'') q) \<and>
     (case up_fragment p of None \<Rightarrow> True
      | Some f \<Rightarrow> list_all (\<lambda>c. IS_URL_CHAR c \<or> c = ch8 CHR ''?'') f \<and> (up_path p \<noteq> [] \<or> up_query p \<noteq> None)) \<and>
     length (url_print p) < 65536"
  unfolding url_wf_def all_option by simp

section \<open>Runs of characters\<close>

lemma url_run_same:
  assumes "\<And>c. c \<in> set cs \<Longrightarrow> parse_url_char t c = t" "url_action t = Url_field f"
    "t \<noteq> s_req_server_with_at"
  shows "url_loop t (Some f) fa i (cs @ rest) (start_field f j (of_nat n) u) =
    url_loop t (Some f) fa (i + length cs) rest (start_field f j (of_nat (n + length cs)) u)"
  using assms(1)
proof (induction cs arbitrary: i n)
  case (Cons c cs)
  have "grow_field f (start_field f j (of_nat n) u) = start_field f j (of_nat (Suc n)) u"
    by (simp add: grow_start add.commute)
  with Cons.IH [of "Suc i" "Suc n"] Cons.prems assms(2,3) show ?case by (simp add: Let_def)
qed simp

text \<open>A whole field, entered from another state.\<close>

lemma url_run:
  assumes "parse_url_char s c = t" "\<And>c. c \<in> set cs \<Longrightarrow> parse_url_char t c = t" "url_action t = Url_field f"
    "t \<noteq> s_req_server_with_at" "old \<noteq> Some f"
  shows "url_loop s old fa i ((c # cs) @ rest) u =
    url_loop t (Some f) fa (i + length (c # cs)) rest (start_field f i (of_nat (length (c # cs))) u)"
  using assms url_run_same [of cs t f fa "Suc i" rest i 1 u] by (simp add: Let_def)

text \<open>A delimiter.\<close>

lemma url_skip:
  assumes "parse_url_char s c = t" "url_action t = Url_skip"
  shows "url_loop s old fa i (c # rest) u = url_loop t old fa (Suc i) rest u"
proof -
  have "t \<noteq> s_req_server_with_at" using assms(2) by (auto simp: url_action_def)
  with assms show ?thesis by (simp add: Let_def)
qed

lemma url_char_blank [simp]:
  "IS_URL_CHAR c \<Longrightarrow> c \<noteq> 32 \<and> c \<noteq> 13 \<and> c \<noteq> 10 \<and> c \<noteq> 9 \<and> c \<noteq> 12"
  by (auto simp: IS_URL_CHAR_eq)


section \<open>The automaton on the parts\<close>

lemma schema_chars:
  "IS_ALPHA c \<Longrightarrow> parse_url_char s_req_spaces_before_url c = s_req_schema"
  "IS_ALPHA c \<Longrightarrow> parse_url_char s_req_schema c = s_req_schema"
  "parse_url_char s_req_schema (ch8 CHR '':'') = s_req_schema_slash"
  "parse_url_char s_req_schema_slash (ch8 CHR ''/'') = s_req_schema_slash_slash"
  "parse_url_char s_req_schema_slash_slash (ch8 CHR ''/'') = s_req_server_start"
  by (auto simp: parse_url_char_def IS_ALPHA_eq)

definition server_text :: "u8 \<Rightarrow> bool" where
  "server_text c \<longleftrightarrow> IS_HOST_CHAR c \<or> IS_NUM c \<or> c = 58"

lemma server_text_not [simp]: "\<not> server_text 47" "\<not> server_text 63" "\<not> server_text 64"
  "\<not> server_text 32" "\<not> server_text 13" "\<not> server_text 10" "\<not> server_text 9" "\<not> server_text 12"
  by (simp_all add: server_text_def IS_HOST_CHAR_eq IS_ALPHA_eq IS_NUM_eq)

lemma server_text_userinfo: "server_text c \<Longrightarrow> IS_USERINFO_CHAR c"
  by (auto simp: server_text_def IS_HOST_CHAR_def IS_USERINFO_CHAR_def IS_ALPHANUM_def IS_MARK_def ascii_def)

lemma server_chars:
  assumes "server_text c" "s = s_req_server_start \<or> s = s_req_server"
  shows "parse_url_char s c = s_req_server"
proof -
  have "c \<notin> {47, 63, 64, 32, 13, 10, 9, 12}" using assms(1) by auto
  with assms server_text_userinfo show ?thesis by (auto simp: parse_url_char_def server_char_def)
qed

lemma path_chars:
  "IS_URL_CHAR c \<Longrightarrow> parse_url_char s_req_path c = s_req_path"
  "parse_url_char s_req_server (ch8 CHR ''/'') = s_req_path"
  by (auto simp: parse_url_char_def server_char_def)

lemma query_chars:
  "s = s_req_server \<or> s = s_req_path \<Longrightarrow> parse_url_char s (ch8 CHR ''?'') = s_req_query_string_start"
  "s = s_req_query_string_start \<or> s = s_req_query_string \<Longrightarrow> IS_URL_CHAR c \<or> c = ch8 CHR ''?'' \<Longrightarrow>
    parse_url_char s c = s_req_query_string"
  by (auto simp: parse_url_char_def server_char_def query_char_def IS_URL_CHAR_eq)

lemma fragment_chars:
  "s = s_req_path \<or> s = s_req_query_string_start \<or> s = s_req_query_string \<Longrightarrow>
    parse_url_char s (ch8 CHR ''#'') = s_req_fragment_start"
  "s = s_req_fragment_start \<or> s = s_req_fragment \<Longrightarrow> IS_URL_CHAR c \<or> c = ch8 CHR ''?'' \<Longrightarrow>
    parse_url_char s c = s_req_fragment"
  by (auto simp: parse_url_char_def query_char_def IS_URL_CHAR_eq)

text \<open>A part that may be empty: the field is set only when it is not.\<close>

definition put_field :: "http_parser_url_fields \<Rightarrow> nat \<Rightarrow> bytes \<Rightarrow> http_parser_url \<Rightarrow> http_parser_url" where
  "put_field f i bs u = (if bs = [] then u else start_field f i (of_nat (length bs)) u)"

lemma url_run_path:
  assumes "path = [] \<or> hd path = ch8 CHR ''/'' \<and> list_all IS_URL_CHAR path"
  shows "url_loop s_req_server (Some UF_HOST) fa i (path @ rest) u =
    url_loop (if path = [] then s_req_server else s_req_path) (Some (if path = [] then UF_HOST else UF_PATH))
      fa (i + length path) rest (put_field UF_PATH i path u)"
proof (cases path)
  case (Cons c cs)
  with assms have "c = ch8 CHR ''/''" "\<forall>c\<in>set cs. IS_URL_CHAR c" by (auto simp: list_all_iff)
  with url_run [of s_req_server c s_req_path cs UF_PATH "Some UF_HOST" fa i rest u] Cons show ?thesis
    using path_chars by (simp add: put_field_def url_action_def)
qed (simp add: put_field_def)

text \<open>A delimiter and the part after it.\<close>

lemma url_run_part:
  assumes "parse_url_char s d = t" "url_action t = Url_skip" "\<And>c. c \<in> set cs \<Longrightarrow> parse_url_char t c = v"
    "\<And>c. c \<in> set cs \<Longrightarrow> parse_url_char v c = v" "url_action v = Url_field f" "v \<noteq> s_req_server_with_at" "old \<noteq> Some f"
  shows "url_loop s old fa i (d # cs @ rest) u =
    url_loop (if cs = [] then t else v) (if cs = [] then old else Some f) fa (i + Suc (length cs)) rest (put_field f (Suc i) cs u)"
proof (cases cs)
  case Nil
  with url_skip [OF assms(1,2)] show ?thesis by (simp add: put_field_def)
next
  case (Cons c cs')
  have "url_loop s old fa i (d # cs @ rest) u = url_loop t old fa (Suc i) (cs @ rest) u"
    by (rule url_skip [OF assms(1,2)])
  with Cons url_run [of t c v cs' f old fa "Suc i" rest u] assms show ?thesis by (simp add: put_field_def)
qed


lemma put_field_data [simp]:
  "field_data (put_field f i bs u) g =
     (if g = f \<and> bs \<noteq> [] then \<lparr>uf_off = of_nat i, uf_len = of_nat (length bs)\<rparr> else field_data u g)"
  "has_field g (put_field f i bs u) \<longleftrightarrow> f = g \<and> bs \<noteq> [] \<or> has_field g u"
  by (auto simp: put_field_def)

section \<open>The host\<close>

definition set_host :: "u16 \<Rightarrow> u16 \<Rightarrow> http_parser_url \<Rightarrow> http_parser_url" where
  "set_host off n u = u\<lparr>field_data := (field_data u)(UF_HOST := \<lparr>uf_off = off, uf_len = n\<rparr>)\<rparr>"

lemma set_host_fields [simp]:
  "field_data (set_host off n u) g = (if g = UF_HOST then \<lparr>uf_off = off, uf_len = n\<rparr> else field_data u g)"
  "has_field g (set_host off n u) = has_field g u" "url_port (set_host off n u) = url_port u"
  by (simp_all add: set_host_def)

lemma grow_set_host: "grow_field UF_HOST (set_host off n u) = set_host off (n + 1) u"
  by (simp add: grow_field_def set_host_def)

lemma host_run:
  assumes "list_all IS_HOST_CHAR cs"
  shows "host_loop s_http_host i (cs @ rest) (set_host off (of_nat n) u) =
    host_loop s_http_host (i + length cs) rest (set_host off (of_nat (n + length cs)) u)"
  using assms
proof (induction cs arbitrary: i n)
  case (Cons c cs)
  have "http_parse_host_char s_http_host c = s_http_host" using Cons.prems by (simp add: http_parse_host_char_def)
  moreover have "host_fields s_http_host s_http_host i (set_host off (of_nat n) u) = set_host off (of_nat (Suc n)) u"
    by (simp add: host_fields_def grow_set_host add.commute)
  ultimately show ?case using Cons.IH [of "Suc i" "Suc n"] Cons.prems by (simp add: Let_def)
qed simp

lemma port_run:
  assumes "list_all IS_NUM cs"
  shows "host_loop s_http_host_port i (cs @ rest) (start_field UF_PORT j (of_nat n) u) =
    host_loop s_http_host_port (i + length cs) rest (start_field UF_PORT j (of_nat (n + length cs)) u)"
  using assms
proof (induction cs arbitrary: i n)
  case (Cons c cs)
  have "http_parse_host_char s_http_host_port c = s_http_host_port" using Cons.prems by (simp add: http_parse_host_char_def)
  moreover have "host_fields s_http_host_port s_http_host_port i (start_field UF_PORT j (of_nat n) u) =
      start_field UF_PORT j (of_nat (Suc n)) u"
    by (simp add: host_fields_def grow_start add.commute)
  ultimately show ?case using Cons.IH [of "Suc i" "Suc n"] Cons.prems by (simp add: Let_def)
qed simp

text \<open>A host and an optional port, from their first character on.\<close>

lemma host_loop_text:
  assumes h: "host \<noteq> []" "list_all IS_HOST_CHAR host"
    and pt: "\<And>d. prt = Some d \<Longrightarrow> d \<noteq> [] \<and> list_all IS_NUM d"
    and z: "uf_len (field_data u UF_HOST) = 0"
  obtains s where "\<not> host_unfinished s"
    "host_loop s_http_host_start i (host @ opt_part CHR '':'' prt) u =
       (Some s, put_field UF_PORT (i + Suc (length host)) (case prt of None \<Rightarrow> [] | Some d \<Rightarrow> d)
         (set_host (of_nat i) (of_nat (length host)) u))"
proof -
  obtain c cs where c: "host = c # cs" using h(1) by (cases host) auto
  have "http_parse_host_char s_http_host_start c = s_http_host"
    using h(2) c by (auto simp: http_parse_host_char_def IS_HOST_CHAR_eq IS_ALPHA_eq IS_NUM_eq)
  moreover have "host_fields s_http_host_start s_http_host i u = set_host (of_nat i) (of_nat 1) u"
    using z by (cases "field_data u UF_HOST") (simp add: host_fields_def grow_field_def set_host_def)
  ultimately have a: "host_loop s_http_host_start i (host @ rest) u =
      host_loop s_http_host (i + length host) rest (set_host (of_nat i) (of_nat (length host)) u)" for rest
    using host_run [of cs "Suc i" rest "of_nat i" 1 u] h(2) c by (simp add: Let_def)
  show ?thesis
  proof (cases prt)
    case None
    with a [of "[]"] that [of s_http_host] show ?thesis by (simp add: opt_part_def put_field_def host_unfinished_def)
  next
    case (Some d)
    then obtain e es where e: "d = e # es" "IS_NUM e" "list_all IS_NUM es" using pt by (cases d) auto
    let ?u = "set_host (of_nat i) (of_nat (length host)) u" and ?j = "i + Suc (length host)"
    have "http_parse_host_char s_http_host (ch8 CHR '':'') = s_http_host_port_start"
      by (simp add: http_parse_host_char_def IS_HOST_CHAR_eq IS_ALPHA_eq IS_NUM_eq port_colon_def)
    moreover have "host_fields s_http_host s_http_host_port_start (i + length host) ?u = ?u"
      by (simp add: host_fields_def)
    moreover have "http_parse_host_char s_http_host_port_start e = s_http_host_port"
      using e by (simp add: http_parse_host_char_def)
    moreover have "host_fields s_http_host_port_start s_http_host_port ?j ?u = start_field UF_PORT ?j (of_nat 1) ?u"
      by (simp add: host_fields_def grow_start)
    ultimately have "host_loop s_http_host (i + length host) (ch8 CHR '':'' # d) ?u =
        host_loop s_http_host_port (Suc ?j) es (start_field UF_PORT ?j (of_nat 1) ?u)"
      using e by (simp add: Let_def)
    with port_run [OF e(3), of "Suc ?j" "[]" ?j 1 ?u] a [of "ch8 CHR '':'' # d"] e Some that [of s_http_host_port] show ?thesis
      by (simp add: opt_part_def put_field_def host_unfinished_def)
  qed
qed


section \<open>The port number\<close>

lemma decimal_fold_mono: "v \<le> fold (\<lambda>d v. v * 10 + (unat (d :: u8) - 48)) ds v"
proof (induction ds arbitrary: v)
  case (Cons d ds)
  have "v \<le> v * 10 + (unat d - 48)" by simp
  also have "\<dots> \<le> fold (\<lambda>d v. v * 10 + (unat d - 48)) ds (v * 10 + (unat d - 48))" by (rule Cons)
  finally show ?case by simp
qed simp

lemma port_loop_decimal:
  "port_loop v ds = (let n = fold (\<lambda>d v. v * 10 + (unat d - 48)) ds v in if n < 65536 \<or> ds = [] then Some n else None)"
proof (induction ds arbitrary: v)
  case (Cons d ds)
  show ?case
    using Cons [of "v * 10 + (unat d - 48)"] decimal_fold_mono [of "v * 10 + (unat d - 48)" ds]
    by (auto simp: Let_def)
qed simp

section \<open>The whole URL\<close>

text \<open>Part \<open>bs\<close> found in field \<open>f\<close>; an empty part leaves the field unset and as it was.\<close>

definition url_part :: "bytes \<Rightarrow> http_parser_url \<Rightarrow> http_parser_url \<Rightarrow> http_parser_url_fields \<Rightarrow> bytes \<Rightarrow> bool" where
  "url_part buf u0 u f bs \<longleftrightarrow>
     (if bs = [] then \<not> has_field f u \<and> field_data u f = field_data u0 f
      else has_field f u \<and> field_bytes buf u f = bs)"

fun parts :: "url_parts \<Rightarrow> http_parser_url_fields \<Rightarrow> bytes" where
  "parts p UF_SCHEMA = up_schema p"
| "parts p UF_HOST = up_host p"
| "parts p UF_PORT = (case up_port p of None \<Rightarrow> [] | Some d \<Rightarrow> d)"
| "parts p UF_PATH = up_path p"
| "parts p UF_QUERY = (case up_query p of None \<Rightarrow> [] | Some q \<Rightarrow> q)"
| "parts p UF_FRAGMENT = (case up_fragment p of None \<Rightarrow> [] | Some f \<Rightarrow> f)"
| "parts p UF_USERINFO = []"

text \<open>Where each part starts.\<close>

definition server :: "url_parts \<Rightarrow> bytes" where
  "server p = up_host p @ opt_part CHR '':'' (up_port p)"

fun part_off :: "url_parts \<Rightarrow> http_parser_url_fields \<Rightarrow> nat" where
  "part_off p UF_SCHEMA = 0"
| "part_off p UF_HOST = length (up_schema p) + 3"
| "part_off p UF_PORT = length (up_schema p) + 3 + Suc (length (up_host p))"
| "part_off p UF_PATH = length (up_schema p) + 3 + length (server p)"
| "part_off p UF_QUERY = Suc (length (up_schema p) + 3 + length (server p) + length (up_path p))"
| "part_off p UF_FRAGMENT = Suc (length (up_schema p) + 3 + length (server p) + length (up_path p) +
     length (opt_part CHR ''?'' (up_query p)))"
| "part_off p UF_USERINFO = 0"

fun before_part :: "url_parts \<Rightarrow> http_parser_url_fields \<Rightarrow> bytes" where
  "before_part p UF_HOST = up_schema p @ ascii ''://''"
| "before_part p UF_PORT = up_schema p @ ascii ''://'' @ up_host p @ ascii '':''"
| "before_part p UF_PATH = up_schema p @ ascii ''://'' @ server p"
| "before_part p UF_QUERY = up_schema p @ ascii ''://'' @ server p @ up_path p @ ascii ''?''"
| "before_part p UF_FRAGMENT = up_schema p @ ascii ''://'' @ server p @ up_path p @ opt_part CHR ''?'' (up_query p) @ ascii ''#''"
| "before_part p _ = []"

lemma before_part_off: "length (before_part p f) = part_off p f"
  by (cases f) (simp_all add: server_def)

lemma url_print_split: "parts p f \<noteq> [] \<Longrightarrow> \<exists>post. url_print p = before_part p f @ parts p f @ post"
  by (cases f) (auto simp: url_print_def server_def opt_part_def ascii_def split: option.splits)

lemma url_print_part:
  assumes "parts p f \<noteq> []"
  shows "take (length (parts p f)) (drop (part_off p f) (url_print p)) = parts p f"
    and "part_off p f + length (parts p f) \<le> length (url_print p)"
  using url_print_split [OF assms] by (auto simp: before_part_off [symmetric])

text \<open>The scan, part by part.\<close>

definition scanned :: "url_parts \<Rightarrow> http_parser_url \<Rightarrow> http_parser_url" where
  "scanned p u = put_field UF_FRAGMENT (part_off p UF_FRAGMENT) (parts p UF_FRAGMENT)
     (put_field UF_QUERY (part_off p UF_QUERY) (parts p UF_QUERY)
       (put_field UF_PATH (part_off p UF_PATH) (parts p UF_PATH)
         (put_field UF_HOST (part_off p UF_HOST) (server p)
           (put_field UF_SCHEMA 0 (parts p UF_SCHEMA) u))))"


lemma scan_schema:
  assumes "sch \<noteq> []" "list_all IS_ALPHA sch"
  shows "url_loop s_req_spaces_before_url None False 0 (sch @ ascii ''://'' @ rest) u =
    url_loop s_req_server_start (Some UF_SCHEMA) False (length sch + 3) rest (put_field UF_SCHEMA 0 sch u)"
proof -
  obtain c cs where c: "sch = c # cs" using assms(1) by (cases sch) auto
  have alpha: "IS_ALPHA x" if "x \<in> set sch" for x using assms(2) that by (auto simp: list_all_iff)
  have d: "ascii ''://'' @ rest = ch8 CHR '':'' # ch8 CHR ''/'' # ch8 CHR ''/'' # rest" by (simp add: ascii_def)
  have "url_loop s_req_spaces_before_url None False 0 (sch @ ascii ''://'' @ rest) u =
      url_loop s_req_schema (Some UF_SCHEMA) False (length sch) (ascii ''://'' @ rest) (put_field UF_SCHEMA 0 sch u)"
    using url_run [of s_req_spaces_before_url c s_req_schema cs UF_SCHEMA None False 0 "ascii ''://'' @ rest" u]
      alpha c schema_chars(1,2) by (simp add: put_field_def url_action_def)
  also have "\<dots> =
      url_loop s_req_server_start (Some UF_SCHEMA) False (length sch + 3) rest (put_field UF_SCHEMA 0 sch u)"
    unfolding d
    by (subst url_skip [OF schema_chars(3)], simp add: url_action_def)
      (subst url_skip [OF schema_chars(4)], simp add: url_action_def,
       subst url_skip [OF schema_chars(5)], simp_all add: url_action_def numeral_3_eq_3)
  finally show ?thesis .
qed

lemma scan_server:
  assumes "srv \<noteq> []" "list_all server_text srv"
  shows "url_loop s_req_server_start (Some UF_SCHEMA) False i (srv @ rest) u =
    url_loop s_req_server (Some UF_HOST) False (i + length srv) rest (put_field UF_HOST i srv u)"
proof -
  obtain c cs where c: "srv = c # cs" using assms(1) by (cases srv) auto
  with assms(2) have "server_text x" if "x \<in> set srv" for x using that by (auto simp: list_all_iff)
  with url_run [of s_req_server_start c s_req_server cs UF_HOST "Some UF_SCHEMA" False i rest u] c server_chars show ?thesis
    by (simp add: put_field_def url_action_def)
qed

lemma scan_query:
  assumes "s = s_req_server \<or> s = s_req_path" "old \<noteq> Some UF_QUERY" "old \<noteq> Some UF_FRAGMENT"
    "\<forall>q. x = Some q \<longrightarrow> list_all (\<lambda>c. IS_URL_CHAR c \<or> c = ch8 CHR ''?'') q"
  shows "\<exists>t old'. (x = None \<longrightarrow> t = s) \<and> (x \<noteq> None \<longrightarrow> t \<in> {s_req_query_string_start, s_req_query_string}) \<and>
    old' \<noteq> Some UF_FRAGMENT \<and>
    url_loop s old False i (opt_part CHR ''?'' x @ rest) u =
       url_loop t old' False (i + length (opt_part CHR ''?'' x)) rest
         (put_field UF_QUERY (Suc i) (case x of None \<Rightarrow> [] | Some q \<Rightarrow> q) u)"
proof (cases x)
  case None
  with assms(3) show ?thesis by (intro exI [of _ s] exI [of _ old]) (simp add: opt_part_def put_field_def)
next
  case (Some q)
  have qc: "IS_URL_CHAR c \<or> c = ch8 CHR ''?''" if "c \<in> set q" for c using assms(4) Some that by (auto simp: list_all_iff)
  have "url_loop s old False i (ch8 CHR ''?'' # q @ rest) u =
      url_loop (if q = [] then s_req_query_string_start else s_req_query_string) (if q = [] then old else Some UF_QUERY) False
        (i + Suc (length q)) rest (put_field UF_QUERY (Suc i) q u)"
    by (rule url_run_part [OF query_chars(1) [OF assms(1)]])
      (use assms(2) in \<open>auto simp: url_action_def intro!: query_chars(2) dest!: qc\<close>)
  with Some assms(3) show ?thesis
    by (intro exI [of _ "if q = [] then s_req_query_string_start else s_req_query_string"]
        exI [of _ "if q = [] then old else Some UF_QUERY"]) (simp add: opt_part_def)
qed

lemma scan_fragment:
  assumes "x \<noteq> None \<Longrightarrow> s \<in> {s_req_path, s_req_query_string_start, s_req_query_string}" "old \<noteq> Some UF_FRAGMENT"
    "\<And>f. x = Some f \<Longrightarrow> list_all (\<lambda>c. IS_URL_CHAR c \<or> c = ch8 CHR ''?'') f"
  shows "url_loop s old False i (opt_part CHR ''#'' x) u =
    (Some False, put_field UF_FRAGMENT (Suc i) (case x of None \<Rightarrow> [] | Some f \<Rightarrow> f) u)"
proof (cases x)
  case (Some f)
  have fc: "c \<in> set f \<Longrightarrow> IS_URL_CHAR c \<or> c = ch8 CHR ''?''" for c using assms(3) [OF Some] by (auto simp: list_all_iff)
  have "parse_url_char s (ch8 CHR ''#'') = s_req_fragment_start" using assms(1) Some by (intro fragment_chars(1)) auto
  then have "url_loop s old False i (ch8 CHR ''#'' # f @ []) u =
      url_loop (if f = [] then s_req_fragment_start else s_req_fragment) (if f = [] then old else Some UF_FRAGMENT) False
        (i + Suc (length f)) [] (put_field UF_FRAGMENT (Suc i) f u)"
    by (rule url_run_part) (use assms(2) in \<open>auto simp: url_action_def intro!: fragment_chars(2) dest!: fc\<close>)
  with Some show ?thesis by (simp add: opt_part_def)
qed (simp add: opt_part_def put_field_def)

lemma scan_text:
  assumes wf: "url_wf p"
  shows "url_loop s_req_spaces_before_url None False 0 (url_print p) u = (Some False, scanned p u)"
proof -
  let ?q = "opt_part CHR ''?'' (up_query p)" and ?f = "opt_part CHR ''#'' (up_fragment p)"
  let ?u1 = "put_field UF_SCHEMA 0 (up_schema p) u"
  let ?u2 = "put_field UF_HOST (length (up_schema p) + 3) (server p) ?u1"
  let ?s = "if up_path p = [] then s_req_server else s_req_path" and ?o = "Some (if up_path p = [] then UF_HOST else UF_PATH)"
  have srv: "server p \<noteq> []" "list_all server_text (server p)"
    using wf by (cases "up_port p"; auto simp: url_wf_def server_def opt_part_def server_text_def list_all_iff)+
  have "url_loop s_req_spaces_before_url None False 0 (url_print p) u =
      url_loop s_req_server_start (Some UF_SCHEMA) False (length (up_schema p) + 3) (server p @ up_path p @ ?q @ ?f) ?u1"
    using scan_schema [of "up_schema p" "server p @ up_path p @ ?q @ ?f" u] wf by (simp add: url_wf_def url_print_def server_def)
  also have "\<dots> = url_loop s_req_server (Some UF_HOST) False (length (up_schema p) + 3 + length (server p)) (up_path p @ ?q @ ?f) ?u2"
    by (rule scan_server [OF srv])
  also have "\<dots> = url_loop ?s ?o False (part_off p UF_PATH + length (up_path p)) (?q @ ?f) (put_field UF_PATH (part_off p UF_PATH) (up_path p) ?u2)"
    using url_run_path [of "up_path p" False _ "?q @ ?f" ?u2] wf by (auto simp: url_wf_def)
  finally have path: "url_loop s_req_spaces_before_url None False 0 (url_print p) u =
      url_loop ?s ?o False (part_off p UF_PATH + length (up_path p)) (?q @ ?f) (put_field UF_PATH (part_off p UF_PATH) (up_path p) ?u2)" .
  have st: "?s = s_req_server \<or> ?s = s_req_path" "?o \<noteq> Some UF_QUERY" "?o \<noteq> Some UF_FRAGMENT" by simp_all
  have qc: "\<forall>q. up_query p = Some q \<longrightarrow> list_all (\<lambda>c. IS_URL_CHAR c \<or> c = ch8 CHR ''?'') q"
    using wf by (simp add: url_wf_def)
  obtain t old' where t: "up_query p = None \<longrightarrow> t = ?s" "up_query p \<noteq> None \<longrightarrow> t \<in> {s_req_query_string_start, s_req_query_string}"
    "old' \<noteq> Some UF_FRAGMENT"
    "url_loop ?s ?o False (part_off p UF_PATH + length (up_path p)) (?q @ ?f) (put_field UF_PATH (part_off p UF_PATH) (up_path p) ?u2) =
      url_loop t old' False (part_off p UF_PATH + length (up_path p) + length ?q) ?f
        (put_field UF_QUERY (Suc (part_off p UF_PATH + length (up_path p))) (case up_query p of None \<Rightarrow> [] | Some q \<Rightarrow> q)
          (put_field UF_PATH (part_off p UF_PATH) (up_path p) ?u2))"
    using scan_query [where x = "up_query p" and i = "part_off p UF_PATH + length (up_path p)" and rest = ?f
      and u = "put_field UF_PATH (part_off p UF_PATH) (up_path p) ?u2", OF st qc] by (elim exE conjE) (rule that)
  note path
  also note t(4)
  also have "url_loop t old' False (part_off p UF_PATH + length (up_path p) + length ?q) ?f v =
      (Some False, put_field UF_FRAGMENT (part_off p UF_FRAGMENT) (parts p UF_FRAGMENT) v)" for v
  proof -
    have "t \<in> {s_req_path, s_req_query_string_start, s_req_query_string}" if "up_fragment p \<noteq> None"
      using t(1,2) that wf by (cases "up_query p") (auto simp: url_wf_def)
    moreover have "list_all (\<lambda>c. IS_URL_CHAR c \<or> c = ch8 CHR ''?'') f" if "up_fragment p = Some f" for f
      using wf that by (simp add: url_wf_def)
    ultimately show ?thesis using scan_fragment [of "up_fragment p" t old' _ v] t(3) by simp
  qed
  finally show ?thesis by (simp add: scanned_def)
qed


lemma scanned_part:
  assumes "length (url_print p) < 65536" "\<not> has_field f u" "f \<noteq> UF_HOST"
  shows "url_part (url_print p) u (scanned p u) f (if f = UF_PORT then [] else parts p f)"
proof (cases "f = UF_PORT \<or> parts p f = []")
  case True
  with assms(2,3) show ?thesis by (cases f) (auto simp: url_part_def scanned_def)
next
  case False
  with url_print_part [of p f] assms(1)
  have l: "part_off p f < 65536" "length (parts p f) < 65536" "take (length (parts p f)) (drop (part_off p f) (url_print p)) = parts p f"
    by simp_all
  have "has_field f (scanned p u) \<and>
      field_data (scanned p u) f = \<lparr>uf_off = of_nat (part_off p f), uf_len = of_nat (length (parts p f))\<rparr>"
    using False assms(3) by (cases f) (simp_all add: scanned_def)
  with l False show ?thesis by (simp add: url_part_def field_bytes_def unat_of_nat)
qed

lemma parse_url_print:
  assumes wf: "url_wf p"
  obtains u where "http_parser_parse_url (url_print p) False u0 = (0, u)"
    "\<And>f. url_part (url_print p) u0 u f (parts p f)"
    "url_port u = (case up_port p of None \<Rightarrow> 0 | Some d \<Rightarrow> of_nat (decimal d))"
proof -
  let ?buf = "url_print p" and ?w = "u0\<lparr>field_set := 0, url_port := 0\<rparr>"
  let ?o = "part_off p UF_HOST"
  define v where "v = scanned p ?w"
  have len: "length ?buf < 65536" and ne: "up_schema p \<noteq> []" "up_host p \<noteq> []" using wf by (auto simp: url_wf_def)
  obtain post where post: "?buf = (up_schema p @ ascii ''://'') @ server p @ post"
    by (simp add: url_print_def server_def)
  have srv: "server p \<noteq> []" "?o + length (server p) < 65536" "drop ?o (take (?o + length (server p)) ?buf) = server p"
    using ne len unfolding post by (simp_all add: server_def)
  have nf: "\<not> has_field f ?w" for f by (simp add: has_field_def)
  have vf: "has_field UF_SCHEMA v" "has_field UF_HOST v" "url_port v = 0"
    "field_data v UF_HOST = \<lparr>uf_off = of_nat ?o, uf_len = of_nat (length (server p))\<rparr>"
    using ne srv(1) by (simp_all add: v_def scanned_def put_field_def start_field_def has_field_def)
  have vp: "url_part ?buf ?w v f (if f = UF_PORT then [] else parts p f)" if "f \<noteq> UF_HOST" for f
    unfolding v_def by (rule scanned_part [OF len nf that])
  define x where "x = put_field UF_PORT (part_off p UF_PORT) (parts p UF_PORT)
     (set_host (of_nat ?o) (of_nat (length (up_host p))) v)"
  have off: "unat (of_nat ?o :: u16) = ?o" "unat (of_nat (length (server p)) :: u16) = length (server p)"
    using srv(2) by (simp_all only: unat_of_nat) simp_all
  define y where "y = v\<lparr>field_data := (field_data v)(UF_HOST := (field_data v UF_HOST)\<lparr>uf_len := 0\<rparr>)\<rparr>"
  have "list_all IS_HOST_CHAR (up_host p)" "\<And>d. up_port p = Some d \<Longrightarrow> d \<noteq> [] \<and> list_all IS_NUM d"
    using wf by (auto simp: url_wf_def)
  then obtain s where s: "\<not> host_unfinished s" "host_loop s_http_host_start ?o (server p) y =
      (Some s, put_field UF_PORT (?o + Suc (length (up_host p))) (parts p UF_PORT)
        (set_host (of_nat ?o) (of_nat (length (up_host p))) y))"
    using host_loop_text [OF ne(2), of "up_port p" y ?o] by (auto simp: server_def y_def)
  have "http_parse_host ?buf v False = (0, put_field UF_PORT (part_off p UF_PORT) (parts p UF_PORT)
      (set_host (of_nat ?o) (of_nat (length (up_host p))) y))"
    using s srv(3) off vf(4) by (simp add: http_parse_host_def Let_def y_def)
  moreover have "set_host (of_nat ?o) n y = set_host (of_nat ?o) n v" for n
    by (simp add: y_def set_host_def)
  ultimately have host: "http_parse_host ?buf v False = (0, x)" by (simp add: x_def)
  have px: "parts p UF_PORT \<noteq> [] \<Longrightarrow> unat (of_nat (part_off p UF_PORT) :: u16) = part_off p UF_PORT \<and>
      unat (of_nat (length (parts p UF_PORT)) :: u16) = length (parts p UF_PORT)"
    using url_print_part(2) [of p UF_PORT] len by (simp_all only: unat_of_nat) simp
  have xp: "url_part ?buf u0 x f (parts p f)" for f
  proof -
    consider "f = UF_HOST" | "f = UF_PORT" | "f \<noteq> UF_HOST" "f \<noteq> UF_PORT" by blast
    then show ?thesis
    proof cases
      case 1
      have "unat (of_nat (length (up_host p)) :: u16) = length (up_host p)"
        using srv(2) by (simp add: unat_of_nat server_def)
      then show ?thesis
        using 1 ne off vf url_print_part(1) [of p UF_HOST] by (simp add: url_part_def x_def field_bytes_def)
    next
      case 2
      then show ?thesis
        using px vp [of UF_PORT] url_print_part(1) [of p UF_PORT]
        by (auto simp: url_part_def x_def field_bytes_def simp del: part_off.simps parts.simps)
    next
      case 3
      then show ?thesis using vp [of f] by (auto simp: url_part_def x_def field_bytes_def split: if_splits)
    qed
  qed
  have "url_port x = 0" using vf(3) by (simp add: x_def put_field_def start_field_def)
  have "url_finish ?buf False False v =
      (0, case up_port p of None \<Rightarrow> x | Some d \<Rightarrow> x\<lparr>url_port := of_nat (decimal d)\<rparr>)"
  proof (cases "up_port p")
    case None
    then have "\<not> has_field UF_PORT x" using xp [of UF_PORT] by (simp add: url_part_def)
    with None vf(1,2) host show ?thesis by (simp add: url_finish_def)
  next
    case (Some d)
    then have d: "d \<noteq> []" "decimal d < 65536" using wf by (auto simp: url_wf_def)
    then have "has_field UF_PORT x" "field_bytes ?buf x UF_PORT = d" using xp [of UF_PORT] Some by (simp_all add: url_part_def)
    moreover have "port_loop 0 d = Some (decimal d)" using d by (simp add: port_loop_decimal decimal_def)
    ultimately show ?thesis using vf(1,2) host Some by (simp add: url_finish_def)
  qed
  moreover have "?buf \<noteq> []" using ne by (simp add: url_print_def)
  ultimately have "http_parser_parse_url ?buf False u0 =
      (0, case up_port p of None \<Rightarrow> x | Some d \<Rightarrow> x\<lparr>url_port := of_nat (decimal d)\<rparr>)"
    using scan_text [OF wf, of ?w] by (simp add: http_parser_parse_url_def v_def)
  moreover have "url_part ?buf u0 (x\<lparr>url_port := n\<rparr>) f (parts p f)" for n f
    using xp [of f] by (auto simp: url_part_def field_bytes_def split: if_splits)
  ultimately show ?thesis
    using that [of x] that [of "x\<lparr>url_port := n\<rparr>" for n] xp \<open>url_port x = 0\<close> by (cases "up_port p") auto
qed

end
