(* ===== verification/Wic_Opening.thy ===== *)
theory Wic_Opening
  imports Wic_Handshake Http_Url_Text
begin

text \<open>
  What the opening handshake does: the texts \<open>wic_start\<close> sends, byte for byte, the instance
  \<open>wic_init\<close> sets up for a URL, and when a message of the peer is taken.
\<close>

section \<open>Deciding\<close>

lemma b64_map_no_zero: "0 \<notin> set b64_map"
  by code_simp

lemma alphabet_digit_not_zero [simp]: "alphabet (digit64 k g) \<noteq> 0"
proof -
  have "alphabet (digit64 k g) \<in> set b64_map"
    using b64_value_digit [of k g] by (auto simp: b64_value_def split: if_splits)
  then show ?thesis using b64_map_no_zero by auto
qed

lemma cstring_b64: "cstring (rfc4648_encode bs)"
  by (induction bs rule: rfc4648_encode.induct) (auto simp: cstring_def Let_def pad_char_def)

lemma string_at_equal:
  assumes "string_at (rx_mem self) off v" "cstring s"
  shows "value_equal self off s = Some (map to_lower v = map to_lower s)" "strcmp_equal self off s = Some (v = s)"
    "strlen_at self off = Some (length v)" "take (length v) (drop off (rx_mem self)) = v"
proof -
  obtain m where d: "drop off (rx_mem self) = v @ 0 # m" and v: "cstring v"
    using assms(1) by (auto simp: string_at_def)
  show "value_equal self off s = Some (map to_lower v = map to_lower s)"
    by (simp add: value_equal_def d str_equal_terminated [OF v assms(2)])
  show "strcmp_equal self off s = Some (v = s)"
    by (simp add: strcmp_equal_def d same_str_terminated [OF v assms(2)])
  show "strlen_at self off = Some (length v)" "take (length v) (drop off (rx_mem self)) = v"
    by (simp_all add: strlen_at_def d strlen_terminated [OF v])
qed

text \<open>What the client asks of a response, and the server of a request.\<close>

definition names_websocket :: "(bytes \<times> bytes) list \<Rightarrow> bool" where
  "names_websocket hs \<longleftrightarrow>
     (\<exists>v. lookup hs (ascii ''upgrade'') = Some v \<and> map to_lower v = ascii ''websocket'')"

definition response_ok :: "http_parser \<Rightarrow> (bytes \<times> bytes) list \<Rightarrow> bytes \<Rightarrow> bool" where
  "response_ok q hs hsh \<longleftrightarrow>
     hp_status_code q = 101 \<and> hp_upgrade q \<and> names_websocket hs \<and>
     lookup hs (ascii ''Sec-WebSocket-Accept'') = Some (rfc4648_encode hsh)"

definition request_ok :: "http_parser \<Rightarrow> (bytes \<times> bytes) list \<Rightarrow> bool" where
  "request_ok q hs \<longleftrightarrow>
     hp_upgrade q \<and> names_websocket hs \<and> lookup hs (ascii ''Sec-WebSocket-Key'') \<noteq> None"

definition redirects :: "u16 set" where
  "redirects = {300, 301, 302, 303, 304, 307}"

lemma names_cstring [simp]:
  "cstring (ascii ''upgrade'')" "cstring (ascii ''websocket'')" "cstring (ascii ''location'')"
  "cstring (ascii ''Sec-WebSocket-Accept'')" "cstring (ascii ''Sec-WebSocket-Key'')"
  "map to_lower (ascii ''websocket'') = ascii ''websocket''"
  by (code_simp)+

text \<open>The instance while the callback decides.\<close>

abbreviation ready_for :: "'w wic_inst \<Rightarrow> 'w wic_inst" where
  "ready_for self \<equiv> (end_headers self)\<lparr>istate := WIC_STATE_READY\<rparr>"

lemma holds_state [simp]: "holds (self\<lparr>istate := s\<rparr>) hs \<longleftrightarrow> holds self hs"
  by (simp add: holds_def)

lemma end_headers_hash [simp]: "hash (end_headers self) = hash self"
  by (simp add: end_headers_def rx_append_def)

lemma response_decided:
  assumes "holds (end_headers self) hs" "length (hash self) = 20"
  shows "\<exists>r. on_response_complete q self =
      Some (if response_ok q hs (hash self) then 0 else - 1, (ready_for self)\<lparr>redirect_url := r\<rparr>) \<and>
    (if hp_status_code q \<in> redirects
     then (case r of None \<Rightarrow> lookup hs (ascii ''location'') = None
           | Some off \<Rightarrow> \<exists>v. lookup hs (ascii ''location'') = Some v \<and> string_at (rx_mem (end_headers self)) off v)
     else r = redirect_url self)"
proof -
  let ?t = "ready_for self"
  have R: "istate ?t = WIC_STATE_READY" "holds ?t hs" using assms(1) by simp_all
  have b: "b64_encode (hash self) 29 = rfc4648_encode (hash self)"
    using assms(2) by (simp add: b64_encode_eq b64_encoded_size_def)
  have keep: "?t = ?t\<lparr>redirect_url := redirect_url self\<rparr>" by (simp add: end_headers_def rx_append_def)
  show ?thesis
  proof (cases "hp_status_code q = 101")
    case False
    obtain r where r: "wic_get_header ?t (Some (ascii ''location'')) = Some r"
      "case r of None \<Rightarrow> lookup hs (ascii ''location'') = None
       | Some off \<Rightarrow> \<exists>v. lookup hs (ascii ''location'') = Some v \<and> string_at (rx_mem (end_headers self)) off v"
      using get_header_held [OF R, of "ascii ''location''"] by (auto split: option.splits)
    show ?thesis
    proof (cases "hp_status_code q \<in> redirects")
      case True
      with False r show ?thesis
        by (intro exI [of _ r]) (simp add: on_response_complete_def Let_def response_ok_def redirects_def)
    next
      case other: False
      with False keep show ?thesis
        by (intro exI [of _ "redirect_url self"])
          (auto simp: on_response_complete_def Let_def response_ok_def redirects_def)
    qed
  next
    case True
    have nr: "hp_status_code q \<notin> redirects" by (simp add: True redirects_def)
    obtain u where u: "wic_get_header ?t (Some (ascii ''upgrade'')) = Some u"
      "case u of None \<Rightarrow> lookup hs (ascii ''upgrade'') = None
       | Some off \<Rightarrow> \<exists>v. lookup hs (ascii ''upgrade'') = Some v \<and> string_at (rx_mem ?t) off v"
      using get_header_held [OF R, of "ascii ''upgrade''"] by (auto split: option.splits)
    obtain a where a: "wic_get_header ?t (Some (ascii ''Sec-WebSocket-Accept'')) = Some a"
      "case a of None \<Rightarrow> lookup hs (ascii ''Sec-WebSocket-Accept'') = None
       | Some off \<Rightarrow> \<exists>v. lookup hs (ascii ''Sec-WebSocket-Accept'') = Some v \<and> string_at (rx_mem ?t) off v"
      using get_header_held [OF R, of "ascii ''Sec-WebSocket-Accept''"] by (auto split: option.splits)
    have "on_response_complete q self = Some (if response_ok q hs (hash self) then 0 else - 1, ?t)"
    proof (cases u)
      case None
      with True u show ?thesis
        by (simp add: on_response_complete_def Let_def response_ok_def names_websocket_def)
    next
      case su: (Some off)
      obtain v where v: "lookup hs (ascii ''upgrade'') = Some v" "string_at (rx_mem ?t) off v" using u(2) su by auto
      note eq = string_at_equal(1) [OF v(2), of "ascii ''websocket''", simplified]
      show ?thesis
      proof (cases a)
        case None
        with True u a v su eq show ?thesis
          by (auto simp: on_response_complete_def Let_def response_ok_def names_websocket_def split: bool.split)
      next
        case sa: (Some off')
        obtain w where w: "lookup hs (ascii ''Sec-WebSocket-Accept'') = Some w" "string_at (rx_mem ?t) off' w"
          using a(2) sa by auto
        note eq' = string_at_equal(2) [OF w(2) cstring_b64 [of "hash self"]]
        show ?thesis
          using True u a v su sa w eq eq' b
          by (auto simp: on_response_complete_def Let_def response_ok_def names_websocket_def split: bool.split)
      qed
    qed
    with nr keep show ?thesis by (intro exI [of _ "redirect_url self"]) simp
  qed
qed

lemma request_decided:
  assumes "holds (end_headers self) hs" "header_state self \<noteq> WIC_HEADER_STATE_FIELD"
  shows "on_request_complete q self =
      Some (if request_ok q hs
            then (0, (ready_for self)\<lparr>hash := server_hash (the (lookup hs (ascii ''Sec-WebSocket-Key'')))\<rparr>)
            else (- 1, ready_for self))"
proof -
  let ?t = "ready_for self"
  have R: "istate ?t = WIC_STATE_READY" "holds ?t hs" using assms(1) by simp_all
  obtain u where u: "wic_get_header ?t (Some (ascii ''upgrade'')) = Some u"
    "case u of None \<Rightarrow> lookup hs (ascii ''upgrade'') = None
     | Some off \<Rightarrow> \<exists>v. lookup hs (ascii ''upgrade'') = Some v \<and> string_at (rx_mem ?t) off v"
    using get_header_held [OF R, of "ascii ''upgrade''"] by (auto split: option.splits)
  obtain a where a: "wic_get_header ?t (Some (ascii ''Sec-WebSocket-Key'')) = Some a"
    "case a of None \<Rightarrow> lookup hs (ascii ''Sec-WebSocket-Key'') = None
     | Some off \<Rightarrow> \<exists>v. lookup hs (ascii ''Sec-WebSocket-Key'') = Some v \<and> string_at (rx_mem ?t) off v"
    using get_header_held [OF R, of "ascii ''Sec-WebSocket-Key''"] by (auto split: option.splits)
  show ?thesis
  proof (cases u)
    case None
    with assms(2) u show ?thesis
      by (simp add: on_request_complete_def Let_def request_ok_def names_websocket_def)
  next
    case su: (Some off)
    obtain v where v: "lookup hs (ascii ''upgrade'') = Some v" "string_at (rx_mem ?t) off v" using u(2) su by auto
    note eq = string_at_equal(1) [OF v(2), of "ascii ''websocket''", simplified]
    show ?thesis
    proof (cases a)
      case None
      with assms(2) u a v su eq show ?thesis
        by (auto simp: on_request_complete_def Let_def request_ok_def names_websocket_def split: bool.split)
    next
      case sa: (Some off')
      obtain w where w: "lookup hs (ascii ''Sec-WebSocket-Key'') = Some w" "string_at (rx_mem ?t) off' w"
        using a(2) sa by auto
      note eq' = string_at_equal(3,4) [OF w(2) names_cstring(1)]
      show ?thesis
        using assms(2) u a v su sa w eq eq'
        by (auto simp: on_request_complete_def Let_def request_ok_def names_websocket_def split: bool.split)
    qed
  qed
qed

section \<open>Setting up for a URL\<close>

lemma part_length:
  assumes "unat (uf_off (field_data u f)) + unat (uf_len (field_data u f)) \<le> length buf"
  shows "length (field_bytes buf u f) = unat (uf_len (field_data u f))"
  using assms by (simp add: field_bytes_def)

text \<open>A URL from its parts, taken apart by the URL parser.\<close>

lemma parsed_parts:
  assumes "url_wf p"
  obtains u where "http_parser_parse_url (url_print p) False u0 = (0, u)"
    "url_port u = (case up_port p of None \<Rightarrow> 0 | Some d \<Rightarrow> of_nat (decimal d))"
    "has_field UF_PORT u \<longleftrightarrow> up_port p \<noteq> None"
    "\<forall>f. parts p f \<noteq> [] \<longrightarrow> url_inside (url_print p) u f \<and> field_bytes (url_print p) u f = parts p f \<and>
       unat (uf_len (field_data u f)) = length (parts p f)"
    "\<forall>f. parts p f = [] \<longrightarrow> field_data u f = field_data u0 f"
proof -
  obtain u where u: "http_parser_parse_url (url_print p) False u0 = (0, u)"
    "\<And>f. url_part (url_print p) u0 u f (parts p f)"
    "url_port u = (case up_port p of None \<Rightarrow> 0 | Some d \<Rightarrow> of_nat (decimal d))"
    using parse_url_print [OF assms] by blast
  have "has_field UF_PORT u \<longleftrightarrow> up_port p \<noteq> None"
    using u(2) [of UF_PORT] assms by (auto simp: url_part_def url_wf_def split: if_splits option.splits)
  moreover have "url_inside (url_print p) u f \<and> field_bytes (url_print p) u f = parts p f \<and>
      unat (uf_len (field_data u f)) = length (parts p f)" if "parts p f \<noteq> []" for f
  proof -
    have f: "has_field f u" "field_bytes (url_print p) u f = parts p f" using u(2) [of f] that by (auto simp: url_part_def)
    with parse_url_inside [OF u(1) f(1)] part_length [of u f "url_print p"] show ?thesis by (simp add: url_inside_def)
  qed
  moreover have "field_data u f = field_data u0 f" if "parts p f = []" for f
    using u(2) [of f] that by (auto simp: url_part_def)
  ultimately show ?thesis using that u(1,3) by blast
qed

lemma find_schema_part:
  assumes "url_inside buf u UF_SCHEMA" "field_bytes buf u UF_SCHEMA = s" "unat (uf_len (field_data u UF_SCHEMA)) = length s"
  shows "find_schema buf u xs = (case map_of xs s of None \<Rightarrow> Inl Refused | Some x \<Rightarrow> Inr x)"
  using assms by (induction xs) auto

definition default_port :: "wic_schema \<Rightarrow> u16" where
  "default_port s = (if s = WIC_SCHEMA_HTTP \<or> s = WIC_SCHEMA_WS then 80 else 443)"

definition url_port_of :: "url_parts \<Rightarrow> wic_schema \<Rightarrow> u16" where
  "url_port_of p s = (case up_port p of None \<Rightarrow> default_port s | Some d \<Rightarrow> of_nat (decimal d))"

lemma init_url_print:
  assumes "url_wf p"
  shows "init_url u0 (url_print p) =
    (case map_of supported_schema (up_schema p) of
       None \<Rightarrow> Inl Refused
     | Some s \<Rightarrow> if length (up_host p) > 255 then Inl Refused else Inr (s, url_port_of p s, up_host p))"
proof -
  obtain u where u: "http_parser_parse_url (url_print p) False u0 = (0, u)"
    "url_port u = (case up_port p of None \<Rightarrow> 0 | Some d \<Rightarrow> of_nat (decimal d))"
    "has_field UF_PORT u \<longleftrightarrow> up_port p \<noteq> None"
    "\<forall>f. parts p f \<noteq> [] \<longrightarrow> url_inside (url_print p) u f \<and> field_bytes (url_print p) u f = parts p f \<and>
       unat (uf_len (field_data u f)) = length (parts p f)"
    by (rule parsed_parts [OF assms])
  have "parts p UF_SCHEMA \<noteq> []" "parts p UF_HOST \<noteq> []" using assms by (simp_all add: url_wf_def)
  with u(4) have s: "url_inside (url_print p) u UF_SCHEMA" "field_bytes (url_print p) u UF_SCHEMA = up_schema p"
    "unat (uf_len (field_data u UF_SCHEMA)) = length (up_schema p)"
    and h: "url_inside (url_print p) u UF_HOST" "field_bytes (url_print p) u UF_HOST = up_host p"
    "unat (uf_len (field_data u UF_HOST)) = length (up_host p)" by (metis parts.simps(1,2))+
  show ?thesis
    by (auto simp: init_url_def u(1) find_schema_part [OF s] h u(2,3) url_port_of_def default_port_def WIC_HOSTNAME_MAXLEN_def split: option.split)
qed

section \<open>The request and the response\<close>

definition filled_part :: "char \<Rightarrow> bytes option \<Rightarrow> bytes" where
  "filled_part c x = (case x of Some (b # bs) \<Rightarrow> ch8 c # b # bs | _ \<Rightarrow> [])"

definition host_port :: "url_parts \<Rightarrow> bytes" where
  "host_port p = (case up_port p of Some d \<Rightarrow> if decimal d \<noteq> 0 then ch8 CHR '':'' # d else [] | None \<Rightarrow> [])"

definition header_lines :: "(bytes \<times> bytes) list \<Rightarrow> bytes" where
  "header_lines hs = concat (map (\<lambda>(n, v). n @ ascii '': '' @ v @ CRLF) hs)"

definition request_text :: "url_parts \<Rightarrow> bytes \<Rightarrow> (bytes \<times> bytes) list \<Rightarrow> bytes" where
  "request_text p key hs =
     ascii ''GET '' @ up_path p @ filled_part CHR ''?'' (up_query p) @ filled_part CHR ''#'' (up_fragment p)
     @ ascii '' HTTP/1.1'' @ CRLF
     @ header_lines
         ([(ascii ''Host'', up_host p @ host_port p), (ascii ''Upgrade'', ascii ''websocket''),
           (ascii ''Connection'', ascii ''upgrade''), (ascii ''Sec-WebSocket-Version'', ascii ''13''),
           (ascii ''Sec-WebSocket-Key'', key)] @ hs)
     @ CRLF"

definition response_text :: "bytes \<Rightarrow> (bytes \<times> bytes) list \<Rightarrow> bytes" where
  "response_text key hs =
     ascii ''HTTP/1.1 101 Switching Protocols'' @ CRLF
     @ header_lines
         ([(ascii ''Upgrade'', ascii ''websocket''), (ascii ''Connection'', ascii ''upgrade''),
           (ascii ''Sec-WebSocket-Accept'', key)] @ hs)
     @ CRLF"

lemma tx_header_lines: "concat (tx_header_puts hs) = header_lines hs"
  by (induction hs) (auto simp: tx_header_puts_def header_lines_def)

lemma ascii_append: "ascii (a @ b) = ascii a @ ascii b"
  by (simp add: ascii_def)

lemma header_lines_Cons: "header_lines ((n, v) # hs) = n @ ascii '': '' @ v @ CRLF @ header_lines hs"
  by (simp add: header_lines_def)

lemma text_split:
  "ascii ''Host: '' = ascii ''Host'' @ ascii '': ''"
  "ascii ''Upgrade: websocket'' = ascii ''Upgrade'' @ ascii '': '' @ ascii ''websocket''"
  "ascii ''Connection: upgrade'' = ascii ''Connection'' @ ascii '': '' @ ascii ''upgrade''"
  "ascii ''Sec-WebSocket-Version: 13'' = ascii ''Sec-WebSocket-Version'' @ ascii '': '' @ ascii ''13''"
  "ascii ''Sec-WebSocket-Key: '' = ascii ''Sec-WebSocket-Key'' @ ascii '': ''"
  "ascii ''Sec-WebSocket-Accept: '' = ascii ''Sec-WebSocket-Accept'' @ ascii '': ''"
  by (simp_all add: ascii_def)

lemma response_puts_text:
  assumes "length hsh = 20"
  shows "concat (response_puts hsh hs) = response_text (rfc4648_encode hsh) hs"
  using assms by (simp add: response_puts_def response_text_def text_split header_lines_Cons tx_header_lines
    b64_encode_eq b64_encoded_size_def)

lemma request_puts_text:
  assumes "url_wf p" "http_parser_parse_url (url_print p) False http_parser_url_init = (bad, u)"
  shows "bad = 0" "concat (request_puts (url_print p) u key hs) = request_text p key hs"
proof -
  obtain v where v: "http_parser_parse_url (url_print p) False http_parser_url_init = (0, v)"
    "url_port v = (case up_port p of None \<Rightarrow> 0 | Some d \<Rightarrow> of_nat (decimal d))"
    "has_field UF_PORT v \<longleftrightarrow> up_port p \<noteq> None"
    "\<forall>f. parts p f \<noteq> [] \<longrightarrow> url_inside (url_print p) v f \<and> field_bytes (url_print p) v f = parts p f \<and>
       unat (uf_len (field_data v f)) = length (parts p f)"
    "\<forall>f. parts p f = [] \<longrightarrow> field_data v f = field_data http_parser_url_init f"
    by (rule parsed_parts [OF assms(1)])
  then show "bad = 0" using assms(2) by simp
  have [simp]: "u = v" using v(1) assms(2) by simp
  have fb: "field_bytes (url_print p) v f = parts p f" for f
  proof (cases "parts p f = []")
    case True
    with v(5) show ?thesis by (simp add: field_bytes_def http_parser_url_init_def)
  next
    case False
    with v(4) show ?thesis by blast
  qed
  have len: "0 < uf_len (field_data v f) \<longleftrightarrow> parts p f \<noteq> []" for f
    using v(4,5) by (cases "parts p f = []") (auto simp: http_parser_url_init_def word_gt_0 unat_eq_0 [symmetric])
  have port: "url_port v \<noteq> 0 \<longleftrightarrow> (\<exists>d. up_port p = Some d \<and> decimal d \<noteq> 0)"
  proof (cases "up_port p")
    case (Some d)
    then have "decimal d < 65536" using assms(1) by (simp add: url_wf_def)
    then have "(of_nat (decimal d) :: u16) \<noteq> 0 \<longleftrightarrow> decimal d \<noteq> 0"
      by (simp add: unat_eq_0 [symmetric] unat_of_nat)
    with Some v(2) show ?thesis by simp
  qed (simp add: v(2))
  show "concat (request_puts (url_print p) u key hs) = request_text p key hs"
    unfolding request_puts_def \<open>u = v\<close> len port fb
    by (auto simp: request_text_def text_split header_lines_Cons tx_header_lines filled_part_def host_port_def ascii_def
      split: option.split list.split)
qed

section \<open>Starting\<close>

definition handshake_sent :: "('w \<Rightarrow> bytes) \<Rightarrow> 'w wic_inst \<Rightarrow> 'w wic_inst \<Rightarrow> wic_status \<Rightarrow> wic_state \<Rightarrow> nat \<Rightarrow> bytes \<Rightarrow> bool" where
  "handshake_sent wire self self' st s mx txt \<longleftrightarrow>
     (if length txt \<le> mx then st = WIC_STATUS_SUCCESS \<and> istate self' = s \<and> wire (app self') = wire (app self) @ txt
      else st = WIC_STATUS_TOO_LARGE \<and> istate self' = istate self \<and> wire (app self') = wire (app self))"

context link
begin

lemma send_puts:
  assumes "mx < 2 ^ 32" "tx = stream_put_all bss (stream_init (Some mem) mx)"
    "(st, self') = (if \<not> stream_error tx
       then (WIC_STATUS_SUCCESS, call_send h (self\<lparr>istate := s\<rparr>) (st_data tx) t)
       else (WIC_STATUS_TOO_LARGE, call_send h self [] t))"
  shows "handshake_sent wire self self' st s mx (concat bss) \<and> hash self' = hash self"
proof -
  note fit = stream_put_all_fit [of "stream_init (Some mem) mx" bss]
  have e: "stream_error tx \<longleftrightarrow> mx < length (concat bss)"
    using stream_put_all_error_iff [of "stream_init (Some mem) mx" bss] assms(1,2) by (simp add: stream_error_def)
  show ?thesis
  proof (cases "mx < length (concat bss)")
    case True
    with e assms(3) call_send_law [of self "[]" t] show ?thesis by (auto simp: handshake_sent_def)
  next
    case False
    then have "st_data tx = concat bss" using fit(1) assms(1,2) by simp
    with False e assms(3) call_send_law [of "self\<lparr>istate := s\<rparr>" "concat bss" t] show ?thesis
      by (auto simp: handshake_sent_def)
  qed
qed

lemma rand_words_law:
  "\<exists>bs a. rand_words h p n self = (bs, self\<lparr>app := a\<rparr>) \<and> length bs = 4 * n \<and> wire a = wire (app self)"
proof (induction n arbitrary: self)
  case 0
  show ?case by (intro exI [of _ "[]"] exI [of _ "app self"]) simp
next
  case (Suc n)
  obtain m a where r: "run_rand h p self = (m, self\<lparr>app := a\<rparr>)" "wire a = wire (app self)" using rand_law by blast
  obtain bs b where "rand_words h p n (self\<lparr>app := a\<rparr>) = (bs, self\<lparr>app := b\<rparr>)" "length bs = 4 * n" "wire b = wire a"
    using Suc [of "self\<lparr>app := a\<rparr>"] by auto
  with r show ?case by (intro exI [of _ "u32_bytes m @ bs"] exI [of _ b]) simp
qed

lemma client_nonce_law:
  "\<exists>bs a. client_nonce h self = (bs, self\<lparr>app := a\<rparr>) \<and> length bs = 16 \<and> wire a = wire (app self)"
proof (cases "h_rand self")
  case None
  then show ?thesis
    by (intro exI [of _ "replicate 16 0xaa"] exI [of _ "app self"]) (simp add: client_nonce_def)
next
  case (Some p)
  then show ?thesis using rand_words_law [of p 4 self] by (auto simp: client_nonce_def)
qed

lemma start_client_sends:
  assumes "istate self = WIC_STATE_INIT" "url self = Some (url_print p)" "url_wf p"
    "start_client h self = Some (st, self')" "call_buffer h self 0 WIC_BUFFER_HTTP = ((b, mx), self1)" "mx < 2 ^ 32"
  shows "case b of None \<Rightarrow> st = WIC_STATUS_WOULD_BLOCK \<and> istate self' = WIC_STATE_INIT \<and> wire (app self') = wire (app self)
    | Some mem \<Rightarrow> length (fst (client_nonce h self1)) = 16 \<and>
        hash self' = fips_sha1 (rfc4648_encode (fst (client_nonce h self1)) @ sha_guid) \<and>
        handshake_sent wire self self' st WIC_STATE_PARSE_HANDSHAKE mx
          (request_text p (rfc4648_encode (fst (client_nonce h self1))) (tx_header self))"
proof -
  obtain bad u where u: "http_parser_parse_url (url_print p) False http_parser_url_init = (bad, u)" by fastforce
  note req = request_puts_text [OF assms(3) u]
  obtain r a where a: "call_buffer h self 0 WIC_BUFFER_HTTP = (r, self\<lparr>app := a\<rparr>)" "wire a = wire (app self)"
    using call_buffer_law by blast
  then have s1: "self1 = self\<lparr>app := a\<rparr>" using assms(5) by simp
  show ?thesis
  proof (cases b)
    case None
    with assms u req(1) a s1 show ?thesis by (auto simp: start_client_def)
  next
    case (Some mem)
    obtain nonce c where n: "client_nonce h self1 = (nonce, self1\<lparr>app := c\<rparr>)" "length nonce = 16" "wire c = wire (app self1)"
      using client_nonce_law by blast
    have k: "b64_encode nonce 24 = rfc4648_encode nonce" using n(2) by (simp add: b64_encode_eq b64_encoded_size_def)
    have hsh: "server_hash (rfc4648_encode nonce) = fips_sha1 (rfc4648_encode nonce @ sha_guid)"
      by (rule server_hash_fips) (simp add: length_rfc4648_encode b64_encoded_size_def n(2))
    let ?s = "self\<lparr>app := c, hash := server_hash (rfc4648_encode nonce)\<rparr>"
    let ?tx = "stream_put_all (request_puts (url_print p) u (rfc4648_encode nonce) (tx_header self)) (stream_init (Some mem) mx)"
    have "start_client h self = Some (if \<not> stream_error ?tx
        then (WIC_STATUS_SUCCESS, call_send h (?s\<lparr>istate := WIC_STATE_PARSE_HANDSHAKE\<rparr>) (st_data ?tx) WIC_BUFFER_HTTP)
        else (WIC_STATUS_TOO_LARGE, call_send h ?s [] WIC_BUFFER_HTTP))"
      using assms(1,2,5) u req(1) Some n s1 k by (simp add: start_client_def Let_def)
    then have e: "(st, self') = (if \<not> stream_error ?tx
        then (WIC_STATUS_SUCCESS, call_send h (?s\<lparr>istate := WIC_STATE_PARSE_HANDSHAKE\<rparr>) (st_data ?tx) WIC_BUFFER_HTTP)
        else (WIC_STATUS_TOO_LARGE, call_send h ?s [] WIC_BUFFER_HTTP))"
      unfolding assms(4) by (rule option.inject [THEN iffD1])
    have "fst (client_nonce h self1) = nonce" using n(1) by simp
    with send_puts [OF assms(6) refl e] hsh Some n(2,3) a(2) s1 req(2) assms(1) show ?thesis
      by (auto simp: handshake_sent_def)
  qed
qed

lemma start_client_text:
  assumes "istate self = WIC_STATE_INIT" "url self = Some (url_print p)" "url_wf p"
    "start_client h self = Some (st, self')" "call_buffer h self 0 WIC_BUFFER_HTTP = ((b, mx), self1)" "mx < 2 ^ 32"
  shows "case b of None \<Rightarrow> st = WIC_STATUS_WOULD_BLOCK \<and> istate self' = WIC_STATE_INIT \<and> wire (app self') = wire (app self)
    | Some mem \<Rightarrow> \<exists>nonce. length nonce = 16 \<and>
        hash self' = fips_sha1 (rfc4648_encode nonce @ sha_guid) \<and>
        handshake_sent wire self self' st WIC_STATE_PARSE_HANDSHAKE mx
          (request_text p (rfc4648_encode nonce) (tx_header self))"
  using start_client_sends [OF assms] by (cases b) auto

lemma start_server_text:
  assumes "istate self = WIC_STATE_READY" "length (hash self) = 20"
    "start_server h self = (st, self')" "call_buffer h self 0 WIC_BUFFER_HTTP = ((b, mx), self1)" "mx < 2 ^ 32"
  shows "case b of None \<Rightarrow> st = WIC_STATUS_WOULD_BLOCK \<and> istate self' = WIC_STATE_READY \<and> wire (app self') = wire (app self)
    | Some mem \<Rightarrow> handshake_sent wire self self' st WIC_STATE_OPEN mx
        (response_text (rfc4648_encode (hash self)) (tx_header self))"
proof -
  obtain r a where a: "call_buffer h self 0 WIC_BUFFER_HTTP = (r, self\<lparr>app := a\<rparr>)" "wire a = wire (app self)"
    using call_buffer_law by blast
  then have s1: "self1 = self\<lparr>app := a\<rparr>" using assms(4) by simp
  show ?thesis
  proof (cases b)
    case None
    with assms a s1 show ?thesis by (auto simp: start_server_def)
  next
    case (Some mem)
    let ?tx = "stream_put_all (response_puts (hash self) (tx_header self)) (stream_init (Some mem) mx)"
    have "start_server h self = (if \<not> stream_error ?tx
        then (WIC_STATUS_SUCCESS, call_send h (self1\<lparr>istate := WIC_STATE_OPEN\<rparr>) (st_data ?tx) WIC_BUFFER_HTTP)
        else (WIC_STATUS_TOO_LARGE, call_send h self1 [] WIC_BUFFER_HTTP))"
      using assms(1,4) Some s1 by (simp add: start_server_def Let_def)
    from send_puts [OF assms(5) refl this [unfolded assms(3)]] Some a(2) s1 response_puts_text [OF assms(2)] assms(1) show ?thesis
      by (auto simp: handshake_sent_def)
  qed
qed

end

end
