(* ===== verification/Http_Keeps.thy ===== *)
theory Http_Keeps
  imports Http_Parser
begin

text \<open>
  What the callbacks keep true of the user data holds at the end of a call of
  \<open>http_parser_execute\<close>: the parser changes the user data through its callbacks only, carries
  on after a callback only when it returned zero, and returns at once when a message with an
  upgrade is complete. \<open>J\<close> is what holds up to there, \<open>K\<close> what the callback for the complete
  message may establish instead, and \<open>E\<close> what still holds once an error is reported.
\<close>

locale kept =
  fixes S :: "'d http_parser_settings" and J K E :: "'d \<Rightarrow> bool"
  assumes weaker: "J d \<Longrightarrow> E d" "K d \<Longrightarrow> E d"
    and notify_keeps:
    "cb_message_begin S = Some f \<or> cb_chunk_header S = Some f \<or> cb_chunk_complete S = Some f \<Longrightarrow>
     J d \<Longrightarrow> (if fst (f q d) = 0 then J (snd (snd (f q d))) else E (snd (snd (f q d))))"
    and message_keeps: "cb_message_complete S = Some f \<Longrightarrow> J d \<Longrightarrow>
      (if fst (f q d) = 0 then J (snd (snd (f q d))) \<or> K (snd (snd (f q d))) \<and> hp_upgrade q else E (snd (snd (f q d)))) \<and>
      hp_upgrade (fst (snd (f q d))) = hp_upgrade q"
    and complete_keeps: "cb_headers_complete S = Some f \<Longrightarrow> (if hp_errno q = HPE_OK then J d else E d) \<Longrightarrow>
      (if hp_errno (fst (snd (f q d))) = HPE_OK then J (snd (snd (f q d))) else E (snd (snd (f q d))))"
    and data_keeps: "data_cb m S = Some g \<Longrightarrow> J d \<Longrightarrow>
      (if fst (g q bs d) = 0 then J (snd (snd (g q bs d))) else E (snd (snd (g q bs d))))"
begin

definition fine :: "'d http_run \<Rightarrow> bool" where
  "fine r \<longleftrightarrow> (if hp_errno (r_parser r) = HPE_OK then J (r_data r) else E (r_data r))"

definition over :: "'d http_run \<Rightarrow> bool" where
  "over r \<longleftrightarrow> (if hp_errno (r_parser r) = HPE_OK then J (r_data r) \<or> K (r_data r) else E (r_data r))"

definition good :: "'d step \<Rightarrow> bool" where
  "good st \<longleftrightarrow> (case fst st of Return n \<Rightarrow> over (snd st) | _ \<Rightarrow> fine (snd st))"

lemma fine_over: "fine r \<Longrightarrow> over r"
  by (simp add: fine_def over_def)

lemma good_Pair [simp]:
  "good (Break, r) \<longleftrightarrow> fine r" "good (Reexecute, r) \<longleftrightarrow> fine r" "good (Error_exit, r) \<longleftrightarrow> fine r"
  "good (Abort, r) \<longleftrightarrow> fine r" "good (Return n, r) \<longleftrightarrow> over r"
  by (simp_all add: good_def)

lemma good_fine: "fine r \<Longrightarrow> good (f, r)"
  by (cases f) (simp_all add: fine_over)

lemma fine_upd [simp]:
  "fine (UPDATE_STATE s r) \<longleftrightarrow> fine r" "fine (set_header_state h r) \<longleftrightarrow> fine r" "fine (set_index i r) \<longleftrightarrow> fine r"
  "fine (set_flag f r) \<longleftrightarrow> fine r" "fine (MARK m r) \<longleftrightarrow> fine r" "fine (new_message r) \<longleftrightarrow> fine r"
  "fine (reset_nread r) \<longleftrightarrow> fine r" "fine (take_body data r) \<longleftrightarrow> fine r"
  "fine (r\<lparr>r_p := p\<rparr>) \<longleftrightarrow> fine r" "fine (r\<lparr>r_ch := c\<rparr>) \<longleftrightarrow> fine r" "fine (r\<lparr>r_nread := n\<rparr>) \<longleftrightarrow> fine r"
  "fine (r\<lparr>r_mark := mk\<rparr>) \<longleftrightarrow> fine r"
  by (simp_all add: fine_def UPDATE_STATE_def set_header_state_def set_index_def set_flag_def MARK_def new_message_def
    reset_nread_def take_body_def set_parser_def Let_def)

lemma UPDATE_STATE_parser [simp]: "r_parser (UPDATE_STATE s r) = r_parser r" "r_data (UPDATE_STATE s r) = r_data r"
  by (simp_all add: UPDATE_STATE_def)

lemma fine_set_parser: "(\<And>q. hp_errno (f q) = hp_errno q) \<Longrightarrow> fine (set_parser f r) \<longleftrightarrow> fine r"
  by (simp add: fine_def set_parser_def)

lemma over_weaker: "over r \<Longrightarrow> E (r_data r)" and fine_weaker: "fine r \<Longrightarrow> E (r_data r)"
  by (auto simp: over_def fine_def weaker split: if_splits)

lemma fine_errno [simp]: "fine r \<Longrightarrow> e \<noteq> HPE_OK \<Longrightarrow> fine (SET_ERRNO e r)"
  using fine_weaker by (simp add: fine_def SET_ERRNO_def)

lemma good_error [simp]: "fine r \<Longrightarrow> e \<noteq> HPE_OK \<Longrightarrow> good (goto_error e r)"
  by (simp add: goto_error_def)

lemma over_errno [simp]: "over r \<Longrightarrow> e \<noteq> HPE_OK \<Longrightarrow> over (SET_ERRNO e r)"
  using over_weaker by (simp add: over_def SET_ERRNO_def)

lemma good_RETURN [simp]: "good (RETURN n r) \<longleftrightarrow> over r"
  by (simp add: RETURN_def over_def)

lemma good_ASSERT: "fine r \<Longrightarrow> good (k r) \<Longrightarrow> good (ASSERT c r k)"
  by (simp add: ASSERT_def)

lemma good_STRICT: "fine r \<Longrightarrow> good (k r) \<Longrightarrow> good (STRICT_CHECK c r k)"
  by (simp add: STRICT_CHECK_def)

lemma good_COUNT: "fine r \<Longrightarrow> (\<And>n. good (k (r\<lparr>r_nread := n\<rparr>))) \<Longrightarrow> good (COUNT_HEADER_SIZE v r k)"
  by (simp add: COUNT_HEADER_SIZE_def Let_def)

lemma good_after:
  assumes "if fst res = 0 then J (snd (snd res)) else E (snd (snd res))" "e \<noteq> HPE_OK" "\<And>r. fine r \<Longrightarrow> good (k r)"
  shows "good (after_callback res e er r k)"
proof -
  obtain v q d where res: "res = (v, q, d)" by (rule prod_cases3)
  show ?thesis
  proof (cases "v = 0")
    case True
    with assms(1) res have "J d" by simp
    then have "fine (UPDATE_STATE (hp_state q) (r\<lparr>r_parser := q, r_data := d\<rparr>))" by simp (simp add: fine_def weaker)
    with True assms(3) res show ?thesis by (simp add: after_callback_def Let_def fine_over)
  next
    case False
    with assms(1,2) res show ?thesis by (simp add: after_callback_def SET_ERRNO_def UPDATE_STATE_def over_def)
  qed
qed

lemma good_NOTIFY_AT:
  assumes "cb \<in> {cb_message_begin S, cb_chunk_header S, cb_chunk_complete S}"
    "e \<noteq> HPE_OK" "fine r" "\<And>r. fine r \<Longrightarrow> good (k r)"
  shows "good (CALLBACK_NOTIFY_AT cb e er r k)"
proof (cases "hp_errno (r_parser r) = HPE_OK")
  case True
  then have "J (r_data r)" using assms(3) by (simp add: fine_def)
  with True assms notify_keeps show ?thesis
    by (auto simp: CALLBACK_NOTIFY_AT_def ASSERT_def intro!: good_after split: option.split)
next
  case False
  with assms(3) show ?thesis by (simp add: CALLBACK_NOTIFY_AT_def ASSERT_def)
qed

lemma good_NOTIFY:
  assumes "cb \<in> {cb_message_begin S, cb_chunk_header S, cb_chunk_complete S}"
    "e \<noteq> HPE_OK" "fine r" "\<And>r. fine r \<Longrightarrow> good (k r)"
  shows "good (CALLBACK_NOTIFY cb e r k)" "good (CALLBACK_NOTIFY_NOADVANCE cb e r k)"
  using good_NOTIFY_AT [OF assms] by (simp_all add: CALLBACK_NOTIFY_def CALLBACK_NOTIFY_NOADVANCE_def)

lemma good_DATA_AT:
  assumes "fine r" "\<And>r. fine r \<Longrightarrow> good (k r)"
  shows "good (CALLBACK_DATA_AT S data m stop er r k)"
proof (cases "hp_errno (r_parser r) = HPE_OK")
  case True
  then have J: "J (r_data r)" using assms(1) by (simp add: fine_def)
  have e: "data_errno m \<noteq> HPE_OK" by (cases m) simp_all
  show ?thesis
    using True J assms e data_keeps
    by (auto simp: CALLBACK_DATA_AT_def ASSERT_def Let_def intro!: good_after split: option.split)
next
  case False
  with assms(1) show ?thesis by (simp add: CALLBACK_DATA_AT_def ASSERT_def)
qed

lemma good_DATA:
  assumes "fine r" "\<And>r. fine r \<Longrightarrow> good (k r)"
  shows "good (CALLBACK_DATA S data m r k)" "good (CALLBACK_DATA_NOADVANCE S data m r k)"
  using good_DATA_AT [OF assms] by (simp_all add: CALLBACK_DATA_def CALLBACK_DATA_NOADVANCE_def)

lemmas good_rules = good_STRICT good_COUNT good_NOTIFY good_DATA good_ASSERT good_DATA_AT

section \<open>The cases\<close>

lemma good_start: "fine r \<Longrightarrow> good (step_start S r)"
  by (cases "r_state r") (auto simp: step_start_def Let_def fine_set_parser intro!: good_NOTIFY)

lemma good_digits:
  "fine r \<Longrightarrow> good (expect x s r)" "fine r \<Longrightarrow> good (version_digit set_major s r)"
  "fine r \<Longrightarrow> good (version_digit set_minor s r)" "fine r \<Longrightarrow> good (version_char x s r)"
  by (auto simp: expect_def version_digit_def version_char_def fine_set_parser set_major_def set_minor_def intro: good_STRICT)

lemma good_status: "fine r \<Longrightarrow> good (step_status S data r)"
  by (cases "r_state r") (auto simp: step_status_def Let_def fine_set_parser good_digits intro!: good_rules)

lemma good_method: "fine r \<Longrightarrow> good (step_method S r)"
  by (cases "r_state r") (auto simp: step_method_def Let_def fine_set_parser intro!: good_rules split: option.split)

lemma good_url: "fine r \<Longrightarrow> good (step_url S data r)"
  by (auto simp: step_url_def url_char_def Let_def fine_set_parser intro!: good_rules)

lemma good_version: "fine r \<Longrightarrow> good (step_version r)"
  by (cases "r_state r") (auto simp: step_version_def Let_def fine_set_parser good_digits intro!: good_rules)

lemma fine_parser: "hp_errno q = hp_errno (r_parser r) \<Longrightarrow> fine (r\<lparr>r_parser := q\<rparr>) \<longleftrightarrow> fine r"
  by (simp add: fine_def)

lemma field_char_errno: "field_char ch c q = Some q' \<Longrightarrow> hp_errno q' = hp_errno q"
  by (cases "hp_header_state q") (auto simp: field_char_def Let_def)

lemma fine_field_loop: "fine r \<Longrightarrow> field_loop data r = (ok, r') \<Longrightarrow> fine r'"
proof (induction data r rule: field_loop.induct)
  case (1 data r)
  show ?case
  proof (cases "r_p r < length data")
    case False
    with "1.prems" show ?thesis by (simp add: field_loop.simps)
  next
    case True
    let ?ch = "data ! r_p r" and ?r = "r\<lparr>r_ch := data ! r_p r\<rparr>"
    show ?thesis
    proof (cases "TOKEN ?ch = 0")
      case t: True
      with "1.prems" True show ?thesis by (auto simp: field_loop.simps [of data r] Let_def)
    next
      case t: False
      show ?thesis
      proof (cases "hp_header_state (r_parser r) = h_general")
        case g: True
        have "field_loop data (?r\<lparr>r_p := skip_tokens data (r_p r) + 1\<rparr>) = (ok, r')"
          using "1.prems"(2) True t g by (simp add: field_loop.simps [of data r] Let_def)
        with "1.IH"(1) [OF True refl refl t] g "1.prems"(1) show ?thesis by simp
      next
        case g: False
        show ?thesis
        proof (cases "field_char ?ch (TOKEN ?ch) (r_parser r)")
          case None
          with "1.prems" True t g show ?thesis by (auto simp: field_loop.simps [of data r] Let_def)
        next
          case (Some q)
          have l: "field_loop data (?r\<lparr>r_parser := q, r_p := r_p ?r + 1\<rparr>) = (ok, r')"
            using "1.prems"(2) True t g Some by (simp add: field_loop.simps [of data r] Let_def)
          have "fine (?r\<lparr>r_parser := q, r_p := r_p ?r + 1\<rparr>)"
            using "1.prems"(1) field_char_errno [OF Some] by (simp add: fine_def)
          with "1.IH"(2) [OF True refl refl t] g Some l show ?thesis by simp
        qed
      qed
    qed
  qed
qed

lemma good_field: "fine r \<Longrightarrow> good (step_field S data r)"
  by (auto simp: step_field_def Let_def intro!: good_rules simp: fine_field_loop split: prod.split)

lemma good_value_start: "fine r \<Longrightarrow> good (step_value_start r)"
  by (cases "hp_header_state (r_parser r)")
    (auto simp: step_value_start_def value_start_def Let_def fine_set_parser UPDATE_STATE_def MARK_def set_index_def set_parser_def
      set_header_state_def set_flag_def fine_def)

lemma value_char_errno: "value_char ch q h = Value q' h' \<Longrightarrow> hp_errno q' = hp_errno q"
  by (cases h) (auto simp: value_char_def content_length_digit_def connection_end_def Let_def split: if_splits)

lemma good_value_done: "fine r \<Longrightarrow> good (value_done data start h r)"
  by (auto simp: value_done_def Let_def intro!: good_COUNT)

lemma good_value_loop: "fine r \<Longrightarrow> good (value_loop S data start h r)"
proof (induction "length data - r_p r" arbitrary: h r rule: less_induct)
  case less
  show ?case
  proof (cases "r_p r < length data")
    case False
    with less.prems show ?thesis by (simp add: value_loop.simps good_value_done)
  next
    case True
    let ?ch = "data ! r_p r" and ?r = "r\<lparr>r_ch := data ! r_p r\<rparr>"
    have f: "fine ?r" using less.prems by simp
    consider "?ch = CR" | "?ch = LF" | "?ch \<noteq> CR" "?ch \<noteq> LF" "\<not> r_lenient r \<and> \<not> IS_HEADER_CHAR ?ch"
      | "?ch \<noteq> CR" "?ch \<noteq> LF" "r_lenient r \<or> IS_HEADER_CHAR ?ch" "h = h_general"
      | "?ch \<noteq> CR" "?ch \<noteq> LF" "r_lenient r \<or> IS_HEADER_CHAR ?ch" "h \<noteq> h_general" by blast
    then show ?thesis
    proof cases
      case 1
      have "good (CALLBACK_DATA S data Header_value_mark (set_header_state h (UPDATE_STATE s_header_almost_done ?r))
          (value_done data start h))" by (rule good_DATA) (simp_all add: less.prems good_value_done)
      with 1 True show ?thesis by (simp add: value_loop.simps [of S data start h r] Let_def)
    next
      case 2
      have "good (COUNT_HEADER_SIZE (r_p ?r - start) (UPDATE_STATE s_header_almost_done ?r) (\<lambda>r.
          CALLBACK_DATA_NOADVANCE S data Header_value_mark (set_header_state h r) (Pair Reexecute)))"
        by (rule good_COUNT, use less.prems in simp, rule good_DATA) (use less.prems in simp_all)
      with 2 True show ?thesis by (simp add: value_loop.simps [of S data start h r] Let_def)
    next
      case 3
      with True f show ?thesis by (auto simp: value_loop.simps [of S data start h r] Let_def)
    next
      case 4
      obtain ok p c where s: "value_skip (r_lenient r) data (r_p r) = (ok, p, c)" by (rule prod_cases3)
      then have p: "r_p r \<le> p" using value_skip_ge [OF True] 4 by blast
      then have "good (value_loop S data start h (?r\<lparr>r_p := p, r_ch := c, r_p := Suc p\<rparr>))"
        using less.hyps True f by simp
      with 4 True s f show ?thesis by (cases ok) (auto simp: value_loop.simps [of S data start h_general r] Let_def)
    next
      case 5
      show ?thesis
      proof (cases "value_char ?ch (r_parser r) h")
        case (Value q h')
        then have "fine (?r\<lparr>r_parser := q, r_p := Suc (r_p r)\<rparr>)" using value_char_errno less.prems by (simp add: fine_def)
        then have "good (value_loop S data start h' (?r\<lparr>r_parser := q, r_p := Suc (r_p r)\<rparr>))"
          using less.hyps True by simp
        with 5 True Value f show ?thesis by (simp add: value_loop.simps [of S data start h r] Let_def)
      qed (use 5 True less.prems in \<open>simp_all add: value_loop.simps [of S data start h r] Let_def\<close>)
    qed
  qed
qed

lemma good_header_end: "fine r \<Longrightarrow> good (step_header_end S data r)"
  by (cases "r_state r") (auto simp: step_header_end_def Let_def good_digits intro!: good_rules)

lemma good_headers_complete:
  assumes r: "fine r"
  shows "good (call_headers_complete S r)"
proof (cases "cb_headers_complete S")
  case (Some f)
  obtain v q d where c: "f (r_parser r) (r_data r) = (v, q, d)" by (rule prod_cases3)
  then have "if hp_errno q = HPE_OK then J d else E d"
    using complete_keeps [OF Some r [unfolded fine_def]] c by (simp split: if_splits)
  then have f: "fine (r\<lparr>r_parser := q, r_data := d\<rparr>)" by (simp add: fine_def)
  with Some c show ?thesis
    by (simp add: call_headers_complete_def Let_def fine_set_parser fine_over)
qed (simp add: call_headers_complete_def r fine_over)

lemma good_headers_almost_done: "fine r \<Longrightarrow> good (step_headers_almost_done S r)"
  by (auto simp: step_headers_almost_done_def Let_def fine_set_parser good_headers_complete intro!: good_rules)

lemma good_message_NOTIFY:
  assumes "fine r" "\<And>r'. over r' \<Longrightarrow> (\<not> hp_upgrade (r_parser r) \<Longrightarrow> fine r') \<Longrightarrow>
    hp_upgrade (r_parser r') = hp_upgrade (r_parser r) \<Longrightarrow> good (k r')"
  shows "good (CALLBACK_NOTIFY_AT (cb_message_complete S) HPE_CB_message_complete er r k)"
proof (cases "hp_errno (r_parser r) = HPE_OK")
  case False
  with assms(1) show ?thesis by (simp add: CALLBACK_NOTIFY_AT_def ASSERT_def)
next
  case True
  then have J: "J (r_data r)" using assms(1) by (simp add: fine_def)
  show ?thesis
  proof (cases "cb_message_complete S")
    case None
    with True assms(2) [of r] assms(1) show ?thesis by (simp add: CALLBACK_NOTIFY_AT_def ASSERT_def fine_over)
  next
    case (Some f)
    let ?q = "(r_parser r)\<lparr>hp_state := r_state r\<rparr>"
    obtain v q d where c: "f ?q (r_data r) = (v, q, d)" by (rule prod_cases3)
    let ?r = "r\<lparr>r_parser := q, r_data := d\<rparr>"
    show ?thesis
    proof (cases "v = 0")
      case v: True
      have m: "J d \<or> K d \<and> hp_upgrade (r_parser r)" "hp_upgrade q = hp_upgrade (r_parser r)"
        using message_keeps [OF Some J, of ?q] c v by simp_all
      then have "over (UPDATE_STATE (hp_state q) ?r)" "\<not> hp_upgrade (r_parser r) \<Longrightarrow> fine (UPDATE_STATE (hp_state q) ?r)"
        "hp_upgrade (r_parser (UPDATE_STATE (hp_state q) ?r)) = hp_upgrade (r_parser r)"
        by (auto simp: over_def fine_def UPDATE_STATE_def weaker)
      with assms(2) [of "UPDATE_STATE (hp_state q) ?r"] True Some c v show ?thesis
        by (simp add: CALLBACK_NOTIFY_AT_def ASSERT_def after_callback_def Let_def)
    next
      case False
      with message_keeps [OF Some J, of ?q] True Some c show ?thesis
        by (simp add: CALLBACK_NOTIFY_AT_def ASSERT_def after_callback_def Let_def SET_ERRNO_def UPDATE_STATE_def over_def)
    qed
  qed
qed

lemma good_message_complete:
  assumes "fine r" "\<And>r'. over r' \<Longrightarrow> (\<not> hp_upgrade (r_parser r) \<Longrightarrow> fine r') \<Longrightarrow>
    hp_upgrade (r_parser r') = hp_upgrade (r_parser r) \<Longrightarrow> good (k r')"
  shows "good (message_complete S r k)"
  unfolding message_complete_def CALLBACK_NOTIFY_def
  by (rule good_message_NOTIFY) (use assms in simp_all)

lemma reset_nread_parser [simp]:
  "hp_upgrade (r_parser (reset_nread r)) = hp_upgrade (r_parser r)"
  by (simp add: reset_nread_def set_parser_def)

lemma good_headers_done: "fine r \<Longrightarrow> good (step_headers_done S r)"
  by (auto simp: step_headers_done_def Let_def has_body_def http_message_needs_eof_def fine_over
      intro!: good_STRICT good_message_complete)

lemma good_body: "fine r \<Longrightarrow> good (step_body S data r)"
  by (cases "r_state r") (auto simp: step_body_def Let_def intro!: good_rules good_message_complete)

lemma good_chunk: "fine r \<Longrightarrow> good (step_chunk S data r)"
  by (cases "r_state r") (auto simp: step_chunk_def Let_def fine_set_parser intro!: good_rules)

lemma good_step: "fine r \<Longrightarrow> good (http_step S data r)"
  by (cases "group_of (r_state r)")
    (simp_all add: http_step_def good_start good_status good_method good_url good_version good_field good_value_start
      step_value_def good_value_loop good_header_end good_headers_almost_done good_headers_done good_body good_chunk)

lemma good_next: "fine r \<Longrightarrow> good (http_next S data r)"
  by (auto simp: http_next_def Let_def good_step intro!: good_COUNT)

lemma good_finish: "fine r \<Longrightarrow> good (http_finish S data r)"
  unfolding http_finish_def by (intro good_ASSERT good_DATA) (simp_all add: fine_over)

lemma good_loop:
  assumes "http_loop S data st = Some out" "good st"
  shows "good out"
proof -
  let ?P = "\<lambda>S0 data0 st out. S0 = S \<longrightarrow> data0 = data \<longrightarrow> good st \<longrightarrow> good out"
  have "?P S data st out"
  proof (rule http_loop.raw_induct [of ?P, OF _ assms(1)])
    fix rec S0 data0 st out
    assume IH: "\<And>S0 data0 st out. rec S0 data0 st = Some out \<Longrightarrow> S0 = S \<longrightarrow> data0 = data \<longrightarrow> good st \<longrightarrow> good out"
      and e: "(let (f, r) = st in
        case f of
          Break \<Rightarrow>
            (let r = r\<lparr>r_p := r_p r + 1\<rparr> in
             if r_p r = length data0 then Some (http_finish S0 data0 r) else rec S0 data0 (http_next S0 data0 r))
        | Reexecute \<Rightarrow> rec S0 data0 (http_step S0 data0 r)
        | Error_exit \<Rightarrow> Some (http_error r)
        | Return n \<Rightarrow> Some (f, r)
        | Abort \<Rightarrow> Some (f, r)) = Some out"
    show "?P S0 data0 st out"
    proof (intro impI)
      assume S: "S0 = S" "data0 = data" and g: "good st"
      obtain f r where st: "st = (f, r)" by (cases st)
      show "good out"
      proof (cases f)
        case Break
        with g st have r: "fine r" by simp
        let ?r = "r\<lparr>r_p := r_p r + 1\<rparr>"
        show ?thesis
        proof (cases "r_p ?r = length data")
          case True
          with e S st Break good_finish [of ?r data] r show ?thesis by (auto simp: Let_def)
        next
          case False
          with e S st Break have "rec S data (http_next S data ?r) = Some out" by (simp add: Let_def)
          with IH good_next [of ?r data] r show ?thesis by simp
        qed
      next
        case Reexecute
        with g st have r: "fine r" by simp
        from Reexecute e S st have "rec S data (http_step S data r) = Some out" by simp
        with IH good_step [OF r] show ?thesis by simp
      next
        case Error_exit
        with e st g show ?thesis by (auto simp: http_error_def Let_def fine_over)
      qed (use e st g in auto)
    qed
  qed
  then show ?thesis using assms(2) by simp
qed

lemma execute_keeps:
  assumes "J d" "http_parser_execute S q d data = Some (n, q', d')"
  shows "if hp_errno q' = HPE_OK then J d' \<or> K d' else E d'"
proof -
  let ?r = "http_run_start q d"
  have f: "fine ?r" using assms(1) by (simp add: fine_def http_run_start_def weaker)
  have eof: "good (http_eof S ?r)"
    using f by (auto simp: http_eof_def CALLBACK_NOTIFY_NOADVANCE_def fine_over intro!: good_message_NOTIFY)
  obtain g t where g: "(if hp_errno q \<noteq> HPE_OK then Some (Return 0, ?r)
      else if data = [] then Some (http_eof S ?r) else http_loop S data (http_next S data ?r)) = Some (g, t)"
    "r_parser t = q'" "r_data t = d'"
    using assms(2) by (auto simp: http_parser_execute_def Let_def)
  have "good (g, t)"
    using g(1) eof good_loop [OF _ good_next [OF f]] f by (auto simp: fine_over split: if_splits)
  then have "over t" by (cases g) (simp_all add: fine_over)
  with g(2,3) show ?thesis by (auto simp: over_def split: if_splits)
qed

end

end
