(* ===== verification/Wic_Opened.thy ===== *)
theory Wic_Opened
  imports Wic_Opening Http_Keeps
begin

text \<open>
  How a handshake ends (\<open>wic_parse\<close> before the connection is open): the parser always comes to
  an end, a failure closes the instance, and a client is open only after a response that names
  the protocol and holds the digest of the client's own nonce.
\<close>

section \<open>A client opens only for an answer to its request\<close>

text \<open>What the receive buffer holds when a response has been taken.\<close>

definition answered :: "'w wic_inst \<Rightarrow> bool" where
  "answered t \<longleftrightarrow>
     (\<exists>off. wic_get_header t (Some (ascii ''upgrade'')) = Some (Some off) \<and>
        value_equal t off (ascii ''websocket'') = Some True) \<and>
     (\<exists>off m. wic_get_header t (Some (ascii ''Sec-WebSocket-Accept'')) = Some (Some off) \<and>
        drop off (rx_mem t) = rfc4648_encode (hash t) @ 0 # m)"

lemma same_str_True: "same_str f m s = Some True \<Longrightarrow> (\<And>x. f x = x) \<Longrightarrow> \<exists>m'. m = s @ 0 # m' \<or> 0 \<in> set s"
  by (induction f m s rule: same_str.induct) (auto split: if_splits)

lemma response_taken:
  assumes "on_response_complete q s0 = Some (0, s1)" "length (hash s0) = 20"
  shows "hp_status_code q = 101" "hp_upgrade q" "answered s1" "istate s1 = WIC_STATE_READY" "hash s1 = hash s0"
proof -
  define t where "t = ready_for s0"
  have t: "hash t = hash s0" "istate t = WIC_STATE_READY" by (simp_all add: t_def)
  show c: "hp_status_code q = 101"
    using assms(1) by (simp add: on_response_complete_def Let_def split: if_splits option.splits)
  show u: "hp_upgrade q"
    using assms(1) c by (simp add: on_response_complete_def Let_def split: if_splits)
  have e: "(case wic_get_header t (Some (ascii ''upgrade'')) of
        None \<Rightarrow> None
      | Some None \<Rightarrow> Some (-1, t)
      | Some (Some off) \<Rightarrow>
          (case value_equal t off (ascii ''websocket'') of
             None \<Rightarrow> None
           | Some False \<Rightarrow> Some (-1, t)
           | Some True \<Rightarrow>
               (case wic_get_header t (Some (ascii ''Sec-WebSocket-Accept'')) of
                  None \<Rightarrow> None
                | Some None \<Rightarrow> Some (-1, t)
                | Some (Some off) \<Rightarrow>
                    (case strcmp_equal t off (b64_encode (hash t) 29) of
                       None \<Rightarrow> None
                     | Some eq \<Rightarrow> Some (if eq then 0 else -1, t))))) = Some (0 :: int, s1)"
    using assms(1) c u unfolding on_response_complete_def Let_def t_def [symmetric] by simp
  obtain off where o: "wic_get_header t (Some (ascii ''upgrade'')) = Some (Some off)"
    using e by (simp split: option.splits)
  have v: "value_equal t off (ascii ''websocket'') = Some True"
    using e unfolding o by (simp split: option.splits bool.splits)
  obtain off' where o': "wic_get_header t (Some (ascii ''Sec-WebSocket-Accept'')) = Some (Some off')"
    using e unfolding o by (simp add: v split: option.splits)
  have cmp: "strcmp_equal t off' (b64_encode (hash t) 29) = Some True" and s1: "s1 = t"
    using e unfolding o by (simp_all add: v o' split: option.splits if_splits)
  have b: "b64_encode (hash t) 29 = rfc4648_encode (hash t)"
    using assms(2) t by (simp add: b64_encode_eq b64_encoded_size_def)
  have "0 \<notin> set (rfc4648_encode (hash t))" using cstring_b64 by (simp add: cstring_def)
  then obtain m where "drop off' (rx_mem t) = rfc4648_encode (hash t) @ 0 # m"
    using same_str_True [OF cmp [unfolded strcmp_equal_def b]] by blast
  with o v o' s1 show "answered s1" unfolding answered_def by blast
  show "istate s1 = WIC_STATE_READY" "hash s1 = hash s0" by (simp_all add: s1 t)
qed

text \<open>Before, and after, the callback has taken the response.\<close>

definition waiting :: "bytes \<Rightarrow> 'w wic_inst option \<Rightarrow> bool" where
  "waiting hsh d \<longleftrightarrow> (\<forall>s. d = Some s \<longrightarrow> istate s = WIC_STATE_PARSE_HANDSHAKE \<and> hash s = hsh)"

definition taken :: "bytes \<Rightarrow> 'w wic_inst option \<Rightarrow> bool" where
  "taken hsh d \<longleftrightarrow> (\<exists>s. d = Some s \<and> istate s = WIC_STATE_READY \<and> hash s = hsh \<and> answered s)"

lemma header_callbacks_keep:
  "istate (snd (on_header_field at self)) = istate self" "hash (snd (on_header_field at self)) = hash self"
  "istate (snd (on_header_value at self)) = istate self" "hash (snd (on_header_value at self)) = hash self"
  by (auto simp: on_header_field_def on_header_value_def Let_def rx_append_def split: wic_header_state.splits)

lemma data_callback_keeps:
  assumes "\<And>at s. istate (snd (f at s)) = istate s \<and> hash (snd (f at s)) = hash s" "waiting hsh d"
  shows "waiting hsh (snd (snd (data_callback f q at d)))"
proof (cases d)
  case (Some s)
  obtain v s' where f: "f at s = (v, s')" by fastforce
  then have "istate s' = istate s \<and> hash s' = hash s" using assms(1) [of at s] by simp
  with assms(2) Some f show ?thesis by (simp add: data_callback_def waiting_def)
qed (simp add: data_callback_def waiting_def)

lemma opening_kept:
  assumes "length hsh = 20"
  shows "kept (parse_settings WIC_ROLE_CLIENT) (waiting hsh) (taken hsh) (\<lambda>_. True)"
proof (unfold_locales, goal_cases)
  case (4 f d q)
  then have f: "f = complete_callback on_response_complete" by (simp add: parse_settings_def http_parser_settings_init_def)
  show ?case
  proof (cases "fst (f q d) = 0")
    case True
    then obtain s0 s1 where s: "d = Some s0" "on_response_complete q s0 = Some (0, s1)"
      unfolding f by (auto simp: complete_callback_def split: option.splits prod.splits)
    have h: "hash s0 = hsh" using 4 s by (simp add: waiting_def)
    note r = response_taken [OF s(2), unfolded h, OF assms]
    have "f q d = (0, q, Some s1)" by (simp add: f complete_callback_def s)
    with r show ?thesis by (simp add: taken_def)
  qed (simp add: f complete_callback_quiet)
next
  case (6 m g d q bs)
  then have "g = data_callback on_header_field \<or> g = data_callback on_header_value"
    by (cases m) (simp_all add: parse_settings_def http_parser_settings_init_def)
  with 6 header_callbacks_keep data_callback_keeps show ?case by metis
qed (simp_all add: parse_settings_def http_parser_settings_init_def)

lemma opens_answered:
  assumes "role self = WIC_ROLE_CLIENT" "istate self = WIC_STATE_PARSE_HANDSHAKE" "length (hash self) = 20"
    "parse_handshake h self s data = Some (self', s')" "istate self' = WIC_STATE_OPEN"
  shows "\<exists>t. answered t \<and> hash t = hash self \<and> self' = (call_open h t)\<lparr>istate := WIC_STATE_OPEN\<rparr>"
proof -
  obtain n q t where e: "http_parser_execute (parse_settings WIC_ROLE_CLIENT) (http self) (Some self) data = Some (Some n, q, Some t)"
    using assms(1,4) by (auto simp: parse_handshake_def split: option.splits)
  have w: "waiting (hash self) (Some self)" using assms(2) by (simp add: waiting_def)
  have ok: "hp_errno q = HPE_OK"
    using assms(1,4,5) e by (auto simp: parse_handshake_def Let_def split: if_splits)
  have "waiting (hash self) (Some t) \<or> taken (hash self) (Some t)"
    using kept.execute_keeps [OF opening_kept [OF assms(3)] w e] ok by simp
  moreover have "answered (t\<lparr>http := q\<rparr>) \<longleftrightarrow> answered t"
    by (simp add: answered_def wic_get_header_def value_equal_def)
  ultimately show ?thesis
    using assms(1,4,5) e ok
    by (auto simp: parse_handshake_def Let_def waiting_def taken_def intro!: exI [of _ "t\<lparr>http := q\<rparr>"])
qed

end
