(* ===== verification/Wic_Instance.thy ===== *)
theory Wic_Instance
  imports Wic_Chunks Wic_Session Wic_Opened
begin

text \<open>
  The instance as a whole. \<open>inst_ok\<close> is what \<open>wic_init\<close> establishes and every call of
  \<open>wic_parse\<close> keeps, on whatever input: the receiving side is well formed in the sense of
  \<open>rx_ok\<close> once its stream is rewound, as the next frame does (the handshake may have left it
  overfull), the HTTP parser satisfies its own invariant, and the digest has its 20 bytes.
\<close>

section \<open>The invariant\<close>

definition rx_clean :: "wic_rx_frame \<Rightarrow> wic_rx_frame" where
  "rx_clean r = (if rx_state r = WIC_RX_STATE_OPCODE then r\<lparr>rx_s := stream_rewind (rx_s r)\<rparr> else r)"

definition inst_ok :: "'w wic_inst \<Rightarrow> bool" where
  "inst_ok self \<longleftrightarrow>
     rx_ok (self\<lparr>rx := rx_clean (rx self)\<rparr>) \<and> stream_ok (rx_s (rx self)) \<and>
     (istate self \<notin> {WIC_STATE_OPEN, WIC_STATE_CLOSED} \<longrightarrow> rx_state (rx self) = WIC_RX_STATE_OPCODE) \<and>
     parser_inv (http self) \<and> length (hash self) = 20"

text \<open>Between frames the state of the instance does not matter.\<close>

definition rx_idle :: "'w wic_inst \<Rightarrow> bool" where
  "rx_idle self \<longleftrightarrow>
     rx_state (rx self) = WIC_RX_STATE_OPCODE \<and> rx_base (rx_clean (rx self)) \<and> stream_ok (rx_s (rx self)) \<and>
     utf8_state_ok (utf8_rx self) \<and> length (hash self) = 20"

lemma inst_ok_idle: "rx_idle self \<Longrightarrow> parser_inv (http self) \<Longrightarrow> inst_ok self"
  by (auto simp: inst_ok_def rx_idle_def rx_ok_def rx_phase_def rx_clean_def)

lemma rx_idle_of: "inst_ok self \<Longrightarrow> istate self \<notin> {WIC_STATE_OPEN, WIC_STATE_CLOSED} \<Longrightarrow> rx_idle self"
  by (auto simp: inst_ok_def rx_idle_def rx_ok_def)

lemma rx_idle_upd [simp]:
  "rx_idle (self\<lparr>istate := st\<rparr>) = rx_idle self" "rx_idle (self\<lparr>header_state := hst\<rparr>) = rx_idle self"
  "rx_idle (self\<lparr>redirect_url := r\<rparr>) = rx_idle self" "rx_idle (self\<lparr>http := q\<rparr>) = rx_idle self"
  by (simp_all add: rx_idle_def)

lemma rx_clean_ok: "rx_base r \<Longrightarrow> rx_base (rx_clean r)" "rx_phase r \<Longrightarrow> rx_phase (rx_clean r)"
  by (auto simp: rx_clean_def rx_base_def rx_phase_def stream_rewind_def)

lemma inst_ok_rx: "rx_ok self \<Longrightarrow> istate self \<in> {WIC_STATE_OPEN, WIC_STATE_CLOSED} \<Longrightarrow> parser_inv (http self) \<Longrightarrow>
   length (hash self) = 20 \<Longrightarrow> inst_ok self"
  using rx_clean_ok [of "rx self"] by (auto simp: inst_ok_def rx_ok_def rx_base_def stream_ok_def)

section \<open>A new instance\<close>

lemma init_inst_ok:
  assumes "wic_init u0 arg = Inr self" "ia_rx arg = Some mem" "ia_rx_max arg \<le> length mem"
  shows "inst_ok self \<and> istate self = WIC_STATE_INIT \<and> role self = WIC_ROLE_CLIENT"
proof -
  have i: "rx self = init_rx (Some mem) (ia_rx_max arg)" "istate self = WIC_STATE_INIT" "role self = WIC_ROLE_CLIENT"
    "http self = http_parser_init HTTP_RESPONSE" "hash self = replicate 20 0" "utf8_rx self = 0"
    using assms(1,2) by (auto simp: wic_init_def split: option.splits if_splits sum.splits)
  moreover have "rx_base (rx self)"
    using i(1) assms(3) by (simp add: init_rx_def rx_base_def stream_init_def utf8_state_ok_def)
  moreover have "rx_state (rx self) = WIC_RX_STATE_OPCODE" using i(1) by (simp add: init_rx_def)
  moreover have "stream_ok (rx_s (rx self))" using i(1) by (simp add: init_rx_def stream_init_def stream_ok_def)
  ultimately show ?thesis
    using rx_clean_ok(1) [of "rx self"] parser_inv_init [of HTTP_RESPONSE]
    by (auto intro!: inst_ok_idle simp: rx_idle_def utf8_state_ok_def)
qed

section \<open>The handshake keeps it\<close>

lemma rx_idle_append: "rx_idle self \<Longrightarrow> rx_idle (rx_append bs self)"
  by (auto simp: rx_idle_def rx_append_def rx_clean_def rx_base_def stream_write_def stream_rewind_def stream_ok_def)

lemma rx_idle_callbacks:
  assumes "rx_idle self"
  shows "rx_idle (snd (on_header_field bs self))" "rx_idle (snd (on_header_value bs self))" "rx_idle (end_headers self)"
  using assms rx_idle_append
  by (auto simp: on_header_field_def on_header_value_def end_headers_def Let_def split: wic_header_state.split)

lemma length_server_hash [simp]: "length (server_hash nonce) = 20"
  by (simp add: server_hash_def sha1_finish_def Let_def put_uint32_be_def split: prod.split)

lemma rx_idle_hash [simp]: "rx_idle self \<Longrightarrow> rx_idle (self\<lparr>hash := server_hash nonce\<rparr>)"
  by (simp add: rx_idle_def)

lemma rx_idle_request:
  assumes "on_request_complete q self = Some (v, self')" "rx_idle self"
  shows "rx_idle self'"
proof -
  have e: "rx_idle (ready_for self)" using rx_idle_callbacks(3) [OF assms(2)] by simp
  then show ?thesis
    using assms unfolding on_request_complete_def Let_def
    by (auto split: if_splits option.splits bool.splits)
qed

lemma rx_idle_response:
  assumes "on_response_complete q self = Some (v, self')" "rx_idle self"
  shows "rx_idle self'"
proof -
  have e: "rx_idle (ready_for self)" using rx_idle_callbacks(3) [OF assms(2)] by simp
  then show ?thesis
    using assms unfolding on_response_complete_def Let_def
    by (auto split: if_splits option.splits bool.splits)
qed

text \<open>As an invariant of the user data of the HTTP parser, errors or not.\<close>

definition idle_data :: "'w wic_inst option \<Rightarrow> bool" where
  "idle_data d \<longleftrightarrow> (\<forall>s. d = Some s \<longrightarrow> rx_idle s)"

lemma idle_callbacks:
  "idle_data d \<Longrightarrow> (\<And>s v s'. f q s = Some (v, s') \<Longrightarrow> rx_idle s \<Longrightarrow> rx_idle s') \<Longrightarrow>
   idle_data (snd (snd (complete_callback f q d)))"
  "idle_data d \<Longrightarrow> (\<And>s. rx_idle s \<Longrightarrow> rx_idle (snd (g bs s))) \<Longrightarrow> idle_data (snd (snd (data_callback g q bs d)))"
  by (auto simp: idle_data_def complete_callback_def data_callback_def split: option.split prod.split) (metis snd_conv)+

lemma idle_kept: "kept (parse_settings r) idle_data idle_data idle_data"
proof (unfold_locales, goal_cases)
  case (3 f d q)
  then have f: "f = complete_callback (if r = WIC_ROLE_CLIENT then on_response_complete else on_request_complete)"
    by (simp add: parse_settings_def http_parser_settings_init_def)
  have "idle_data (snd (snd (f q d)))"
    unfolding f by (rule idle_callbacks(1)) (use 3 rx_idle_response rx_idle_request in \<open>auto split: if_splits\<close>)
  then show ?case by (simp add: f complete_callback_quiet)
next
  case (5 m g d q bs)
  then have "g = data_callback on_header_field \<or> g = data_callback on_header_value"
    by (cases m) (simp_all add: parse_settings_def http_parser_settings_init_def)
  with 5 idle_callbacks(2) rx_idle_callbacks(1,2) show ?case by metis
qed (simp_all add: parse_settings_def http_parser_settings_init_def)

context app_contract
begin

lemma inst_ok_frame: "api_frame self self' \<Longrightarrow> rx_idle self' = rx_idle self"
  by (auto elim!: api_frameE simp: rx_idle_def)

lemma parse_handshake_ok:
  assumes "inst_ok self" "istate self = WIC_STATE_PARSE_HANDSHAKE" "parse_handshake h self s data = Some (self', s')"
  shows "rx_idle self' \<and> parser_inv (http self') \<and> (\<exists>n. s' = snd (stream_seek s n))"
proof -
  have i: "rx_idle self" "parser_inv (http self)" using assms(1,2) rx_idle_of [of self] by (simp_all add: inst_ok_def)
  obtain n q t where e: "http_parser_execute (parse_settings (role self)) (http self) (Some self) data = Some (Some n, q, Some t)"
    using assms(3) by (auto simp: parse_handshake_def split: option.splits)
  have q: "parser_inv q" using hs.http_execute_ok [OF i(2), of "role self" "Some self" data] e by auto
  have "idle_data (Some t)"
    using kept.execute_keeps [OF idle_kept _ e] i(1) by (auto simp: idle_data_def split: if_splits)
  then have t: "rx_idle (t\<lparr>http := q\<rparr>)" by (simp add: idle_data_def)
  note fr = call_frames [THEN inst_ok_frame] and fl = call_frames [THEN api_frame_fields(6)]
  show ?thesis
    using assms(3) e q t by (auto simp: parse_handshake_def Let_def fr fl split: if_splits)
qed

end

section \<open>The receive loop keeps it\<close>

definition setup_of :: "'w wic_inst \<Rightarrow> wic_role \<times> bytes \<times> http_parser" where
  "setup_of self = (role self, hash self, http self)"

lemma setup_upd [simp]:
  "setup_of (self\<lparr>rx := r\<rparr>) = setup_of self" "setup_of (self\<lparr>utf8_rx := u\<rparr>) = setup_of self"
  "setup_of (set_rx f self) = setup_of self" "setup_of (set_rx_stream x self) = setup_of self"
  by (simp_all add: setup_of_def set_rx_stream_def)

definition live :: "'w wic_inst \<Rightarrow> bool" where
  "live self \<longleftrightarrow> istate self = WIC_STATE_OPEN \<or> istate self = WIC_STATE_CLOSED"

lemma live_upd [simp]:
  "live (self\<lparr>rx := r\<rparr>) = live self" "live (self\<lparr>utf8_rx := u\<rparr>) = live self"
  "live (set_rx f self) = live self" "live (set_rx_stream x self) = live self"
  by (simp_all add: live_def set_rx_stream_def)

context app_contract
begin

lemma live_frame: "api_frame self self' \<Longrightarrow> live self \<Longrightarrow> live self'"
  by (auto simp: live_def elim!: api_frameE)

lemma live_calls [simp]:
  "live (close_with_reason h self code reason n type)"
  "live self \<Longrightarrow> live (snd (call_message h self enc fin d))"
  "live self \<Longrightarrow> live (snd (send_pong_with_payload h self d n))"
  "live self \<Longrightarrow> live (call_ping h self)"
  "live self \<Longrightarrow> live (call_pong h self)"
  by (simp add: live_def) (rule live_frame, rule api_frame_rules, assumption)+

lemma live_close_response [simp]: "live (close_response h self)"
  by (simp add: live_def)

lemma setup_frame: "api_frame self self' \<Longrightarrow> setup_of self' = setup_of self"
  by (simp add: setup_of_def api_frame_fields)

lemma setup_calls [simp]:
  "setup_of (close_with_reason h self code reason n type) = setup_of self"
  "setup_of (snd (call_message h self enc fin d)) = setup_of self"
  "setup_of (snd (send_pong_with_payload h self d n)) = setup_of self"
  "setup_of (call_ping h self) = setup_of self"
  "setup_of (call_pong h self) = setup_of self"
  by (rule setup_frame, rule api_frame_rules)+

lemma setup_close_response [simp]: "setup_of (close_response h self) = setup_of self"
  by (simp add: close_response_def Let_def)

lemma get_u8_size: "stream_get_u8 s = (r, s') \<Longrightarrow> st_size s' = st_size s"
  by (auto simp: stream_get_u8_def stream_read_def split: if_splits)

lemma setup_head:
  "setup_of (fst (snd (parse_head h self s))) = setup_of self \<and> (live self \<longrightarrow> live (fst (snd (parse_head h self s))))"
proof -
  obtain r s1 where g: "stream_get_u8 s = (r, s1)" by fastforce
  have o: "setup_of (fst (snd (parse_opcode h self s))) = setup_of self \<and>
      (live self \<longrightarrow> live (fst (snd (parse_opcode h self s))))"
  proof (cases r)
    case None
    with g show ?thesis by (simp add: parse_opcode_def)
  next
    case (Some b)
    then show ?thesis using parse_opcode_Some [of s b s1 h self] g by simp
  qed
  have z: "setup_of (fst (snd (parse_size h self s))) = setup_of self \<and>
      (live self \<longrightarrow> live (fst (snd (parse_size h self s))))"
    using g by (cases r; cases "rx_opcode (rx self)") (simp_all add: parse_size_def Let_def)
  have "setup_of (fst (snd (parse_extended_size self s))) = setup_of self"
    "live self \<longrightarrow> live (fst (snd (parse_extended_size self s)))"
    "setup_of (fst (snd (parse_mask self s))) = setup_of self"
    "live self \<longrightarrow> live (fst (snd (parse_mask self s)))"
    using g by (cases r; simp add: parse_extended_size_def parse_mask_def Let_def)+
  with o z show ?thesis by (cases "rx_state (rx self)") (simp_all add: parse_head_def)
qed

lemma setup_data:
  "setup_of (fst (snd (parse_data h self s))) = setup_of self \<and> (live self \<longrightarrow> live (fst (snd (parse_data h self s))))"
proof -
  have fl: "setup_of (snd (data_flush h self)) = setup_of self" "live self \<Longrightarrow> live (snd (data_flush h self))" for self
    by (cases "rx_kind (rx self)"; simp add: data_flush_def Let_def split_beta)+
  have byte: "setup_of (data_byte h self b) = setup_of self" "live self \<Longrightarrow> live (data_byte h self b)" for self b
    by (cases "rx_masked (rx self)"; cases "rx_kind (rx self)";
        simp add: data_byte_def Let_def set_rx_stream_def stream_put_u8_masked_def stream_put_u8_def stream_pos_def split_beta)+
  have fi: "setup_of (snd (data_finish h bl self)) = setup_of self" "live self \<Longrightarrow> live (snd (data_finish h bl self))" for bl self
    by (cases "rx_kind (rx self)"; simp add: data_finish_def Let_def split_beta)+
  show ?thesis
    by (auto simp: parse_data_def Let_def split_beta fl byte fi split: option.split)
qed

lemma head_size: "st_size (snd (snd (parse_head h self s))) = st_size s"
proof -
  obtain r s1 where g: "stream_get_u8 s = (r, s1)" by fastforce
  show ?thesis
    using g get_u8_size [OF g]
    by (cases "rx_state (rx self)"; cases r)
      (simp_all add: parse_head_def parse_opcode_def parse_size_def parse_extended_size_def parse_mask_def Let_def)
qed

lemma data_size: "st_size (snd (snd (parse_data h self s))) = st_size s"
proof -
  obtain r s1 where g: "stream_get_u8 s = (r, s1)" by fastforce
  show ?thesis
    using g get_u8_size [OF g] by (cases r) (simp_all add: parse_data_def Let_def split_beta)
qed

lemma setup_step:
  assumes "ws_step h self s = (bl, self', s')"
  shows "setup_of self' = setup_of self \<and> (live self \<longrightarrow> live self') \<and> st_size s' = st_size s"
proof -
  obtain b t u where hd: "parse_head h self s = (b, t, u)" by (metis surj_pair)
  show ?thesis
    using assms setup_head [of self s] setup_data [of t u] head_size [of self s] data_size [of t u] hd by (auto simp: ws_step_def split: if_splits)
qed

lemma setup_loop:
  assumes "ws_loop h self s = Some (self', s')"
  shows "setup_of self' = setup_of self \<and> (live self \<longrightarrow> live self') \<and> st_size s' = st_size s"
proof -
  let ?P = "\<lambda>h0 self s r. h0 = h \<longrightarrow> setup_of (fst r) = setup_of self \<and> (live self \<longrightarrow> live (fst r)) \<and>
    st_size (snd r) = st_size s"
  have "?P h self s (self', s')"
  proof (rule ws_loop.raw_induct [of ?P, OF _ assms])
    fix f h0 self s and y :: "'a wic_inst \<times> wic_stream"
    assume IH: "\<And>h0 self s y. f h0 self s = Some y \<Longrightarrow> ?P h0 self s y"
      and run: "(case ws_step h0 self s of (blocked, self', s') \<Rightarrow>
        if \<not> blocked \<and> istate self' = WIC_STATE_OPEN then f h0 self' s' else Some (self', s')) = Some y"
    obtain bl t u where st: "ws_step h0 self s = (bl, t, u)" by (metis surj_pair)
    show "?P h0 self s y"
      using run IH [of h0 t u y] setup_step [of self s bl t u] st by (auto split: if_splits)
  qed
  then show ?thesis by simp
qed

text \<open>A first byte rewinds the stream anyway.\<close>

lemma ws_loop_rewound:
  assumes "stream_get_u8 s = (Some b, s1)"
  shows "ws_loop h (self\<lparr>rx := rx_clean (rx self)\<rparr>) s = ws_loop h self s"
proof (cases "rx_state (rx self) = WIC_RX_STATE_OPCODE")
  case False
  then show ?thesis by (simp add: rx_clean_def)
next
  case True
  let ?c = "self\<lparr>rx := rx_clean (rx self)\<rparr>"
  have f: "rx_first (rx ?c) b = rx_first (rx self) b" "rx_opcode (rx ?c) = rx_opcode (rx self)"
    "rx_state (rx ?c) = WIC_RX_STATE_OPCODE"
    using True by (simp_all add: rx_first_def rx_clean_def stream_rewind_def)
  have "parse_opcode h ?c s = parse_opcode h self s"
    using parse_opcode_Some [of s b s1 h self] parse_opcode_Some [of s b s1 h ?c] assms f by simp
  then have "ws_step h ?c s = ws_step h self s" using True f(3) by (simp add: ws_step_def parse_head_def)
  then show ?thesis by (simp add: ws_loop.simps)
qed

lemma ws_loop_clean:
  assumes "ws_loop h self s = Some (self', s')" "rx_ok (self\<lparr>rx := rx_clean (rx self)\<rparr>)"
  shows "self' = self \<or> rx_ok self'"
proof -
  obtain r s1 where g: "stream_get_u8 s = (r, s1)" by fastforce
  consider "rx_state (rx self) \<noteq> WIC_RX_STATE_OPCODE" | "rx_state (rx self) = WIC_RX_STATE_OPCODE" "r = None" | b where "r = Some b"
    by (cases r) auto
  then show ?thesis
  proof cases
    case 1
    then have "self\<lparr>rx := rx_clean (rx self)\<rparr> = self" by (simp add: rx_clean_def)
    with ws_loop_ok [OF assms(1)] assms(2) show ?thesis by simp
  next
    case 2
    with g have "ws_step h self s = (True, self, s1)" by (simp add: ws_step_def parse_head_def parse_opcode_def)
    with assms(1) show ?thesis by (simp add: ws_loop.simps)
  next
    case 3
    with ws_loop_rewound [of s b s1] g assms ws_loop_ok show ?thesis by metis
  qed
qed

text \<open>\<open>wic_parse\<close>.\<close>

lemma parse_inst_ok:
  assumes "inst_ok self" "wic_parse h self data = Some (n, self')"
  shows "inst_ok self' \<and> n \<le> length data"
proof -
  let ?s = "stream_init_ro data (length data)"
  obtain t u where t: "(if istate self = WIC_STATE_PARSE_HANDSHAKE then parse_handshake h self ?s data else Some (self, ?s)) = Some (t, u)"
    using assms(2) by (auto simp: wic_parse_def Let_def split: option.splits)
  have "inst_ok t \<and> reader u (st_rest u) \<and> st_size u \<le> length data"
  proof (cases "istate self = WIC_STATE_PARSE_HANDSHAKE")
    case True
    then have "parse_handshake h self ?s data = Some (t, u)" using t by simp
    from parse_handshake_ok [OF assms(1) True this] show ?thesis
      by (auto simp: inst_ok_idle stream_seek_def reader_ok_def reader_def stream_init_ro_def split: if_splits)
  next
    case False
    with t assms(1) show ?thesis by (auto simp: reader_ok_def reader_def stream_init_ro_def)
  qed
  then have tok: "inst_ok t" "reader u (st_rest u)" "st_size u \<le> length data" by blast+
  show ?thesis
  proof (cases "istate t = WIC_STATE_OPEN")
    case False
    with assms(2) t tok show ?thesis by (auto simp: wic_parse_def)
  next
    case True
    then obtain u' where l: "ws_loop h t u = Some (self', u')" and n: "n = (if istate self' = WIC_STATE_OPEN then stream_pos u' else length data)"
      using assms(2) t by (auto simp: wic_parse_def Let_def split: option.splits)
    have "rx_ok (t\<lparr>rx := rx_clean (rx t)\<rparr>)" using tok(1) by (simp add: inst_ok_def)
    from ws_loop_clean [OF l this] have "inst_ok self'"
    proof
      assume "rx_ok self'"
      then show ?thesis using tok(1) setup_loop [OF l] True inst_ok_rx [of self'] by (auto simp: inst_ok_def setup_of_def live_def)
    qed (use tok in simp)
    moreover have "n \<le> length data"
    proof -
      have "reader_ok u'" using ws_loop_alike [OF l tok(2,2)] by (auto simp: alike_def)
      then have "stream_pos u' \<le> length data"
        using setup_loop [OF l] tok(3) by (simp add: reader_ok_def stream_pos_def)
      with n show ?thesis by simp
    qed
    ultimately show ?thesis ..
  qed
qed

end

section \<open>Everything a program does with an instance\<close>

text \<open>One call of the interface.\<close>

inductive uses :: "'w host \<Rightarrow> 'w wic_inst \<Rightarrow> 'w wic_inst \<Rightarrow> bool" for h where
  uses_start: "wic_start h a = Some (st, b) \<Longrightarrow> uses h a b"
| uses_parse: "wic_parse h a data = Some (n, b) \<Longrightarrow> uses h a b"
| uses_call: "run_call h a c = (st, b) \<Longrightarrow> uses h a b"
| uses_set_header: "wic_set_header a name val = (ok, b) \<Longrightarrow> uses h a b"
| uses_rewind: "uses h a (wic_rewind_get_next_header a)"
| uses_next: "wic_get_next_header a = Some (r, b) \<Longrightarrow> uses h a b"

inductive_cases usesE: "uses h a b"

lemma inst_ok_api: "api_frame a b \<Longrightarrow> inst_ok a \<Longrightarrow> inst_ok b"
  by (auto elim!: api_frameE simp: inst_ok_def rx_ok_def state_le_def)

context app_contract
begin

lemma run_call_frame: "run_call h a c = (st, b) \<Longrightarrow> api_frame a b"
proof (cases c)
  case (Call_close code r)
  moreover have "api_frame a (close_with_reason h a code r (of_nat (length r)) WIC_BUFFER_CLOSE)" by (rule api_frame_rules)
  moreover assume "run_call h a c = (st, b)"
  ultimately show ?thesis by (simp add: wic_close_with_reason_def)
qed (auto simp: split_beta send_frames)

lemma inst_ok_app: "inst_ok (self\<lparr>app := a\<rparr>) = inst_ok self"
  by (simp add: inst_ok_def rx_ok_def)

lemma inst_ok_send: "inst_ok (call_send h self d t) = inst_ok self"
  using call_send_law [of self d t] by (auto simp: inst_ok_app)

lemma start_inst_ok:
  assumes "inst_ok a" "wic_start h a = Some (st, b)"
  shows "inst_ok b"
proof -
  obtain m mx e where c: "call_buffer h a 0 WIC_BUFFER_HTTP = ((m, mx), a\<lparr>app := e\<rparr>)"
    using call_buffer_law [of a 0 WIC_BUFFER_HTTP] by (metis prod.exhaust)
  obtain nn f where n: "client_nonce h (a\<lparr>app := e\<rparr>) = (nn, a\<lparr>app := f\<rparr>)"
    using client_nonce_law [of "a\<lparr>app := e\<rparr>"] by auto
  have s: "inst_ok (a\<lparr>app := x, hash := server_hash y, istate := z\<rparr>)"
    if "istate a = WIC_STATE_INIT" "z = WIC_STATE_INIT \<or> z = WIC_STATE_PARSE_HANDSHAKE" for x y z
    using assms(1) that by (auto simp: inst_ok_def rx_ok_def)
  have s': "inst_ok (a\<lparr>app := x, hash := server_hash y\<rparr>)" for x y
    using assms(1) by (auto simp: inst_ok_def rx_ok_def)
  have o: "inst_ok (a\<lparr>app := x, istate := WIC_STATE_OPEN\<rparr>)" if "istate a = WIC_STATE_READY" for x
    using assms(1) that by (auto simp: inst_ok_def rx_ok_def)
  show ?thesis
    using assms c n s s' o
    by (auto simp: wic_start_def start_client_def start_server_def Let_def inst_ok_send inst_ok_app
      split: wic_role.splits option.splits prod.splits if_splits)
qed

lemma uses_inst_ok: "uses h a b \<Longrightarrow> inst_ok a \<Longrightarrow> inst_ok b"
proof (induction rule: uses.induct)
  case (uses_start a st b)
  then show ?case using start_inst_ok by blast
next
  case (uses_parse a data n b)
  then show ?case using parse_inst_ok by blast
next
  case (uses_call a c st b)
  then show ?case using run_call_frame inst_ok_api by blast
next
  case (uses_set_header a name val ok b)
  then show ?case by (auto simp: wic_set_header_def inst_ok_def rx_ok_def split: option.splits)
next
  case (uses_rewind a)
  then show ?case by (simp add: wic_rewind_get_next_header_def inst_ok_def rx_ok_def)
next
  case (uses_next a r b)
  then show ?case
    by (auto simp: wic_get_next_header_def Let_def inst_ok_def rx_ok_def split: option.splits if_splits)
qed

lemma uses_star_inst_ok: "(uses h)\<^sup>*\<^sup>* a b \<Longrightarrow> inst_ok a \<Longrightarrow> inst_ok b"
  by (induction rule: rtranclp_induct) (auto intro: uses_inst_ok)

end

end
