(* ===== verification/Wic_Accept.thy ===== *)
theory Wic_Accept
  imports Wic_Instance
begin

text \<open>
  The HTTP parser run on the messages of the handshake, under the library's callbacks: each
  header line is handed over as one name and one value, and the empty line ends the message
  with the callback that decides. With it the client's side of the handshake from the bytes of
  the response to the open connection.
\<close>

section \<open>Running the parser\<close>

lemma loop_Re: "http_loop S data (Reexecute, r) = http_loop S data (http_step S data r)"
  by (subst http_loop.simps) (simp add: Let_def)

lemma loop_Return: "http_loop S data (Return n, r) = Some (Return n, r)"
  by (subst http_loop.simps) simp

text \<open>The run after the bytes \<open>pre\<close>, all of them in the headers.\<close>

definition at :: "bytes \<Rightarrow> http_state \<Rightarrow> (http_mark \<Rightarrow> nat option) \<Rightarrow> http_parser \<Rightarrow> 'd \<Rightarrow> u8 \<Rightarrow> 'd http_run" where
  "at pre st mk q d c =
     \<lparr>r_parser = q, r_data = d, r_state = st, r_nread = of_nat (length pre), r_lenient = False,
      r_p = length pre - 1, r_ch = c, r_mark = mk\<rparr>"

lemma at_fields [simp]:
  "r_parser (at pre st mk q d c) = q" "r_data (at pre st mk q d c) = d" "r_state (at pre st mk q d c) = st"
  "r_nread (at pre st mk q d c) = of_nat (length pre)" "r_lenient (at pre st mk q d c) = False"
  "r_p (at pre st mk q d c) = length pre - 1" "r_ch (at pre st mk q d c) = c" "r_mark (at pre st mk q d c) = mk"
  by (simp_all add: at_def)

lemma at_upd [simp]:
  "UPDATE_STATE st' (at pre st mk q d c) = at pre st' mk q d c"
  "set_parser f (at pre st mk q d c) = at pre st mk (f q) d c"
  "set_header_state h (at pre st mk q d c) = at pre st mk (q\<lparr>hp_header_state := h\<rparr>) d c"
  "set_index i (at pre st mk q d c) = at pre st mk (q\<lparr>hp_index := i\<rparr>) d c"
  "set_flag fl (at pre st mk q d c) = at pre st mk (q\<lparr>hp_flags := hp_flags q OR fl\<rparr>) d c"
  "MARK m (at pre st (\<lambda>_. None) q d c) = at pre st [m \<mapsto> length pre - 1] q d c"
  "(at pre st mk q d c)\<lparr>r_parser := q'\<rparr> = at pre st mk q' d c"
  "(at pre st mk q d c)\<lparr>r_data := d'\<rparr> = at pre st mk q d' c"
  "(at pre st mk q d c)\<lparr>r_mark := mk'\<rparr> = at pre st mk' q d c"
  by (simp_all add: at_def UPDATE_STATE_def set_parser_def set_header_state_def set_index_def set_flag_def MARK_def)

lemma step_char:
  assumes "data = pre @ x # rest" "pre \<noteq> []" "length data \<le> max_header_size" "PARSING_HEADER st"
  shows "http_loop S data (Break, at pre st mk q d c) = http_loop S data (http_step S data (at (pre @ [x]) st mk q d x))"
proof -
  have l: "length pre < 81920" "length pre - Suc 0 \<noteq> length pre + length rest" "Suc (length pre - Suc 0) = length pre"
    using assms(1,2,3) by (cases pre; simp add: max_header_size_def)+
  have n: "unat (of_nat (length pre) + 1 :: u32) = Suc (length pre)"
  proof -
    have "(of_nat (length pre) + 1 :: u32) = of_nat (Suc (length pre))" by simp
    moreover have "unat (of_nat (Suc (length pre)) :: u32) = Suc (length pre)" using l(1) by (simp only: unat_of_nat) simp
    ultimately show ?thesis by (simp add: add.commute)
  qed
  have "http_loop S data (Break, at pre st mk q d c) = http_loop S data (http_next S data ((at pre st mk q d c)\<lparr>r_p := length pre\<rparr>))"
    using assms(1) l(2,3) by (subst http_loop.simps) (simp add: Let_def)
  also have "http_next S data ((at pre st mk q d c)\<lparr>r_p := length pre\<rparr>) = http_step S data (at (pre @ [x]) st mk q d x)"
    using assms l n by (simp add: http_next_def COUNT_HEADER_SIZE_def Let_def max_header_size_def at_def add.commute)
  finally show ?thesis .
qed

lemma COUNT_ok:
  assumes "r_nread r = of_nat m" "m + v \<le> max_header_size"
  shows "COUNT_HEADER_SIZE v r k = k (r\<lparr>r_nread := of_nat (m + v)\<rparr>)"
proof -
  have "unat (of_nat (m + v) :: u32) = m + v"
    using assms(2) by (simp only: unat_of_nat) (simp add: max_header_size_def)
  then show ?thesis using assms by (simp add: COUNT_HEADER_SIZE_def Let_def)
qed

lemma COUNT_at:
  assumes "length pre' = length pre + v" "length pre' \<le> max_header_size" "p = length pre' - 1"
  shows "COUNT_HEADER_SIZE v ((at pre st mk q d c)\<lparr>r_p := p, r_ch := c'\<rparr>) k = k (at pre' st mk q d c')"
proof -
  have "(at pre st mk q d c)\<lparr>r_p := p, r_ch := c', r_nread := of_nat (length pre + v)\<rparr> = at pre' st mk q d c'"
    using assms(1,3) by (simp add: at_def)
  then show ?thesis using assms(1,2) by (subst COUNT_ok [of _ "length pre"]) simp_all
qed

section \<open>The callbacks\<close>

lemma settings_fields [simp]:
  "cb_message_begin (parse_settings r) = None" "cb_url (parse_settings r) = None" "cb_status (parse_settings r) = None"
  "cb_header_field (parse_settings r) = Some (data_callback on_header_field)"
  "cb_header_value (parse_settings r) = Some (data_callback on_header_value)"
  "cb_headers_complete (parse_settings r) = None" "cb_body (parse_settings r) = None"
  "cb_message_complete (parse_settings r) = Some (complete_callback (if r = WIC_ROLE_CLIENT then on_response_complete else on_request_complete))"
  by (simp_all add: parse_settings_def http_parser_settings_init_def)

lemma field_callback [simp]:
  "data_callback on_header_field q bs (Some s) = (0, q, Some (feed (Field_piece bs) s))"
  by (simp add: data_callback_def on_header_field_def Let_def)

lemma value_callback [simp]:
  "header_state s \<noteq> WIC_HEADER_STATE_IDLE \<Longrightarrow>
   data_callback on_header_value q bs (Some s) = (0, q, Some (feed (Value_piece bs) s))"
  by (cases "header_state s") (simp_all add: data_callback_def on_header_value_def Let_def)

lemma feed_state [simp]:
  "header_state (feed (Field_piece bs) s) = WIC_HEADER_STATE_FIELD"
  "header_state s \<noteq> WIC_HEADER_STATE_IDLE \<Longrightarrow> header_state (feed (Value_piece bs) s) = WIC_HEADER_STATE_VALUE"
  by (cases "header_state s"; simp add: on_header_field_def on_header_value_def Let_def)+

section \<open>A header line\<close>

text \<open>What the characters of a name, and of a value, do to the parser: the name and value state
  machines without positions.\<close>

fun name_run :: "bytes \<Rightarrow> http_parser \<Rightarrow> http_parser option" where
  "name_run [] q = Some q"
| "name_run (c # cs) q =
     (if hp_header_state q = h_general then Some q
      else case field_char c (TOKEN c) q of None \<Rightarrow> None | Some q \<Rightarrow> name_run cs q)"

fun value_first :: "u8 \<Rightarrow> http_parser \<Rightarrow> http_parser option" where
  "value_first c q =
     (case hp_header_state q of
        h_upgrade \<Rightarrow> Some (q\<lparr>hp_index := 0, hp_flags := hp_flags q OR F_UPGRADE, hp_header_state := h_general\<rparr>)
      | h_connection \<Rightarrow> Some (q\<lparr>hp_index := 0, hp_header_state :=
          (if LOWER c = ch8 CHR ''k'' then h_matching_connection_keep_alive
           else if LOWER c = ch8 CHR ''c'' then h_matching_connection_close
           else if LOWER c = ch8 CHR ''u'' then h_matching_connection_upgrade
           else h_matching_connection_token)\<rparr>)
      | h_general \<Rightarrow> Some (q\<lparr>hp_index := 0, hp_header_state := h_general\<rparr>)
      | _ \<Rightarrow> None)"

fun value_run :: "bytes \<Rightarrow> http_parser \<Rightarrow> http_header_state \<Rightarrow> (http_parser \<times> http_header_state) option" where
  "value_run [] q h = Some (q, h)"
| "value_run (c # cs) q h =
     (if h = h_general then Some (q, h)
      else case value_char c q h of Value q h \<Rightarrow> value_run cs q h | _ \<Rightarrow> None)"

declare name_run.simps(2) [simp del] value_first.simps [simp del] value_run.simps(2) [simp del]

definition name_ok :: "bytes \<Rightarrow> bool" where
  "name_ok n \<longleftrightarrow> n \<noteq> [] \<and> list_all (\<lambda>c. TOKEN c \<noteq> 0) n"

definition value_ok :: "bytes \<Rightarrow> bool" where
  "value_ok v \<longleftrightarrow> v \<noteq> [] \<and> list_all (\<lambda>c. c \<noteq> CR \<and> c \<noteq> LF \<and> IS_HEADER_CHAR c) v \<and> hd v \<noteq> SPACE \<and> hd v \<noteq> HTAB"

text \<open>The parser after the line, from the parser before it with the flags \<open>f\<close>.\<close>

definition line_run :: "bytes \<times> bytes \<Rightarrow> u8 \<Rightarrow> http_parser \<Rightarrow> http_parser option" where
  "line_run h f q =
     (case h of (n, v) \<Rightarrow>
        (case name_run (tl n) (q\<lparr>hp_flags := f, hp_index := 0, hp_header_state := field_start (TOKEN (hd n))\<rparr>) of
           None \<Rightarrow> None
         | Some q \<Rightarrow>
             (case value_first (hd v) (q\<lparr>hp_state := s_header_value_discard_ws\<rparr>) of
                None \<Rightarrow> None
              | Some q \<Rightarrow>
                  (case value_run (tl v) q (hp_header_state q) of
                     None \<Rightarrow> None
                   | Some (q, h) \<Rightarrow> Some (q\<lparr>hp_state := s_header_almost_done, hp_header_state := h\<rparr>)))))"

lemma TOKEN_not: "TOKEN c \<noteq> 0 \<Longrightarrow> c \<noteq> CR \<and> c \<noteq> LF \<and> c \<noteq> SPACE \<and> c \<noteq> HTAB"
  by (auto simp: TOKEN_eq)

lemma TOKEN_colon: "TOKEN (ch8 CHR '':'') = 0"
  by code_simp

lemma field_loop_name:
  assumes "data = pre @ ns @ ch8 CHR '':'' # rest" "r_p r = length pre" "list_all (\<lambda>c. TOKEN c \<noteq> 0) ns"
    "name_run ns (r_parser r) = Some q" "length data \<le> max_header_size"
  shows "field_loop data r = (True, r\<lparr>r_parser := q, r_p := length pre + length ns, r_ch := ch8 CHR '':''\<rparr>)"
  using assms
proof (induction ns arbitrary: pre r)
  case Nil
  have e: "r\<lparr>r_parser := r_parser r, r_p := r_p r, r_ch := c\<rparr> = r\<lparr>r_ch := c\<rparr>" for c by (cases r) simp
  show ?case using Nil TOKEN_colon e [of 58] by (subst field_loop.simps) (simp add: Let_def)
next
  case (Cons k ks)
  have k: "r_p r < length data" "data ! r_p r = k" "TOKEN k \<noteq> 0" using Cons.prems by (simp_all add: nth_append)
  show ?case
  proof (cases "hp_header_state (r_parser r) = h_general")
    case True
    have tw: "takeWhile (\<lambda>c. TOKEN c \<noteq> 0) (ks @ ch8 CHR '':'' # rest) = ks"
      using Cons.prems(3) TOKEN_colon by (simp add: takeWhile_append list_all_iff)
    have "take (length pre + min (length data - length pre) max_header_size) data = data" using Cons.prems(5) by simp
    then have "skip_tokens data (length pre) = length pre + length ks"
      using Cons.prems(1) tw by (simp add: skip_tokens_def)
    moreover have "r_parser r = q" using Cons.prems(4) True by (simp add: name_run.simps)
    moreover have "r\<lparr>r_parser := r_parser r, r_p := p, r_ch := c\<rparr> = r\<lparr>r_p := p, r_ch := c\<rparr>" for p c by (cases r) simp
    ultimately show ?thesis
      using Cons.prems True k TOKEN_colon by (subst field_loop.simps, subst field_loop.simps) (auto simp: Let_def nth_append)
  next
    case False
    obtain q1 where q1: "field_char k (TOKEN k) (r_parser r) = Some q1" "name_run ks q1 = Some q"
      using Cons.prems(4) False by (auto simp: name_run.simps split: option.splits)
    let ?r = "r\<lparr>r_ch := k, r_parser := q1, r_p := r_p r + 1\<rparr>"
    have "field_loop data ?r = (True, ?r\<lparr>r_parser := q, r_p := length (pre @ [k]) + length ks, r_ch := ch8 CHR '':''\<rparr>)"
      by (rule Cons.IH) (use Cons.prems q1 in simp_all)
    then show ?thesis using k False q1 by (subst field_loop.simps) (simp add: Let_def)
  qed
qed

lemma value_skip_line:
  assumes "data = pre @ k # ks @ CR # rest" "list_all (\<lambda>c. c \<noteq> CR \<and> c \<noteq> LF \<and> IS_HEADER_CHAR c) (k # ks)"
    "length data \<le> max_header_size" "p = length pre" "e = p + length ks"
  shows "value_skip b data p = (True, e, CR)"
proof -
  have "takeWhile (\<lambda>ch. ch \<noteq> CR \<and> ch \<noteq> LF \<and> (b \<or> IS_HEADER_CHAR ch)) (k # ks @ CR # rest) = k # ks"
    using assms(2) by (induction ks arbitrary: k) auto
  moreover have "take (min (length data - length pre) max_header_size) (drop (length pre) data) = k # ks @ CR # rest"
    using assms(1,3) by simp
  ultimately show ?thesis unfolding value_skip_def Let_def assms(4,5) by (simp del: takeWhile.simps add: nth_append)
qed

lemma value_line:
  assumes "data = pre @ ks @ CR # rest" "list_all (\<lambda>c. c \<noteq> CR \<and> c \<noteq> LF \<and> IS_HEADER_CHAR c) ks"
    "length data \<le> max_header_size" "r_p r = length pre" "value_run ks (r_parser r) h = Some (q, h')"
  shows "value_loop S data start h r =
    CALLBACK_DATA S data Header_value_mark (set_header_state h' (UPDATE_STATE s_header_almost_done
      (r\<lparr>r_parser := q, r_p := length pre + length ks, r_ch := CR\<rparr>))) (value_done data start h')"
  using assms
proof (induction ks arbitrary: pre r h)
  case Nil
  have e: "r\<lparr>r_parser := q, r_p := length pre, r_ch := x\<rparr> = r\<lparr>r_ch := x\<rparr>" for x using Nil by (cases r) simp
  show ?case using Nil by (subst value_loop.simps) (simp add: e)
next
  case (Cons a as)
  have a: "r_p r < length data" "data ! r_p r = a" "a \<noteq> CR" "a \<noteq> LF" "IS_HEADER_CHAR a"
    using Cons.prems by (simp_all add: nth_append)
  show ?case
  proof (cases "h = h_general")
    case True
    have s: "value_skip (r_lenient r) data (length pre) = (True, length pre + length as, CR)"
      by (rule value_skip_line) (use Cons.prems in auto)
    have "r_parser r = q" "h' = h_general" using Cons.prems(5) True by (simp_all add: value_run.simps)
    moreover have "r\<lparr>r_parser := r_parser r, r_p := p, r_ch := c\<rparr> = r\<lparr>r_p := p, r_ch := c\<rparr>" for p c by (cases r) simp
    ultimately show ?thesis
      using Cons.prems(1,4) True a s by (subst value_loop.simps, subst value_loop.simps) (auto simp: nth_append)
  next
    case False
    obtain q1 h1 where q1: "value_char a (r_parser r) h = Value q1 h1" "value_run as q1 h1 = Some (q, h')"
      using Cons.prems(5) False by (auto simp: value_run.simps split: value_result.splits)
    let ?r = "r\<lparr>r_ch := a, r_parser := q1, r_p := r_p r + 1\<rparr>"
    have "value_loop S data start h1 ?r = CALLBACK_DATA S data Header_value_mark (set_header_state h' (UPDATE_STATE
        s_header_almost_done (?r\<lparr>r_parser := q, r_p := length (pre @ [a]) + length as, r_ch := CR\<rparr>))) (value_done data start h')"
      by (rule Cons.IH) (use Cons.prems q1 in simp_all)
    then show ?thesis using a False q1 by (subst value_loop.simps) (simp add: Let_def)
  qed
qed

abbreviation no_mark :: "http_mark \<Rightarrow> nat option" where
  "no_mark \<equiv> \<lambda>_. None"


lemma line_name:
  assumes d: "data = pre @ n @ ch8 CHR '':'' # rest" and n: "name_ok n" and p: "pre \<noteq> []"
    and q: "name_run (tl n) (q\<lparr>hp_flags := f, hp_index := 0, hp_header_state := field_start (TOKEN (hd n))\<rparr>) = Some q'"
      "hp_errno q' = HPE_OK"
    and l: "length data \<le> max_header_size"
    and st: "st = s_header_value_lws \<and> f = hp_flags q OR header_flag (hp_header_state q) \<or> st = s_header_field_start \<and> f = hp_flags q"
  shows "http_loop (parse_settings r) data (Break, at pre st no_mark q (Some s) c) =
    http_loop (parse_settings r) data (Break, at (pre @ n @ ascii '':'') s_header_value_discard_ws no_mark
      (q'\<lparr>hp_state := s_header_value_discard_ws\<rparr>) (Some (feed (Field_piece n) s)) (ch8 CHR '':''))"
proof -
  obtain n1 ns where ns: "n = n1 # ns" using n by (cases n) (auto simp: name_ok_def)
  have t: "TOKEN n1 \<noteq> 0" "list_all (\<lambda>c. TOKEN c \<noteq> 0) ns" using n ns by (simp_all add: name_ok_def)
  note t1 = TOKEN_not [OF t(1)]
  let ?q1 = "q\<lparr>hp_flags := f, hp_index := 0, hp_header_state := field_start (TOKEN n1)\<rparr>" and ?S = "parse_settings r"
  let ?r1 = "at (pre @ [n1]) s_header_field [Header_field_mark \<mapsto> length pre] ?q1 (Some s) n1"
  have "http_loop ?S data (Break, at pre st no_mark q (Some s) c) =
      http_loop ?S data (http_step ?S data (at (pre @ [n1]) st no_mark q (Some s) n1))"
    by (rule step_char) (use d ns p l st in auto)
  also have "\<dots> = http_loop ?S data (Break, ?r1)"
    using st t t1 by (auto simp: http_step_def step_header_end_def step_field_def loop_Re Let_def)
  finally have one: "http_loop ?S data (Break, at pre st no_mark q (Some s) c) = http_loop ?S data (Break, ?r1)" .
  obtain x xs where x: "ns @ ch8 CHR '':'' # rest = x # xs" by (cases "ns @ ch8 CHR '':'' # rest") auto
  let ?r2 = "at (pre @ [n1] @ [x]) s_header_field [Header_field_mark \<mapsto> length pre] ?q1 (Some s) x"
  have "http_loop ?S data (Break, ?r1) = http_loop ?S data (http_step ?S data (at ((pre @ [n1]) @ [x]) s_header_field
      [Header_field_mark \<mapsto> length pre] ?q1 (Some s) x))"
    by (rule step_char) (use d ns x l in auto)
  also have "http_step ?S data (at ((pre @ [n1]) @ [x]) s_header_field [Header_field_mark \<mapsto> length pre] ?q1 (Some s) x) =
      step_field ?S data ?r2" by (simp add: http_step_def)
  finally have two: "http_loop ?S data (Break, ?r1) = http_loop ?S data (step_field ?S data ?r2)" .
  let ?r3 = "at (pre @ n @ ascii '':'') s_header_field [Header_field_mark \<mapsto> length pre] q' (Some s) (ch8 CHR '':'')"
  have fl: "field_loop data ?r2 = (True, ?r2\<lparr>r_parser := q', r_p := length (pre @ [n1]) + length ns, r_ch := ch8 CHR '':''\<rparr>)"
    by (rule field_loop_name) (use d ns t l q in simp_all)
  have c: "COUNT_HEADER_SIZE (length ns) ((?r2\<lparr>r_parser := q'\<rparr>)\<lparr>r_p := length (pre @ [n1]) + length ns, r_ch := ch8 CHR '':''\<rparr>) k = k ?r3" for k
    unfolding at_upd by (rule COUNT_at) (use d ns l in \<open>simp_all add: ascii_def\<close>)
  have "step_field ?S data ?r2 = CALLBACK_DATA ?S data Header_field_mark (UPDATE_STATE s_header_value_discard_ws ?r3) (Pair Break)"
    using fl c d ns by (simp add: step_field_def ASSERT_def Let_def)
  also have "\<dots> = (Break, at (pre @ n @ ascii '':'') s_header_value_discard_ws no_mark
      (q'\<lparr>hp_state := s_header_value_discard_ws\<rparr>) (Some (feed (Field_piece n) s)) (ch8 CHR '':''))"
    using d ns q by (simp add: CALLBACK_DATA_def CALLBACK_DATA_AT_def ASSERT_def after_callback_def Let_def ascii_def)
  finally show ?thesis using one two by simp
qed

lemma value_first_start:
  "value_first c q = Some q' \<Longrightarrow> pre \<noteq> [] \<Longrightarrow>
   value_start (at pre st no_mark q d c) = (Break, at pre s_header_value [Header_value_mark \<mapsto> length pre - 1] q' d c)"
  by (cases "hp_header_state q") (auto simp: value_first.simps value_start_def Let_def)

lemma value_first_errno: "value_first c q = Some q' \<Longrightarrow> hp_errno q' = hp_errno q"
  by (cases "hp_header_state q") (auto simp: value_first.simps)

lemma value_run_errno: "value_run cs q h = Some (q', h') \<Longrightarrow> hp_errno q' = hp_errno q"
proof (induction cs arbitrary: q h)
  case (Cons c cs)
  have "value_char c q h = Value q1 h1 \<Longrightarrow> hp_errno q1 = hp_errno q" for q1 h1
    by (cases h) (auto simp: value_char_def content_length_digit_def connection_end_def Let_def split: if_splits)
  with Cons show ?case by (fastforce simp: value_run.simps split: if_splits value_result.splits)
qed simp

lemma name_run_errno: "name_run cs q = Some q' \<Longrightarrow> hp_errno q' = hp_errno q"
proof (induction cs arbitrary: q)
  case (Cons c cs)
  have "field_char c t q = Some q1 \<Longrightarrow> hp_errno q1 = hp_errno q" for t q1
    by (cases "hp_header_state q") (auto simp: field_char_def Let_def)
  with Cons show ?case by (fastforce simp: name_run.simps split: if_splits option.splits)
qed simp

lemma line_value:
  assumes d: "data = pre @ ch8 CHR '' '' # v @ CR # LF # rest" and v: "value_ok v" and p: "pre \<noteq> []"
    and q: "hp_errno q = HPE_OK" "value_first (hd v) q = Some q1" "value_run (tl v) q1 (hp_header_state q1) = Some (q', h')"
    and l: "length data \<le> max_header_size" and s: "header_state s \<noteq> WIC_HEADER_STATE_IDLE"
  shows "http_loop (parse_settings r) data (Break, at pre s_header_value_discard_ws no_mark q (Some s) c) =
    http_loop (parse_settings r) data (Break, at (pre @ ascii '' '' @ v @ CRLF) s_header_value_lws no_mark
      (q'\<lparr>hp_state := s_header_almost_done, hp_header_state := h'\<rparr>) (Some (feed (Value_piece v) s)) LF)"
proof -
  obtain v1 vs where vs: "v = v1 # vs" using v by (cases v) (auto simp: value_ok_def)
  have t: "v1 \<noteq> CR" "v1 \<noteq> LF" "v1 \<noteq> SPACE" "v1 \<noteq> HTAB" "list_all (\<lambda>c. c \<noteq> CR \<and> c \<noteq> LF \<and> IS_HEADER_CHAR c) vs"
    using v vs by (simp_all add: value_ok_def)
  have ok: "hp_errno q' = HPE_OK" using q value_first_errno value_run_errno by metis
  let ?S = "parse_settings r" and ?a = "pre @ ascii '' ''" and ?mk = "[Header_value_mark \<mapsto> length pre + 1]"
  have one: "http_loop ?S data (Break, at pre s_header_value_discard_ws no_mark q (Some s) c) =
      http_loop ?S data (Break, at ?a s_header_value_discard_ws no_mark q (Some s) SPACE)"
    by (subst step_char [of data pre "ch8 CHR '' ''" "v @ CR # LF # rest"])
      (use d p l in \<open>simp_all add: http_step_def step_value_start_def ascii_def\<close>)
  have st: "value_start (at (?a @ [v1]) s_header_value_discard_ws no_mark q (Some s) v1) =
      (Break, at (?a @ [v1]) s_header_value ?mk q1 (Some s) v1)"
    using value_first_start [of v1 q q1 "?a @ [v1]"] q(2) vs by (simp add: ascii_def)
  have two: "http_loop ?S data (Break, at ?a s_header_value_discard_ws no_mark q (Some s) SPACE) =
      http_loop ?S data (Break, at (?a @ [v1]) s_header_value ?mk q1 (Some s) v1)"
    by (subst step_char [of data ?a v1 "vs @ CR # LF # rest"])
      (use d vs l t st in \<open>simp_all add: http_step_def step_value_start_def Let_def ascii_def\<close>)
  obtain x xs where x: "vs @ CR # LF # rest = x # xs" by (cases "vs @ CR # LF # rest") auto
  let ?r = "at (?a @ [v1] @ [x]) s_header_value ?mk q1 (Some s) x" and ?b = "?a @ v @ [CR]"
  have three: "http_loop ?S data (Break, at (?a @ [v1]) s_header_value ?mk q1 (Some s) v1) =
      http_loop ?S data (value_loop ?S data (length ?a + 1) (hp_header_state q1) ?r)"
    by (subst step_char [of data "?a @ [v1]" x xs]) (use d vs l x in \<open>simp_all add: http_step_def step_value_def ascii_def\<close>)
  have f: "value_loop ?S data (length ?a + 1) (hp_header_state q1) ?r = CALLBACK_DATA ?S data Header_value_mark
      (set_header_state h' (UPDATE_STATE s_header_almost_done
        (?r\<lparr>r_parser := q', r_p := length (?a @ [v1]) + length vs, r_ch := CR\<rparr>)))
      (value_done data (length ?a + 1) h')"
    by (rule value_line) (use d vs t l q in \<open>simp_all add: ascii_def\<close>)
  let ?q4 = "q'\<lparr>hp_state := s_header_almost_done, hp_header_state := h'\<rparr>"
  have c: "COUNT_HEADER_SIZE (length vs) ((at (?a @ [v1] @ [x]) s_header_almost_done no_mark ?q4 (Some (feed (Value_piece v) s)) x)
      \<lparr>r_p := length (?a @ [v1]) + length vs, r_ch := CR\<rparr>) k =
      k (at ?b s_header_almost_done no_mark ?q4 (Some (feed (Value_piece v) s)) CR)" for k
    by (rule COUNT_at) (use d vs l in \<open>simp_all add: ascii_def\<close>)
  have four: "value_loop ?S data (length ?a + 1) (hp_header_state q1) ?r =
      (Break, at ?b s_header_almost_done no_mark ?q4 (Some (feed (Value_piece v) s)) CR)"
    unfolding f using d vs ok s c
    by (simp add: CALLBACK_DATA_def CALLBACK_DATA_AT_def ASSERT_def after_callback_def value_done_def Let_def ascii_def
      set_header_state_def set_parser_def UPDATE_STATE_def at_def)
  have five: "http_loop ?S data (Break, at ?b s_header_almost_done no_mark ?q4 (Some (feed (Value_piece v) s)) CR) =
      http_loop ?S data (Break, at (pre @ ascii '' '' @ v @ CRLF) s_header_value_lws no_mark ?q4 (Some (feed (Value_piece v) s)) LF)"
    by (subst step_char [of data ?b LF rest])
      (use d p l in \<open>simp_all add: http_step_def step_header_end_def ascii_def CRLF_def\<close>)
  show ?thesis unfolding one two three four five ..
qed

definition one_piece :: "bytes \<times> bytes \<Rightarrow> bytes list \<times> bytes list" where
  "one_piece h = ([fst h], [snd h])"

text \<open>A whole line.\<close>

lemma header_line:
  assumes d: "data = pre @ header_lines [h] @ rest" and h: "name_ok (fst h)" "value_ok (snd h)" and p: "pre \<noteq> []"
    and q: "line_run h f q = Some q'" "hp_errno q = HPE_OK" and l: "length data \<le> max_header_size"
    and st: "st = s_header_value_lws \<and> f = hp_flags q OR header_flag (hp_header_state q) \<or> st = s_header_field_start \<and> f = hp_flags q"
  shows "http_loop (parse_settings r) data (Break, at pre st no_mark q (Some s) c) =
    http_loop (parse_settings r) data (Break, at (pre @ header_lines [h]) s_header_value_lws no_mark
      q' (Some (fold feed (events_of (one_piece h)) s)) LF)"
proof -
  obtain n v where nv: "h = (n, v)" by fastforce
  obtain q1 q2 q3 h' where run:
    "name_run (tl n) (q\<lparr>hp_flags := f, hp_index := 0, hp_header_state := field_start (TOKEN (hd n))\<rparr>) = Some q1"
    "value_first (hd v) (q1\<lparr>hp_state := s_header_value_discard_ws\<rparr>) = Some q2"
    "value_run (tl v) q2 (hp_header_state q2) = Some (q3, h')"
    "q' = q3\<lparr>hp_state := s_header_almost_done, hp_header_state := h'\<rparr>"
    using q(1) nv by (auto simp: line_run_def split: option.splits)
  have e: "hp_errno q1 = HPE_OK" using name_run_errno [OF run(1)] q(2) by simp
  let ?S = "parse_settings r" and ?s = "feed (Field_piece n) s" and ?a = "pre @ n @ ascii '':''"
  have "http_loop ?S data (Break, at pre st no_mark q (Some s) c) =
      http_loop ?S data (Break, at ?a s_header_value_discard_ws no_mark (q1\<lparr>hp_state := s_header_value_discard_ws\<rparr>)
        (Some ?s) (ch8 CHR '':''))"
    by (rule line_name [OF _ _ p run(1) e l st]) (use d nv h in \<open>simp_all add: header_lines_def ascii_def\<close>)
  also have "\<dots> = http_loop ?S data (Break, at (?a @ ascii '' '' @ v @ CRLF) s_header_value_lws no_mark q' (Some (feed (Value_piece v) ?s)) LF)"
    unfolding run(4)
    by (rule line_value [OF _ _ _ _ run(2,3)]) (use d nv p e h l in \<open>simp_all add: header_lines_def ascii_def CRLF_def del: feed.simps\<close>)
  also have "?a @ ascii '' '' @ v @ CRLF = pre @ header_lines [h]" using nv by (simp add: header_lines_def ascii_def)
  finally show ?thesis using nv by (simp add: events_of_def one_piece_def del: feed.simps)
qed

section \<open>Fixed text\<close>

text \<open>The same position by its number, for texts that are run character by character.\<close>

definition atn :: "nat \<Rightarrow> http_state \<Rightarrow> (http_mark \<Rightarrow> nat option) \<Rightarrow> http_parser \<Rightarrow> 'd \<Rightarrow> u8 \<Rightarrow> 'd http_run" where
  "atn n st mk q d c =
     \<lparr>r_parser = q, r_data = d, r_state = st, r_nread = of_nat n, r_lenient = False,
      r_p = n - 1, r_ch = c, r_mark = mk\<rparr>"

lemma at_atn: "at pre st mk q d c = atn (length pre) st mk q d c" by (simp add: at_def atn_def)

lemma atn_fields [simp]:
  "r_parser (atn n st mk q d c) = q" "r_data (atn n st mk q d c) = d" "r_state (atn n st mk q d c) = st"
  "r_nread (atn n st mk q d c) = of_nat n" "r_lenient (atn n st mk q d c) = False"
  "r_p (atn n st mk q d c) = n - 1" "r_ch (atn n st mk q d c) = c" "r_mark (atn n st mk q d c) = mk"
  by (simp_all add: atn_def)

lemma atn_upd [simp]:
  "UPDATE_STATE st' (atn n st mk q d c) = atn n st' mk q d c"
  "set_parser f (atn n st mk q d c) = atn n st mk (f q) d c"
  "set_header_state h (atn n st mk q d c) = atn n st mk (q\<lparr>hp_header_state := h\<rparr>) d c"
  "set_index i (atn n st mk q d c) = atn n st mk (q\<lparr>hp_index := i\<rparr>) d c"
  "set_flag fl (atn n st mk q d c) = atn n st mk (q\<lparr>hp_flags := hp_flags q OR fl\<rparr>) d c"
  "MARK m (atn n st (\<lambda>_. None) q d c) = atn n st [m \<mapsto> n - 1] q d c"
  "(atn n st mk q d c)\<lparr>r_parser := q'\<rparr> = atn n st mk q' d c"
  "(atn n st mk q d c)\<lparr>r_data := d'\<rparr> = atn n st mk q d' c"
  "(atn n st mk q d c)\<lparr>r_mark := mk'\<rparr> = atn n st mk' q d c"
  by (simp_all add: atn_def UPDATE_STATE_def set_parser_def set_header_state_def set_index_def set_flag_def MARK_def)


lemma step_atn:
  assumes "n < length data" "0 < n" "length data \<le> max_header_size" "PARSING_HEADER st"
  shows "http_loop S data (Break, atn n st mk q d c) = http_loop S data (http_step S data (atn (n + 1) st mk q d (data ! n)))"
proof -
  have "data = take n data @ data ! n # drop (Suc n) data" using assms(1) by (simp add: id_take_nth_drop)
  moreover have "take n data \<noteq> []" "length (take n data) = n" using assms(1,2) by auto
  ultimately show ?thesis using step_char [of data "take n data" "data ! n" "drop (Suc n) data" st S mk q d c] assms(3,4)
    by (simp add: at_atn)
qed

lemma prefix_nth: "data = l @ rest \<Longrightarrow> length l = k \<Longrightarrow> n < k \<Longrightarrow> data ! n = l ! n"
  by (simp add: nth_append)

lemma prefix_take: "data = l @ rest \<Longrightarrow> length l = k \<Longrightarrow> n \<le> k \<Longrightarrow> take n data = take n l"
  by simp

lemma prefix_less: "data = l @ rest \<Longrightarrow> length l = k \<Longrightarrow> n < k \<Longrightarrow> n < length data"
  by simp


section \<open>All header lines, and the end of the message\<close>

fun lines_run :: "(bytes \<times> bytes) list \<Rightarrow> http_parser \<Rightarrow> http_parser option" where
  "lines_run [] q = Some q"
| "lines_run (h # hs) q =
     (case line_run h (hp_flags q OR header_flag (hp_header_state q)) q of None \<Rightarrow> None | Some q \<Rightarrow> lines_run hs q)"

lemma lines_run_append: "lines_run (xs @ ys) q = (case lines_run xs q of None \<Rightarrow> None | Some q \<Rightarrow> lines_run ys q)"
  by (induction xs arbitrary: q) (auto split: option.split)

definition line_ok :: "bytes \<times> bytes \<Rightarrow> bool" where
  "line_ok h \<longleftrightarrow> name_ok (fst h) \<and> value_ok (snd h)"

definition fed :: "(bytes \<times> bytes) list \<Rightarrow> 'w wic_inst \<Rightarrow> 'w wic_inst" where
  "fed hs self = fold feed (concat (map events_of (map one_piece hs))) self"

lemma fed_simps [simp]: "fed [] s = s" "fed (h # hs) s = fed hs (fold feed (events_of (one_piece h)) s)"
  by (simp_all add: fed_def)

lemma line_run_errno: "line_run h f q = Some q' \<Longrightarrow> hp_errno q' = hp_errno q"
  by (cases h) (auto simp: line_run_def split: option.splits dest!: name_run_errno value_first_errno value_run_errno)

lemma header_lines_run:
  assumes "data = pre @ header_lines hs @ rest" "list_all line_ok hs" "pre \<noteq> []" "hp_errno q = HPE_OK"
    "length data \<le> max_header_size" "lines_run hs q = Some q'"
  shows "http_loop (parse_settings r) data (Break, at pre s_header_value_lws no_mark q (Some s) LF) =
    http_loop (parse_settings r) data (Break, at (pre @ header_lines hs) s_header_value_lws no_mark q' (Some (fed hs s)) LF)"
  using assms(1-4,6)
proof (induction hs arbitrary: pre s q)
  case Nil
  then show ?case by (simp add: header_lines_def)
next
  case (Cons h hs)
  have hl: "header_lines (h # hs) = header_lines [h] @ header_lines hs" by (simp add: header_lines_def)
  let ?f = "hp_flags q OR header_flag (hp_header_state q)"
  obtain q1 where q1: "line_run h ?f q = Some q1" "lines_run hs q1 = Some q'"
    using Cons.prems(5) by (auto split: option.splits)
  have "http_loop (parse_settings r) data (Break, at pre s_header_value_lws no_mark q (Some s) LF) =
      http_loop (parse_settings r) data (Break, at (pre @ header_lines [h]) s_header_value_lws no_mark q1
        (Some (fold feed (events_of (one_piece h)) s)) LF)"
    by (rule header_line [of _ _ _ "header_lines hs @ rest", OF _ _ _ _ q1(1)])
      (use Cons.prems hl assms(5) in \<open>simp_all add: line_ok_def\<close>)
  also have "\<dots> = http_loop (parse_settings r) data (Break, at ((pre @ header_lines [h]) @ header_lines hs) s_header_value_lws no_mark q'
        (Some (fed hs (fold feed (events_of (one_piece h)) s))) LF)"
    by (rule Cons.IH [OF _ _ _ _ q1(2)]) (use Cons.prems hl line_run_errno [OF q1(1)] in simp_all)
  finally show ?case using hl by simp
qed

text \<open>The empty line after which the connection is another protocol's: the callback decides, and the
  parser stops right there.\<close>

definition ended :: "http_parser \<Rightarrow> http_parser" where
  "ended q = (let q = q\<lparr>hp_flags := hp_flags q OR header_flag (hp_header_state q)\<rparr>;
                  q = q\<lparr>hp_upgrade := upgrade_wanted q, hp_nread := 0\<rparr>
              in q\<lparr>hp_state := NEW_MESSAGE q\<rparr>)"

lemma message_end:
  assumes d: "data = pre @ CRLF @ rest" and p: "pre \<noteq> []" and l: "length data \<le> max_header_size"
    and q: "hp_errno q = HPE_OK" "hp_upgrade (ended q)" "\<not> has_body (ended q)" "\<not> has_flag F_TRAILING (ended q)"
      "\<not> has_transfer_encoding q"
    and f: "(if side = WIC_ROLE_CLIENT then on_response_complete else on_request_complete) (ended q) s = Some (v, s')"
  shows "\<exists>r. http_loop (parse_settings side) data (Break, at pre s_header_value_lws no_mark q (Some s) LF) =
      Some (Return (length pre + 2), r) \<and> r_data r = Some s' \<and>
      hp_errno (r_parser r) = (if v = 0 then HPE_OK else HPE_CB_message_complete)"
proof -
  let ?S = "parse_settings side" and ?b = "pre @ CRLF"
  let ?q1 = "q\<lparr>hp_flags := hp_flags q OR header_flag (hp_header_state q)\<rparr>"
  have one: "http_loop ?S data (Break, at pre s_header_value_lws no_mark q (Some s) LF) =
      http_loop ?S data (Break, at (pre @ [CR]) s_headers_almost_done no_mark ?q1 (Some s) CR)"
    by (subst step_char [of data pre CR "LF # rest"])
      (use d p l in \<open>simp_all add: http_step_def step_header_end_def step_field_def loop_Re Let_def CRLF_def\<close>)
  have two: "http_loop ?S data (Break, at (pre @ [CR]) s_headers_almost_done no_mark ?q1 (Some s) CR) =
      http_loop ?S data (http_step ?S data (at ?b s_headers_almost_done no_mark ?q1 (Some s) LF))"
    by (subst step_char [of data "pre @ [CR]" LF rest]) (use d p l in \<open>simp_all add: CRLF_def\<close>)
  have uw: "upgrade_wanted ?q1" using q(2) by (simp add: ended_def Let_def)
  let ?q2 = "?q1\<lparr>hp_upgrade := True\<rparr>" and ?c = "complete_callback (if side = WIC_ROLE_CLIENT then on_response_complete else on_request_complete)"
  have tr: "\<not> has_flag F_TRAILING ?q1" "\<not> has_transfer_encoding ?q1" "hp_upgrade ?q2" "\<not> has_body ?q2"
    using q(2-5) by (simp_all add: ended_def Let_def uw has_flag_def has_transfer_encoding_def has_body_def)
  have three: "http_step ?S data (at ?b s_headers_almost_done no_mark ?q1 (Some s) LF) =
      (Reexecute, at ?b s_headers_done no_mark ?q2 (Some s) LF)"
    using tr(1,2) q(1) uw by (simp add: http_step_def step_headers_almost_done_def STRICT_CHECK_def call_headers_complete_def Let_def)
  have cb: "?c (ended q) (Some s) = (v, ended q, Some s')" using f by (simp add: complete_callback_def)
  let ?r = "(at ?b (NEW_MESSAGE (?q2\<lparr>hp_nread := 0\<rparr>)) no_mark (?q2\<lparr>hp_nread := 0\<rparr>) (Some s) LF)\<lparr>r_nread := 0\<rparr>"
  have e: "(?q2\<lparr>hp_nread := 0\<rparr>)\<lparr>hp_state := NEW_MESSAGE (?q2\<lparr>hp_nread := 0\<rparr>)\<rparr> = ended q"
    by (simp add: ended_def Let_def uw)
  have four: "http_step ?S data (at ?b s_headers_done no_mark ?q2 (Some s) LF) =
      after_callback (v, ended q, Some s') HPE_CB_message_complete (length pre + 2) ?r (\<lambda>r. RETURN (r_p r + 1) r)"
    using tr(3,4) q(1) cb
    by (simp add: http_step_def step_headers_done_def STRICT_CHECK_def Let_def message_complete_def CALLBACK_NOTIFY_def
      CALLBACK_NOTIFY_AT_def ASSERT_def reset_nread_def has_body_def has_flag_def CRLF_def e at_def set_parser_def UPDATE_STATE_def)
  have "hp_errno (ended q) = HPE_OK" using q(1) by (simp add: ended_def Let_def)
  then show ?thesis unfolding one two three loop_Re four
    by (cases "v = 0") (simp_all add: after_callback_def RETURN_def SET_ERRNO_def UPDATE_STATE_def loop_Return CRLF_def at_def)
qed

section \<open>The response of a server\<close>

definition response_line :: bytes where
  "response_line = ascii ''HTTP/1.1 101 Switching Protocols'' @ CRLF"

definition switching :: http_parser where
  "switching = (http_parser_init HTTP_RESPONSE)\<lparr>hp_content_length := - 1, hp_major := 1, hp_minor := 1, hp_status_code := 101\<rparr>"

lemma at_response_line: "at response_line st mk q d c = atn 34 st mk q d c"
  by (simp add: at_atn response_line_def ascii_def CRLF_def)

lemma response_line_run:
  assumes "data = response_line @ rest" "length data \<le> max_header_size" "rest \<noteq> []"
  shows "http_loop (parse_settings r) data (http_next (parse_settings r) data (http_run_start (http_parser_init HTTP_RESPONSE) (Some s))) =
    http_loop (parse_settings r) data (Break, at response_line s_header_field_start no_mark switching (Some s) LF)"
proof -
  have data: "data = [72, 84, 84, 80, 47, 49, 46, 49, 32, 49, 48, 49, 32, 83, 119, 105, 116, 99, 104, 105, 110, 103, 32, 80, 114, 111, 116, 111, 99, 111, 108, 115, 13, 10] @ rest" (is "_ = ?l @ rest")
    using assms(1) by (simp add: response_line_def ascii_def CRLF_def)
  have l: "n < length data" if "n < 34" for n using that by (intro prefix_less [OF data, of 34]) simp_all
  have nth: "data ! n = ?l ! n" if "n < 34" for n using that by (intro prefix_nth [OF data, of 34]) simp_all
  have "http_next (parse_settings r) data (http_run_start (http_parser_init HTTP_RESPONSE) (Some s)) =
     (Break, atn 1 s_res_H no_mark ((http_parser_init HTTP_RESPONSE)\<lparr>hp_content_length := - 1\<rparr>) (Some s) 72)"
    using data by (simp add: fun_eq_iff http_next_def http_run_start_def http_parser_init_def first_mark_def COUNT_HEADER_SIZE_def
      max_header_size_def http_step_def step_start_def Let_def new_message_def CALLBACK_NOTIFY_def CALLBACK_NOTIFY_AT_def
      ASSERT_def set_parser_def UPDATE_STATE_def atn_def)
  then show ?thesis
    by (simp add: at_response_line step_atn l assms(2) http_step_def step_status_def Let_def expect_def STRICT_CHECK_def nth version_digit_def
      version_char_def IS_NUM_def set_major_def set_minor_def switching_def http_parser_init_def CALLBACK_DATA_def
      CALLBACK_DATA_AT_def ASSERT_def del: One_nat_def)
qed

text \<open>The two headers that ask for the upgrade, and the flags they leave.\<close>

definition upgrade_headers :: "(bytes \<times> bytes) list" where
  "upgrade_headers = [(ascii ''Upgrade'', ascii ''websocket''), (ascii ''Connection'', ascii ''upgrade'')]"

definition upgraded :: http_parser where
  "upgraded = switching\<lparr>hp_flags := F_UPGRADE, hp_state := s_header_almost_done, hp_index := 6, hp_header_state := h_connection_upgrade\<rparr>"

lemma upgrade_run:
  "line_run (hd upgrade_headers) 0 switching =
    Some (switching\<lparr>hp_flags := F_UPGRADE, hp_index := 0, hp_state := s_header_almost_done, hp_header_state := h_general\<rparr>)"
  "lines_run (tl upgrade_headers) (switching\<lparr>hp_flags := F_UPGRADE, hp_index := 0, hp_state := s_header_almost_done, hp_header_state := h_general\<rparr>) =
    Some upgraded"
  by code_simp+

lemma upgrade_lines_ok: "list_all line_ok upgrade_headers"
  by code_simp

text \<open>The name of a header the parser knows nothing about.\<close>

definition plain_line :: "bytes \<times> bytes \<Rightarrow> bool" where
  "plain_line h \<longleftrightarrow> line_ok h \<and> field_start (TOKEN (hd (fst h))) = h_general"

lemma name_run_general: "hp_header_state q = h_general \<Longrightarrow> name_run ns q = Some q"
  by (cases ns) (simp_all add: name_run.simps)

lemma value_run_general: "value_run vs q h_general = Some (q, h_general)"
  by (cases vs) (simp_all add: value_run.simps)

lemma plain_name_run:
  "plain_line h \<Longrightarrow> line_run h f q =
    Some (q\<lparr>hp_flags := f, hp_index := 0, hp_state := s_header_almost_done, hp_header_state := h_general\<rparr>)"
  by (cases h) (simp add: plain_line_def line_run_def name_run_general value_run_general value_first.simps)

lemma plain_lines_run:
  "hs \<noteq> [] \<Longrightarrow> list_all plain_line hs \<Longrightarrow> lines_run hs q =
    Some (q\<lparr>hp_flags := hp_flags q OR header_flag (hp_header_state q), hp_index := 0, hp_state := s_header_almost_done,
      hp_header_state := h_general\<rparr>)"
proof (induction hs arbitrary: q)
  case (Cons h hs)
  then show ?case
    by (cases "hs = []") (simp_all add: plain_name_run header_flag_def connection_flag_def)
qed simp


definition server_headers :: "bytes \<Rightarrow> (bytes \<times> bytes) list \<Rightarrow> (bytes \<times> bytes) list" where
  "server_headers v hs = upgrade_headers @ (ascii ''Sec-WebSocket-Accept'', v) # hs"

definition agreed :: http_parser where
  "agreed = upgraded\<lparr>hp_flags := F_UPGRADE OR F_CONNECTION_UPGRADE, hp_index := 0, hp_header_state := h_general\<rparr>"

lemma response_text_lines: "response_text v hs = response_line @ header_lines (server_headers v hs) @ CRLF"
  by (simp add: response_text_def response_line_def server_headers_def upgrade_headers_def)

lemma agreed_ended:
  "hp_upgrade (ended agreed)" "\<not> has_body (ended agreed)" "\<not> has_flag F_TRAILING (ended agreed)"
  "\<not> has_transfer_encoding agreed" "hp_errno agreed = HPE_OK" "hp_status_code (ended agreed) = 101"
  by code_simp+

lemma accept_name: "name_ok (ascii ''Sec-WebSocket-Accept'')" "field_start (TOKEN (hd (ascii ''Sec-WebSocket-Accept''))) = h_general"
  by code_simp+

lemma execute_loop:
  assumes "hp_errno q = HPE_OK" "data \<noteq> []" "http_loop S data (http_next S data (http_run_start q d)) = Some (Return n, r)"
  shows "http_parser_execute S q d data = Some (Some n, r_parser r, r_data r)"
  using assms by (simp add: http_parser_execute_def Let_def)

lemma response_execute:
  assumes v: "value_ok v" and hs: "list_all plain_line hs" and l: "length (response_text v hs @ rest) \<le> max_header_size"
    and c: "on_response_complete (ended agreed) (fed (server_headers v hs) s) = Some (x, s')"
  shows "\<exists>q. http_parser_execute (parse_settings WIC_ROLE_CLIENT) (http_parser_init HTTP_RESPONSE) (Some s) (response_text v hs @ rest) =
      Some (Some (length (response_text v hs)), q, Some s') \<and> hp_errno q = (if x = 0 then HPE_OK else HPE_CB_message_complete)"
proof -
  let ?S = "parse_settings WIC_ROLE_CLIENT" and ?data = "response_text v hs @ rest"
  let ?h1 = "hd upgrade_headers" and ?ls = "tl upgrade_headers @ (ascii ''Sec-WebSocket-Accept'', v) # hs"
  let ?q1 = "switching\<lparr>hp_flags := F_UPGRADE, hp_index := 0, hp_state := s_header_almost_done, hp_header_state := h_general\<rparr>"
  have split: "header_lines (server_headers v hs) = header_lines [?h1] @ header_lines ?ls"
    by (simp add: server_headers_def upgrade_headers_def header_lines_def)
  have acc: "plain_line (ascii ''Sec-WebSocket-Accept'', v)" using accept_name v by (simp add: plain_line_def line_ok_def)
  have "lines_run ?ls ?q1 = lines_run ((ascii ''Sec-WebSocket-Accept'', v) # hs) upgraded"
    unfolding lines_run_append upgrade_run(2) by simp
  also have "\<dots> = Some agreed"
    by (subst plain_lines_run) (use acc hs in \<open>simp_all add: agreed_def upgraded_def switching_def header_flag_def connection_flag_def\<close>)
  finally have run: "lines_run ?ls ?q1 = Some agreed" .
  have ok: "list_all line_ok ?ls" "line_ok ?h1"
    using upgrade_lines_ok acc hs by (auto simp: upgrade_headers_def plain_line_def list_all_iff)
  have one: "http_loop ?S ?data (http_next ?S ?data (http_run_start (http_parser_init HTTP_RESPONSE) (Some s))) =
      http_loop ?S ?data (Break, at response_line s_header_field_start no_mark switching (Some s) LF)"
    by (rule response_line_run [of _ "header_lines (server_headers v hs) @ CRLF @ rest"])
      (use l in \<open>simp_all add: response_text_lines CRLF_def\<close>)
  have ne: "response_line \<noteq> []" by (simp add: response_line_def CRLF_def)
  have two: "http_loop ?S ?data (Break, at response_line s_header_field_start no_mark switching (Some s) LF) =
      http_loop ?S ?data (Break, at (response_line @ header_lines [?h1]) s_header_value_lws no_mark ?q1
        (Some (fold feed (events_of (one_piece ?h1)) s)) LF)"
    by (rule header_line [of _ _ _ "header_lines ?ls @ CRLF @ rest", OF _ _ _ ne upgrade_run(1)])
      (use ok l split in \<open>simp_all add: line_ok_def response_text_lines switching_def http_parser_init_def\<close>)
  have three: "http_loop ?S ?data (Break, at (response_line @ header_lines [?h1]) s_header_value_lws no_mark ?q1
        (Some (fold feed (events_of (one_piece ?h1)) s)) LF) =
      http_loop ?S ?data (Break, at ((response_line @ header_lines [?h1]) @ header_lines ?ls) s_header_value_lws no_mark agreed
        (Some (fed ?ls (fold feed (events_of (one_piece ?h1)) s))) LF)"
    by (rule header_lines_run [of _ _ _ "CRLF @ rest", OF _ ok(1) _ _ _ run])
      (use ne l split in \<open>simp_all add: response_text_lines switching_def http_parser_init_def\<close>)
  have fd: "fed ?ls (fold feed (events_of (one_piece ?h1)) s) = fed (server_headers v hs) s"
    by (simp add: server_headers_def upgrade_headers_def)
  have pre: "(response_line @ header_lines [?h1]) @ header_lines ?ls = response_line @ header_lines (server_headers v hs)"
    using split by simp
  obtain r where r: "http_loop ?S ?data (Break, at (response_line @ header_lines (server_headers v hs)) s_header_value_lws no_mark agreed
        (Some (fed (server_headers v hs) s)) LF) = Some (Return (length (response_line @ header_lines (server_headers v hs)) + 2), r)"
    "r_data r = Some s'" "hp_errno (r_parser r) = (if x = 0 then HPE_OK else HPE_CB_message_complete)"
    using message_end [of ?data "response_line @ header_lines (server_headers v hs)" rest agreed WIC_ROLE_CLIENT
        "fed (server_headers v hs) s" x s', OF _ _ l agreed_ended(5,1,2,3,4)] c ne
    by (auto simp: response_text_lines)
  have "http_loop ?S ?data (http_next ?S ?data (http_run_start (http_parser_init HTTP_RESPONSE) (Some s))) =
      Some (Return (length (response_text v hs)), r)"
    unfolding one two three fd pre r(1) by (simp add: response_text_lines CRLF_def)
  moreover have "?data \<noteq> []" "hp_errno (http_parser_init HTTP_RESPONSE) = HPE_OK"
    using ne by (simp_all add: response_text_lines http_parser_init_def)
  ultimately have "http_parser_execute ?S (http_parser_init HTTP_RESPONSE) (Some s) ?data =
      Some (Some (length (response_text v hs)), r_parser r, r_data r)" by (intro execute_loop)
  with r(2,3) show ?thesis by (intro exI [of _ "r_parser r"]) simp
qed


section \<open>The client\<close>

text \<open>Headers that were reported in pieces are held once the message is complete.\<close>

lemma stored_headers:
  assumes "hs \<noteq> []" "list_all (\<lambda>h. fst h \<noteq> [] \<and> snd h \<noteq> [] \<and> header_wf (joined h)) hs"
    "header_state self = WIC_HEADER_STATE_IDLE" "st_data (rx_s (rx self)) = []"
    "can_store self (length (store (map joined hs)))"
  shows "holds (end_headers (fold feed (concat (map events_of hs)) self)) (map joined hs)"
proof -
  let ?t = "fold feed (concat (map events_of hs)) self"
  have "list_all (\<lambda>h. fst h \<noteq> [] \<and> snd h \<noteq> []) hs" using assms(2) by (simp add: list_all_iff)
  from feed_headers [OF this _ _ assms(1), of self] assms(3-5)
  have t: "header_state ?t = WIC_HEADER_STATE_VALUE" "can_store ?t 1" "st_data (rx_s (rx ?t)) @ [0] = store (map joined hs)"
    by (simp_all add: closing_def Let_def)
  with can_store_terminated [OF t(2)] assms(2) show ?thesis by (simp add: holds_def end_headers_def list_all_iff)
qed

lemma touched_events: "touched a b \<Longrightarrow> touched a (fold feed es b)"
  by (induction es arbitrary: b) (simp_all add: touched_feed)

lemma fed_keeps:
  "hash (fed hs s) = hash s" "role (fed hs s) = role s" "redirect_url (fed hs s) = redirect_url s"
  using touched_events [OF touched_refl, of s "concat (map events_of (map one_piece hs))"]
  by (auto simp: fed_def touched_def)

lemma line_ok_wf: "line_ok h \<Longrightarrow> fst h \<noteq> [] \<and> snd h \<noteq> [] \<and> header_wf h"
  by (auto simp: line_ok_def name_ok_def value_ok_def header_wf_def cstring_def list_all_iff TOKEN_eq IS_HEADER_CHAR_def)

lemma one_piece_joined [simp]: "joined (one_piece h) = h" "map joined (map one_piece hs) = hs"
  by (simp_all add: joined_def one_piece_def comp_def)

lemma fed_holds:
  assumes "hs \<noteq> []" "list_all line_ok hs" "header_state self = WIC_HEADER_STATE_IDLE" "st_data (rx_s (rx self)) = []"
    "can_store self (length (store hs))"
  shows "holds (end_headers (fed hs self)) hs"
  using stored_headers [of "map one_piece hs" self] assms line_ok_wf
  by (auto simp: fed_def list_all_iff one_piece_def joined_def comp_def)

text \<open>What such a response decides.\<close>

lemma server_lookups:
  "lookup (server_headers v hs) (ascii ''upgrade'') = Some (ascii ''websocket'')"
  "lookup (server_headers v hs) (ascii ''Sec-WebSocket-Accept'') = Some v"
proof -
  have ne: "map to_lower (ascii ''Upgrade'') = map to_lower (ascii ''upgrade'')"
    "map to_lower (ascii ''Upgrade'') \<noteq> map to_lower (ascii ''Sec-WebSocket-Accept'')"
    "map to_lower (ascii ''Connection'') \<noteq> map to_lower (ascii ''Sec-WebSocket-Accept'')" by code_simp+
  show "lookup (server_headers v hs) (ascii ''upgrade'') = Some (ascii ''websocket'')"
    "lookup (server_headers v hs) (ascii ''Sec-WebSocket-Accept'') = Some v"
    using ne by (simp_all add: lookup_def server_headers_def upgrade_headers_def)
qed

lemma client_decides:
  assumes "value_ok v" "list_all plain_line hs" "header_state self = WIC_HEADER_STATE_IDLE" "st_data (rx_s (rx self)) = []"
    "can_store self (length (store (server_headers v hs)))" "length (hash self) = 20"
  shows "on_response_complete (ended agreed) (fed (server_headers v hs) self) =
    Some (if v = rfc4648_encode (hash self) then 0 else - 1, ready_for (fed (server_headers v hs) self))"
proof -
  let ?hs = "server_headers v hs" and ?t = "fed (server_headers v hs) self"
  have "plain_line (ascii ''Sec-WebSocket-Accept'', v)" using accept_name assms(1) by (simp add: plain_line_def line_ok_def)
  then have "list_all line_ok ?hs"
    using assms(2) upgrade_lines_ok by (auto simp: server_headers_def plain_line_def list_all_iff)
  then have "holds (end_headers ?t) ?hs"
    by (intro fed_holds assms(3-5)) (simp_all add: server_headers_def upgrade_headers_def)
  from response_decided [OF this, of "ended agreed"] assms(6) obtain r where
    "on_response_complete (ended agreed) ?t = Some (if response_ok (ended agreed) ?hs (hash ?t) then 0 else - 1, (ready_for ?t)\<lparr>redirect_url := r\<rparr>)"
    "r = redirect_url ?t"
    by (auto simp: fed_keeps agreed_ended redirects_def)
  moreover have "response_ok (ended agreed) ?hs (hash ?t) \<longleftrightarrow> v = rfc4648_encode (hash self)"
    by (simp add: response_ok_def names_websocket_def server_lookups agreed_ended fed_keeps)
  moreover have "(ready_for ?t)\<lparr>redirect_url := redirect_url ?t\<rparr> = ready_for ?t" by (simp add: end_headers_def rx_append_def)
  ultimately show ?thesis by simp
qed

text \<open>A client that waits for the response, and the response with whatever follows it.\<close>

definition awaits :: "'w wic_inst \<Rightarrow> bytes \<Rightarrow> (bytes \<times> bytes) list \<Rightarrow> bytes \<Rightarrow> bool" where
  "awaits self v hs rest \<longleftrightarrow>
     role self = WIC_ROLE_CLIENT \<and> istate self = WIC_STATE_PARSE_HANDSHAKE \<and> http self = http_parser_init HTTP_RESPONSE \<and>
     header_state self = WIC_HEADER_STATE_IDLE \<and> length (hash self) = 20 \<and> st_data (rx_s (rx self)) = [] \<and>
     can_store self (length (store (server_headers v hs))) \<and> value_ok v \<and> list_all plain_line hs \<and>
     length (response_text v hs @ rest) \<le> max_header_size"

lemma handshake_decided:
  assumes "awaits self v hs rest"
  shows "\<exists>q. parse_handshake h self s (response_text v hs @ rest) =
    Some (let t = (ready_for (fed (server_headers v hs) self))\<lparr>http := q\<rparr>; s = snd (stream_seek s (length (response_text v hs)))
      in if v = rfc4648_encode (hash self) then ((call_open h t)\<lparr>istate := WIC_STATE_OPEN\<rparr>, s)
         else ((call_handshake_failure h (call_close_transport h t)
                 (if hp_errno (http (call_close_transport h t)) = HPE_CB_message_complete then WIC_HANDSHAKE_FAILURE_UPGRADE
                  else WIC_HANDSHAKE_FAILURE_PROTOCOL))\<lparr>istate := WIC_STATE_CLOSED\<rparr>, s))"
proof -
  have a: "role self = WIC_ROLE_CLIENT" "http self = http_parser_init HTTP_RESPONSE" "value_ok v" "list_all plain_line hs"
    "length (response_text v hs @ rest) \<le> max_header_size"
    "on_response_complete (ended agreed) (fed (server_headers v hs) self) =
      Some (if v = rfc4648_encode (hash self) then 0 else - 1, ready_for (fed (server_headers v hs) self))"
    using assms client_decides [of v hs self] by (simp_all add: awaits_def)
  from response_execute [OF a(3,4,5,6)] obtain q where
    "http_parser_execute (parse_settings WIC_ROLE_CLIENT) (http_parser_init HTTP_RESPONSE) (Some self) (response_text v hs @ rest) =
      Some (Some (length (response_text v hs)), q, Some (ready_for (fed (server_headers v hs) self)))"
    "hp_errno q = (if v = rfc4648_encode (hash self) then HPE_OK else HPE_CB_message_complete)"
    by (auto split: if_splits)
  with a(1,2) show ?thesis by (intro exI [of _ q]) (auto simp: parse_handshake_def Let_def)
qed


lemma b64_value_ok: "bs \<noteq> [] \<Longrightarrow> value_ok (rfc4648_encode bs)"
proof -
  have ok: "list_all (\<lambda>c. c \<noteq> CR \<and> c \<noteq> LF \<and> IS_HEADER_CHAR c \<and> c \<noteq> SPACE \<and> c \<noteq> HTAB) (pad_char # b64_map)" by code_simp
  have a: "alphabet (digit64 k g) \<in> set b64_map" for k g
    using b64_value_digit [of k g] by (auto simp: b64_value_def split: if_splits)
  have "set (rfc4648_encode bs) \<subseteq> set (pad_char # b64_map)"
    by (induction bs rule: rfc4648_encode.induct) (auto simp: Let_def a)
  moreover assume "bs \<noteq> []"
  then have "rfc4648_encode bs \<noteq> []" by (cases bs rule: rfc4648_encode.cases) (auto simp: Let_def)
  moreover from this have "hd (rfc4648_encode bs) \<in> set (rfc4648_encode bs)" by simp
  ultimately show ?thesis using ok unfolding value_ok_def list_all_iff by blast
qed

text \<open>With nothing to read the loop stops at once.\<close>

lemma ws_loop_nothing:
  assumes "reader s []" "rx_state (rx self) = WIC_RX_STATE_OPCODE"
  shows "ws_loop h self s = Some (self, s\<lparr>st_error := True\<rparr>)"
  using assms reader_Nil [OF assms(1)]
  by (subst ws_loop.simps) (simp add: ws_step_def parse_head_def parse_opcode_def)

context app_contract
begin

lemma fed_rx_state: "rx_state (rx (ready_for (fed hs s))) = rx_state (rx s)"
  using touched_events [OF touched_refl, of s "concat (map events_of (map one_piece hs))"]
  by (auto simp: fed_def touched_def end_headers_def rx_append_def)

lemma response_parsed_as:
  assumes "awaits self v hs []" "rx_state (rx self) = WIC_RX_STATE_OPCODE"
  shows "\<exists>q t self'. t = (ready_for (fed (server_headers v hs) self))\<lparr>http := q\<rparr> \<and>
    wic_parse h self (response_text v hs) = Some (length (response_text v hs), self') \<and>
    holds t (server_headers v hs) \<and>
    (if v = rfc4648_encode (hash self) then self' = (call_open h t)\<lparr>istate := WIC_STATE_OPEN\<rparr> \<and> istate t = WIC_STATE_READY
     else istate self' = WIC_STATE_CLOSED)"
proof -
  let ?data = "response_text v hs"
  have ps: "istate self = WIC_STATE_PARSE_HANDSHAKE" "length ?data \<le> 81920"
    using assms(1) by (simp_all add: awaits_def max_header_size_def)
  obtain q where q: "parse_handshake h self (stream_init_ro ?data (length ?data)) ?data =
    Some (let t = (ready_for (fed (server_headers v hs) self))\<lparr>http := q\<rparr>; s = snd (stream_seek (stream_init_ro ?data (length ?data)) (length ?data))
      in if v = rfc4648_encode (hash self) then ((call_open h t)\<lparr>istate := WIC_STATE_OPEN\<rparr>, s)
         else ((call_handshake_failure h (call_close_transport h t)
                 (if hp_errno (http (call_close_transport h t)) = HPE_CB_message_complete then WIC_HANDSHAKE_FAILURE_UPGRADE
                  else WIC_HANDSHAKE_FAILURE_PROTOCOL))\<lparr>istate := WIC_STATE_CLOSED\<rparr>, s))"
    using handshake_decided [OF assms(1), of h] by auto
  let ?t = "(ready_for (fed (server_headers v hs) self))\<lparr>http := q\<rparr>"
  let ?s = "snd (stream_seek (stream_init_ro ?data (length ?data)) (length ?data))"
  have r: "reader ?s []" "stream_pos ?s = length ?data"
    using ps(2) by (simp_all add: reader_def reader_ok_def stream_seek_def stream_init_ro_def st_rest_def stream_pos_def)
  have "rx_state (rx (call_open h ?t)) = WIC_RX_STATE_OPCODE"
    using api_frame_fields(1) [OF call_frames(2), of ?t] fed_rx_state [of "server_headers v hs" self] assms(2) by simp
  then have l: "ws_loop h ((call_open h ?t)\<lparr>istate := WIC_STATE_OPEN\<rparr>) ?s =
      Some ((call_open h ?t)\<lparr>istate := WIC_STATE_OPEN\<rparr>, ?s\<lparr>st_error := True\<rparr>)"
    by (intro ws_loop_nothing r(1)) simp
  have "plain_line (ascii ''Sec-WebSocket-Accept'', v)" using accept_name assms(1) by (simp add: plain_line_def line_ok_def awaits_def)
  then have "list_all line_ok (server_headers v hs)"
    using assms(1) upgrade_lines_ok by (auto simp: awaits_def server_headers_def plain_line_def list_all_iff)
  then have "holds (end_headers (fed (server_headers v hs) self)) (server_headers v hs)"
    using assms(1) by (intro fed_holds) (simp_all add: awaits_def server_headers_def upgrade_headers_def)
  then have hd: "holds ?t (server_headers v hs)" by (simp add: holds_def)
  define c where "c = (if v = rfc4648_encode (hash self) then (call_open h ?t)\<lparr>istate := WIC_STATE_OPEN\<rparr>
      else ((call_handshake_failure h (call_close_transport h ?t)
                 (if hp_errno (http (call_close_transport h ?t)) = HPE_CB_message_complete then WIC_HANDSHAKE_FAILURE_UPGRADE
                  else WIC_HANDSHAKE_FAILURE_PROTOCOL))\<lparr>istate := WIC_STATE_CLOSED\<rparr>))"
  have "wic_parse h self ?data = Some (length ?data, c)"
    unfolding c_def using ps(1) q l r(2) by (cases "v = rfc4648_encode (hash self)") (simp_all add: wic_parse_def Let_def stream_pos_def)
  with hd have "wic_parse h self ?data = Some (length ?data, c) \<and> holds ?t (server_headers v hs) \<and>
      (if v = rfc4648_encode (hash self) then c = (call_open h ?t)\<lparr>istate := WIC_STATE_OPEN\<rparr> \<and> istate ?t = WIC_STATE_READY
       else istate c = WIC_STATE_CLOSED)" by (simp add: c_def)
  then show ?thesis by blast
qed

lemma response_parsed:
  assumes "awaits self v hs []" "rx_state (rx self) = WIC_RX_STATE_OPCODE"
  shows "\<exists>t self'. wic_parse h self (response_text v hs) = Some (length (response_text v hs), self') \<and>
    holds t (server_headers v hs) \<and>
    (if v = rfc4648_encode (hash self) then self' = (call_open h t)\<lparr>istate := WIC_STATE_OPEN\<rparr> \<and> istate t = WIC_STATE_READY
     else istate self' = WIC_STATE_CLOSED)"
  using response_parsed_as [OF assms] by blast

end

text \<open>No data at all is the end of the input to the HTTP parser.\<close>

lemma eof_execute:
  assumes "hp_errno q = HPE_OK" "hp_state q \<notin> {s_body_identity_eof, s_dead, s_start_req_or_res, s_start_res, s_start_req}"
  shows "http_parser_execute S q d [] = Some (Some 1, q\<lparr>hp_errno := HPE_INVALID_EOF_STATE\<rparr>, d)"
  using assms by (simp add: http_parser_execute_def http_run_start_def http_eof_def SET_ERRNO_def set_parser_def)

text \<open>What starting a client leaves in the instance.\<close>

context link
begin

lemma start_client_keeps:
  assumes "start_client h self = Some (WIC_STATUS_SUCCESS, self')"
  shows "\<exists>hsh a. self' = self\<lparr>hash := hsh, istate := WIC_STATE_PARSE_HANDSHAKE, app := a\<rparr>"
proof -
  obtain r a where b: "call_buffer h self 0 WIC_BUFFER_HTTP = (r, self\<lparr>app := a\<rparr>)" using call_buffer_law by blast
  obtain nonce c where n: "client_nonce h (self\<lparr>app := a\<rparr>) = (nonce, self\<lparr>app := c\<rparr>)"
    using client_nonce_law [of "self\<lparr>app := a\<rparr>"] by auto
  have "\<exists>x. call_send h (self\<lparr>app := c, hash := y, istate := WIC_STATE_PARSE_HANDSHAKE\<rparr>) d t =
      self\<lparr>hash := y, istate := WIC_STATE_PARSE_HANDSHAKE, app := x\<rparr>" for y d t
    using call_send_law [of "self\<lparr>app := c, hash := y, istate := WIC_STATE_PARSE_HANDSHAKE\<rparr>" d t] by auto
  with assms b n show ?thesis
    by (auto simp: start_client_def Let_def split: if_splits option.splits prod.splits) metis
qed

end

lemma lengths_by_key:
  "length v = length w \<Longrightarrow> length (response_text v hs) = length (response_text w hs)"
  "length v = length w \<Longrightarrow> length (store (server_headers v hs)) = length (store (server_headers w hs))"
  by (simp_all add: response_text_def header_lines_def server_headers_def upgrade_headers_def)

text \<open>A client just set up and started awaits the response that holds its digest.\<close>

lemma started_with_headers:
  assumes "link h wire" "wic_init u0 arg = Inr a0" "ia_rx arg = Some mem" "ia_rx_max arg \<le> length mem" "ia_rx_max arg < 2 ^ 32"
    "wic_start h a = Some (WIC_STATUS_SUCCESS, b)" "length (hash b) = 20" "list_all plain_line hs"
    "length v = 28" "value_ok v" "length (store (server_headers (replicate 28 0) hs)) \<le> ia_rx_max arg"
    "length (response_text (replicate 28 0) hs) \<le> max_header_size" "a = a0\<lparr>tx_header := th\<rparr>"
  shows "awaits b v hs []" "rx_state (rx b) = WIC_RX_STATE_OPCODE"
    "\<exists>x y. b = a\<lparr>hash := y, istate := WIC_STATE_PARSE_HANDSHAKE, app := x\<rparr>"
proof -
  have i: "rx a = init_rx (Some mem) (ia_rx_max arg)" "role a = WIC_ROLE_CLIENT" "http a = http_parser_init HTTP_RESPONSE"
    "header_state a = WIC_HEADER_STATE_IDLE"
    using assms(2,3,13) by (auto simp: wic_init_def split: option.splits if_splits sum.splits)
  obtain x y where b: "b = a\<lparr>hash := y, istate := WIC_STATE_PARSE_HANDSHAKE, app := x\<rparr>"
    using link.start_client_keeps [OF assms(1), of a b] assms(6) i(2) by (auto simp: wic_start_def)
  have "can_store b (length (store (server_headers v hs)))"
    using i(1) b assms(4,5,11) lengths_by_key(2) [of v "replicate 28 0" hs] assms(9)
    by (simp add: can_store_def init_rx_def stream_init_def stream_ok_def st_room_def)
  then show "awaits b v hs []"
    using i b assms(7-10,12) lengths_by_key(1) [of v "replicate 28 0" hs]
    by (simp add: awaits_def init_rx_def stream_init_def st_data_def)
  show "rx_state (rx b) = WIC_RX_STATE_OPCODE" using i b by (simp add: init_rx_def)
  show "\<exists>x y. b = a\<lparr>hash := y, istate := WIC_STATE_PARSE_HANDSHAKE, app := x\<rparr>" using b by blast
qed

lemma started_awaits:
  assumes "link h wire" "wic_init u0 arg = Inr a" "ia_rx arg = Some mem" "ia_rx_max arg \<le> length mem" "ia_rx_max arg < 2 ^ 32"
    "wic_start h a = Some (WIC_STATUS_SUCCESS, b)" "length (hash b) = 20" "list_all plain_line hs"
    "length v = 28" "value_ok v" "length (store (server_headers (replicate 28 0) hs)) \<le> ia_rx_max arg"
    "length (response_text (replicate 28 0) hs) \<le> max_header_size"
  shows "awaits b v hs []" "rx_state (rx b) = WIC_RX_STATE_OPCODE"
  using started_with_headers [OF assms, of "tx_header a"] by simp_all

end
