(* ===== verification/Http_Names.thy ===== *)
theory Http_Names
  imports Http_Parser
begin

text \<open>
  The texts of the HTTP parser (\<open>src/http_parser.c\<close>, \<open>include/http_parser.h\<close>): the names of
  methods, the reason phrases of statuses, and the names and descriptions of errors.
\<close>

section \<open>Methods\<close>

text \<open>\<open>ELEM_AT(a, i, v)\<close>.\<close>

definition ELEM_AT :: "'a list \<Rightarrow> nat \<Rightarrow> 'a \<Rightarrow> 'a" where
  "ELEM_AT a i v = (if i < length a then a ! i else v)"

definition http_method_str :: "nat \<Rightarrow> bytes" where
  "http_method_str m = ELEM_AT method_strings m (ascii ''<unknown>'')"

section \<open>Statuses\<close>

text \<open>Number, name and phrase of \<open>HTTP_STATUS_MAP\<close>.\<close>

definition HTTP_STATUS_MAP :: "(nat \<times> string \<times> string) list" where
  "HTTP_STATUS_MAP =
     [(100, ''CONTINUE'', ''Continue''),
      (101, ''SWITCHING_PROTOCOLS'', ''Switching Protocols''),
      (102, ''PROCESSING'', ''Processing''),
      (200, ''OK'', ''OK''),
      (201, ''CREATED'', ''Created''),
      (202, ''ACCEPTED'', ''Accepted''),
      (203, ''NON_AUTHORITATIVE_INFORMATION'', ''Non-Authoritative Information''),
      (204, ''NO_CONTENT'', ''No Content''),
      (205, ''RESET_CONTENT'', ''Reset Content''),
      (206, ''PARTIAL_CONTENT'', ''Partial Content''),
      (207, ''MULTI_STATUS'', ''Multi-Status''),
      (208, ''ALREADY_REPORTED'', ''Already Reported''),
      (226, ''IM_USED'', ''IM Used''),
      (300, ''MULTIPLE_CHOICES'', ''Multiple Choices''),
      (301, ''MOVED_PERMANENTLY'', ''Moved Permanently''),
      (302, ''FOUND'', ''Found''),
      (303, ''SEE_OTHER'', ''See Other''),
      (304, ''NOT_MODIFIED'', ''Not Modified''),
      (305, ''USE_PROXY'', ''Use Proxy''),
      (307, ''TEMPORARY_REDIRECT'', ''Temporary Redirect''),
      (308, ''PERMANENT_REDIRECT'', ''Permanent Redirect''),
      (400, ''BAD_REQUEST'', ''Bad Request''),
      (401, ''UNAUTHORIZED'', ''Unauthorized''),
      (402, ''PAYMENT_REQUIRED'', ''Payment Required''),
      (403, ''FORBIDDEN'', ''Forbidden''),
      (404, ''NOT_FOUND'', ''Not Found''),
      (405, ''METHOD_NOT_ALLOWED'', ''Method Not Allowed''),
      (406, ''NOT_ACCEPTABLE'', ''Not Acceptable''),
      (407, ''PROXY_AUTHENTICATION_REQUIRED'', ''Proxy Authentication Required''),
      (408, ''REQUEST_TIMEOUT'', ''Request Timeout''),
      (409, ''CONFLICT'', ''Conflict''),
      (410, ''GONE'', ''Gone''),
      (411, ''LENGTH_REQUIRED'', ''Length Required''),
      (412, ''PRECONDITION_FAILED'', ''Precondition Failed''),
      (413, ''PAYLOAD_TOO_LARGE'', ''Payload Too Large''),
      (414, ''URI_TOO_LONG'', ''URI Too Long''),
      (415, ''UNSUPPORTED_MEDIA_TYPE'', ''Unsupported Media Type''),
      (416, ''RANGE_NOT_SATISFIABLE'', ''Range Not Satisfiable''),
      (417, ''EXPECTATION_FAILED'', ''Expectation Failed''),
      (421, ''MISDIRECTED_REQUEST'', ''Misdirected Request''),
      (422, ''UNPROCESSABLE_ENTITY'', ''Unprocessable Entity''),
      (423, ''LOCKED'', ''Locked''),
      (424, ''FAILED_DEPENDENCY'', ''Failed Dependency''),
      (426, ''UPGRADE_REQUIRED'', ''Upgrade Required''),
      (428, ''PRECONDITION_REQUIRED'', ''Precondition Required''),
      (429, ''TOO_MANY_REQUESTS'', ''Too Many Requests''),
      (431, ''REQUEST_HEADER_FIELDS_TOO_LARGE'', ''Request Header Fields Too Large''),
      (451, ''UNAVAILABLE_FOR_LEGAL_REASONS'', ''Unavailable For Legal Reasons''),
      (500, ''INTERNAL_SERVER_ERROR'', ''Internal Server Error''),
      (501, ''NOT_IMPLEMENTED'', ''Not Implemented''),
      (502, ''BAD_GATEWAY'', ''Bad Gateway''),
      (503, ''SERVICE_UNAVAILABLE'', ''Service Unavailable''),
      (504, ''GATEWAY_TIMEOUT'', ''Gateway Timeout''),
      (505, ''HTTP_VERSION_NOT_SUPPORTED'', ''HTTP Version Not Supported''),
      (506, ''VARIANT_ALSO_NEGOTIATES'', ''Variant Also Negotiates''),
      (507, ''INSUFFICIENT_STORAGE'', ''Insufficient Storage''),
      (508, ''LOOP_DETECTED'', ''Loop Detected''),
      (510, ''NOT_EXTENDED'', ''Not Extended''),
      (511, ''NETWORK_AUTHENTICATION_REQUIRED'', ''Network Authentication Required'')]"

definition http_status_str :: "nat \<Rightarrow> string" where
  "http_status_str s = (case map_of HTTP_STATUS_MAP s of None \<Rightarrow> ''<unknown>'' | Some (name, phrase) \<Rightarrow> phrase)"

section \<open>Errors\<close>

text \<open>\<open>http_strerror_tab\<close>, from \<open>HTTP_ERRNO_MAP\<close>; the table is indexed by the error, so its entries
  are kept with theirs.\<close>

definition HTTP_ERRNO_MAP :: "(http_errno \<times> string \<times> string) list" where
  "HTTP_ERRNO_MAP =
     [(HPE_OK, ''OK'', ''success''),
      (HPE_CB_message_begin, ''CB_message_begin'', ''the on_message_begin callback failed''),
      (HPE_CB_url, ''CB_url'', ''the on_url callback failed''),
      (HPE_CB_header_field, ''CB_header_field'', ''the on_header_field callback failed''),
      (HPE_CB_header_value, ''CB_header_value'', ''the on_header_value callback failed''),
      (HPE_CB_headers_complete, ''CB_headers_complete'', ''the on_headers_complete callback failed''),
      (HPE_CB_body, ''CB_body'', ''the on_body callback failed''),
      (HPE_CB_message_complete, ''CB_message_complete'', ''the on_message_complete callback failed''),
      (HPE_CB_status, ''CB_status'', ''the on_status callback failed''),
      (HPE_CB_chunk_header, ''CB_chunk_header'', ''the on_chunk_header callback failed''),
      (HPE_CB_chunk_complete, ''CB_chunk_complete'', ''the on_chunk_complete callback failed''),
      (HPE_INVALID_EOF_STATE, ''INVALID_EOF_STATE'', ''stream ended at an unexpected time''),
      (HPE_HEADER_OVERFLOW, ''HEADER_OVERFLOW'', ''too many header bytes seen; overflow detected''),
      (HPE_CLOSED_CONNECTION, ''CLOSED_CONNECTION'', ''data received after completed connection: close message''),
      (HPE_INVALID_VERSION, ''INVALID_VERSION'', ''invalid HTTP version''),
      (HPE_INVALID_STATUS, ''INVALID_STATUS'', ''invalid HTTP status code''),
      (HPE_INVALID_METHOD, ''INVALID_METHOD'', ''invalid HTTP method''),
      (HPE_INVALID_URL, ''INVALID_URL'', ''invalid URL''),
      (HPE_INVALID_HOST, ''INVALID_HOST'', ''invalid host''),
      (HPE_INVALID_PORT, ''INVALID_PORT'', ''invalid port''),
      (HPE_INVALID_PATH, ''INVALID_PATH'', ''invalid path''),
      (HPE_INVALID_QUERY_STRING, ''INVALID_QUERY_STRING'', ''invalid query string''),
      (HPE_INVALID_FRAGMENT, ''INVALID_FRAGMENT'', ''invalid fragment''),
      (HPE_LF_EXPECTED, ''LF_EXPECTED'', ''LF character expected''),
      (HPE_INVALID_HEADER_TOKEN, ''INVALID_HEADER_TOKEN'', ''invalid character in header''),
      (HPE_INVALID_CONTENT_LENGTH, ''INVALID_CONTENT_LENGTH'', ''invalid character in content-length header''),
      (HPE_UNEXPECTED_CONTENT_LENGTH, ''UNEXPECTED_CONTENT_LENGTH'', ''unexpected content-length header''),
      (HPE_INVALID_CHUNK_SIZE, ''INVALID_CHUNK_SIZE'', ''invalid character in chunk size header''),
      (HPE_INVALID_CONSTANT, ''INVALID_CONSTANT'', ''invalid constant string''),
      (HPE_INVALID_INTERNAL_STATE, ''INVALID_INTERNAL_STATE'', ''encountered unexpected internal state''),
      (HPE_STRICT, ''STRICT'', ''strict mode assertion failed''),
      (HPE_PAUSED, ''PAUSED'', ''parser is paused''),
      (HPE_UNKNOWN, ''UNKNOWN'', ''an unknown error occurred''),
      (HPE_INVALID_TRANSFER_ENCODING, ''INVALID_TRANSFER_ENCODING'', ''request has invalid transfer-encoding'')]"

definition http_strerror_tab :: "(http_errno \<times> string \<times> string) list" where
  "http_strerror_tab = map (\<lambda>(e, n, s). (e, ''HPE_'' @ n, s)) HTTP_ERRNO_MAP"

text \<open>\<open>None\<close> is the assertion.\<close>

definition http_errno_name :: "http_errno \<Rightarrow> string option" where
  "http_errno_name err = map_option fst (map_of http_strerror_tab err)"

definition http_errno_description :: "http_errno \<Rightarrow> string option" where
  "http_errno_description err = map_option snd (map_of http_strerror_tab err)"

definition http_parser_version :: nat where
  "http_parser_version = 2 * 0x10000 + 9 * 0x00100 + 4 * 0x00001"

section \<open>What the tables say\<close>

text \<open>The names as bytes.\<close>

lemma method_strings_bytes [code]:
  "method_strings =
     [[68, 69, 76, 69, 84, 69],
      [71, 69, 84],
      [72, 69, 65, 68],
      [80, 79, 83, 84],
      [80, 85, 84],
      [67, 79, 78, 78, 69, 67, 84],
      [79, 80, 84, 73, 79, 78, 83],
      [84, 82, 65, 67, 69],
      [67, 79, 80, 89],
      [76, 79, 67, 75],
      [77, 75, 67, 79, 76],
      [77, 79, 86, 69],
      [80, 82, 79, 80, 70, 73, 78, 68],
      [80, 82, 79, 80, 80, 65, 84, 67, 72],
      [83, 69, 65, 82, 67, 72],
      [85, 78, 76, 79, 67, 75],
      [66, 73, 78, 68],
      [82, 69, 66, 73, 78, 68],
      [85, 78, 66, 73, 78, 68],
      [65, 67, 76],
      [82, 69, 80, 79, 82, 84],
      [77, 75, 65, 67, 84, 73, 86, 73, 84, 89],
      [67, 72, 69, 67, 75, 79, 85, 84],
      [77, 69, 82, 71, 69],
      [77, 45, 83, 69, 65, 82, 67, 72],
      [78, 79, 84, 73, 70, 89],
      [83, 85, 66, 83, 67, 82, 73, 66, 69],
      [85, 78, 83, 85, 66, 83, 67, 82, 73, 66, 69],
      [80, 65, 84, 67, 72],
      [80, 85, 82, 71, 69],
      [77, 75, 67, 65, 76, 69, 78, 68, 65, 82],
      [76, 73, 78, 75],
      [85, 78, 76, 73, 78, 75],
      [83, 79, 85, 82, 67, 69]]"
  by (simp add: method_strings_def ascii_def)

lemma method_strings_distinct: "distinct method_strings" "length method_strings = 34"
  by (simp_all add: method_strings_bytes)

text \<open>No two statuses share a number, as the cases of the switch must not.\<close>

lemma statuses_distinct: "sorted_wrt (<) (map fst HTTP_STATUS_MAP)"
  by (simp add: HTTP_STATUS_MAP_def)

text \<open>Every error has a name and a description, and the name tells it from the others.\<close>

lemma errno_listed: "e \<in> set (map fst HTTP_ERRNO_MAP)"
proof -
  have "map fst HTTP_ERRNO_MAP = [HPE_OK, HPE_CB_message_begin, HPE_CB_url, HPE_CB_header_field, HPE_CB_header_value,
      HPE_CB_headers_complete, HPE_CB_body, HPE_CB_message_complete, HPE_CB_status, HPE_CB_chunk_header, HPE_CB_chunk_complete,
      HPE_INVALID_EOF_STATE, HPE_HEADER_OVERFLOW, HPE_CLOSED_CONNECTION, HPE_INVALID_VERSION, HPE_INVALID_STATUS,
      HPE_INVALID_METHOD, HPE_INVALID_URL, HPE_INVALID_HOST, HPE_INVALID_PORT, HPE_INVALID_PATH, HPE_INVALID_QUERY_STRING,
      HPE_INVALID_FRAGMENT, HPE_LF_EXPECTED, HPE_INVALID_HEADER_TOKEN, HPE_INVALID_CONTENT_LENGTH,
      HPE_UNEXPECTED_CONTENT_LENGTH, HPE_INVALID_CHUNK_SIZE, HPE_INVALID_CONSTANT, HPE_INVALID_INTERNAL_STATE, HPE_STRICT,
      HPE_PAUSED, HPE_UNKNOWN, HPE_INVALID_TRANSFER_ENCODING]"
    by (simp add: HTTP_ERRNO_MAP_def)
  then show ?thesis by (cases e) simp_all
qed

lemma errno_named: "\<exists>n s. map_of http_strerror_tab e = Some (n, s)"
proof -
  have "e \<in> fst ` set http_strerror_tab" using errno_listed [of e] by (force simp: http_strerror_tab_def)
  then have "map_of http_strerror_tab e \<noteq> None" by (simp add: map_of_eq_None_iff)
  then show ?thesis by auto
qed

lemma errno_names_distinct: "distinct (map (fst \<circ> snd) http_strerror_tab)"
  by (simp add: http_strerror_tab_def HTTP_ERRNO_MAP_def)

lemma errno_name_inj: "http_errno_name e = http_errno_name f \<Longrightarrow> e = f"
proof -
  assume eq: "http_errno_name e = http_errno_name f"
  obtain n where n: "http_errno_name e = Some n" using errno_named [of e] by (auto simp: http_errno_name_def)
  then have f: "http_errno_name f = Some n" using eq by simp
  obtain s t where m: "(e, n, s) \<in> set http_strerror_tab" "(f, n, t) \<in> set http_strerror_tab"
    using n f by (auto simp: http_errno_name_def dest!: map_of_SomeD)
  then obtain i j where i: "i < length http_strerror_tab" "http_strerror_tab ! i = (e, n, s)"
    and j: "j < length http_strerror_tab" "http_strerror_tab ! j = (f, n, t)" by (metis in_set_conv_nth)
  then have "map (fst \<circ> snd) http_strerror_tab ! i = map (fst \<circ> snd) http_strerror_tab ! j" by simp
  then have "i = j" using errno_names_distinct i(1) j(1) by (simp add: nth_eq_iff_index_eq del: nth_map)
  with i j show "e = f" by simp
qed

end
