(* ===== verification/Wic_Request.thy ===== *)
theory Wic_Request
  imports Wic_Accept Http_Names
begin

text \<open>
  The server's side of the handshake: the HTTP parser run on a request, from its method on, and the
  request of this library's client taken by an instance in the role of the server. \<open>wic_init\<close> sets
  up no such instance; the code that one would run is in the library, and this is what it does.
\<close>

section \<open>The method\<close>

text \<open>What a character of the method does to the guess and the index.\<close>

definition method_char :: "u8 \<Rightarrow> u8 \<times> 5 word \<Rightarrow> (u8 \<times> 5 word) option" where
  "method_char ch g =
     (case g of (m, i) \<Rightarrow>
        if ch = cstr_at (method_strings ! unat m) (unat i) then Some (m, i + 1)
        else map_option (\<lambda>m. (m, i + 1)) (map_of method_switch (m, unat i, ch)))"

fun method_run :: "bytes \<Rightarrow> u8 \<times> 5 word \<Rightarrow> (u8 \<times> 5 word) option" where
  "method_run [] g = Some g"
| "method_run (c # cs) g = (case method_char c g of None \<Rightarrow> None | Some g \<Rightarrow> method_run cs g)"

definition method_byte :: "u8 \<Rightarrow> bool" where
  "method_byte c \<longleftrightarrow> ch8 CHR ''A'' \<le> c \<and> c \<le> ch8 CHR ''Z'' \<or> c = ch8 CHR ''-''"

abbreviation guess :: "http_parser \<Rightarrow> u8 \<times> 5 word \<Rightarrow> http_parser" where
  "guess q g \<equiv> q\<lparr>hp_method := fst g, hp_index := snd g\<rparr>"

lemma method_text:
  assumes "data = pre @ cs @ rest" "pre \<noteq> []" "length data \<le> max_header_size" "list_all method_byte cs"
    "method_run cs g = Some g'"
  shows "\<exists>c'. http_loop S data (Break, at pre s_req_method no_mark (guess q g) d c) =
    http_loop S data (Break, at (pre @ cs) s_req_method no_mark (guess q g') d c')"
  using assms
proof (induction cs arbitrary: pre g c)
  case Nil
  then show ?case by auto
next
  case (Cons k ks)
  obtain g1 where g1: "method_char k g = Some g1" "method_run ks g1 = Some g'"
    using Cons.prems(5) by (auto split: option.splits)
  have k: "k \<noteq> 0" "k \<noteq> SPACE" "ch8 CHR ''A'' \<le> k \<and> k \<le> ch8 CHR ''Z'' \<or> k = ch8 CHR ''-''"
    using Cons.prems(4) by (auto simp: method_byte_def)
  obtain m i where g: "g = (m, i)" by fastforce
  have "http_loop S data (Break, at pre s_req_method no_mark (guess q g) d c) =
      http_loop S data (http_step S data (at (pre @ [k]) s_req_method no_mark (guess q g) d k))"
    by (rule step_char) (use Cons.prems in auto)
  also have "http_step S data (at (pre @ [k]) s_req_method no_mark (guess q g) d k) =
      (Break, at (pre @ [k]) s_req_method no_mark (guess q g1) d k)"
    using k g g1(1) by (auto simp: http_step_def step_method_def method_char_def Let_def split: if_splits)
  also have "\<exists>c'. http_loop S data (Break, at (pre @ [k]) s_req_method no_mark (guess q g1) d k) =
      http_loop S data (Break, at ((pre @ [k]) @ ks) s_req_method no_mark (guess q g') d c')"
    by (rule Cons.IH) (use Cons.prems g1 in auto)
  finally show ?case by simp
qed

text \<open>Each name of the table is taken for its own method.\<close>

definition named :: "nat \<Rightarrow> bool" where
  "named m \<longleftrightarrow>
     (case method_strings ! m of [] \<Rightarrow> False
      | a # as \<Rightarrow> IS_ALPHA a \<and> a \<noteq> CR \<and> a \<noteq> LF \<and> list_all method_byte as \<and> length as < 30 \<and>
          (case map_of method_start a of None \<Rightarrow> False
           | Some g \<Rightarrow> method_run as (g, 1) = Some (of_nat m, of_nat (length as + 1))))"

lemma all_named: "list_all named [0..<34]"
  by code_simp

definition method_read :: "nat \<Rightarrow> http_parser" where
  "method_read m = guess ((http_parser_init HTTP_REQUEST)\<lparr>hp_content_length := - 1\<rparr>)
     (of_nat m, of_nat (length (method_strings ! m) + 1))"

lemma method_run_text:
  assumes "m < 34" "data = method_strings ! m @ ch8 CHR '' '' # rest" "length data \<le> max_header_size" "cb_message_begin S = None"
  shows "http_loop S data (http_next S data (http_run_start (http_parser_init HTTP_REQUEST) d)) =
    http_loop S data (Break, at (method_strings ! m @ [ch8 CHR '' '']) s_req_spaces_before_url no_mark (method_read m) d (ch8 CHR '' ''))"
proof -
  let ?n = "method_strings ! m" and ?i = "(http_parser_init HTTP_REQUEST)\<lparr>hp_content_length := - 1\<rparr>"
  have "m \<in> set [0..<34]" using assms(1) by simp
  with all_named have "named m" unfolding list_all_iff by blast
  then obtain a as g where a: "?n = a # as" and n: "IS_ALPHA a" "a \<noteq> CR" "a \<noteq> LF" "list_all method_byte as" "length as < 30"
    and g: "map_of method_start a = Some g" "method_run as (g, 1) = Some (of_nat m, of_nat (length ?n))"
    by (auto simp: named_def split: list.splits option.splits)
  have len: "unat (of_nat (length ?n) :: 5 word) = length ?n"
    using n(5) a by (simp add: unat_of_nat del: of_nat_Suc)
  have stop: "cstr_at ?n (unat (of_nat (length ?n) :: 5 word)) = 0" unfolding len by (simp add: cstr_at_def)
  have "http_next S data (http_run_start (http_parser_init HTTP_REQUEST) d) =
      (Break, at [a] s_req_method no_mark (guess ?i (g, 1)) d a)"
    using a assms(2,4) n(1-3) g(1)
    by (simp add: fun_eq_iff http_next_def http_run_start_def http_parser_init_def first_mark_def COUNT_HEADER_SIZE_def
      max_header_size_def http_step_def step_method_def Let_def new_message_def CALLBACK_NOTIFY_def CALLBACK_NOTIFY_AT_def
      ASSERT_def set_parser_def UPDATE_STATE_def at_def)
  moreover obtain c' where "http_loop S data (Break, at [a] s_req_method no_mark (guess ?i (g, 1)) d a) =
      http_loop S data (Break, at ([a] @ as) s_req_method no_mark (guess ?i (of_nat m, of_nat (length ?n))) d c')"
    using method_text [of data "[a]" as "ch8 CHR '' '' # rest", OF _ _ assms(3) n(4) g(2), of S ?i d a] a assms(2) by auto
  moreover have "http_loop S data (Break, at ?n s_req_method no_mark (guess ?i (of_nat m, of_nat (length ?n))) d c') =
      http_loop S data (http_step S data (at (?n @ [ch8 CHR '' '']) s_req_method no_mark (guess ?i (of_nat m, of_nat (length ?n))) d (ch8 CHR '' '')))"
    by (rule step_char) (use assms(2,3) a in auto)
  moreover have "http_step S data (at (?n @ [ch8 CHR '' '']) s_req_method no_mark (guess ?i (of_nat m, of_nat (length ?n))) d (ch8 CHR '' '')) =
      (Break, at (?n @ [ch8 CHR '' '']) s_req_spaces_before_url no_mark (method_read m) d (ch8 CHR '' ''))"
    using stop assms(1) by (simp add: http_step_def step_method_def Let_def method_read_def unat_of_nat)
  ultimately show ?thesis using a by simp
qed

text \<open>A request of nothing but a method and the space after it.\<close>

lemma method_execute:
  assumes "m < 34" "cb_message_begin S = None" "cb_url S = None"
  shows "http_parser_execute S (http_parser_init HTTP_REQUEST) d (http_method_str m @ ascii '' '') =
    Some (Some (length (http_method_str m) + 1),
      (method_read m)\<lparr>hp_state := s_req_spaces_before_url, hp_nread := of_nat (length (http_method_str m) + 1)\<rparr>, d)"
proof -
  let ?n = "method_strings ! m" and ?sp = "ch8 CHR '' ''"
  have n: "http_method_str m = ?n" using assms(1) method_strings_distinct(2) by (simp add: http_method_str_def ELEM_AT_def)
  have "m \<in> set [0..<34]" using assms(1) by simp
  with all_named have "named m" unfolding list_all_iff by blast
  then have "length ?n < 31" by (auto simp: named_def split: list.splits option.splits)
  then have l: "length (?n @ [?sp]) \<le> max_header_size" by (simp add: max_header_size_def)
  have one: "http_loop S (?n @ [?sp]) (http_next S (?n @ [?sp]) (http_run_start (http_parser_init HTTP_REQUEST) d)) =
      http_loop S (?n @ [?sp]) (Break, at (?n @ [?sp]) s_req_spaces_before_url no_mark (method_read m) d ?sp)"
    using method_run_text [OF assms(1) _ l assms(2), of "[]" d] by simp
  have e: "hp_errno (method_read m) = HPE_OK" by (simp add: method_read_def http_parser_init_def)
  have two: "http_loop S (?n @ [?sp]) (Break, at (?n @ [?sp]) s_req_spaces_before_url no_mark (method_read m) d ?sp) =
      Some (RETURN (length (?n @ [?sp])) (at (?n @ [?sp]) s_req_spaces_before_url no_mark (method_read m) d ?sp\<lparr>r_p := length (?n @ [?sp])\<rparr>))"
    using e by (subst http_loop.simps)
      (simp add: Let_def http_finish_def ASSERT_def CALLBACK_DATA_NOADVANCE_def CALLBACK_DATA_AT_def)
  show ?thesis unfolding n using one two
    by (simp add: http_parser_execute_def Let_def RETURN_def http_parser_init_def ascii_def)
qed

section \<open>The target and the version\<close>

definition target_char :: "u8 \<Rightarrow> bool" where
  "target_char c \<longleftrightarrow> IS_URL_CHAR c \<or> c = ch8 CHR ''?'' \<or> c = ch8 CHR ''#''"

definition target_states :: "http_state set" where
  "target_states = {s_req_path, s_req_query_string_start, s_req_query_string, s_req_fragment_start, s_req_fragment}"

lemma target_char_not: "target_char c \<Longrightarrow> c \<noteq> SPACE \<and> c \<noteq> CR \<and> c \<noteq> LF \<and> c \<noteq> HTAB \<and> c \<noteq> 12"
  by (auto simp: target_char_def IS_URL_CHAR_eq)

lemma target_stays: "s \<in> target_states \<Longrightarrow> target_char c \<Longrightarrow> parse_url_char s c \<in> target_states"
  using target_char_not [of c]
  by (auto simp: target_states_def parse_url_char_def query_char_def target_char_def)

lemma target_not: "s \<in> target_states \<Longrightarrow> group_of s = Url_group \<and> PARSING_HEADER s \<and> s \<noteq> s_dead \<and>
    s \<notin> {s_req_spaces_before_url, s_req_schema, s_req_schema_slash, s_req_schema_slash_slash, s_req_server_start}"
  by (auto simp: target_states_def)

lemma target_text:
  assumes "data = pre @ cs @ rest" "pre \<noteq> []" "length data \<le> max_header_size" "list_all target_char cs" "st \<in> target_states"
  shows "\<exists>st' \<in> target_states. \<exists>c'. http_loop S data (Break, at pre st mk q d c) =
    http_loop S data (Break, at (pre @ cs) st' mk q d c')"
  using assms
proof (induction cs arbitrary: pre st c)
  case Nil
  then show ?case by auto
next
  case (Cons k ks)
  have k: "target_char k" using Cons.prems(4) by simp
  note t = target_not [OF Cons.prems(5)] and t' = target_stays [OF Cons.prems(5) k]
  have "http_loop S data (Break, at pre st mk q d c) = http_loop S data (http_step S data (at (pre @ [k]) st mk q d k))"
    by (rule step_char) (use Cons.prems t in auto)
  also have "http_step S data (at (pre @ [k]) st mk q d k) = (Break, at (pre @ [k]) (parse_url_char st k) mk q d k)"
    using t target_char_not [OF k] target_not [OF t'] by (simp add: http_step_def step_url_def url_char_def Let_def)
  also have "\<exists>st' \<in> target_states. \<exists>c'. http_loop S data (Break, at (pre @ [k]) (parse_url_char st k) mk q d k) =
      http_loop S data (Break, at ((pre @ [k]) @ ks) st' mk q d c')"
    by (rule Cons.IH) (use Cons.prems t' in auto)
  finally show ?case by simp
qed

definition version_line :: bytes where
  "version_line = ascii '' HTTP/1.1'' @ CRLF"

lemma version_line_not_empty [simp]: "version_line \<noteq> []"
  by (simp add: version_line_def CRLF_def)

text \<open>The parser when the request line is over.\<close>

definition requested :: "nat \<Rightarrow> http_parser" where
  "requested m = (method_read m)\<lparr>hp_major := 1, hp_minor := 1\<rparr>"

lemma version_text:
  assumes "data = pre @ version_line @ rest" "pre \<noteq> []" "length data \<le> max_header_size" "st \<in> target_states"
    "hp_errno q = HPE_OK" "cb_url S = None"
  shows "http_loop S data (Break, at pre st [Url_mark \<mapsto> k] q d c) =
    http_loop S data (Break, at (pre @ version_line) s_header_field_start no_mark (q\<lparr>hp_major := 1, hp_minor := 1\<rparr>) d LF)"
proof -
  have v: "version_line = [32, 72, 84, 84, 80, 47, 49, 46, 49, 13, 10]" by (simp add: version_line_def ascii_def CRLF_def)
  let ?n = "length pre"
  have l: "?n + i < length data" if "i < 11" for i using that assms(1) by (simp add: v)
  have nth: "data ! (?n + i) = [32, 72, 84, 84, 80, 47, 49, 46, 49, 13, 10] ! i" if "i < 11" for i
    using prefix_nth [of "drop ?n data" "[32, 72, 84, 84, 80, 47, 49, 46, 49, 13, 10]" rest 11 i] that assms(1)
    by (simp add: v)
  have n: "0 < ?n" using assms(2) by simp
  have one: "http_loop S data (Break, at pre st [Url_mark \<mapsto> k] q d c) =
      http_loop S data (Break, atn (?n + 1) s_req_http_start no_mark q d SPACE)"
    using target_not [OF assms(4)] step_atn [of ?n data st S "[Url_mark \<mapsto> k]" q d c] l [of 0] nth [of 0] n assms(3,5,6)
    by (simp add: at_atn http_step_def step_url_def CALLBACK_DATA_def CALLBACK_DATA_AT_def ASSERT_def)
  have step: "http_loop S data (Break, atn (?n + i) s no_mark q' d c') =
      http_loop S data (http_step S data (atn (?n + (i + 1)) s no_mark q' d ([32, 72, 84, 84, 80, 47, 49, 46, 49, 13, 10] ! i)))"
    if "i < 11" "PARSING_HEADER s" for i s q' c'
    using step_atn [of "?n + i" data s S no_mark q' d c'] l [OF that(1)] nth [OF that(1)] n assms(3) that(2) by simp
  have two: "http_loop S data (Break, atn (?n + 1) s_req_http_start no_mark q d SPACE) =
      http_loop S data (Break, atn (?n + 11) s_header_field_start no_mark (q\<lparr>hp_major := 1, hp_minor := 1\<rparr>) d LF)"
    by (simp add: step http_step_def step_version_def Let_def expect_def STRICT_CHECK_def version_digit_def
      version_char_def IS_NUM_def set_major_def set_minor_def del: One_nat_def add_2_eq_Suc add_2_eq_Suc')
  have "length (pre @ version_line) = ?n + 11" by (simp add: v)
  with trans [OF one two] show ?thesis by (simp only: at_atn)
qed

lemma request_line_run:
  assumes "m < 34" "m \<noteq> 5" "data = method_strings ! m @ ascii '' '' @ (t # ts) @ version_line @ rest"
    "length data \<le> max_header_size" "t = ch8 CHR ''/''" "list_all target_char ts"
  shows "http_loop (parse_settings r) data (http_next (parse_settings r) data (http_run_start (http_parser_init HTTP_REQUEST) d)) =
    http_loop (parse_settings r) data
      (Break, at (method_strings ! m @ ascii '' '' @ (t # ts) @ version_line) s_header_field_start no_mark (requested m) d LF)"
proof -
  let ?S = "parse_settings r" and ?p = "method_strings ! m @ ascii '' ''"
  let ?mk = "[Url_mark \<mapsto> length ?p]"
  have sp: "ascii '' '' = [ch8 CHR '' '']" by (simp add: ascii_def)
  have p: "?p \<noteq> []" by (simp add: sp)
  have nc: "hp_method (method_read m) \<noteq> HTTP_CONNECT"
  proof -
    have "unat (of_nat m :: u8) = m" using assms(1) by (simp add: unat_of_nat)
    then have "(of_nat m :: u8) \<noteq> 5" using assms(2) by auto
    then show ?thesis by (simp add: method_read_def HTTP_CONNECT_def)
  qed
  have "http_loop ?S data (http_next ?S data (http_run_start (http_parser_init HTTP_REQUEST) d)) =
      http_loop ?S data (Break, at ?p s_req_spaces_before_url no_mark (method_read m) d (ch8 CHR '' ''))"
    using method_run_text [OF assms(1) _ assms(4), of "(t # ts) @ version_line @ rest" ?S d] assms(3) by (simp add: sp)
  also have "\<dots> = http_loop ?S data (http_step ?S data (at (?p @ [t]) s_req_spaces_before_url no_mark (method_read m) d t))"
    by (rule step_char) (use assms(3,4) p in auto)
  also have "http_step ?S data (at (?p @ [t]) s_req_spaces_before_url no_mark (method_read m) d t) =
      (Break, at (?p @ [t]) s_req_path ?mk (method_read m) d t)"
    using assms(5) nc by (simp add: http_step_def step_url_def url_char_def parse_url_char_def Let_def)
  also obtain st c' where "st \<in> target_states" "http_loop ?S data (Break, at (?p @ [t]) s_req_path ?mk (method_read m) d t) =
      http_loop ?S data (Break, at ((?p @ [t]) @ ts) st ?mk (method_read m) d c')"
    using target_text [of data "?p @ [t]" ts "version_line @ rest" s_req_path ?S ?mk "method_read m" d t] assms(3,4,6)
    by (auto simp: target_states_def)
  note this(2)
  also have "http_loop ?S data (Break, at ((?p @ [t]) @ ts) st ?mk (method_read m) d c') =
      http_loop ?S data (Break, at (((?p @ [t]) @ ts) @ version_line) s_header_field_start no_mark (requested m) d LF)"
    unfolding requested_def
    by (rule version_text) (use assms(3,4) \<open>st \<in> target_states\<close> in \<open>simp_all add: method_read_def http_parser_init_def\<close>)
  finally show ?thesis by simp
qed

section \<open>The headers of the client's request\<close>

definition client_headers :: "url_parts \<Rightarrow> bytes \<Rightarrow> (bytes \<times> bytes) list \<Rightarrow> (bytes \<times> bytes) list" where
  "client_headers p key hs =
     (ascii ''Host'', up_host p @ host_port p) # upgrade_headers
     @ (ascii ''Sec-WebSocket-Version'', ascii ''13'') # (ascii ''Sec-WebSocket-Key'', key) # hs"

definition target :: "url_parts \<Rightarrow> bytes" where
  "target p = up_path p @ filled_part CHR ''?'' (up_query p) @ filled_part CHR ''#'' (up_fragment p)"

lemma request_text_lines:
  "request_text p key hs = method_strings ! 1 @ ascii '' '' @ target p @ version_line @ header_lines (client_headers p key hs) @ CRLF"
  by (simp add: request_text_def target_def client_headers_def upgrade_headers_def version_line_def method_strings_def ascii_def)

lemma filled_part_ok:
  assumes "\<And>q. x = Some q \<Longrightarrow> list_all P q" "P (ch8 c)"
  shows "list_all P (filled_part c x)"
  using assms by (auto simp: filled_part_def split: option.splits list.splits)

lemma target_ok:
  assumes "url_wf p" "up_path p \<noteq> []"
  obtains ts where "target p = ch8 CHR ''/'' # ts" "list_all target_char ts"
proof -
  obtain a as where a: "up_path p = a # as" using assms(2) by (cases "up_path p") auto
  have "list_all target_char as" "target_char (ch8 CHR ''?'')" "target_char (ch8 CHR ''#'')"
    "\<And>q. up_query p = Some q \<Longrightarrow> list_all target_char q" "\<And>f. up_fragment p = Some f \<Longrightarrow> list_all target_char f"
    using assms(1) a by (auto simp: url_wf_def target_char_def list_all_iff)
  then have "list_all target_char (as @ filled_part CHR ''?'' (up_query p) @ filled_part CHR ''#'' (up_fragment p))"
    by (simp add: filled_part_ok)
  moreover have "a = ch8 CHR ''/''" using assms(1) a by (simp add: url_wf_def)
  ultimately show ?thesis using that a by (simp add: target_def)
qed

lemma host_ok:
  assumes "url_wf p"
  shows "value_ok (up_host p @ host_port p)"
proof -
  have h: "up_host p \<noteq> []" "list_all IS_HOST_CHAR (up_host p)" "\<And>d. up_port p = Some d \<Longrightarrow> list_all IS_NUM d"
    using assms by (auto simp: url_wf_def)
  have c: "c \<noteq> CR \<and> c \<noteq> LF \<and> IS_HEADER_CHAR c \<and> c \<noteq> SPACE \<and> c \<noteq> HTAB" if "server_text c" for c
    using that
    by (auto simp: server_text_def IS_HOST_CHAR_eq IS_ALPHA_eq IS_NUM_eq IS_HEADER_CHAR_def
      intro: less_le_trans [of 31 48 c] less_le_trans [of 31 65 c] less_le_trans [of 31 97 c])
  have "list_all server_text (up_host p @ host_port p)"
    using h(2,3) by (cases "up_port p") (auto simp: host_port_def server_text_def list_all_iff)
  then have "list_all (\<lambda>c. c \<noteq> CR \<and> c \<noteq> LF \<and> IS_HEADER_CHAR c \<and> c \<noteq> SPACE \<and> c \<noteq> HTAB) (up_host p @ host_port p)"
    using c by (simp add: list_all_iff)
  with h(1) show ?thesis by (cases "up_host p") (auto simp: value_ok_def list_all_iff)
qed

definition hosted :: http_parser where
  "hosted = (requested 1)\<lparr>hp_flags := 0, hp_index := 0, hp_state := s_header_almost_done, hp_header_state := h_general\<rparr>"

definition asked :: http_parser where
  "asked = hosted\<lparr>hp_flags := F_UPGRADE OR F_CONNECTION_UPGRADE\<rparr>"

lemma hosted_run:
  "lines_run upgrade_headers hosted =
    Some (hosted\<lparr>hp_flags := F_UPGRADE, hp_index := 6, hp_header_state := h_connection_upgrade\<rparr>)"
  by code_simp

lemma asked_ended:
  "hp_upgrade (ended asked)" "\<not> has_body (ended asked)" "\<not> has_flag F_TRAILING (ended asked)"
  "\<not> has_transfer_encoding asked" "hp_errno asked = HPE_OK"
  by code_simp+

lemma request_names:
  "name_ok (ascii ''Host'')" "field_start (TOKEN (hd (ascii ''Host''))) = h_general"
  "plain_line (ascii ''Sec-WebSocket-Version'', ascii ''13'')"
  "name_ok (ascii ''Sec-WebSocket-Key'')" "field_start (TOKEN (hd (ascii ''Sec-WebSocket-Key''))) = h_general"
  by code_simp+

lemma client_lines_ok:
  assumes "url_wf p" "value_ok key" "list_all plain_line hs"
  shows "list_all line_ok (client_headers p key hs)"
  using host_ok [OF assms(1)] assms(2,3) request_names upgrade_lines_ok
  by (auto simp: client_headers_def line_ok_def plain_line_def list_all_iff)

lemma client_lines_run:
  assumes "value_ok key" "list_all plain_line hs"
  shows "lines_run (tl (client_headers p key hs)) hosted = Some asked"
proof -
  let ?ls = "(ascii ''Sec-WebSocket-Version'', ascii ''13'') # (ascii ''Sec-WebSocket-Key'', key) # hs"
  have "list_all plain_line ?ls" using assms request_names by (simp add: plain_line_def line_ok_def)
  then have "lines_run ?ls (hosted\<lparr>hp_flags := F_UPGRADE, hp_index := 6, hp_header_state := h_connection_upgrade\<rparr>) = Some asked"
    by (subst plain_lines_run) (simp_all add: asked_def hosted_def requested_def method_read_def header_flag_def connection_flag_def)
  then show ?thesis by (simp add: client_headers_def lines_run_append hosted_run)
qed

lemma request_execute:
  assumes w: "url_wf p" "up_path p \<noteq> []" "value_ok key" "list_all plain_line hs"
    and l: "length (request_text p key hs @ rest) \<le> max_header_size"
    and c: "on_request_complete (ended asked) (fed (client_headers p key hs) s) = Some (x, s')"
  shows "\<exists>q. http_parser_execute (parse_settings WIC_ROLE_SERVER) (http_parser_init HTTP_REQUEST) (Some s) (request_text p key hs @ rest) =
      Some (Some (length (request_text p key hs)), q, Some s') \<and> hp_errno q = (if x = 0 then HPE_OK else HPE_CB_message_complete)"
proof -
  let ?S = "parse_settings WIC_ROLE_SERVER" and ?data = "request_text p key hs @ rest"
  let ?hs = "client_headers p key hs" and ?h = "(ascii ''Host'', up_host p @ host_port p)"
  let ?line = "method_strings ! 1 @ ascii '' '' @ target p @ version_line"
  obtain ts where ts: "target p = ch8 CHR ''/'' # ts" "list_all target_char ts" by (rule target_ok [OF w(1,2)])
  have hs: "?hs = ?h # tl ?hs" "header_lines ?hs = header_lines [?h] @ header_lines (tl ?hs)"
    by (simp_all add: client_headers_def header_lines_def)
  have "list_all line_ok ?hs" by (rule client_lines_ok [OF w(1,3,4)])
  then have ok: "list_all line_ok (tl ?hs)" by (simp add: client_headers_def)
  have ne: "?line \<noteq> []" by (simp add: ascii_def)
  have one: "http_loop ?S ?data (http_next ?S ?data (http_run_start (http_parser_init HTTP_REQUEST) (Some s))) =
      http_loop ?S ?data (Break, at ?line s_header_field_start no_mark (requested 1) (Some s) LF)"
    unfolding ts(1)
    by (rule request_line_run [of 1 _ _ _ "header_lines ?hs @ CRLF @ rest"]) (use l ts in \<open>simp_all add: request_text_lines\<close>)
  have "plain_line ?h" using host_ok [OF w(1)] request_names by (simp add: plain_line_def line_ok_def)
  then have run: "line_run ?h 0 (requested 1) = Some hosted" by (simp add: plain_name_run hosted_def)
  have two: "http_loop ?S ?data (Break, at ?line s_header_field_start no_mark (requested 1) (Some s) LF) =
      http_loop ?S ?data (Break, at (?line @ header_lines [?h]) s_header_value_lws no_mark hosted
        (Some (fold feed (events_of (one_piece ?h)) s)) LF)"
    by (rule header_line [of _ _ _ "header_lines (tl ?hs) @ CRLF @ rest", OF _ _ _ ne run])
      (use w host_ok [OF w(1)] request_names l hs(2) in \<open>simp_all add: request_text_lines requested_def method_read_def http_parser_init_def\<close>)
  have three: "http_loop ?S ?data (Break, at (?line @ header_lines [?h]) s_header_value_lws no_mark hosted
        (Some (fold feed (events_of (one_piece ?h)) s)) LF) =
      http_loop ?S ?data (Break, at ((?line @ header_lines [?h]) @ header_lines (tl ?hs)) s_header_value_lws no_mark asked
        (Some (fed (tl ?hs) (fold feed (events_of (one_piece ?h)) s))) LF)"
    by (rule header_lines_run [of _ _ _ "CRLF @ rest", OF _ ok _ _ _ client_lines_run [OF w(3,4)]])
      (use ne l hs(2) in \<open>simp_all add: request_text_lines hosted_def requested_def method_read_def http_parser_init_def\<close>)
  have fd: "fed (tl ?hs) (fold feed (events_of (one_piece ?h)) s) = fed ?hs s" by (subst (2) hs(1)) simp
  have pre: "(?line @ header_lines [?h]) @ header_lines (tl ?hs) = ?line @ header_lines ?hs" using hs(2) by simp
  obtain r where r: "http_loop ?S ?data (Break, at (?line @ header_lines ?hs) s_header_value_lws no_mark asked (Some (fed ?hs s)) LF) =
        Some (Return (length (?line @ header_lines ?hs) + 2), r)"
    "r_data r = Some s'" "hp_errno (r_parser r) = (if x = 0 then HPE_OK else HPE_CB_message_complete)"
    using message_end [of ?data "?line @ header_lines ?hs" rest asked WIC_ROLE_SERVER "fed ?hs s" x s', OF _ _ l asked_ended(5,1,2,3,4)] c ne
    by (auto simp: request_text_lines)
  have "http_loop ?S ?data (http_next ?S ?data (http_run_start (http_parser_init HTTP_REQUEST) (Some s))) =
      Some (Return (length (request_text p key hs)), r)"
    unfolding one two three fd pre r(1) by (simp add: request_text_lines CRLF_def)
  moreover have "?data \<noteq> []" "hp_errno (http_parser_init HTTP_REQUEST) = HPE_OK"
    using ne by (simp_all add: request_text_lines http_parser_init_def)
  ultimately have "http_parser_execute ?S (http_parser_init HTTP_REQUEST) (Some s) ?data =
      Some (Some (length (request_text p key hs)), r_parser r, r_data r)" by (intro execute_loop)
  with r(2,3) show ?thesis by (intro exI [of _ "r_parser r"]) simp
qed

section \<open>The server takes the request\<close>

text \<open>\<open>on_open\<close> of \<open>examples/autobahn/server.c\<close> starts the instance; the result of \<open>wic_start\<close> is
  not looked at. The handlers of such an application, over those that do the sending.\<close>

definition server_on_open :: "'w host \<Rightarrow> 'w wic_inst \<Rightarrow> 'w wic_inst" where
  "server_on_open h inst = (case wic_start h inst of None \<Rightarrow> inst | Some (_, inst) \<Rightarrow> inst)"

definition serving :: "'w host \<Rightarrow> 'w host" where
  "serving h = h\<lparr>run_open := (\<lambda>_ inst. server_on_open h inst)\<rparr>"

text \<open>An instance as \<open>wic_init\<close> leaves one, had it the role of the server, with room for the headers.\<close>

definition serves :: "'w wic_inst \<Rightarrow> nat \<Rightarrow> bool" where
  "serves self n \<longleftrightarrow>
     role self = WIC_ROLE_SERVER \<and> istate self = WIC_STATE_PARSE_HANDSHAKE \<and> http self = http_parser_init HTTP_REQUEST \<and>
     header_state self = WIC_HEADER_STATE_IDLE \<and> st_data (rx_s (rx self)) = [] \<and> can_store self n \<and>
     rx_state (rx self) = WIC_RX_STATE_OPCODE \<and> h_open self \<noteq> None"

lemma client_lookups:
  "lookup (client_headers p key hs) (ascii ''upgrade'') = Some (ascii ''websocket'')"
  "lookup (client_headers p key hs) (ascii ''Sec-WebSocket-Key'') = Some key"
proof -
  have ne: "map to_lower (ascii ''Upgrade'') = map to_lower (ascii ''upgrade'')"
    "map to_lower (ascii ''Host'') \<noteq> map to_lower (ascii ''upgrade'')"
    "map to_lower (ascii ''Host'') \<noteq> map to_lower (ascii ''Sec-WebSocket-Key'')"
    "map to_lower (ascii ''Upgrade'') \<noteq> map to_lower (ascii ''Sec-WebSocket-Key'')"
    "map to_lower (ascii ''Connection'') \<noteq> map to_lower (ascii ''Sec-WebSocket-Key'')"
    "map to_lower (ascii ''Sec-WebSocket-Version'') \<noteq> map to_lower (ascii ''Sec-WebSocket-Key'')" by code_simp+
  show "lookup (client_headers p key hs) (ascii ''upgrade'') = Some (ascii ''websocket'')"
    "lookup (client_headers p key hs) (ascii ''Sec-WebSocket-Key'') = Some key"
    using ne by (simp_all add: lookup_def client_headers_def upgrade_headers_def)
qed

lemma fed_header_state:
  assumes "hs \<noteq> []" "list_all line_ok hs" "header_state self \<noteq> WIC_HEADER_STATE_FIELD"
    "can_store self (length (closing self) + length (store hs))"
  shows "header_state (fed hs self) = WIC_HEADER_STATE_VALUE"
proof -
  have "list_all (\<lambda>h. fst h \<noteq> [] \<and> snd h \<noteq> []) (map one_piece hs)" using line_ok_wf assms(2)
    by (auto simp: list_all_iff one_piece_def)
  from feed_headers [OF this assms(3)] assms(1,4) show ?thesis by (simp add: fed_def Let_def one_piece_joined(2) del: map_map)
qed

text \<open>Only the receive stream and the header state differ.\<close>

lemma fed_shape: "\<exists>x hst. fed hs self = self\<lparr>rx := (rx self)\<lparr>rx_s := x\<rparr>, header_state := hst\<rparr>"
  using touched_events [OF touched_refl, of self "concat (map events_of (map one_piece hs))"]
  by (simp add: fed_def touched_def)

lemma server_decides:
  assumes "url_wf p" "value_ok key" "list_all plain_line hs" "serves self (length (store (client_headers p key hs)))"
  shows "on_request_complete (ended asked) (fed (client_headers p key hs) self) =
      Some (0, (ready_for (fed (client_headers p key hs) self))\<lparr>hash := server_hash key\<rparr>)"
    "holds (end_headers (fed (client_headers p key hs) self)) (client_headers p key hs)"
proof -
  let ?hs = "client_headers p key hs"
  note ok = client_lines_ok [OF assms(1-3)]
  have ne: "?hs \<noteq> []" by (simp add: client_headers_def)
  show h: "holds (end_headers (fed ?hs self)) ?hs"
    using assms(4) by (intro fed_holds ne ok) (simp_all add: serves_def)
  have "header_state (fed ?hs self) = WIC_HEADER_STATE_VALUE"
    using assms(4) by (intro fed_header_state ne ok) (simp_all add: serves_def closing_def)
  then have "header_state (fed ?hs self) \<noteq> WIC_HEADER_STATE_FIELD" by simp
  from request_decided [OF h this, of "ended asked"]
  show "on_request_complete (ended asked) (fed ?hs self) = Some (0, (ready_for (fed ?hs self))\<lparr>hash := server_hash key\<rparr>)"
    using client_lookups [of p key hs] asked_ended(1) by (simp add: request_ok_def names_websocket_def)
qed

context link
begin

lemma start_server_keeps:
  assumes "start_server h self = (st, self')"
  shows "\<exists>s a. self' = self\<lparr>istate := s, app := a\<rparr>"
proof -
  obtain r a where b: "call_buffer h self 0 WIC_BUFFER_HTTP = (r, self\<lparr>app := a\<rparr>)" using call_buffer_law by blast
  have same: "self = self\<lparr>istate := istate self, app := app self\<rparr>" "self\<lparr>app := x\<rparr> = self\<lparr>istate := istate self, app := x\<rparr>" for x
    by simp_all
  have sent: "\<exists>s x. call_send h (self\<lparr>app := a, istate := i\<rparr>) d t = self\<lparr>istate := s, app := x\<rparr>"
    "\<exists>x. call_send h (self\<lparr>app := a\<rparr>) d t = self\<lparr>app := x\<rparr>" for i d t
    using call_send_law [of "self\<lparr>app := a, istate := i\<rparr>" d t] call_send_law [of "self\<lparr>app := a\<rparr>" d t] by auto
  show ?thesis
  proof (cases "istate self = WIC_STATE_READY \<and> fst r \<noteq> None")
    case True
    then obtain mem mx where r: "r = (Some mem, mx)" by (cases r) auto
    then have "(\<exists>i d t. self' = call_send h (self\<lparr>app := a, istate := i\<rparr>) d t) \<or> (\<exists>d t. self' = call_send h (self\<lparr>app := a\<rparr>) d t)"
      using assms b True by (auto simp: start_server_def Let_def split: if_splits)
    then show ?thesis using sent same(2) by metis
  next
    case False
    then have "self' = self \<or> self' = self\<lparr>app := a\<rparr>"
      using assms b by (cases r) (auto simp: start_server_def split: if_splits)
    then show ?thesis using same by blast
  qed
qed

text \<open>The whole request in one call: it is taken, and the response written.\<close>

lemma request_served:
  assumes "url_wf p" "up_path p \<noteq> []" "value_ok key" "list_all plain_line hs"
    "length (request_text p key hs) \<le> max_header_size" "serves self (length (store (client_headers p key hs)))"
    "\<And>x. \<exists>mem y. call_buffer h x 0 WIC_BUFFER_HTTP = ((Some mem, mx), y)" "mx < 2 ^ 32"
    "length (response_text (rfc4648_encode (server_hash key)) (tx_header self)) \<le> mx"
  shows "\<exists>self'. wic_parse (serving h) self (request_text p key hs) = Some (length (request_text p key hs), self') \<and>
    istate self' = WIC_STATE_OPEN \<and> hash self' = server_hash key \<and> holds (self'\<lparr>istate := WIC_STATE_READY\<rparr>) (client_headers p key hs) \<and>
    wire (app self') = wire (app self) @ response_text (rfc4648_encode (server_hash key)) (tx_header self)"
proof -
  let ?hs = "client_headers p key hs" and ?data = "request_text p key hs"
  note s = assms(6) [unfolded serves_def]
  note d = server_decides [OF assms(1,3,4,6)]
  from request_execute [OF assms(1-4) _ d(1), of "[]"] assms(5) obtain q where
    q: "http_parser_execute (parse_settings WIC_ROLE_SERVER) (http_parser_init HTTP_REQUEST) (Some self) ?data =
      Some (Some (length ?data), q, Some ((ready_for (fed ?hs self))\<lparr>hash := server_hash key\<rparr>))" "hp_errno q = HPE_OK" by auto
  define t where "t = (ready_for (fed ?hs self))\<lparr>hash := server_hash key, http := q\<rparr>"
  obtain x hst where f: "fed ?hs self = self\<lparr>rx := (rx self)\<lparr>rx_s := x\<rparr>, header_state := hst\<rparr>" using fed_shape by blast
  have t: "istate t = WIC_STATE_READY" "role t = WIC_ROLE_SERVER" "hash t = server_hash key" "tx_header t = tx_header self"
    "app t = app self" "rx_state (rx t) = WIC_RX_STATE_OPCODE" "h_open t \<noteq> None" "holds t ?hs"
    using s d(2) by (auto simp: t_def f end_headers_def rx_append_def holds_def)
  obtain st u where u: "start_server h t = (st, u)" by fastforce
  obtain mem y where b: "call_buffer h t 0 WIC_BUFFER_HTTP = ((Some mem, mx), y)" using assms(7) by blast
  have "handshake_sent wire t u st WIC_STATE_OPEN mx (response_text (rfc4648_encode (hash t)) (tx_header t))"
    using start_server_text [OF t(1) _ u b assms(8)] t(3) by simp
  then have sent: "istate u = WIC_STATE_OPEN" "wire (app u) = wire (app self) @ response_text (rfc4648_encode (server_hash key)) (tx_header self)"
    using assms(9) t by (simp_all add: handshake_sent_def)
  obtain a where a: "u = t\<lparr>istate := WIC_STATE_OPEN, app := a\<rparr>" using start_server_keeps [OF u] sent(1) by auto
  have "call_open (serving h) t = u"
    using t(2,7) u by (auto simp: call_open_def serving_def server_on_open_def wic_start_def)
  then have ph: "parse_handshake (serving h) self (stream_init_ro ?data (length ?data)) ?data =
      Some (u, snd (stream_seek (stream_init_ro ?data (length ?data)) (length ?data)))"
    using s q t(1) sent(1) a by (simp add: parse_handshake_def Let_def t_def [symmetric])
  let ?s = "snd (stream_seek (stream_init_ro ?data (length ?data)) (length ?data))"
  have r: "reader ?s []" "stream_pos ?s = length ?data"
    using assms(5) by (simp_all add: max_header_size_def reader_def reader_ok_def stream_seek_def stream_init_ro_def st_rest_def stream_pos_def)
  have "ws_loop (serving h) u ?s = Some (u, ?s\<lparr>st_error := True\<rparr>)" by (rule ws_loop_nothing) (use r t(6) a in simp_all)
  then have "wic_parse (serving h) self ?data = Some (length ?data, u)"
    using s ph r sent(1) by (simp add: wic_parse_def Let_def stream_pos_def)
  moreover have "holds (u\<lparr>istate := WIC_STATE_READY\<rparr>) ?hs" "hash u = server_hash key" using t(3,8) a by (simp_all add: holds_def)
  ultimately show ?thesis using sent by blast
qed

end

end
