(* ===== verification/Wic_Delivery.thy ===== *)
theory Wic_Delivery
  imports Wic_Chunks
begin

text \<open>
  What the receiver makes of whole frames. \<open>leads h a bs b\<close>: reading \<open>bs\<close> takes the loop from
  instance \<open>a\<close> to instance \<open>b\<close>, whatever comes after. A frame laid out as RFC 6455 says is
  read back as its opcode and its payload, and is acted on once, by the handler its kind
  calls for.
\<close>

definition leads :: "'w host \<Rightarrow> 'w wic_inst \<Rightarrow> bytes \<Rightarrow> 'w wic_inst \<Rightarrow> bool" where
  "leads h a bs b \<longleftrightarrow>
     (\<forall>s rest. reader s (bs @ rest) \<longrightarrow> (\<exists>s'. reader s' rest \<and> ws_loop h a s = ws_loop h b s'))"

lemma leads_refl: "leads h a [] a"
  by (auto simp: leads_def)

lemma leads_trans: "leads h a xs b \<Longrightarrow> leads h b ys c \<Longrightarrow> leads h a (xs @ ys) c"
  unfolding leads_def by (metis append.assoc)

lemma leads_Cons: "leads h a [x] b \<Longrightarrow> leads h b ys c \<Longrightarrow> leads h a (x # ys) c"
  using leads_trans [of h a "[x]" b ys c] by simp

text \<open>The loop ends in that instance, with that much of the input left.\<close>

definition stops :: "'w host \<Rightarrow> 'w wic_inst \<Rightarrow> bytes \<Rightarrow> 'w wic_inst \<Rightarrow> bool" where
  "stops h a bs b \<longleftrightarrow>
     (\<forall>s rest. reader s (bs @ rest) \<longrightarrow> (\<exists>s'. reader s' rest \<and> ws_loop h a s = Some (b, s')))"

lemma leads_stops: "leads h a xs b \<Longrightarrow> stops h b ys c \<Longrightarrow> stops h a (xs @ ys) c"
  unfolding leads_def stops_def by (metis append.assoc)

text \<open>Going on to \<open>b\<close>, or ending there when \<open>b\<close> is no longer open.\<close>

definition reaches :: "'w host \<Rightarrow> 'w wic_inst \<Rightarrow> bytes \<Rightarrow> 'w wic_inst \<Rightarrow> bool" where
  "reaches h a bs b \<longleftrightarrow> (if istate b = WIC_STATE_OPEN then leads h a bs b else stops h a bs b)"

lemma leads_reaches: "leads h a xs b \<Longrightarrow> reaches h b ys c \<Longrightarrow> reaches h a (xs @ ys) c"
  by (auto simp: reaches_def intro: leads_trans leads_stops)

section \<open>Storing the payload\<close>

text \<open>The bytes on the wire for a payload, from the current position on, and the receive frame
  once they are stored.\<close>

definition on_wire :: "wic_rx_frame \<Rightarrow> bytes \<Rightarrow> bytes" where
  "on_wire r p = (if rx_masked r then mask_from (st_pos (rx_s r)) (rx_mask r) p else p)"

definition utf8_after :: "wic_rx_frame \<Rightarrow> bytes \<Rightarrow> u16" where
  "utf8_after r p =
     (if rx_kind r = WIC_OPCODE_TEXT then utf8_parse_string (rx_utf8 r) p
      else if rx_kind r = WIC_OPCODE_CLOSE then utf8_parse_string (rx_utf8 r) (drop (2 - st_pos (rx_s r)) p)
      else rx_utf8 r)"

definition stored :: "wic_rx_frame \<Rightarrow> bytes \<Rightarrow> wic_rx_frame" where
  "stored r p = r\<lparr>rx_size := rx_size r - of_nat (length p),
     rx_s := (rx_s r)\<lparr>st_buf := take (st_pos (rx_s r)) (st_buf (rx_s r)) @ p @
         drop (st_pos (rx_s r) + length p) (st_buf (rx_s r)),
       st_pos := st_pos (rx_s r) + length p\<rparr>,
     rx_utf8 := utf8_after r p\<rparr>"

lemma stored_Nil: "rx_base r \<Longrightarrow> stored r [] = r"
  by (simp add: stored_def utf8_after_def utf8_parse_string_def rx_base_def)

lemma rx_put_stored:
  assumes "rx_base r" "st_pos (rx_s r) < st_size (rx_s r)"
  shows "rx_put r b = stored r [rx_unmask r b]"
proof -
  have "\<not> stream_eof (rx_s r)" using assms(2) by (simp add: stream_eof_def)
  with rx_put_eq [OF assms(1) this, of b] assms show ?thesis
    by (auto simp: stored_def utf8_after_def utf8_parse_string_def rx_base_def upd_conv_take_nth_drop
        not_less numeral_2_eq_2 Suc_diff_le)
qed

lemma stored_fields [simp]:
  "rx_masked (stored r p) = rx_masked r" "rx_mask (stored r p) = rx_mask r" "rx_kind (stored r p) = rx_kind r"
  "rx_fin (stored r p) = rx_fin r" "rx_frag (stored r p) = rx_frag r" "rx_opcode (stored r p) = rx_opcode r"
  "rx_state (stored r p) = rx_state r" "rx_size (stored r p) = rx_size r - of_nat (length p)"
  "st_pos (rx_s (stored r p)) = st_pos (rx_s r) + length p" "st_size (rx_s (stored r p)) = st_size (rx_s r)"
  "rx_utf8 (stored r p) = utf8_after r p"
  by (simp_all add: stored_def rx_kind_def)

lemma stored_append:
  assumes "rx_base r" "st_pos (rx_s r) + length p \<le> st_size (rx_s r)"
  shows "stored (stored r p) q = stored r (p @ q)"
proof -
  let ?s = "rx_s r"
  have len: "st_pos ?s \<le> length (st_buf ?s)" "st_pos ?s + length p \<le> length (st_buf ?s)"
    using assms by (auto simp: rx_base_def)
  have u: "utf8_after (stored r p) q = utf8_after r (p @ q)"
    by (simp add: utf8_after_def utf8_parse_string_append)
  have b: "take (st_pos ?s + length p) (st_buf (rx_s (stored r p))) @ q @
      drop (st_pos ?s + length p + length q) (st_buf (rx_s (stored r p))) =
    take (st_pos ?s) (st_buf ?s) @ (p @ q) @ drop (st_pos ?s + length (p @ q)) (st_buf ?s)"
    using len by (cases p) (auto simp: stored_def min_def drop_append ac_simps)
  show ?thesis
    unfolding stored_def [of "stored r p" q] u stored_fields b
    by (simp add: stored_def [of r] add.assoc)
qed

lemma rx_base_stored:
  assumes "rx_base r" "st_pos (rx_s r) + length p \<le> st_size (rx_s r)"
  shows "rx_base (stored r p)"
proof -
  have "utf8_state_ok (utf8_after r p)"
    using assms(1) by (simp add: utf8_after_def rx_base_def utf8_parse_string_ok)
  then show ?thesis using assms by (simp add: rx_base_def stored_def)
qed

lemma rx_data_stored:
  assumes "rx_base r" "st_pos (rx_s r) = 0" "length p \<le> st_size (rx_s r)" "length p < 65536"
  shows "rx_data (stored r p) = p"
  using assms by (simp add: rx_data_def stored_def span_def unat_of_nat)

section \<open>Reading the payload\<close>

text \<open>The bytes checked so far cannot be UTF-8; only text and close frames are checked.\<close>

definition utf8_bad :: "wic_rx_frame \<Rightarrow> bytes \<Rightarrow> bool" where
  "utf8_bad r p \<longleftrightarrow> (rx_kind r = WIC_OPCODE_TEXT \<or> rx_kind r = WIC_OPCODE_CLOSE) \<and> utf8_is_invalid (utf8_after r p)"

lemma utf8_bad_stored:
  assumes "rx_base r" "st_pos (rx_s r) + length p \<le> st_size (rx_s r)"
  shows "utf8_bad (stored r p) q = utf8_bad r (p @ q)"
  using arg_cong [where f = rx_utf8, OF stored_append [OF assms, of q]] by (simp add: utf8_bad_def)

lemma drop_one: "drop (Suc (Suc 0) - k) [b] = (if Suc 0 < k then [b] else [])"
  by (cases k; cases "k - 1") auto

lemma data_byte_eq:
  assumes "rx_base (rx self)" "st_pos (rx_s (rx self)) < st_size (rx_s (rx self))"
    "\<not> utf8_bad (rx self) [rx_unmask (rx self) b]"
  shows "data_byte h self b = self\<lparr>rx := stored (rx self) [rx_unmask (rx self) b]\<rparr>"
proof -
  have eof: "\<not> stream_eof (rx_s (rx self))" using assms(2) by (simp add: stream_eof_def)
  have w: "st_pos (snd (stream_write (rx_s (rx self)) [c])) = Suc (st_pos (rx_s (rx self)))" for c
    using assms(1,2) by (simp add: stream_write_byte rx_base_def)
  have e: "rx_put (rx self) b = stored (rx self) [rx_unmask (rx self) b]"
    by (rule rx_put_stored [OF assms(1,2)])
  show ?thesis
    unfolding e [symmetric]
    using assms(3)
    by (cases "rx_masked (rx self)"; cases "rx_kind (rx self)")
      (simp_all add: data_byte_def rx_put_def rx_unmask_def Let_def set_rx_stream_def stream_put_u8_masked_def
        stream_put_u8_def stream_pos_def split_beta w utf8_bad_def utf8_after_def utf8_parse_string_def
        drop_one numeral_2_eq_2 split: if_splits)
qed

lemma on_wire_Cons:
  "on_wire r (c # p) = (if rx_masked r then c XOR rx_mask r ! (st_pos (rx_s r) mod 4) else c) # on_wire (stored r [c]) p"
  by (simp add: on_wire_def)

lemma utf8_after_prefix:
  assumes "rx_base r" "\<not> utf8_bad r (p @ q)"
  shows "\<not> utf8_bad r p"
proof -
  have d: "utf8_parse_string 1 bs = 1" for bs
    using utf8.dead_run by (simp add: utf8_parse_string_def)
  show ?thesis
    using assms(2) d by (auto simp: utf8_bad_def utf8_after_def utf8_is_invalid_def utf8_parse_string_append)
qed

text \<open>Bytes that are not the last ones of the frame.\<close>

lemma leads_payload:
  assumes "rx_state (rx self) = WIC_RX_STATE_DATA" "istate self = WIC_STATE_OPEN" "rx_base (rx self)"
    "st_pos (rx_s (rx self)) + length p \<le> st_size (rx_s (rx self))" "length p < unat (rx_size (rx self))"
    "\<not> utf8_bad (rx self) p"
  shows "leads h self (on_wire (rx self) p) (self\<lparr>rx := stored (rx self) p\<rparr>)"
  using assms
proof (induction p arbitrary: self)
  case Nil
  then show ?case by (simp add: stored_Nil on_wire_def leads_refl)
next
  case (Cons c p)
  let ?r = "rx self" and ?w = "if rx_masked (rx self) then c XOR rx_mask (rx self) ! (st_pos (rx_s (rx self)) mod 4) else c"
  have um: "rx_unmask ?r ?w = c" by (simp add: rx_unmask_def)
  have lt: "st_pos (rx_s ?r) < st_size (rx_s ?r)" using Cons.prems(4) by simp
  have ni: "\<not> utf8_bad ?r [c]"
    using utf8_after_prefix [of ?r "[c]" p] Cons.prems(3,6) by simp
  let ?self1 = "self\<lparr>rx := stored ?r [c]\<rparr>"
  have byte: "data_byte h self ?w = ?self1"
    using data_byte_eq [of self ?w h] Cons.prems(3) lt ni um by simp
  have n0: "rx_size ?r \<noteq> 0" using Cons.prems(5) by auto
  have n: "0 < rx_size ?r" "rx_size ?r - 1 \<noteq> 0"
    using Cons.prems(5) n0 unat_minus_one [OF n0] by (auto simp: word_gt_0)
  have n1: "unat (rx_size ?r - 1) = unat (rx_size ?r) - 1" using n0 by (simp add: unat_minus_one)
  have read: "data_read h self ?w = (False, ?self1)"
    using Cons.prems(2) n(2) by (simp add: data_read_def byte)
  have "leads h self [?w] ?self1"
    unfolding leads_def
  proof (intro allI impI)
    fix s rest assume s: "reader s ([?w] @ rest)"
    then obtain s' where g: "stream_get_u8 s = (Some ?w, s')" "reader s' rest" by (auto elim: reader_Cons)
    have "wants_byte ?r" using lt n by (simp add: wants_byte_def stream_eof_def)
    then have "ws_step h self s = (False, ?self1, s')"
      using Cons.prems(1) g read by (simp add: ws_step_def parse_head_data parse_data_eq)
    then have "ws_loop h self s = ws_loop h ?self1 s'"
      using Cons.prems(2) by (subst ws_loop.simps) simp
    with g show "\<exists>s'. reader s' rest \<and> ws_loop h self s = ws_loop h ?self1 s'" by blast
  qed
  moreover have "leads h ?self1 (on_wire (rx ?self1) p) (?self1\<lparr>rx := stored (rx ?self1) p\<rparr>)"
  proof (rule Cons.IH)
    show "rx_base (rx ?self1)" using rx_base_stored [of ?r "[c]"] Cons.prems(3) lt by simp
    show "\<not> utf8_bad (rx ?self1) p"
      using Cons.prems(6) utf8_bad_stored [of ?r "[c]" p, OF Cons.prems(3)] lt by simp
  qed (use Cons.prems n1 in \<open>simp_all add: stored_def\<close>)
  ultimately have "leads h self (?w # on_wire (rx ?self1) p) (?self1\<lparr>rx := stored (rx ?self1) p\<rparr>)"
    by (rule leads_Cons)
  moreover have "stored (rx ?self1) p = stored ?r (c # p)"
    using stored_append [of ?r "[c]" p] Cons.prems(3) lt by simp
  ultimately show ?case by (simp add: on_wire_Cons)
qed

text \<open>One more byte in the data part: what \<open>data_read\<close> makes of it.\<close>

lemma reaches_byte:
  assumes "rx_state (rx self) = WIC_RX_STATE_DATA" "rx_size (rx self) \<noteq> 0"
    "st_pos (rx_s (rx self)) < st_size (rx_s (rx self))" "data_read h self b = (False, self')"
  shows "reaches h self [b] self'"
proof -
  have w: "wants_byte (rx self)" using assms(2,3) by (simp add: wants_byte_def stream_eof_def word_gt_0)
  have step: "\<exists>s'. reader s' rest \<and> ws_step h self s = (False, self', s')" if "reader s ([b] @ rest)" for s rest
  proof -
    from that obtain s' where "stream_get_u8 s = (Some b, s')" "reader s' rest" by (auto elim: reader_Cons)
    with assms w show ?thesis by (simp add: ws_step_def parse_head_data parse_data_eq)
  qed
  show ?thesis
  proof (cases "istate self' = WIC_STATE_OPEN")
    case True
    have "leads h self [b] self'"
      unfolding leads_def
    proof (intro allI impI)
      fix s rest assume "reader s ([b] @ rest)"
      with step obtain s' where s': "reader s' rest" "ws_step h self s = (False, self', s')" by blast
      then have "ws_loop h self s = ws_loop h self' s'" using True by (subst ws_loop.simps) simp
      with s' show "\<exists>s'. reader s' rest \<and> ws_loop h self s = ws_loop h self' s'" by blast
    qed
    with True show ?thesis by (simp add: reaches_def)
  next
    case False
    have "stops h self [b] self'"
      unfolding stops_def
    proof (intro allI impI)
      fix s rest assume "reader s ([b] @ rest)"
      with step obtain s' where s': "reader s' rest" "ws_step h self s = (False, self', s')" by blast
      then have "ws_loop h self s = Some (self', s')" using False by (subst ws_loop.simps) simp
      with s' show "\<exists>s'. reader s' rest \<and> ws_loop h self s = Some (self', s')" by blast
    qed
    with False show ?thesis by (simp add: reaches_def)
  qed
qed

lemma reaches_idle:
  assumes "rx_state (rx self) = WIC_RX_STATE_DATA" "\<not> wants_byte (rx self)" "data_idle h self = (False, self')"
  shows "reaches h self [] self'"
proof -
  have step: "ws_step h self s = (False, self', s)" for s
    using assms by (simp add: ws_step_def parse_head_data parse_data_eq)
  show ?thesis
    using step by (auto simp: reaches_def leads_def stops_def ws_loop.simps [of h self])
qed

text \<open>The whole payload of a frame that fits, to the end of the frame.\<close>

lemma reaches_payload:
  assumes d: "rx_state (rx self) = WIC_RX_STATE_DATA" "istate self = WIC_STATE_OPEN" and base: "rx_base (rx self)"
    and fit: "st_pos (rx_s (rx self)) + length p \<le> st_size (rx_s (rx self))" "length p = unat (rx_size (rx self))"
    and ni: "\<not> utf8_bad (rx self) p"
    and fin: "data_finish h False (self\<lparr>rx := stored (rx self) p\<rparr>) = (False, self')"
  shows "reaches h self (on_wire (rx self) p) self'"
proof (cases p rule: rev_cases)
  case Nil
  with fit(2) have z: "rx_size (rx self) = 0" by (simp add: unat_eq_0)
  have "data_idle h self = (False, self')"
    using fin Nil stored_Nil [OF base] d(2) by (simp add: data_idle_def z)
  then show ?thesis
    using reaches_idle [OF d(1), of h self'] Nil z by (simp add: wants_byte_def on_wire_def)
next
  case (snoc q c)
  let ?r = "rx self"
  let ?self1 = "self\<lparr>rx := stored ?r q\<rparr>"
  have lead: "leads h self (on_wire ?r q) ?self1"
    using leads_payload [OF d base, of q h] fit ni utf8_after_prefix [OF base, of q "[c]"] snoc by simp
  have base1: "rx_base (rx ?self1)" using rx_base_stored [OF base, of q] fit snoc by simp
  define w where "w = (if rx_masked ?r then c XOR rx_mask ?r ! (st_pos (rx_s (rx ?self1)) mod 4) else c)"
  have um: "rx_unmask (rx ?self1) w = c" by (simp add: rx_unmask_def w_def)
  have app: "stored (stored ?r q) [c] = stored ?r p"
    using stored_append [OF base, of q "[c]"] fit snoc by simp
  have size1: "rx_size (rx ?self1) = 1"
  proof -
    have "rx_size ?r = of_nat (unat (rx_size ?r))" by simp
    also have "\<dots> = of_nat (Suc (length q))" using fit(2) snoc by (metis length_append_singleton)
    finally show ?thesis by simp
  qed
  have u: "utf8_bad (stored ?r q) [c] = utf8_bad ?r p"
    using utf8_bad_stored [OF base, of q "[c]"] fit snoc by simp
  have byte: "data_byte h ?self1 w = self\<lparr>rx := stored ?r p\<rparr>"
    using data_byte_eq [OF base1, of w h] um fit snoc ni app u by simp
  have "rx_size (stored ?r p) = 0"
    using fit(2) by simp
  then have "data_read h ?self1 w = (False, self')"
    using fin d(2) byte by (simp add: data_read_def)
  moreover have "rx_size (rx ?self1) \<noteq> 0" unfolding size1 by simp
  ultimately have "reaches h ?self1 [w] self'"
    using fit snoc d by (intro reaches_byte) simp_all
  moreover have "on_wire ?r p = on_wire ?r q @ [w]"
    by (simp add: snoc on_wire_def mask_from_append w_def)
  ultimately show ?thesis using leads_reaches [OF lead] by simp
qed

section \<open>Reading the header\<close>

text \<open>A byte of the header, up to and with the last one.\<close>

context app_contract
begin

lemma leads_head:
  assumes "rx_state (rx self) \<noteq> WIC_RX_STATE_DATA" "istate (head_byte h self b) = WIC_STATE_OPEN"
  shows "leads h self [b] (head_byte h self b)"
  unfolding leads_def
proof (intro allI impI)
  fix s rest assume "reader s ([b] @ rest)"
  then obtain s' where g: "stream_get_u8 s = (Some b, s')" "reader s' rest" by (auto elim: reader_Cons)
  let ?self1 = "head_byte h self b"
  have "ws_loop h self s = ws_loop h ?self1 s'"
  proof (cases "rx_state (rx ?self1) = WIC_RX_STATE_DATA")
    case True
    then have "ws_step h self s = ws_step h ?self1 s'"
      using assms(1) g by (simp add: ws_step_def parse_head_eq parse_head_data)
    then show ?thesis by (simp add: ws_loop.simps)
  next
    case False
    then have "ws_step h self s = (False, ?self1, s')"
      using assms(1) g by (simp add: ws_step_def parse_head_eq)
    then show ?thesis using assms(2) by (subst ws_loop.simps) simp
  qed
  with g show "\<exists>s'. reader s' rest \<and> ws_loop h self s = ws_loop h ?self1 s'" by blast
qed

lemma head_byte_opcode:
  assumes "rx_state (rx self) = WIC_RX_STATE_OPCODE" "\<not> rsv_bits b" "rx_legal (rx_first (rx self) b)"
  shows "head_byte h self b = self\<lparr>rx := (rx_first (rx self) b)\<lparr>rx_utf8 :=
    if byte_to_opcode b = WIC_OPCODE_CONTINUE then utf8_rx self else 0, rx_state := WIC_RX_STATE_SIZE\<rparr>\<rparr>"
  using assms parse_opcode_Some [OF get_u8_one, of h self b] by (simp add: head_byte_def parse_head_def)

lemma head_byte_size:
  assumes "rx_state (rx self) = WIC_RX_STATE_SIZE" "size_code (rx_len (rx self) b) = None"
  shows "head_byte h self b = self\<lparr>rx := rx_sized (rx_len (rx self) b)\<rparr>"
  using assms parse_size_Some [OF get_u8_one, of self b] by (simp add: head_byte_def parse_head_def)

lemma head_byte_ext:
  assumes "rx_state (rx self) \<noteq> WIC_RX_STATE_OPCODE" "rx_state (rx self) \<noteq> WIC_RX_STATE_SIZE"
    "\<not> mask_or_data (rx_state (rx self))"
  shows "head_byte h self b = self\<lparr>rx := (let r = (rx self)\<lparr>rx_size := push_bit 8 (rx_size (rx self)) OR ucast b\<rparr>
    in r\<lparr>rx_state := next_size_state r (rx_state r)\<rparr>)\<rparr>"
  using assms by (cases "rx_state (rx self)")
    (simp_all add: head_byte_def parse_head_def parse_extended_size_def get_u8_one Let_def mask_or_data_def)

lemma head_byte_mask:
  assumes "mask_or_data (rx_state (rx self))" "rx_state (rx self) \<noteq> WIC_RX_STATE_DATA"
  shows "head_byte h self b = self\<lparr>rx := (rx self)\<lparr>rx_mask := (rx_mask (rx self))[mask_index (rx_state (rx self)) := b],
    rx_state := next_mask_state (rx_state (rx self))\<rparr>\<rparr>"
  using assms by (cases "rx_state (rx self)")
    (simp_all add: head_byte_def parse_head_def parse_mask_def get_u8_one Let_def mask_or_data_def)

end

text \<open>The bytes of a frame, as the receiver takes them apart.\<close>

definition first_octet :: "bool \<Rightarrow> wic_opcode \<Rightarrow> u8" where
  "first_octet fin opc = of_nat (if fin then 128 else 0) + opcode_to_byte opc"

lemma first_octet_bits:
  "(first_octet fin opc AND 0x80 \<noteq> 0) = fin" "\<not> rsv_bits (first_octet fin opc)"
  "byte_to_opcode (first_octet fin opc) = opc"
  by (cases fin; cases opc; simp add: first_octet_def rsv_bits_def byte_to_opcode_def opcodes_def)+

lemma length_octet:
  assumes "n < 128"
  shows "(of_nat ((if m then 128 else 0) + n) AND (0x80 :: u8) \<noteq> 0) = m"
    and "ucast (of_nat ((if m then 128 else 0) + n) AND (0x7f :: u8)) = (of_nat n :: u64)"
proof -
  have "\<forall>m. \<forall>n \<in> set [0..<128]. (of_nat ((if m then 128 else 0) + n) AND (0x80 :: u8) \<noteq> 0) = m \<and>
    ucast (of_nat ((if m then 128 else 0) + n) AND (0x7f :: u8)) = (of_nat n :: u64)"
    unfolding all_bool_eq by code_simp
  then show "(of_nat ((if m then 128 else 0) + n) AND (0x80 :: u8) \<noteq> 0) = m"
    "ucast (of_nat ((if m then 128 else 0) + n) AND (0x7f :: u8)) = (of_nat n :: u64)"
    using assms by auto
qed

lemma size_acc:
  assumes "y < 256"
  shows "push_bit 8 (of_nat x :: u64) OR ucast (of_nat y :: u8) = of_nat (x * 256 + y)"
proof -
  have u: "ucast (of_nat y :: u8) = (of_nat y :: u64)"
    using assms by (simp add: word_unat_eq_iff unsigned_ucast_eq unat_of_nat take_bit_nat_eq_self_iff)
  have "push_bit 8 (of_nat x :: u64) AND ucast (of_nat y :: u8) = 0"
    by (rule bit_word_eqI) (auto simp: bit_and_iff bit_push_bit_iff bit_ucast_iff dest: bit_imp_le_length)
  then have "push_bit 8 (of_nat x :: u64) OR ucast (of_nat y :: u8) = push_bit 8 (of_nat x) + ucast (of_nat y :: u8)"
    by (simp add: disjunctive_add_eq_or)
  then show ?thesis by (simp add: u push_bit_eq_mult mult.commute)
qed

text \<open>Big-endian bytes, and how many the extended length still has.\<close>

primrec be_bytes :: "nat \<Rightarrow> nat \<Rightarrow> bytes" where
  "be_bytes 0 n = []"
| "be_bytes (Suc k) n = of_nat (n div 256 ^ k mod 256) # be_bytes k n"

fun ext_left :: "wic_rx_state \<Rightarrow> nat" where
  "ext_left WIC_RX_STATE_SIZE_0 = 2"
| "ext_left WIC_RX_STATE_SIZE_1 = 1"
| "ext_left WIC_RX_STATE_SIZE_2 = 8"
| "ext_left WIC_RX_STATE_SIZE_3 = 7"
| "ext_left WIC_RX_STATE_SIZE_4 = 6"
| "ext_left WIC_RX_STATE_SIZE_5 = 5"
| "ext_left WIC_RX_STATE_SIZE_6 = 4"
| "ext_left WIC_RX_STATE_SIZE_7 = 3"
| "ext_left WIC_RX_STATE_SIZE_8 = 2"
| "ext_left WIC_RX_STATE_SIZE_9 = 1"
| "ext_left _ = 0"

lemma ext_left_pos: "0 < ext_left st \<Longrightarrow>
   st \<noteq> WIC_RX_STATE_OPCODE \<and> st \<noteq> WIC_RX_STATE_SIZE \<and> \<not> mask_or_data st \<and> st \<noteq> WIC_RX_STATE_DATA"
  by (cases st) (simp_all add: mask_or_data_def)

lemma ext_left_next: "ext_left st = Suc k \<Longrightarrow>
   if k = 0 then next_size_state r st = data_or_mask r else ext_left (next_size_state r st) = k"
  by (cases st) auto

lemma be_bytes_map: "be_bytes k n = map (\<lambda>i. of_nat (n div 256 ^ (k - Suc i) mod 256)) [0..<k]"
proof (induction k)
  case (Suc k)
  have "[0..<Suc k] = 0 # map Suc [0..<k]" by (simp add: upt_conv_Cons map_Suc_upt)
  then show ?case using Suc by (simp add: o_def del: upt_Suc)
qed simp

lemma rfc_length_field_be:
  "n < 2 ^ 64 \<Longrightarrow> rfc_length_field m n =
     (if n \<le> 125 then [of_nat ((if m then 128 else 0) + n)]
      else if n < 65536 then of_nat ((if m then 128 else 0) + 126) # be_bytes 2 n
      else of_nat ((if m then 128 else 0) + 127) # be_bytes 8 n)"
proof -
  have "be_bytes 8 n = map (\<lambda>i. of_nat (n div 256 ^ (7 - i) mod 256)) [0..<8]"
    by (simp add: be_bytes_map del: upt_rec_numeral)
  moreover have "n < 65536 \<Longrightarrow> be_bytes 2 n = [of_nat (n div 256), of_nat (n mod 256)]"
    by (simp add: numeral_2_eq_2 del: of_nat_Suc)
  ultimately show ?thesis
    by (auto simp: rfc_length_field_def Let_def simp del: of_nat_add upt_rec_numeral)
qed

context app_contract
begin

lemma leads_ext:
  assumes "ext_left (rx_state (rx self)) = Suc k" "istate self = WIC_STATE_OPEN"
    "rx_size (rx self) = of_nat (n div 256 ^ Suc k)"
  shows "leads h self (be_bytes (Suc k) n)
    (self\<lparr>rx := (rx self)\<lparr>rx_size := of_nat n, rx_state := data_or_mask (rx self)\<rparr>\<rparr>)"
  using assms
proof (induction k arbitrary: self)
  case (0 self)
  have "head_byte h self (of_nat (n mod 256)) = self\<lparr>rx := (rx self)\<lparr>rx_size := of_nat n, rx_state := data_or_mask (rx self)\<rparr>\<rparr>"
    using 0 ext_left_pos [of "rx_state (rx self)"] size_acc [of "n mod 256" "n div 256"] ext_left_next [OF 0(1)]
    by (subst head_byte_ext) (auto simp: data_or_mask_def Let_def)
  with leads_head [of self "of_nat (n mod 256)"] ext_left_pos [of "rx_state (rx self)"] 0 show ?case by simp
next
  case (Suc k self)
  let ?b = "of_nat (n div 256 ^ Suc k mod 256)"
  let ?r1 = "(rx self)\<lparr>rx_size := of_nat (n div 256 ^ Suc k), rx_state := next_size_state (rx self) (rx_state (rx self))\<rparr>"
  have nx1: "ext_left (next_size_state (rx self) (rx_state (rx self))) = Suc k"
    using ext_left_next [OF Suc.prems(1), of "rx self"] by simp
  have nx2: "next_size_state r (rx_state (rx self)) = next_size_state (rx self) (rx_state (rx self))" for r
    using Suc.prems(1) by (cases "rx_state (rx self)") simp_all
  have "n div 256 ^ Suc (Suc k) * 256 + n div 256 ^ Suc k mod 256 = n div 256 ^ Suc k"
    by (metis div_mult2_eq div_mult_mod_eq power_Suc2)
  then have "push_bit 8 (rx_size (rx self)) OR ucast (?b :: u8) = of_nat (n div 256 ^ Suc k)"
    using size_acc [of "n div 256 ^ Suc k mod 256" "n div 256 ^ Suc (Suc k)"] Suc.prems(3) by simp
  then have hb: "head_byte h self ?b = self\<lparr>rx := ?r1\<rparr>"
    using ext_left_pos [of "rx_state (rx self)"] Suc.prems(1) nx2
    by (subst head_byte_ext) (auto simp: Let_def)
  have "leads h self [?b] (self\<lparr>rx := ?r1\<rparr>)"
    using leads_head [of self ?b] ext_left_pos [of "rx_state (rx self)"] Suc.prems hb by simp
  moreover have "leads h (self\<lparr>rx := ?r1\<rparr>) (be_bytes (Suc k) n)
     (self\<lparr>rx := (rx self)\<lparr>rx_size := of_nat n, rx_state := data_or_mask (rx self)\<rparr>\<rparr>)"
    using Suc.IH [of "self\<lparr>rx := ?r1\<rparr>"] nx1 Suc.prems by (simp add: data_or_mask_def)
  ultimately show ?case using leads_Cons by (subst be_bytes.simps) blast
qed

text \<open>The length field, whichever of the three forms it has.\<close>

lemma leads_length:
  assumes st: "rx_state (rx self) = WIC_RX_STATE_SIZE" and o: "istate self = WIC_STATE_OPEN" and n: "n < 2 ^ 64"
    and c: "control (rx_opcode (rx self)) \<Longrightarrow> n \<le> 125 \<and> n \<le> st_size (rx_s (rx self)) \<and>
      (rx_opcode (rx self) = WIC_OPCODE_CLOSE \<longrightarrow> 2 \<le> n)"
  shows "leads h self (rfc_length_field m n)
    (self\<lparr>rx := (rx self)\<lparr>rx_masked := m, rx_size := of_nat n, rx_state := if m then WIC_RX_STATE_MASK_0 else WIC_RX_STATE_DATA\<rparr>\<rparr>)"
proof -
  let ?b = "\<lambda>k. of_nat ((if m then 128 else 0) + k) :: u8"
  have len: "rx_len (rx self) (?b k) = (rx self)\<lparr>rx_masked := m, rx_size := of_nat k\<rparr>" if "k < 128" for k
    using length_octet [OF that, of m] by (simp add: rx_len_def)
  have nc: "size_code (rx_len (rx self) (?b k)) = None" if "k < 128" "\<not> control (rx_opcode (rx self))" for k
    using that by (simp add: size_code_def)
  consider "n \<le> 125" | "125 < n" "n < 65536" | "65536 \<le> n" by linarith
  then show ?thesis
  proof cases
    case 1
    have un: "unat (of_nat n :: u64) = n" using n by (simp add: unat_of_nat)
    have "size_code (rx_len (rx self) (?b n)) = None"
    proof (cases "control (rx_opcode (rx self))")
      case True
      have "(of_nat n :: u64) \<noteq> 0 \<and> (of_nat n :: u64) \<noteq> 1" if "rx_opcode (rx self) = WIC_OPCODE_CLOSE"
        using c [OF True] that un by (metis One_nat_def not_less_eq_eq numeral_2_eq_2 unat_0 unat_1 zero_le order_refl le_SucI)
      with c [OF True] un 1 len [of n] show ?thesis
        by (auto simp: size_code_def word_less_nat_alt)
    qed (use 1 nc in simp)
    moreover have "rx_sized (rx_len (rx self) (?b n)) = (rx self)\<lparr>rx_masked := m, rx_size := of_nat n,
        rx_state := if m then WIC_RX_STATE_MASK_0 else WIC_RX_STATE_DATA\<rparr>"
    proof -
      have "(of_nat n :: u64) \<noteq> 127" "(of_nat n :: u64) \<noteq> 126" using 1 un by auto
      then show ?thesis using 1 len [of n] by (simp add: rx_sized_def data_or_mask_def)
    qed
    ultimately have "head_byte h self (?b n) = self\<lparr>rx := (rx self)\<lparr>rx_masked := m, rx_size := of_nat n,
        rx_state := if m then WIC_RX_STATE_MASK_0 else WIC_RX_STATE_DATA\<rparr>\<rparr>"
      using head_byte_size [OF st, of "?b n"] by simp
    with leads_head [of self "?b n"] st o 1 rfc_length_field_be [OF n, of m] show ?thesis by simp
  next
    case 2
    have nctl: "\<not> control (rx_opcode (rx self))" using c 2 by auto
    let ?r1 = "(rx self)\<lparr>rx_masked := m, rx_state := WIC_RX_STATE_SIZE_0, rx_size := 0\<rparr>"
    have hb: "head_byte h self (?b 126) = self\<lparr>rx := ?r1\<rparr>"
      using head_byte_size [OF st nc [of 126]] nctl len [of 126] by (simp add: rx_sized_def)
    have "leads h self [?b 126] (self\<lparr>rx := ?r1\<rparr>)"
      using leads_head [of self "?b 126"] st o unfolding hb by simp
    moreover have "leads h (self\<lparr>rx := ?r1\<rparr>) (be_bytes (Suc 1) n)
      ((self\<lparr>rx := ?r1\<rparr>)\<lparr>rx := (rx (self\<lparr>rx := ?r1\<rparr>))\<lparr>rx_size := of_nat n, rx_state := data_or_mask ?r1\<rparr>\<rparr>)"
      using leads_ext [of "self\<lparr>rx := ?r1\<rparr>" 1 n] o 2 by simp
    ultimately have "leads h self (?b 126 # be_bytes (Suc 1) n)
      ((self\<lparr>rx := ?r1\<rparr>)\<lparr>rx := (rx (self\<lparr>rx := ?r1\<rparr>))\<lparr>rx_size := of_nat n, rx_state := data_or_mask ?r1\<rparr>\<rparr>)"
      by (rule leads_Cons)
    with 2 rfc_length_field_be [OF n, of m] show ?thesis by (simp add: data_or_mask_def numeral_2_eq_2 del: be_bytes.simps)
  next
    case 3
    have nctl: "\<not> control (rx_opcode (rx self))" using c 3 by auto
    let ?r1 = "(rx self)\<lparr>rx_masked := m, rx_state := WIC_RX_STATE_SIZE_2, rx_size := 0\<rparr>"
    have hb: "head_byte h self (?b 127) = self\<lparr>rx := ?r1\<rparr>"
      using head_byte_size [OF st nc [of 127]] nctl len [of 127] by (simp add: rx_sized_def)
    have "leads h self [?b 127] (self\<lparr>rx := ?r1\<rparr>)"
      using leads_head [of self "?b 127"] st o unfolding hb by simp
    moreover have "leads h (self\<lparr>rx := ?r1\<rparr>) (be_bytes (Suc 7) n)
      ((self\<lparr>rx := ?r1\<rparr>)\<lparr>rx := (rx (self\<lparr>rx := ?r1\<rparr>))\<lparr>rx_size := of_nat n, rx_state := data_or_mask ?r1\<rparr>\<rparr>)"
      using leads_ext [of "self\<lparr>rx := ?r1\<rparr>" 7 n] o n by simp
    ultimately have "leads h self (?b 127 # be_bytes (Suc 7) n)
      ((self\<lparr>rx := ?r1\<rparr>)\<lparr>rx := (rx (self\<lparr>rx := ?r1\<rparr>))\<lparr>rx_size := of_nat n, rx_state := data_or_mask ?r1\<rparr>\<rparr>)"
      by (rule leads_Cons)
    moreover have "Suc 7 = 8" by simp
    ultimately show ?thesis using 3 rfc_length_field_be [OF n, of m] by (simp add: data_or_mask_def del: be_bytes.simps)
  qed
qed

text \<open>The masking key.\<close>

lemma leads_mask:
  assumes "rx_state (rx self) = WIC_RX_STATE_MASK_0" "istate self = WIC_STATE_OPEN"
    "length (rx_mask (rx self)) = 4" "length m = 4"
  shows "leads h self m (self\<lparr>rx := (rx self)\<lparr>rx_mask := m, rx_state := WIC_RX_STATE_DATA\<rparr>\<rparr>)"
proof -
  obtain a b c d where m: "m = [a, b, c, d]"
    using assms(4) by (auto simp: numeral_eq_Suc length_Suc_conv)
  obtain k0 k1 k2 k3 where k: "rx_mask (rx self) = [k0, k1, k2, k3]"
    using assms(3) by (auto simp: numeral_eq_Suc length_Suc_conv)
  let ?at = "\<lambda>m st. self\<lparr>rx := (rx self)\<lparr>rx_mask := m, rx_state := st\<rparr>\<rparr>"
  have step: "leads h s [x] s'"
    if "mask_or_data (rx_state (rx s))" "rx_state (rx s) \<noteq> WIC_RX_STATE_DATA" "istate s = WIC_STATE_OPEN"
      "s' = s\<lparr>rx := (rx s)\<lparr>rx_mask := (rx_mask (rx s))[mask_index (rx_state (rx s)) := x],
        rx_state := next_mask_state (rx_state (rx s))\<rparr>\<rparr>" for s s' x
    using leads_head [of s x] head_byte_mask [of s x] that by simp
  have "leads h self [a] (?at [a, k1, k2, k3] WIC_RX_STATE_MASK_1)"
    by (rule step) (use assms k in \<open>simp_all add: mask_or_data_def\<close>)
  moreover have "leads h (?at [a, k1, k2, k3] WIC_RX_STATE_MASK_1) [b] (?at [a, b, k2, k3] WIC_RX_STATE_MASK_2)"
    by (rule step) (use assms k in \<open>simp_all add: mask_or_data_def\<close>)
  moreover have "leads h (?at [a, b, k2, k3] WIC_RX_STATE_MASK_2) [c] (?at [a, b, c, k3] WIC_RX_STATE_MASK_3)"
    by (rule step) (use assms k in \<open>simp_all add: mask_or_data_def numeral_2_eq_2\<close>)
  moreover have "leads h (?at [a, b, c, k3] WIC_RX_STATE_MASK_3) [d] (?at [a, b, c, d] WIC_RX_STATE_DATA)"
    by (rule step) (use assms k in \<open>simp_all add: mask_or_data_def numeral_3_eq_3\<close>)
  ultimately show ?thesis unfolding m by (blast intro: leads_Cons)
qed

end

text \<open>The receive frame when the header has been read.\<close>

definition rx_header :: "'w wic_inst \<Rightarrow> bool \<Rightarrow> wic_opcode \<Rightarrow> bytes option \<Rightarrow> nat \<Rightarrow> wic_rx_frame" where
  "rx_header self fin opc msk n =
     (rx self)\<lparr>rx_s := stream_rewind (rx_s (rx self)), rx_fin := fin, rx_rsv1 := False, rx_rsv2 := False,
       rx_rsv3 := False, rx_utf8 := (if opc = WIC_OPCODE_CONTINUE then utf8_rx self else 0), rx_opcode := opc,
       rx_masked := (msk \<noteq> None), rx_size := of_nat n,
       rx_mask := (case msk of None \<Rightarrow> rx_mask (rx self) | Some m \<Rightarrow> m), rx_state := WIC_RX_STATE_DATA\<rparr>"

definition header_bytes :: "bool \<Rightarrow> wic_opcode \<Rightarrow> bytes option \<Rightarrow> nat \<Rightarrow> bytes" where
  "header_bytes fin opc msk n =
     first_octet fin opc # rfc_length_field (msk \<noteq> None) n @ (case msk of None \<Rightarrow> [] | Some m \<Rightarrow> m)"

text \<open>The opcode and the final bit against the message in progress.\<close>

definition opcode_allowed :: "wic_opcode \<Rightarrow> bool \<Rightarrow> wic_opcode \<Rightarrow> bool" where
  "opcode_allowed fr fin opc \<longleftrightarrow>
     (if control opc then fin
      else if opc = WIC_OPCODE_CONTINUE then fr \<noteq> WIC_OPCODE_CONTINUE
      else (opc = WIC_OPCODE_TEXT \<or> opc = WIC_OPCODE_BINARY) \<and> fr = WIC_OPCODE_CONTINUE)"

lemma rx_legal_allowed: "rx_legal r = opcode_allowed (rx_frag r) (rx_fin r) (rx_opcode r)"
  by (simp add: rx_legal_def opcode_allowed_def)

text \<open>What the rules ask of a header: the opcode fits the message in progress, and a control
  frame is short, fits the buffer, and has a code if it is a close frame.\<close>

definition header_ok :: "wic_rx_frame \<Rightarrow> bool \<Rightarrow> wic_opcode \<Rightarrow> bytes option \<Rightarrow> nat \<Rightarrow> bool" where
  "header_ok r fin opc msk n \<longleftrightarrow>
     opcode_allowed (rx_frag r) fin opc \<and> n < 2 ^ 64 \<and> (\<forall>m. msk = Some m \<longrightarrow> length m = 4) \<and>
     (control opc \<longrightarrow> n \<le> 125 \<and> n \<le> st_size (rx_s r) \<and> (opc = WIC_OPCODE_CLOSE \<longrightarrow> 2 \<le> n))"

context app_contract
begin

lemma leads_header:
  assumes st: "rx_state (rx self) = WIC_RX_STATE_OPCODE" "istate self = WIC_STATE_OPEN" "length (rx_mask (rx self)) = 4"
    and ok: "header_ok (rx self) fin opc msk n"
  shows "leads h self (header_bytes fin opc msk n) (self\<lparr>rx := rx_header self fin opc msk n\<rparr>)"
proof -
  define mk where "mk = (msk \<noteq> None)"
  define ra where "ra = (rx self)\<lparr>rx_s := stream_rewind (rx_s (rx self)), rx_fin := fin, rx_rsv1 := False, rx_rsv2 := False,
       rx_rsv3 := False, rx_utf8 := (if opc = WIC_OPCODE_CONTINUE then utf8_rx self else 0), rx_opcode := opc,
       rx_state := WIC_RX_STATE_SIZE\<rparr>"
  define rb where "rb = ra\<lparr>rx_masked := mk, rx_size := of_nat n,
     rx_state := if mk then WIC_RX_STATE_MASK_0 else WIC_RX_STATE_DATA\<rparr>"
  have ra: "rx_state ra = WIC_RX_STATE_SIZE" "rx_opcode ra = opc" "st_size (rx_s ra) = st_size (rx_s (rx self))"
    "rx_mask ra = rx_mask (rx self)"
    by (simp_all add: ra_def stream_rewind_def)
  note bits = first_octet_bits [of fin opc]
  have "rx_legal (rx_first (rx self) (first_octet fin opc))"
    using ok bits by (simp add: rx_first_def rx_legal_allowed header_ok_def)
  from head_byte_opcode [OF st(1) bits(2) this]
  have hb: "head_byte h self (first_octet fin opc) = self\<lparr>rx := ra\<rparr>"
    using bits by (simp add: rx_first_def rsv_bits_def ra_def)
  have a: "leads h self [first_octet fin opc] (self\<lparr>rx := ra\<rparr>)"
    using leads_head [of self "first_octet fin opc"] st hb by simp
  have b: "leads h (self\<lparr>rx := ra\<rparr>) (rfc_length_field mk n) (self\<lparr>rx := rb\<rparr>)"
    using leads_length [of "self\<lparr>rx := ra\<rparr>" n mk] ok st ra
    by (cases mk; cases "control opc") (simp_all add: header_ok_def rb_def)
  have c: "leads h (self\<lparr>rx := rb\<rparr>) (case msk of None \<Rightarrow> [] | Some m \<Rightarrow> m) (self\<lparr>rx := rx_header self fin opc msk n\<rparr>)"
  proof (cases msk)
    case None
    have "self\<lparr>rx := rb\<rparr> = self\<lparr>rx := rx_header self fin opc msk n\<rparr>"
      using None by (simp add: rx_header_def rb_def ra_def mk_def)
    with None show ?thesis using leads_refl by simp
  next
    case (Some m)
    with leads_mask [of "self\<lparr>rx := rb\<rparr>" m] st ok ra show ?thesis
      by (simp add: rx_header_def header_ok_def rb_def ra_def mk_def)
  qed
  from leads_Cons [OF a leads_trans [OF b c]] show ?thesis by (simp add: header_bytes_def mk_def)
qed

text \<open>A frame that fits the buffer.\<close>

lemma reaches_frame:
  assumes st: "rx_state (rx self) = WIC_RX_STATE_OPCODE" "istate self = WIC_STATE_OPEN" and base: "rx_base (rx self)"
    and ok: "header_ok (rx self) fin opc msk (length p)" and fit: "length p \<le> st_size (rx_s (rx self))"
    and ni: "\<not> utf8_bad (rx_header self fin opc msk (length p)) p"
    and u: "utf8_state_ok (utf8_rx self)"
    and fin: "data_finish h False (self\<lparr>rx := stored (rx_header self fin opc msk (length p)) p\<rparr>) = (False, self')"
  shows "reaches h self (rfc_frame fin opc msk p) self'"
proof -
  let ?r = "rx_header self fin opc msk (length p)"
  have base': "rx_base ?r"
    using base ok u by (auto simp: rx_base_def rx_header_def stream_rewind_def header_ok_def split: option.split)
  have pos: "st_pos (rx_s ?r) = 0" "st_size (rx_s ?r) = st_size (rx_s (rx self))" "rx_state ?r = WIC_RX_STATE_DATA"
    "unat (rx_size ?r) = length p" "rx_masked ?r = (msk \<noteq> None)" "\<And>m. msk = Some m \<Longrightarrow> rx_mask ?r = m"
    using ok by (auto simp: rx_header_def stream_rewind_def header_ok_def unat_of_nat)
  have "reaches h (self\<lparr>rx := ?r\<rparr>) (on_wire ?r p) self'"
    using reaches_payload [of "self\<lparr>rx := ?r\<rparr>" p h self'] st base' pos fit ni fin by simp
  moreover have "rfc_frame fin opc msk p = header_bytes fin opc msk (length p) @ on_wire ?r p"
    using pos by (cases msk) (simp_all add: rfc_frame_def header_bytes_def first_octet_def on_wire_def)
  ultimately show ?thesis
    using leads_reaches leads_header [OF st _ ok] base by (simp add: rx_base_def)
qed

end

section \<open>What is done with a frame\<close>

text \<open>Between frames, in the open state.\<close>

definition ready :: "'w wic_inst \<Rightarrow> bool" where
  "ready self \<longleftrightarrow> rx_ok self \<and> rx_state (rx self) = WIC_RX_STATE_OPCODE \<and> istate self = WIC_STATE_OPEN \<and>
     st_size (rx_s (rx self)) < 65536"

text \<open>The instance with a whole frame received, before anything is done with it.\<close>

definition received :: "'w wic_inst \<Rightarrow> bool \<Rightarrow> wic_opcode \<Rightarrow> bytes option \<Rightarrow> bytes \<Rightarrow> 'w wic_inst" where
  "received self fin opc msk p = self\<lparr>rx := stored (rx_header self fin opc msk (length p)) p\<rparr>"

text \<open>And with the frame done.\<close>

definition frame_done :: "wic_opcode \<Rightarrow> 'w wic_inst \<Rightarrow> 'w wic_inst" where
  "frame_done fr s = s\<lparr>rx := (rx s)\<lparr>rx_frag := fr, rx_state := WIC_RX_STATE_OPCODE\<rparr>\<rparr>"

lemma rx_header_fields [simp]:
  "rx_fin (rx_header self fin opc msk n) = fin" "rx_opcode (rx_header self fin opc msk n) = opc"
  "rx_frag (rx_header self fin opc msk n) = rx_frag (rx self)"
  "rx_utf8 (rx_header self fin opc msk n) = (if opc = WIC_OPCODE_CONTINUE then utf8_rx self else 0)"
  "st_pos (rx_s (rx_header self fin opc msk n)) = 0"
  "st_size (rx_s (rx_header self fin opc msk n)) = st_size (rx_s (rx self))"
  "rx_kind (rx_header self fin opc msk n) = (if opc = WIC_OPCODE_CONTINUE then rx_frag (rx self) else opc)"
  by (simp_all add: rx_header_def stream_rewind_def rx_kind_def)

lemma received_fields [simp]:
  "rx_fin (rx (received self fin opc msk p)) = fin" "rx_opcode (rx (received self fin opc msk p)) = opc"
  "rx_frag (rx (received self fin opc msk p)) = rx_frag (rx self)"
  "rx_kind (rx (received self fin opc msk p)) = (if opc = WIC_OPCODE_CONTINUE then rx_frag (rx self) else opc)"
  "istate (received self fin opc msk p) = istate self" "role (received self fin opc msk p) = role self"
  "app (received self fin opc msk p) = app self" "st_pos (rx_s (rx (received self fin opc msk p))) = length p"
  "rx_utf8 (rx (received self fin opc msk p)) = utf8_after (rx_header self fin opc msk (length p)) p"
  by (simp_all add: received_def)

lemma rx_base_header:
  "rx_ok self \<Longrightarrow> header_ok (rx self) fin opc msk n \<Longrightarrow> rx_base (rx_header self fin opc msk n)"
  by (auto simp: rx_ok_def rx_base_def rx_header_def stream_rewind_def header_ok_def split: option.split)

lemma received_data:
  assumes "ready self" "header_ok (rx self) fin opc msk (length p)" "length p \<le> st_size (rx_s (rx self))"
  shows "rx_data (rx (received self fin opc msk p)) = p"
    and "st_buf (rx_s (rx (received self fin opc msk p))) = p @ drop (length p) (st_buf (rx_s (rx self)))"
proof -
  have b: "rx_base (rx_header self fin opc msk (length p))" using assms rx_base_header by (auto simp: ready_def)
  show "rx_data (rx (received self fin opc msk p)) = p"
    using rx_data_stored [OF b] assms by (simp add: received_def ready_def)
  show "st_buf (rx_s (rx (received self fin opc msk p))) = p @ drop (length p) (st_buf (rx_s (rx self)))"
    by (simp add: received_def stored_def) (simp add: rx_header_def stream_rewind_def)
qed

context app_contract
begin

lemma reaches_received:
  assumes "ready self" "header_ok (rx self) fin opc msk (length p)" "length p \<le> st_size (rx_s (rx self))"
    "\<not> utf8_bad (rx_header self fin opc msk (length p)) p"
    "data_finish h False (received self fin opc msk p) = (False, self')"
  shows "reaches h self (rfc_frame fin opc msk p) self'"
  using reaches_frame [of self fin opc msk p self'] assms by (simp add: ready_def rx_ok_def received_def)

text \<open>Binary data, whole messages and fragments: one call of the message handler, with the
  payload and nothing but the payload.\<close>

lemma deliver_binary:
  assumes r: "ready self" and ok: "header_ok (rx self) fin opc msk (length p)"
    and fit: "length p \<le> st_size (rx_s (rx self))"
    and kind: "rx_kind (rx (received self fin opc msk p)) = WIC_OPCODE_BINARY"
    and msg: "call_message h (received self fin opc msk p) WIC_ENCODING_BINARY fin p = (True, s)"
  shows "reaches h self (rfc_frame fin opc msk p)
    (frame_done (if fin then WIC_OPCODE_CONTINUE else WIC_OPCODE_BINARY) s)"
proof -
  have n: "\<not> utf8_bad (rx_header self fin opc msk (length p)) p"
    using kind by (simp add: utf8_bad_def)
  have rx: "rx s = rx (received self fin opc msk p)"
    using call_rx(2) [of "received self fin opc msk p" WIC_ENCODING_BINARY fin p] msg by simp
  have "data_finish h False (received self fin opc msk p) =
      (False, frame_done (if fin then WIC_OPCODE_CONTINUE else WIC_OPCODE_BINARY) s)"
    using kind msg received_data(1) [OF r ok fit] rx
    by (simp add: data_finish_def frame_done_def)
  from reaches_received [OF r ok fit n this] show ?thesis .
qed

text \<open>Text: the same, when the text received so far is UTF-8, or for a fragment can still become
  it; the checker's state is kept for the next fragment.\<close>

lemma deliver_text:
  assumes r: "ready self" and ok: "header_ok (rx self) fin opc msk (length p)"
    and fit: "length p \<le> st_size (rx_s (rx self))"
    and kind: "rx_kind (rx (received self fin opc msk p)) = WIC_OPCODE_TEXT"
    and u: "u = utf8_parse_string (if opc = WIC_OPCODE_CONTINUE then utf8_rx self else 0) p"
    and good: "if fin then utf8_is_complete u else \<not> utf8_is_invalid u"
    and msg: "call_message h (received self fin opc msk p) WIC_ENCODING_UTF8 fin p = (True, s)"
  shows "reaches h self (rfc_frame fin opc msk p)
    (if fin then frame_done WIC_OPCODE_CONTINUE s else (frame_done WIC_OPCODE_TEXT s)\<lparr>utf8_rx := u\<rparr>)"
proof -
  have un: "rx_utf8 (rx (received self fin opc msk p)) = u"
    using kind by (simp add: utf8_after_def u)
  have n: "\<not> utf8_bad (rx_header self fin opc msk (length p)) p"
    using kind good un by (auto simp: utf8_bad_def utf8_is_complete_def utf8_is_invalid_def split: if_splits)
  have rx: "rx s = rx (received self fin opc msk p)"
    using call_rx(2) [of "received self fin opc msk p" WIC_ENCODING_UTF8 fin p] msg by simp
  have "data_finish h False (received self fin opc msk p) =
      (False, if fin then frame_done WIC_OPCODE_CONTINUE s else (frame_done WIC_OPCODE_TEXT s)\<lparr>utf8_rx := u\<rparr>)"
  proof (cases fin)
    case True
    with kind msg received_data(1) [OF r ok fit] rx un good show ?thesis
      by (simp add: data_finish_def frame_done_def)
  next
    case False
    with kind msg received_data(1) [OF r ok fit] rx un good show ?thesis
      by (cases s) (simp add: data_finish_def frame_done_def)
  qed
  from reaches_received [OF r ok fit n this] show ?thesis .
qed

text \<open>A ping is answered with a pong that carries the same payload.\<close>

lemma answer_ping:
  assumes r: "ready self" and c: "role self = WIC_ROLE_CLIENT"
    and ok: "header_ok (rx self) True WIC_OPCODE_PING msk (length p)" and lend: "lends h (frame_len p)"
  obtains s where "sent_one wire self s True WIC_OPCODE_PONG p"
    "s = (received self True WIC_OPCODE_PING msk p)\<lparr>app := app s\<rparr>"
    "reaches h self (rfc_frame True WIC_OPCODE_PING msk p) (set_rx (\<lambda>r. r\<lparr>rx_state := WIC_RX_STATE_OPCODE\<rparr>) (call_ping h s))"
proof -
  let ?s1 = "received self True WIC_OPCODE_PING msk p"
  let ?m = "st_buf (rx_s (rx ?s1))" and ?n = "of_nat (st_pos (rx_s (rx ?s1))) :: u16"
  have fit: "length p \<le> st_size (rx_s (rx self))" "length p \<le> 125" using ok by (simp_all add: header_ok_def control_def)
  have n: "\<not> utf8_bad (rx_header self True WIC_OPCODE_PING msk (length p)) p" by (simp add: utf8_bad_def)
  have sp: "span ?m ?n = p" "unat ?n \<le> length ?m"
    using received_data(2) [OF r ok fit(1)] fit by (simp_all add: span_def unat_of_nat)
  obtain st s where p: "send_pong_with_payload h ?s1 ?m ?n = (st, s)" by fastforce
  have cs: "can_send ?s1" "istate ?s1 = WIC_STATE_OPEN" using r by (simp_all add: can_send_def ready_def)
  have out: "send_outcome h wire ?s1 st s True WIC_OPCODE_PONG p (frag ?s1) (utf8_tx ?s1)"
    using send_pong_client [of ?s1 ?n ?m] c sp p cs by simp
  then have st: "st = WIC_STATUS_SUCCESS" using lend by (simp add: send_outcome_def)
  with out have s: "sent_one wire ?s1 s True WIC_OPCODE_PONG p" "s = ?s1\<lparr>istate := WIC_STATE_OPEN, frag := frag ?s1, utf8_tx := utf8_tx ?s1, app := app s\<rparr>"
    by (simp_all add: send_outcome_def)
  have s2: "s = ?s1\<lparr>app := app s\<rparr>"
    using s(2) cs(2) by (cases ?s1) simp
  have "data_finish h False ?s1 = (False, set_rx (\<lambda>r. r\<lparr>rx_state := WIC_RX_STATE_OPCODE\<rparr>) (call_ping h s))"
    using p st by (simp add: data_finish_def)
  from reaches_received [OF r ok fit(1) n this]
  show ?thesis using that [of s] s(1) s2 by (simp add: sent_one_def)
qed

text \<open>A pong is shown to the application and changes nothing else.\<close>

lemma take_pong:
  assumes r: "ready self" and ok: "header_ok (rx self) True WIC_OPCODE_PONG msk (length p)"
  shows "reaches h self (rfc_frame True WIC_OPCODE_PONG msk p)
    (set_rx (\<lambda>r. r\<lparr>rx_state := WIC_RX_STATE_OPCODE\<rparr>) (call_pong h (received self True WIC_OPCODE_PONG msk p)))"
proof -
  have fit: "length p \<le> st_size (rx_s (rx self))" using ok by (simp add: header_ok_def control_def)
  have n: "\<not> utf8_bad (rx_header self True WIC_OPCODE_PONG msk (length p)) p" by (simp add: utf8_bad_def)
  show ?thesis
    by (rule reaches_received [OF r ok fit n]) (simp add: data_finish_def)
qed

text \<open>A close frame with a code the library knows is answered with the same frame.\<close>

lemma answer_close:
  assumes r: "ready self" and c: "role self = WIC_ROLE_CLIENT"
    and ok: "header_ok (rx self) True WIC_OPCODE_CLOSE msk (length p)"
    and p: "p = [u16_hi code, u16_lo code] @ reason" "known_close_code code" "utf8_valid reason"
    and lend: "lends h (frame_len p)"
  obtains s where "istate s = WIC_STATE_CLOSED" "sent_one wire self s True WIC_OPCODE_CLOSE p"
    "reaches h self (rfc_frame True WIC_OPCODE_CLOSE msk p) s"
proof -
  let ?s1 = "received self True WIC_OPCODE_CLOSE msk p"
  have fit: "length p \<le> st_size (rx_s (rx self))" "length p \<le> 125" using ok by (simp_all add: header_ok_def control_def)
  have v: "utf8_is_complete (utf8_parse_string 0 reason)" using p(3) by (simp add: utf8_complete_iff_valid)
  have u: "rx_utf8 (rx ?s1) = utf8_parse_string 0 reason"
    by (simp add: utf8_after_def p(1) numeral_2_eq_2)
  have n: "\<not> utf8_bad (rx_header self True WIC_OPCODE_CLOSE msk (length p)) p"
    using v u by (auto simp: utf8_bad_def utf8_is_complete_def utf8_is_invalid_def)
  let ?m = "st_buf (rx_s (rx ?s1))" and ?n = "of_nat (st_pos (rx_s (rx ?s1)) - 2) :: u16"
  have m: "?m = p @ drop (length p) (st_buf (rx_s (rx self)))" by (rule received_data(2) [OF r ok fit(1)])
  have code: "u16_join (?m ! 0) (?m ! 1) = code" unfolding m by (simp add: p(1))
  have sp: "span (drop 2 ?m) ?n = reason" "unat ?n = length reason" "unat ?n \<le> length (drop 2 ?m)" "length reason \<le> 123"
    using fit unfolding m by (simp_all add: span_def unat_of_nat p(1))
  let ?s = "close_with_reason h ?s1 code (drop 2 ?m) ?n WIC_BUFFER_CLOSE_RESPONSE"
  have cp: "close_payload code reason = p" using v by (simp add: close_payload_def p(1))
  have cs: "can_send ?s1" "code_written code"
    using r p(2) by (auto simp: can_send_def ready_def code_written_def known_close_code_def close_code_defs)
  have sent: "sent_one wire ?s1 ?s True WIC_OPCODE_CLOSE p"
    using close_wire [of ?s1 ?n "drop 2 ?m" code WIC_BUFFER_CLOSE_RESPONSE] c sp cs lend cp by simp
  have "close_response h ?s1 = ?s"
    using code p(2) u v by (simp add: close_response_def)
  then have "data_finish h False ?s1 = (False, set_rx (\<lambda>r. r\<lparr>rx_state := WIC_RX_STATE_OPCODE\<rparr>) ?s)"
    by (simp add: data_finish_def)
  from reaches_received [OF r ok fit(1) n this] sent show ?thesis
    by (intro that [of "set_rx (\<lambda>r. r\<lparr>rx_state := WIC_RX_STATE_OPCODE\<rparr>) ?s"]) (simp_all add: sent_one_def)
qed

text \<open>Bytes that can never become UTF-8: the instance is closed at the first such byte.\<close>

lemma first_bad_byte:
  assumes "rx_base r" "utf8_bad r p" "rx_utf8 r \<noteq> 1"
  obtains q c rest where "p = q @ c # rest" "\<not> utf8_bad r q" "utf8_bad r (q @ [c])"
  using assms(2)
proof (induction p arbitrary: thesis rule: rev_induct)
  case Nil
  with assms show ?case
    by (auto simp: utf8_bad_def utf8_after_def utf8_is_invalid_def)
next
  case (snoc c p)
  show ?case
  proof (cases "utf8_bad r p")
    case True
    then obtain q d rest where "p = q @ d # rest" "\<not> utf8_bad r q" "utf8_bad r (q @ [d])" using snoc.IH by blast
    then show ?thesis using snoc.prems(1) [of q d "rest @ [c]"] by simp
  next
    case False
    with snoc.prems show ?thesis by blast
  qed
qed

lemma stops_bad_byte:
  assumes d: "rx_state (rx self) = WIC_RX_STATE_DATA" and base: "rx_base (rx self)" and o: "istate self = WIC_STATE_OPEN"
    and fit: "st_pos (rx_s (rx self)) < st_size (rx_s (rx self))" "rx_size (rx self) \<noteq> 0"
    and t: "rx_kind (rx self) = WIC_OPCODE_TEXT" and bad: "utf8_bad (rx self) [rx_unmask (rx self) b]"
  shows "stops h self [b]
    (close_with_reason h (self\<lparr>rx := stored (rx self) [rx_unmask (rx self) b]\<rparr>) WIC_CLOSE_INVALID_DATA [] 0 WIC_BUFFER_CLOSE)"
proof -
  let ?s = "close_with_reason h (self\<lparr>rx := stored (rx self) [rx_unmask (rx self) b]\<rparr>) WIC_CLOSE_INVALID_DATA [] 0 WIC_BUFFER_CLOSE"
  have e: "rx_put (rx self) b = stored (rx self) [rx_unmask (rx self) b]" by (rule rx_put_stored [OF base fit(1)])
  have "data_byte h self b = ?s"
    unfolding e [symmetric] using t bad
    by (cases "rx_masked (rx self)")
      (simp_all add: data_byte_def rx_put_def rx_unmask_def Let_def set_rx_stream_def stream_put_u8_masked_def
        stream_put_u8_def split_beta utf8_bad_def utf8_after_def utf8_parse_string_def)
  then have "data_read h self b = (False, ?s)" by (simp add: data_read_def)
  from reaches_byte [OF d fit(2,1) this] show ?thesis by (simp add: reaches_def)
qed

lemma reject_text:
  assumes r: "ready self" and c: "role self = WIC_ROLE_CLIENT"
    and ok: "header_ok (rx self) True WIC_OPCODE_TEXT msk (length p)" and fit: "length p \<le> st_size (rx_s (rx self))"
    and bad: "\<not> utf8_valid p" and lend: "lends h 8"
    and s: "reader s (rfc_frame True WIC_OPCODE_TEXT msk p @ rest)"
  obtains self' s' where "ws_loop h self s = Some (self', s')" "istate self' = WIC_STATE_CLOSED"
    "sent_one wire self self' True WIC_OPCODE_CLOSE [u16_hi WIC_CLOSE_INVALID_DATA, u16_lo WIC_CLOSE_INVALID_DATA]"
proof -
  let ?c1007 = "\<lambda>t. close_with_reason h t WIC_CLOSE_INVALID_DATA [] 0 WIC_BUFFER_CLOSE"
  have sent: "sent_one wire self (?c1007 t) True WIC_OPCODE_CLOSE [u16_hi WIC_CLOSE_INVALID_DATA, u16_lo WIC_CLOSE_INVALID_DATA]"
    if "istate t = WIC_STATE_OPEN" "role t = WIC_ROLE_CLIENT" "app t = app self" for t
    using close_wire [of t 0 "[]" WIC_CLOSE_INVALID_DATA WIC_BUFFER_CLOSE] that lend
    by (simp add: can_send_def code_written_def close_code_defs close_payload_def span_def frame_len_def sent_one_def)
  let ?r = "rx_header self True WIC_OPCODE_TEXT msk (length p)"
  have o: "istate self = WIC_STATE_OPEN" using r by (simp add: ready_def)
  have base: "rx_base ?r" using r rx_base_header [OF _ ok] by (simp add: ready_def)
  show ?thesis
  proof (cases "utf8_bad ?r p")
    case False
    let ?s1 = "received self True WIC_OPCODE_TEXT msk p"
    have "\<not> utf8_is_complete (rx_utf8 (rx ?s1))"
      using bad by (simp add: utf8_after_def utf8_complete_iff_valid)
    then have "data_finish h False ?s1 = (False, set_rx (\<lambda>r. r\<lparr>rx_state := WIC_RX_STATE_OPCODE\<rparr>) (?c1007 ?s1))"
      by (simp add: data_finish_def)
    from reaches_received [OF r ok fit False this]
    have "stops h self (rfc_frame True WIC_OPCODE_TEXT msk p) (set_rx (\<lambda>r. r\<lparr>rx_state := WIC_RX_STATE_OPCODE\<rparr>) (?c1007 ?s1))"
      by (simp add: reaches_def)
    with s obtain s' where "ws_loop h self s = Some (set_rx (\<lambda>r. r\<lparr>rx_state := WIC_RX_STATE_OPCODE\<rparr>) (?c1007 ?s1), s')"
      unfolding stops_def by blast
    then show ?thesis using sent [of ?s1] o c
      that [of "set_rx (\<lambda>r. r\<lparr>rx_state := WIC_RX_STATE_OPCODE\<rparr>) (?c1007 ?s1)" s'] by (simp add: sent_one_def)
  next
    case True
    have "rx_utf8 ?r \<noteq> 1" by simp
    from first_bad_byte [OF base True this]
    obtain q b qs where q: "p = q @ b # qs" "\<not> utf8_bad ?r q" "utf8_bad ?r (q @ [b])" by blast
    let ?self1 = "self\<lparr>rx := ?r\<rparr>" and ?self2 = "self\<lparr>rx := stored ?r q\<rparr>"
    have un: "unat (rx_size ?r) = length p" using ok by (simp add: rx_header_def header_ok_def unat_of_nat)
    have st: "rx_state ?r = WIC_RX_STATE_DATA" by (simp add: rx_header_def)
    define w where "w = (if rx_masked ?r then b XOR rx_mask ?r ! (length q mod 4) else b)"
    have w: "rx_unmask (stored ?r q) w = b" by (simp add: rx_unmask_def w_def)
    have "leads h self (header_bytes True WIC_OPCODE_TEXT msk (length p)) ?self1"
      by (rule leads_header [OF _ _ _ ok]) (use r in \<open>simp_all add: ready_def rx_ok_def rx_base_def\<close>)
    moreover have "leads h ?self1 (on_wire ?r q) ?self2"
      using leads_payload [of ?self1 q h] st o base fit q un by simp
    moreover have "stops h ?self2 [w] (?c1007 (self\<lparr>rx := stored (stored ?r q) [b]\<rparr>))"
    proof -
      have "rx_size (stored ?r q) \<noteq> 0"
      proof
        assume "rx_size (stored ?r q) = 0"
        then have "rx_size ?r = of_nat (length q)" by simp
        then have "unat (rx_size ?r) = length q mod 2 ^ 64" by (simp add: unat_of_nat)
        with un q(1) show False using mod_less_eq_dividend [of "length q" "2 ^ 64"] by simp
      qed
      moreover have "utf8_bad (stored ?r q) [b]"
        using utf8_bad_stored [OF base, of q "[b]"] q fit by simp
      ultimately show ?thesis
        using stops_bad_byte [of ?self2 w] st o fit q w rx_base_stored [OF base, of q] by simp
    qed
    ultimately have stop: "stops h self ((header_bytes True WIC_OPCODE_TEXT msk (length p) @ on_wire ?r q) @ [w])
      (?c1007 (self\<lparr>rx := stored (stored ?r q) [b]\<rparr>))"
      by (blast intro: leads_trans leads_stops)
    have "\<exists>more. rfc_frame True WIC_OPCODE_TEXT msk p = ((header_bytes True WIC_OPCODE_TEXT msk (length p) @ on_wire ?r q) @ [w]) @ more"
      by (cases msk) (simp_all add: rfc_frame_def header_bytes_def first_octet_def on_wire_def q(1) mask_from_append w_def
        rx_header_def stream_rewind_def)
    with s obtain more where "reader s (((header_bytes True WIC_OPCODE_TEXT msk (length p) @ on_wire ?r q) @ [w]) @ more @ rest)"
      by auto
    with stop obtain s' where "ws_loop h self s = Some (?c1007 (self\<lparr>rx := stored (stored ?r q) [b]\<rparr>), s')"
      unfolding stops_def by blast
    then show ?thesis using sent [of "self\<lparr>rx := stored (stored ?r q) [b]\<rparr>"] o c
      that [of "?c1007 (self\<lparr>rx := stored (stored ?r q) [b]\<rparr>)" s'] by simp
  qed
qed

end

end
