(* ===== verification/Wic_Progress.thy ===== *)
theory Wic_Progress
  imports Wic_Chunks
begin

text \<open>
  When the receiving loop stops. With an application that accepts every message and always has
  a buffer for a control frame, it stops only because the input is used up or the instance is
  closed; so it may be fed in any pieces. With a receive buffer of no size and a data frame to
  store in it, it does not stop at all.
\<close>

locale accepting_app = app_contract +
  assumes accepts: "fst (run_message h p self enc fin d)"
    and lends_control: "lends h 131"
begin

lemma call_accepts: "fst (call_message h self enc fin d)"
  by (simp add: call_message_def on_message_def accepts split: message_fn.split)

lemma lends_le: "n \<le> 131 \<Longrightarrow> lends h n"
  using lends_control by (simp add: lends_def)

lemma pong_accepted:
  assumes c: "role self = WIC_ROLE_CLIENT" "can_send self" and p: "unat n \<le> length d" "unat n \<le> 125"
  shows "fst (send_pong_with_payload h self d n) = WIC_STATUS_SUCCESS"
proof -
  have "lends h (frame_len (span d n))" using p by (intro lends_le) (simp add: frame_len_def)
  with send_pong_client [OF c(1) p(1)] c(2) show ?thesis by (auto simp: send_outcome_def split: prod.splits)
qed

lemma data_flush_accepted: "fst (data_flush h self) = False"
  using call_accepts by (simp add: data_flush_def split_beta split: wic_opcode.split)

lemma data_finish_accepted:
  assumes ok: "rx_ok self" and c: "role self = WIC_ROLE_CLIENT" and d: "rx_state (rx self) = WIC_RX_STATE_DATA"
    and o: "istate self = WIC_STATE_OPEN"
  shows "fst (data_finish h False self) = False"
proof (cases "rx_kind (rx self) = WIC_OPCODE_PING")
  case True
  have base: "rx_base (rx self)" and ph: "rx_phase (rx self)" using ok o by (simp_all add: rx_ok_def)
  have "rx_opcode (rx self) = WIC_OPCODE_PING"
    using True base by (auto simp: rx_kind_def rx_base_def split: if_splits)
  then have "rx_fits (rx self)" using ph d by (simp add: rx_phase_def control_def)
  then have "st_pos (rx_s (rx self)) \<le> 125" "st_pos (rx_s (rx self)) \<le> length (st_buf (rx_s (rx self)))"
    using base by (auto simp: rx_fits_def rx_base_def)
  then have "fst (send_pong_with_payload h self (st_buf (rx_s (rx self))) (of_nat (st_pos (rx_s (rx self))))) = WIC_STATUS_SUCCESS"
    using c o by (intro pong_accepted) (simp_all add: can_send_def unat_of_nat)
  with True show ?thesis by (simp add: data_finish_def split_beta)
next
  case False
  then show ?thesis using call_accepts
    by (cases "rx_kind (rx self)") (simp_all add: data_finish_def split_beta)
qed

text \<open>A step that is blocked has run out of input.\<close>

lemma parse_data_starved:
  assumes ok: "rx_ok self" and c: "role self = WIC_ROLE_CLIENT" and d: "rx_state (rx self) = WIC_RX_STATE_DATA"
    and run: "parse_data h self s = (True, self', s')"
  shows "st_error s' \<or> stream_get_u8 s = (None, s')"
proof (cases "wants_byte (rx self)")
  case True
  show ?thesis
  proof (cases "stream_get_u8 s")
    case (Pair r s1)
    show ?thesis
    proof (cases r)
      case None
      with run Pair True show ?thesis by (simp add: parse_data_eq)
    next
      case (Some b)
      have w: "\<not> stream_eof (rx_s (rx self))" "0 < rx_size (rx self)" using True by (simp_all add: wants_byte_def)
      have "rx_ok (data_byte h self b)" by (rule data_byte_ok [OF ok d w])
      then have "fst (data_read h self b) = False"
        using data_finish_accepted [of "data_byte h self b"] c d data_byte_state(3) [of self b]
        by (simp add: data_read_def Let_def data_byte_rx)
      with run Pair Some True show ?thesis by (simp add: parse_data_eq)
    qed
  qed
next
  case False
  have "fst (data_idle h self) = False"
  proof (cases "rx_size (rx self) = 0")
    case True
    then show ?thesis using data_finish_accepted [OF ok c d] by (simp add: data_idle_def)
  next
    case nz: False
    obtain t where f: "data_flush h self = (False, t)"
      using data_flush_accepted [of self] by (metis prod.collapse)
    then have "rx_size (rx t) = rx_size (rx self)" using data_flush_rx [OF f] by simp
    moreover have "0 < rx_size (rx self)" using nz by (simp add: word_gt_0)
    ultimately show ?thesis using f nz by (simp add: data_idle_def)
  qed
  with run False show ?thesis by (simp add: parse_data_eq)
qed

lemma get_u8_None_error: "stream_get_u8 s = (None, s') \<Longrightarrow> st_error s'"
  by (auto simp: stream_get_u8_def stream_read_def split: if_splits)

lemma parse_head_role: "parse_head h self s = (bl, self', s') \<Longrightarrow> role self' = role self"
proof (cases "rx_state (rx self) = WIC_RX_STATE_DATA")
  case False
  assume run: "parse_head h self s = (bl, self', s')"
  have "role (head_byte h self b) = role self" for b
    using False parse_opcode_Some [OF get_u8_one, of h self b] parse_size_Some [OF get_u8_one, of self b]
    by (cases "rx_state (rx self)")
      (auto simp: head_byte_def parse_head_def parse_extended_size_def parse_mask_def get_u8_one Let_def split: option.split)
  with run False show ?thesis by (auto simp: parse_head_eq split: option.splits prod.splits)
qed (simp add: parse_head_data)

lemma ws_step_starved:
  assumes ok: "rx_ok self" and c: "role self = WIC_ROLE_CLIENT" and run: "ws_step h self s = (True, self', s')"
  shows "st_error s'"
proof -
  obtain bl t u where hd: "parse_head h self s = (bl, t, u)" by (metis surj_pair)
  show ?thesis
  proof (cases "rx_state (rx t) = WIC_RX_STATE_DATA")
    case True
    with run hd have "parse_data h t u = (True, self', s')" by (simp add: ws_step_def)
    from parse_data_starved [OF parse_head_ok [OF ok hd] _ True this] get_u8_None_error show ?thesis
      using parse_head_role [OF hd] c by auto
  next
    case False
    with run hd have e: "bl = True" "t = self'" "u = s'" by (simp_all add: ws_step_def)
    then have "rx_state (rx self) \<noteq> WIC_RX_STATE_DATA" using hd by (auto simp: parse_head_data)
    with hd e get_u8_None_error show ?thesis by (auto simp: parse_head_eq split: option.splits prod.splits)
  qed
qed

lemma data_flush_role: "role (snd (data_flush h self)) = role self"
  by (simp add: data_flush_def set_rx_stream_def split_beta split: wic_opcode.split)

lemma ws_step_role: "ws_step h self s = (bl, self', s') \<Longrightarrow> role self' = role self"
proof -
  assume run: "ws_step h self s = (bl, self', s')"
  obtain b t u where hd: "parse_head h self s = (b, t, u)" by (metis surj_pair)
  have fin: "role (snd (data_finish h False x)) = role x" for x
    using data_finish_state [of x "fst (data_finish h False x)" "snd (data_finish h False x)"] by simp
  have "role (snd (data_read h t b)) = role t" for b
    using fin [of "data_byte h t b"] data_byte_state(3) [of t b] by (simp add: data_read_def Let_def)
  moreover have "role (snd (data_idle h t)) = role t"
    using fin [of t] fin [of "snd (data_flush h t)"] data_flush_role [of t] data_flush_accepted [of t]
    by (auto simp: data_idle_def Let_def split_beta)
  ultimately have "parse_data h t u = (bl, self', s') \<Longrightarrow> role self' = role t"
    by (auto simp: parse_data_eq split: if_splits option.splits prod.splits)
  with run hd parse_head_role [OF hd] show ?thesis by (auto simp: ws_step_def split: if_splits)
qed

text \<open>The loop stops for lack of input, or closed.\<close>

lemma ws_loop_starved:
  assumes "ws_loop h self s = Some (self', s')" "rx_ok self" "role self = WIC_ROLE_CLIENT"
  shows "istate self' = WIC_STATE_OPEN \<Longrightarrow> st_error s'" and "role self' = WIC_ROLE_CLIENT"
proof -
  let ?P = "\<lambda>h0 self s r. h0 = h \<longrightarrow> rx_ok self \<longrightarrow> role self = WIC_ROLE_CLIENT \<longrightarrow>
    (istate (fst r) = WIC_STATE_OPEN \<longrightarrow> st_error (snd r)) \<and> role (fst r) = WIC_ROLE_CLIENT"
  have "?P h self s (self', s')"
  proof (rule ws_loop.raw_induct [of ?P, OF _ assms(1)])
    fix f h0 self s and y :: "'a wic_inst \<times> wic_stream"
    assume IH: "\<And>h0 self s y. f h0 self s = Some y \<Longrightarrow> ?P h0 self s y"
      and run: "(case ws_step h0 self s of (blocked, self', s') \<Rightarrow>
        if \<not> blocked \<and> istate self' = WIC_STATE_OPEN then f h0 self' s' else Some (self', s')) = Some y"
    show "?P h0 self s y"
    proof (intro impI)
      assume a: "h0 = h" "rx_ok self" "role self = WIC_ROLE_CLIENT"
      obtain bl u v where st: "ws_step h self s = (bl, u, v)" by (metis surj_pair)
      have u: "rx_ok u" "role u = WIC_ROLE_CLIENT" using ws_step_ok [OF a(2) st] ws_step_role [OF st] a(3) by simp_all
      show "(istate (fst y) = WIC_STATE_OPEN \<longrightarrow> st_error (snd y)) \<and> role (fst y) = WIC_ROLE_CLIENT"
      proof (cases "\<not> bl \<and> istate u = WIC_STATE_OPEN")
        case True
        with IH [of h u v y] run a st u show ?thesis by simp
      next
        case False
        with run a st have "y = (u, v)" by auto
        with False ws_step_starved [OF a(2,3)] st u show ?thesis by (cases bl) auto
      qed
    qed
  qed
  with assms show "istate self' = WIC_STATE_OPEN \<Longrightarrow> st_error s'" "role self' = WIC_ROLE_CLIENT" by simp_all
qed

end

section \<open>No room\<close>

text \<open>A data frame that has to be stored where there is no room: each turn of the loop hands the
  application an empty fragment and reads nothing.\<close>

definition no_room :: "'w wic_inst \<Rightarrow> bool" where
  "no_room self \<longleftrightarrow>
     rx_state (rx self) = WIC_RX_STATE_DATA \<and> 0 < rx_size (rx self) \<and> st_size (rx_s (rx self)) = 0 \<and>
     st_pos (rx_s (rx self)) = 0 \<and> istate self = WIC_STATE_OPEN \<and> h_message self = Default_message"

lemma no_room_step:
  assumes "no_room self"
  obtains self' where "ws_step h self s = (False, self', s)" "no_room self'"
proof -
  let ?t = "snd (data_flush h self)"
  have bl: "fst (data_flush h self) = False" "rx ?t = (rx self)\<lparr>rx_s := stream_rewind (rx_s (rx self))\<rparr>"
    "istate ?t = WIC_STATE_OPEN" "h_message ?t = Default_message"
    using assms by (auto simp: no_room_def data_flush_def call_message_def on_message_def set_rx_stream_def split: wic_opcode.split)
  have "ws_step h self s = (False, ?t, s)"
    using assms bl by (auto simp: no_room_def ws_step_def parse_head_data parse_data_eq wants_byte_def stream_eof_def
      data_idle_def split_beta)
  moreover have "no_room ?t" using assms bl by (simp add: no_room_def stream_rewind_def)
  ultimately show ?thesis by (rule that)
qed

lemma no_room_hangs: "no_room self \<Longrightarrow> ws_loop h self s = None"
proof (rule ccontr)
  assume n: "no_room self" and "ws_loop h self s \<noteq> None"
  then obtain y where y: "ws_loop h self s = Some y" by blast
  let ?P = "\<lambda>h0 self s r. \<not> no_room self"
  have "?P h self s y"
  proof (rule ws_loop.raw_induct [of ?P, OF _ y])
    fix f h0 self s and y :: "'a wic_inst \<times> wic_stream"
    assume IH: "\<And>h0 self s y. f h0 self s = Some y \<Longrightarrow> \<not> no_room self"
      and run: "(case ws_step h0 self s of (blocked, self', s') \<Rightarrow>
        if \<not> blocked \<and> istate self' = WIC_STATE_OPEN then f h0 self' s' else Some (self', s')) = Some y"
    show "\<not> no_room self"
    proof
      assume "no_room self"
      then obtain self' where s: "ws_step h0 self s = (False, self', s)" "no_room self'" using no_room_step by blast
      with run have "f h0 self' s = Some y" by (simp add: no_room_def)
      from IH [OF this] s(2) show False by simp
    qed
  qed
  with n show False by simp
qed

end
