(* ===== verification/Wic_Demo.thy ===== *)
theory Wic_Demo
  imports Wic_Delivery Wic_Session Wic_Progress
begin

text \<open>
  An application of the library: the transport of \<open>examples/transport/transport.c\<close> and the
  handlers of \<open>examples/autobahn/client.c\<close> and \<open>examples/demo_client/demo_client.c\<close>. The
  socket calls of the operating system are a parameter (\<open>'n os\<close>, over a network state
  \<open>'n\<close>); \<open>socket\<close> is what the transport relies on. For every such system the handlers
  fulfil the contract the library asks for, and \<open>loop_os\<close> is one.
\<close>

section \<open>The transport\<close>

record 'n os =
  os_write :: "'n \<Rightarrow> int \<Rightarrow> bytes \<Rightarrow> int \<times> 'n"
  os_close :: "'n \<Rightarrow> int \<Rightarrow> 'n"
  os_recv :: "'n \<Rightarrow> int \<Rightarrow> nat \<Rightarrow> int \<times> bytes \<times> 'n"
  os_rand :: "'n \<Rightarrow> u32 \<times> 'n"

text \<open>The descriptor behind \<open>wic_get_app\<close>, the network, and the number of cases \<open>autobahn\<close> is told
  to run (its static \<open>n\<close>).\<close>

record 'n demo_app =
  fd :: int
  net :: 'n
  cases :: int

text \<open>The loop of partial writes; it gives up at the first that fails.\<close>

function transport_write :: "'n os \<Rightarrow> 'n \<Rightarrow> int \<Rightarrow> bytes \<Rightarrow> 'n" where
  "transport_write k w s data =
     (if data = [] then w
      else let (retval, w) = os_write k w s data
           in if retval \<le> 0 then w else transport_write k w s (drop (nat retval) data))"
  by pat_completeness auto
termination
  by (relation "measure (\<lambda>(_, _, _, data). length data)") auto

declare transport_write.simps [simp del]

definition transport_close :: "'n os \<Rightarrow> 'n demo_app \<Rightarrow> 'n demo_app" where
  "transport_close k a =
     (if fd a > 0 then a\<lparr>net := os_close k (net a) (fd a), fd := -1\<rparr> else a)"

section \<open>The handlers\<close>

definition demo_on_send :: "'n os \<Rightarrow> 'n demo_app wic_inst \<Rightarrow> bytes \<Rightarrow> 'n demo_app wic_inst" where
  "demo_on_send k inst data =
     inst\<lparr>app := (app inst)\<lparr>net := transport_write k (net (app inst)) (fd (app inst)) data\<rparr>\<rparr>"

text \<open>A static array, \<open>UINT16_MAX + 100\<close> bytes for \<open>autobahn\<close>, 1000 for \<open>demo_client\<close>.\<close>

definition demo_on_buffer :: "nat \<Rightarrow> 'n demo_app wic_inst \<Rightarrow> nat \<Rightarrow> (bytes option \<times> nat) \<times> 'n demo_app wic_inst" where
  "demo_on_buffer sz inst min_size =
     ((if min_size \<le> sz then Some (replicate sz 0) else None, sz), inst)"

definition do_random :: "'n os \<Rightarrow> 'n demo_app wic_inst \<Rightarrow> u32 \<times> 'n demo_app wic_inst" where
  "do_random k inst =
     (let (r, w) = os_rand k (net (app inst)) in (r, inst\<lparr>app := (app inst)\<lparr>net := w\<rparr>\<rparr>))"

definition demo_on_close_transport :: "'n os \<Rightarrow> 'n demo_app wic_inst \<Rightarrow> 'n demo_app wic_inst" where
  "demo_on_close_transport k inst = inst\<lparr>app := transport_close k (app inst)\<rparr>"

text \<open>The handlers that only write a log line change nothing.\<close>

definition demo_link :: "'n os \<Rightarrow> nat \<Rightarrow> 'n demo_app host" where
  "demo_link k sz =
     \<lparr>run_message = (\<lambda>_ inst _ _ _. (True, inst)), run_open = (\<lambda>_ inst. inst),
      run_close = (\<lambda>_ inst _ _. inst), run_close_transport = (\<lambda>_ inst. demo_on_close_transport k inst),
      run_handshake_failure = (\<lambda>_ inst _. inst), run_send = (\<lambda>_ inst data _. demo_on_send k inst data),
      run_buffer = (\<lambda>_ inst n _. demo_on_buffer sz inst n), run_rand = (\<lambda>_ inst. do_random k inst),
      run_ping = (\<lambda>_ inst. inst), run_pong = (\<lambda>_ inst. inst)\<rparr>"

text \<open>The message handlers call back into the library: \<open>on_message\<close> of \<open>autobahn\<close> (number 0)
  sends the message back, those of \<open>demo_client\<close> (and the case counter) close.\<close>

definition echo_on_message ::
    "'n os \<Rightarrow> nat \<Rightarrow> 'n demo_app wic_inst \<Rightarrow> wic_encoding \<Rightarrow> bool \<Rightarrow> bytes \<Rightarrow> bool \<times> 'n demo_app wic_inst" where
  "echo_on_message k sz inst enc fin data =
     (True, snd (wic_send (demo_link k sz) inst enc fin data (of_nat (length data))))"

definition demo_on_message ::
    "'n os \<Rightarrow> nat \<Rightarrow> 'n demo_app wic_inst \<Rightarrow> bool \<times> 'n demo_app wic_inst" where
  "demo_on_message k sz inst = (True, wic_close (demo_link k sz) inst)"

definition demo_host :: "'n os \<Rightarrow> nat \<Rightarrow> 'n demo_app host" where
  "demo_host k sz = (demo_link k sz)\<lparr>run_message := (\<lambda>p inst enc fin data.
     if p = 0 then echo_on_message k sz inst enc fin data else demo_on_message k sz inst)\<rparr>"

section \<open>The contract\<close>

text \<open>What the transport relies on: a write of something takes some of it, in order, and closing
  and random numbers leave what was written alone. \<open>log\<close> is everything written.\<close>

locale socket =
  fixes k :: "'n os" and logged :: "'n \<Rightarrow> bytes"
  assumes write_law: "d \<noteq> [] \<Longrightarrow> \<exists>n w'. os_write k w s d = (int n, w') \<and> 0 < n \<and> n \<le> length d \<and>
      logged w' = logged w @ take n d"
    and close_log: "logged (os_close k w s) = logged w"
    and rand_log: "logged (snd (os_rand k w)) = logged w"
begin

lemma transport_write_all: "logged (transport_write k w s d) = logged w @ d"
proof (induction d arbitrary: w rule: length_induct)
  case (1 d)
  show ?case
  proof (cases "d = []")
    case True
    then show ?thesis by (simp add: transport_write.simps)
  next
    case False
    obtain n w' where w: "os_write k w s d = (int n, w')" "0 < n" "n \<le> length d" "logged w' = logged w @ take n d"
      using write_law [OF False] by blast
    then have "length (drop n d) < length d" using False by simp
    with 1 have "logged (transport_write k w' s (drop n d)) = logged w' @ drop n d" by blast
    with w False show ?thesis by (subst transport_write.simps) simp
  qed
qed

end

sublocale socket \<subseteq> base: app_contract "demo_link k sz" "\<lambda>a. logged (net a)"
proof
  fix p self d t
  show "\<exists>a. run_send (demo_link k sz) p self d t = self\<lparr>app := a\<rparr> \<and> logged (net a) = logged (net (app self)) @ d"
    by (auto simp: demo_link_def demo_on_send_def transport_write_all)
next
  fix p self n t
  show "\<exists>r a. run_buffer (demo_link k sz) p self n t = (r, self\<lparr>app := a\<rparr>) \<and> logged (net a) = logged (net (app self))"
    by (intro exI [of _ "fst (demo_on_buffer sz self n)"] exI [of _ "app self"])
      (simp add: demo_link_def demo_on_buffer_def)
next
  fix p self
  show "\<exists>m a. run_rand (demo_link k sz) p self = (m, self\<lparr>app := a\<rparr>) \<and> logged (net a) = logged (net (app self))"
    using rand_log [of "net (app self)"] by (auto simp: demo_link_def do_random_def split: prod.split)
qed (simp_all add: demo_link_def demo_on_close_transport_def transport_close_def close_log)

sublocale socket \<subseteq> app: app_contract "demo_host k sz" "\<lambda>a. logged (net a)"
proof
  fix p self enc fin d
  show "api_frame self (snd (run_message (demo_host k sz) p self enc fin d))"
    using base.send_frames(3) [of self sz enc fin d "of_nat (length d)"]
      base.close_law(2) [of self sz WIC_CLOSE_NORMAL "[]" 0 WIC_BUFFER_CLOSE]
    by (simp add: demo_host_def echo_on_message_def demo_on_message_def wic_close_def wic_close_with_reason_def)
next
  fix p self d t
  show "\<exists>a. run_send (demo_host k sz) p self d t = self\<lparr>app := a\<rparr> \<and> logged (net a) = logged (net (app self)) @ d"
    using base.send_law [of sz p self d t] by (simp add: demo_host_def)
next
  fix p self n t
  show "\<exists>r a. run_buffer (demo_host k sz) p self n t = (r, self\<lparr>app := a\<rparr>) \<and> logged (net a) = logged (net (app self))"
    using base.buffer_law [of sz p self n t] by (simp add: demo_host_def)
next
  fix p self
  show "\<exists>m a. run_rand (demo_host k sz) p self = (m, self\<lparr>app := a\<rparr>) \<and> logged (net a) = logged (net (app self))"
    using base.rand_law [of sz p self] by (simp add: demo_host_def)
qed (use base.open_frame base.close_frame base.close_transport_frame base.failure_frame base.ping_frame base.pong_frame
       base.close_silent base.close_transport_silent base.failure_silent in \<open>simp_all add: demo_host_def\<close>)

text \<open>The handlers accept every message, and have a buffer for every frame up to their array.\<close>

lemma demo_accepts: "fst (run_message (demo_host k sz) p self enc fin d)"
  by (simp add: demo_host_def echo_on_message_def demo_on_message_def)

lemma demo_lends: "n \<le> sz \<Longrightarrow> lends (demo_host k sz) n"
  by (auto simp: lends_def demo_host_def demo_link_def demo_on_buffer_def)

text \<open>With the array of \<open>autobahn\<close>, an application that never makes the receiver wait.\<close>

sublocale socket \<subseteq> echo: accepting_app "demo_host k 65635" "\<lambda>a. logged (net a)"
  by unfold_locales (simp_all add: demo_accepts demo_lends)

section \<open>One such system\<close>

text \<open>A network that takes at most three bytes at a time and remembers them.\<close>

definition loop_os :: "bytes os" where
  "loop_os =
     \<lparr>os_write = (\<lambda>w s d. (int (min 3 (length d)), w @ take 3 d)), os_close = (\<lambda>w s. w),
      os_recv = (\<lambda>w s n. (0, [], w)), os_rand = (\<lambda>w. (of_nat (length w), w))\<rparr>"

interpretation loop: socket loop_os "\<lambda>w. w"
proof
  fix d :: bytes and w s
  assume "d \<noteq> []"
  then show "\<exists>n w'. os_write loop_os w s d = (int n, w') \<and> 0 < n \<and> n \<le> length d \<and> w' = w @ take n d"
    by (intro exI [of _ "min 3 (length d)"] exI [of _ "w @ take 3 d"]) (simp add: loop_os_def min_def)
qed (simp_all add: loop_os_def)

lemma loop_contract: "app_contract (demo_host loop_os sz) net"
  using loop.app.app_contract_axioms by simp

lemma loop_link: "link (demo_host loop_os sz) net"
  using loop.app.link_axioms by simp

lemma loop_accepting: "accepting_app (demo_host loop_os 65635) net"
  using loop.echo.accepting_app_axioms by simp

text \<open>An open client between frames, with a receive buffer of \<open>n\<close> bytes.\<close>

definition demo_rx :: "nat \<Rightarrow> wic_rx_frame" where
  "demo_rx n =
     \<lparr>rx_fin = False, rx_rsv1 = False, rx_rsv2 = False, rx_rsv3 = False, rx_opcode = WIC_OPCODE_CONTINUE,
      rx_frag = WIC_OPCODE_CONTINUE, rx_mask = [0, 0, 0, 0], rx_size = 0, rx_masked = False,
      rx_state = WIC_RX_STATE_OPCODE, rx_utf8 = 0, rx_s = stream_init (Some (replicate n 0)) n\<rparr>"

definition demo_inst :: "nat \<Rightarrow> bytes demo_app wic_inst" where
  "demo_inst n =
     \<lparr>role = WIC_ROLE_CLIENT, istate = WIC_STATE_OPEN, rx = demo_rx n, h_message = App_message 0, h_open = Some 0,
      h_close = Some 0, h_close_transport = Some 0, h_handshake_failure = Some 0, h_send = 0, h_buffer = 0,
      h_rand = Some 0, h_ping = None, h_pong = None, app = \<lparr>fd = 3, net = [], cases = 0\<rparr>, url = Some (ascii ''ws://localhost:9001/''),
      schema = WIC_SCHEMA_WS, status_code = 0, port = 9001, tx_header = [], header_state = WIC_HEADER_STATE_IDLE,
      http = http_parser_init HTTP_RESPONSE, frag = WIC_OPCODE_CONTINUE, ipos = 0, utf8_tx = 0, utf8_rx = 0,
      hash = replicate 20 0, hostname = ascii ''localhost'', redirect_url = None\<rparr>"

lemma demo_inst_fields [simp]:
  "role (demo_inst n) = WIC_ROLE_CLIENT" "istate (demo_inst n) = WIC_STATE_OPEN" "frag (demo_inst n) = WIC_OPCODE_CONTINUE"
  "utf8_tx (demo_inst n) = 0" "utf8_rx (demo_inst n) = 0" "rx (demo_inst n) = demo_rx n" "h_message (demo_inst n) = App_message 0"
  "rx_state (demo_rx n) = WIC_RX_STATE_OPCODE" "rx_frag (demo_rx n) = WIC_OPCODE_CONTINUE" "net (app (demo_inst n)) = []"
  "st_size (rx_s (demo_rx n)) = n mod 2 ^ 32" "st_pos (rx_s (demo_rx n)) = 0"
  by (simp_all add: demo_inst_def demo_rx_def stream_init_def)

lemma demo_inst_ready: "n < 65536 \<Longrightarrow> ready (demo_inst n)"
  by (simp add: ready_def rx_ok_def rx_base_def rx_phase_def demo_rx_def stream_init_def)


text \<open>The header of a text frame alone: the loop takes it, and stops for want of the payload.\<close>

lemma demo_header:
  assumes "0 < n" "n < 126"
  obtains t s' where
    "ws_loop (demo_host loop_os sz) (demo_inst 16) (stream_init_ro [129, of_nat n] 2) = Some (t, s')"
    "st_error s'" "istate t = WIC_STATE_OPEN" "st_size (rx_s (rx t)) = 16"
proof -
  let ?h = "demo_host loop_os sz" and ?t = "(demo_inst 16)\<lparr>rx := rx_header (demo_inst 16) True WIC_OPCODE_TEXT None n\<rparr>"
  have ok: "header_ok (demo_rx 16) True WIC_OPCODE_TEXT None n"
    using assms by (simp add: header_ok_def opcode_allowed_def control_def)
  have "leads ?h (demo_inst 16) (header_bytes True WIC_OPCODE_TEXT None n) ?t"
    using app_contract.leads_header [OF loop_contract, of "demo_inst 16" True WIC_OPCODE_TEXT None n sz] ok
    by (simp add: demo_rx_def)
  moreover have "header_bytes True WIC_OPCODE_TEXT None n = [129, of_nat n]"
    using assms by (simp add: header_bytes_def first_octet_def rfc_length_field_def)
  moreover have "reader (stream_init_ro [129, of_nat n] 2) ([129, of_nat n] @ [])"
    using reader_init [of "[129, of_nat n]"] by (simp add: numeral_2_eq_2 [symmetric])
  ultimately obtain s' where s': "reader s' []"
    "ws_loop ?h (demo_inst 16) (stream_init_ro [129, of_nat n] 2) = ws_loop ?h ?t s'"
    unfolding leads_def by metis
  have "unat (of_nat n :: u64) = n" using assms by (simp add: unat_of_nat)
  then have "(of_nat n :: u64) \<noteq> 0" using assms by (metis less_irrefl unat_0)
  then have "wants_byte (rx ?t)" by (simp add: wants_byte_def stream_eof_def rx_header_def stream_rewind_def word_gt_0)
  then have "ws_step ?h ?t s' = (True, ?t, s'\<lparr>st_error := True\<rparr>)"
    using reader_Nil [OF s'(1)]
    by (simp add: ws_step_def parse_head_data parse_data_eq rx_header_def)
  with s' show ?thesis using that [of ?t "s'\<lparr>st_error := True\<rparr>"]
    by (simp add: ws_loop.simps rx_header_def stream_rewind_def)
qed

end
