(* ===== verification/Wic_Client_Demo.thy ===== *)
theory Wic_Client_Demo
  imports Wic_Demo Wic_Accept
begin

text \<open>
  A client as \<open>examples/demo_client/demo_client.c\<close> sets one up, over the network of \<open>Wic_Demo\<close>:
  the loop that feeds it what arrives, the URL it connects to, the argument of \<open>wic_init\<close>, and the
  instance that results, fresh and after \<open>wic_start\<close>.
\<close>

section \<open>The receiving side of the transport\<close>

text \<open>The loop over what one \<open>recv\<close> returned, and the function around it.\<close>

partial_function (option) transport_feed :: "'w host \<Rightarrow> 'w wic_inst \<Rightarrow> bytes \<Rightarrow> 'w wic_inst option" where
  "transport_feed h inst data =
     (if data = [] then Some inst
      else (case wic_parse h inst data of
              None \<Rightarrow> None
            | Some (retval, inst) \<Rightarrow> transport_feed h inst (drop retval data)))"

definition transport_recv ::
    "'n os \<Rightarrow> 'n demo_app host \<Rightarrow> 'n demo_app wic_inst \<Rightarrow> (bool \<times> 'n demo_app wic_inst) option" where
  "transport_recv k h inst =
     (let (bytes, data, w) = os_recv k (net (app inst)) (fd (app inst)) 1000;
          inst = inst\<lparr>app := (app inst)\<lparr>net := w\<rparr>\<rparr>
      in if bytes > 0 then map_option (Pair True) (transport_feed h inst (take (nat bytes) data))
         else Some (False, wic_close_with_reason h inst WIC_CLOSE_ABNORMAL_2 [] 0))"

text \<open>A call that takes nothing and changes nothing is repeated for ever.\<close>

lemma transport_feed_stuck:
  assumes "wic_parse h inst data = Some (0, inst)" "data \<noteq> []"
  shows "transport_feed h inst data = None"
proof (rule ccontr)
  assume "transport_feed h inst data \<noteq> None"
  then obtain y where y: "transport_feed h inst data = Some y" by blast
  let ?P = "\<lambda>h' i d r. \<not> (wic_parse h' i d = Some (0, i) \<and> d \<noteq> [])"
  have "?P h inst data y"
  proof (rule transport_feed.raw_induct [of ?P, OF _ y])
    fix f :: "'a host \<Rightarrow> 'a wic_inst \<Rightarrow> bytes \<Rightarrow> 'a wic_inst option" and h' i d and r :: "'a wic_inst"
    assume "\<And>h' i d r. f h' i d = Some r \<Longrightarrow> ?P h' i d r"
      and "(if d = [] then Some i else (case wic_parse h' i d of None \<Rightarrow> None
        | Some (retval, inst) \<Rightarrow> f h' inst (drop retval d))) = Some r"
    then show "?P h' i d r" by (auto split: if_splits)
  qed
  with assms show False by blast
qed

section \<open>The URL\<close>

definition demo_url :: url_parts where
  "demo_url = \<lparr>up_schema = ascii ''ws'', up_host = ascii ''a.b'', up_port = Some (ascii ''81''),
     up_path = ascii ''/c'', up_query = Some (ascii ''d=e''), up_fragment = None\<rparr>"

lemma demo_url_fields [simp]:
  "up_schema demo_url = ascii ''ws''" "up_host demo_url = ascii ''a.b''" "up_port demo_url = Some (ascii ''81'')"
  by (simp_all add: demo_url_def)

lemma demo_url_print: "url_print demo_url = ascii ''ws://a.b:81/c?d=e''"
  by code_simp

lemma demo_url_wf: "url_wf demo_url"
proof -
  have "list_all IS_ALPHA (ascii ''ws'')" "list_all IS_HOST_CHAR (ascii ''a.b'')" "list_all IS_NUM (ascii ''81'')"
    "decimal (ascii ''81'') = 81" "hd (ascii ''/c'') = ch8 CHR ''/''" "list_all IS_URL_CHAR (ascii ''/c'')"
    "list_all (\<lambda>c. IS_URL_CHAR c \<or> c = ch8 CHR ''?'') (ascii ''d=e'')"
    "ascii ''ws'' \<noteq> []" "ascii ''a.b'' \<noteq> []" "ascii ''81'' \<noteq> []"
    by code_simp+
  moreover have "length (url_print demo_url) < 65536" by (simp add: demo_url_print ascii_def)
  ultimately show ?thesis unfolding url_wf_code by (simp add: demo_url_def)
qed

lemma demo_url_facts:
  "map_of supported_schema (up_schema demo_url) = Some WIC_SCHEMA_WS" "url_port_of demo_url WIC_SCHEMA_WS = 81"
  "length (up_host demo_url) = 3"
  by code_simp+

section \<open>The instance\<close>

definition demo_arg :: "nat \<Rightarrow> bytes demo_app wic_init_arg" where
  "demo_arg n = \<lparr>ia_rx = Some (replicate n 0), ia_rx_max = n, ia_on_message = Some 0, ia_on_open = None,
     ia_on_close = None, ia_on_close_transport = None, ia_on_handshake_failure = None, ia_on_ping = None,
     ia_on_pong = None, ia_rand = Some 0, ia_on_send = Some 0, ia_on_buffer = Some 0,
     ia_app = \<lparr>fd = 5, net = [], cases = 0\<rparr>, ia_url = Some (url_print demo_url), ia_role = WIC_ROLE_CLIENT\<rparr>"

lemma demo_arg_fields [simp]:
  "ia_rx (demo_arg n) = Some (replicate n 0)" "ia_rx_max (demo_arg n) = n" "ia_role (demo_arg n) = WIC_ROLE_CLIENT"
  "ia_url (demo_arg n) = Some (url_print demo_url)" "ia_on_send (demo_arg n) = Some 0" "ia_on_buffer (demo_arg n) = Some 0"
  by (simp_all add: demo_arg_def)

lemma demo_init:
  obtains a where "wic_init u0 (demo_arg n) = Inr a" "url a = Some (url_print demo_url)" "istate a = WIC_STATE_INIT"
    "role a = WIC_ROLE_CLIENT" "rx a = init_rx (Some (replicate n 0)) n" "tx_header a = []" "net (app a) = []"
    "h_buffer a = 0"
  using init_url_print [OF demo_url_wf, of u0] demo_url_facts that
  by (auto simp: wic_init_def demo_arg_def)

lemma demo_buffer:
  assumes "h_buffer a = 0"
  shows "call_buffer (demo_host loop_os sz) a 0 WIC_BUFFER_HTTP = ((Some (replicate sz 0), sz), a)"
  by (simp add: call_buffer_def demo_host_def demo_link_def demo_on_buffer_def)

text \<open>With a buffer that holds the request, \<open>wic_start\<close> succeeds.\<close>

lemma demo_request_length:
  assumes "length nonce = 16"
  shows "length (request_text demo_url (rfc4648_encode nonce) []) = 150"
proof -
  have "decimal (ascii ''81'') = 81" by code_simp
  then show ?thesis using assms by (simp add: request_text_def demo_url_def filled_part_def host_port_def header_lines_def ascii_def CRLF_def
    length_rfc4648_encode b64_encoded_size_def)
qed

lemma demo_start:
  assumes "wic_init u0 (demo_arg n) = Inr a"
  obtains b where "wic_start (demo_host loop_os 1000) a = Some (WIC_STATUS_SUCCESS, b)" "length (hash b) = 20"
proof -
  let ?h = "demo_host loop_os 1000"
  obtain a' where a: "wic_init u0 (demo_arg n) = Inr a'" "url a' = Some (url_print demo_url)" "istate a' = WIC_STATE_INIT"
    "role a' = WIC_ROLE_CLIENT" "tx_header a' = []" "h_buffer a' = 0" by (rule demo_init)
  have [simp]: "a' = a" using assms a(1) by simp
  obtain bad u where u: "http_parser_parse_url (url_print demo_url) False http_parser_url_init = (bad, u)" by fastforce
  have "\<exists>r. start_client ?h a = Some r"
    using a(2,3) u request_puts_text(1) [OF demo_url_wf u] by (simp add: start_client_def)
  then obtain st b where s: "start_client ?h a = Some (st, b)" by auto
  obtain nonce where n: "length nonce = 16" "hash b = fips_sha1 (rfc4648_encode nonce @ sha_guid)"
    "handshake_sent net a b st WIC_STATE_PARSE_HANDSHAKE 1000 (request_text demo_url (rfc4648_encode nonce) (tx_header a))"
    using link.start_client_text [OF loop_link _ _ demo_url_wf s demo_buffer] a by auto
  have "st = WIC_STATUS_SUCCESS" using n(3) a(5) demo_request_length [OF n(1)] by (simp add: handshake_sent_def)
  moreover have "length (hash b) = 20" by (simp add: n(2) length_fips_sha1)
  moreover have "wic_start ?h a = Some (st, b)" using a(4) s by (simp add: wic_start_def)
  ultimately show ?thesis using that by blast
qed

text \<open>An instance that has received a message with headers \<open>hs\<close>.\<close>

definition demo_holding :: "(bytes \<times> bytes) list \<Rightarrow> bytes demo_app wic_inst" where
  "demo_holding hs = (demo_inst 16)\<lparr>istate := WIC_STATE_READY,
     rx := (demo_rx 16)\<lparr>rx_s := (stream_init (Some (store hs @ replicate 7 1)) (length (store hs) + 7))
       \<lparr>st_pos := length (store hs)\<rparr>\<rparr>\<rparr>"

lemma demo_holding_fields [simp]:
  "istate (demo_holding hs) = WIC_STATE_READY" "header_state (demo_holding hs) = WIC_HEADER_STATE_IDLE"
  "hash (demo_holding hs) = replicate 20 0" "rx_mem (demo_holding hs) = store hs @ replicate 7 1"
  "st_pos (rx_s (rx (demo_holding hs))) = length (store hs)" "redirect_url (demo_holding hs) = None"
  by (simp_all add: demo_holding_def demo_inst_def stream_init_def)

lemma demo_holding_holds:
  assumes "list_all header_wf hs" "length (store hs) < 1000"
  shows "holds (demo_holding hs) hs" "holds (end_headers (demo_holding hs)) hs"
proof -
  show "holds (demo_holding hs) hs"
    using assms by (simp add: holds_def stream_ok_def st_data_def demo_holding_def stream_init_def)
  then show "holds (end_headers (demo_holding hs)) hs" by (simp add: end_headers_def)
qed

text \<open>The parser after the first byte of a response.\<close>

lemma first_response_byte:
  "http_parser_execute (parse_settings r) (http_parser_init HTTP_RESPONSE) (Some s) [72] =
    Some (Some 1, (http_parser_init HTTP_RESPONSE)\<lparr>hp_content_length := - 1, hp_nread := 1, hp_state := s_res_H\<rparr>, Some s)"
proof -
  have "http_next (parse_settings r) [72] (http_run_start (http_parser_init HTTP_RESPONSE) (Some s)) =
     (Break, atn 1 s_res_H no_mark ((http_parser_init HTTP_RESPONSE)\<lparr>hp_content_length := - 1\<rparr>) (Some s) 72)"
    by (simp add: fun_eq_iff http_next_def http_run_start_def http_parser_init_def first_mark_def COUNT_HEADER_SIZE_def
      max_header_size_def http_step_def step_start_def Let_def new_message_def CALLBACK_NOTIFY_def CALLBACK_NOTIFY_AT_def
      ASSERT_def set_parser_def UPDATE_STATE_def atn_def)
  then show ?thesis
    by (simp add: http_parser_execute_def Let_def http_loop.simps http_parser_init_def http_finish_def ASSERT_def CALLBACK_DATA_NOADVANCE_def CALLBACK_DATA_AT_def
      RETURN_def set_parser_def)
qed

end
