(* ===== verification/Wic_Kept.thy ===== *)
theory Wic_Kept
  imports Wic_Instance
begin

text \<open>
  What an application can rely on across \<open>wic_parse\<close>. \<open>I\<close> is a property of the instance that depends
  on the application's own state, on the life of the connection and on one of the handlers; when
  the handlers keep it, every call of \<open>wic_parse\<close> does, whatever arrives.
\<close>

section \<open>The interface\<close>

locale kept_inst = app_contract h wire for h :: "'w host" and wire :: "'w \<Rightarrow> bytes" +
  fixes I :: "'w wic_inst \<Rightarrow> bool"
  assumes same: "I a \<Longrightarrow> app b = app a \<Longrightarrow> istate b = istate a \<Longrightarrow> h_close_transport b = h_close_transport a \<Longrightarrow> I b"
    and lives: "I a \<Longrightarrow> s \<noteq> WIC_STATE_CLOSED \<Longrightarrow> s \<noteq> WIC_STATE_INIT \<Longrightarrow> I (a\<lparr>istate := s\<rparr>)"
    and closes: "I a \<Longrightarrow> I (close_with_reason h a code reason n type)"
    and fails: "I a \<Longrightarrow> I ((call_handshake_failure h (call_close_transport h a) why)\<lparr>istate := WIC_STATE_CLOSED\<rparr>)"
    and message: "I a \<Longrightarrow> I (snd (call_message h a enc fin d))"
    and pong: "I a \<Longrightarrow> I (snd (send_pong_with_payload h a d m))"
    and pinged: "I a \<Longrightarrow> I (call_ping h a)"
    and ponged: "I a \<Longrightarrow> I (call_pong h a)"
    and opened: "I a \<Longrightarrow> I (call_open h a)"
begin

lemma I_cong: "app b = app a \<Longrightarrow> istate b = istate a \<Longrightarrow> h_close_transport b = h_close_transport a \<Longrightarrow> I b = I a"
  using same [of a b] same [of b a] by auto

lemma I_rx: "I (a\<lparr>rx := r\<rparr>) = I a" "I (a\<lparr>utf8_rx := u\<rparr>) = I a" "I (set_rx f a) = I a" "I (set_rx_stream x a) = I a"
  "I (a\<lparr>http := q\<rparr>) = I a" "I (a\<lparr>header_state := hst\<rparr>) = I a" "I (a\<lparr>redirect_url := ru\<rparr>) = I a" "I (a\<lparr>hash := hsh\<rparr>) = I a"
  by (rule I_cong; simp add: set_rx_stream_def)+

lemmas kept = I_rx closes message pong pinged ponged

lemma close_response_kept: "I a \<Longrightarrow> I (close_response h a)"
  by (simp add: close_response_def Let_def closes)

section \<open>The receiver\<close>

lemma head_kept:
  assumes "I self"
  shows "I (fst (snd (parse_head h self s)))"
proof -
  obtain r s1 where g: "stream_get_u8 s = (r, s1)" by fastforce
  have o: "I (fst (snd (parse_opcode h self s)))"
    using g assms by (cases r) (auto simp: parse_opcode_def Let_def kept split: wic_opcode.split)
  have z: "I (fst (snd (parse_size h self s)))"
    using g assms by (cases r; cases "rx_opcode (rx self)") (simp_all add: parse_size_def Let_def kept)
  have "I (fst (snd (parse_extended_size self s)))" "I (fst (snd (parse_mask self s)))"
    using g assms by (cases r; simp add: parse_extended_size_def parse_mask_def Let_def kept)+
  with o z assms show ?thesis by (cases "rx_state (rx self)") (simp_all add: parse_head_def)
qed

lemma data_kept:
  assumes "I self"
  shows "I (fst (snd (parse_data h self s)))"
proof -
  have fl: "I self \<Longrightarrow> I (snd (data_flush h self))" for self
    by (cases "rx_kind (rx self)"; simp add: data_flush_def Let_def split_beta kept)
  have byte: "I self \<Longrightarrow> I (data_byte h self b)" for self b
    by (cases "rx_masked (rx self)"; cases "rx_kind (rx self)";
        simp add: data_byte_def Let_def set_rx_stream_def stream_put_u8_masked_def stream_put_u8_def stream_pos_def split_beta kept)
  have fi: "I self \<Longrightarrow> I (snd (data_finish h bl self))" for bl self
    by (cases "rx_kind (rx self)"; simp add: data_finish_def Let_def split_beta kept close_response_kept)
  show ?thesis
    using assms by (auto simp: parse_data_def Let_def split_beta fl byte fi split: option.split)
qed

lemma step_kept:
  assumes "ws_step h self s = (bl, self', s')" "I self"
  shows "I self'"
proof -
  obtain b t u where hd: "parse_head h self s = (b, t, u)" by (metis surj_pair)
  show ?thesis
    using assms head_kept [of self s] data_kept [of t u] hd by (auto simp: ws_step_def split: if_splits)
qed

lemma loop_kept:
  assumes "ws_loop h self s = Some (self', s')" "I self"
  shows "I self'"
proof -
  let ?P = "\<lambda>h0 self s r. h0 = h \<and> I self \<longrightarrow> I (fst r)"
  have "?P h self s (self', s')"
  proof (rule ws_loop.raw_induct [of ?P, OF _ assms(1)])
    fix f h0 self s and y :: "'w wic_inst \<times> wic_stream"
    assume IH: "\<And>h0 self s y. f h0 self s = Some y \<Longrightarrow> ?P h0 self s y"
      and run: "(case ws_step h0 self s of (blocked, self', s') \<Rightarrow>
        if \<not> blocked \<and> istate self' = WIC_STATE_OPEN then f h0 self' s' else Some (self', s')) = Some y"
    obtain bl t u where st: "ws_step h0 self s = (bl, t, u)" by (metis surj_pair)
    show "?P h0 self s y"
      using run IH [of h0 t u y] step_kept [of self s bl t u] st by (auto split: if_splits)
  qed
  with assms(2) show ?thesis by simp
qed

section \<open>The handshake\<close>

definition kept_data :: "'w wic_inst option \<Rightarrow> bool" where
  "kept_data d \<longleftrightarrow> (\<forall>s. d = Some s \<longrightarrow> I s)"

lemma append_kept: "I (rx_append bs a) = I a"
  by (simp add: rx_append_def I_rx)

lemma callbacks_kept:
  assumes "I a"
  shows "I (snd (on_header_field bs a))" "I (snd (on_header_value bs a))" "I (ready_for a)"
    "on_request_complete q a = Some (v, b) \<Longrightarrow> I b" "on_response_complete q a = Some (v, b) \<Longrightarrow> I b"
proof -
  show "I (snd (on_header_field bs a))" "I (snd (on_header_value bs a))"
    using assms by (auto simp: on_header_field_def on_header_value_def Let_def append_kept I_rx split: wic_header_state.split)
  have i: "I (end_headers a)" using assms by (simp add: end_headers_def append_kept)
  then show e: "I (ready_for a)" by (rule lives) simp_all
  have r: "I ((end_headers a)\<lparr>hash := x, istate := WIC_STATE_READY\<rparr>)" for x
    by (rule lives) (simp_all add: I_rx i)
  show "on_request_complete q a = Some (v, b) \<Longrightarrow> I b"
    using assms e r unfolding on_request_complete_def Let_def by (auto simp: I_rx split: if_splits option.splits bool.splits)
  show "on_response_complete q a = Some (v, b) \<Longrightarrow> I b"
    using e unfolding on_response_complete_def Let_def by (auto simp: I_rx split: if_splits option.splits bool.splits)
qed

lemma data_kept_by:
  "kept_data d \<Longrightarrow> (\<And>s v s'. f q s = Some (v, s') \<Longrightarrow> I s \<Longrightarrow> I s') \<Longrightarrow>
   kept_data (snd (snd (complete_callback f q d)))"
  "kept_data d \<Longrightarrow> (\<And>s. I s \<Longrightarrow> I (snd (g bs s))) \<Longrightarrow> kept_data (snd (snd (data_callback g q bs d)))"
  by (auto simp: kept_data_def complete_callback_def data_callback_def split: option.split prod.split) (metis snd_conv)+

lemma settings_kept: "Http_Keeps.kept (parse_settings r) kept_data kept_data kept_data"
proof (unfold_locales, goal_cases)
  case (3 f d q)
  then have f: "f = complete_callback (if r = WIC_ROLE_CLIENT then on_response_complete else on_request_complete)"
    by (simp add: parse_settings_def http_parser_settings_init_def)
  have "kept_data (snd (snd (f q d)))"
    unfolding f
  proof (rule data_kept_by(1))
    show "kept_data d" by (rule 3(2))
    show "I s'" if "(if r = WIC_ROLE_CLIENT then on_response_complete else on_request_complete) q s = Some (v, s')" "I s" for s v s'
      using callbacks_kept(4,5) [OF that(2), of q v s'] that(1) by (cases r) simp_all
  qed
  then show ?case by (simp add: f complete_callback_quiet)
next
  case (5 m g d q bs)
  then have "g = data_callback on_header_field \<or> g = data_callback on_header_value"
    by (cases m) (simp_all add: parse_settings_def http_parser_settings_init_def)
  with 5 data_kept_by(2) callbacks_kept(1,2) show ?case by metis
qed (simp_all add: parse_settings_def http_parser_settings_init_def)

lemma handshake_kept:
  assumes "parse_handshake h self s data = Some (self', s')" "I self"
  shows "I self'"
proof -
  obtain n q t where e: "http_parser_execute (parse_settings (role self)) (http self) (Some self) data = Some (Some n, q, Some t)"
    using assms(1) by (auto simp: parse_handshake_def split: option.splits)
  have "kept_data (Some t)"
    using Http_Keeps.kept.execute_keeps [OF settings_kept _ e] assms(2) by (auto simp: kept_data_def split: if_splits)
  then have t: "I (t\<lparr>http := q\<rparr>)" by (simp add: kept_data_def I_rx)
  have "I ((call_open h (t\<lparr>http := q\<rparr>))\<lparr>istate := WIC_STATE_OPEN\<rparr>)" by (rule lives [OF opened [OF t]]) simp_all
  with assms(1) e t fails [OF t] show ?thesis by (auto simp: parse_handshake_def Let_def split: if_splits)
qed

lemma parse_kept:
  assumes "wic_parse h self data = Some (n, self')" "I self"
  shows "I self'"
proof -
  let ?s = "stream_init_ro data (length data)"
  obtain t u where t: "(if istate self = WIC_STATE_PARSE_HANDSHAKE then parse_handshake h self ?s data else Some (self, ?s)) = Some (t, u)"
    using assms(1) by (auto simp: wic_parse_def Let_def split: option.splits)
  have "I t" using t assms(2) handshake_kept [of self ?s data t u] by (auto split: if_splits)
  then show ?thesis using assms(1) t loop_kept [of t u] by (auto simp: wic_parse_def Let_def split: option.splits if_splits)
qed

end

end
