(* ===== verification/Wic_Apps.thy ===== *)
theory Wic_Apps
  imports Wic_Client_Demo Wic_Kept
begin

text \<open>
  The example programs as a whole: opening a socket (\<open>transport_open_client\<close>), the handlers and
  \<open>main\<close> of \<open>examples/demo_client/demo_client.c\<close>, and the runs of \<open>examples/autobahn/client.c\<close>. The
  calls of the operating system are parameters. \<open>None\<close> is a run with no result: a loop that goes on
  for ever, or a read or write outside a buffer.
\<close>

section \<open>Opening a socket\<close>

text \<open>\<open>getaddrinfo\<close> gives an address or fails; \<open>socket\<close> and \<open>connect\<close> are negative when they fail.\<close>

record ('n, 'a) inet =
  net_getaddrinfo :: "'n \<Rightarrow> bytes option \<Rightarrow> bytes \<Rightarrow> 'a option \<times> 'n"
  net_socket :: "'n \<Rightarrow> 'a \<Rightarrow> int \<times> 'n"
  net_connect :: "'n \<Rightarrow> int \<Rightarrow> 'a \<Rightarrow> int \<times> 'n"

text \<open>\<open>snprintf\<close> of \<open>%u\<close>.\<close>

fun decimal_text :: "nat \<Rightarrow> bytes" where
  "decimal_text n = (if n < 10 then [48 + of_nat n] else decimal_text (n div 10) @ [48 + of_nat (n mod 10)])"

declare decimal_text.simps [simp del]

definition transport_open_client ::
    "'n os \<Rightarrow> ('n, 'a) inet \<Rightarrow> wic_schema \<Rightarrow> bytes option \<Rightarrow> u16 \<Rightarrow> 'n demo_app \<Rightarrow> bool \<times> 'n demo_app" where
  "transport_open_client k i sch host prt a =
     (if sch = WIC_SCHEMA_HTTPS \<or> sch = WIC_SCHEMA_WSS then (False, a)
      else let service = (if prt \<noteq> 0 then decimal_text (unat prt) else ascii ''80'')
        in case net_getaddrinfo i (net a) host service of
             (None, w) \<Rightarrow> (False, a\<lparr>net := w\<rparr>)
           | (Some res, w) \<Rightarrow>
               let (s, w) = net_socket i w res; a = a\<lparr>fd := s, net := w\<rparr>
               in if s < 0 then (False, a)
                  else let (retval, w) = net_connect i w s res
                    in if retval < 0 then (False, a\<lparr>net := os_close k w s\<rparr>) else (True, a\<lparr>net := w\<rparr>))"

section \<open>The handlers\<close>

text \<open>On opening the demo client prints the headers and says hello.\<close>

partial_function (option) print_headers :: "'w wic_inst \<Rightarrow> 'w wic_inst option" where
  "print_headers inst =
     (case wic_get_next_header inst of
        None \<Rightarrow> None
      | Some (None, inst) \<Rightarrow> Some inst
      | Some (Some _, inst) \<Rightarrow> print_headers inst)"

definition hello :: bytes where
  "hello = ascii ''hello world''"

definition demo_on_open :: "'n os \<Rightarrow> nat \<Rightarrow> 'n demo_app wic_inst \<Rightarrow> 'n demo_app wic_inst option" where
  "demo_on_open k sz inst =
     (case print_headers inst of
        None \<Rightarrow> None
      | Some inst \<Rightarrow> Some (snd (wic_send_text (demo_link k sz) inst True hello (of_nat (length hello)))))"

text \<open>The case counter of \<open>autobahn\<close> reads a number from the receive buffer, where the message is
  followed by whatever was there before.\<close>

definition atoi :: "bytes \<Rightarrow> int" where
  "atoi s =
     (let s = dropWhile (\<lambda>c. c = SPACE \<or> 9 \<le> c \<and> c \<le> 13) s;
          digits = (\<lambda>s. int (decimal (takeWhile IS_NUM s)))
      in case s of
           [] \<Rightarrow> 0
         | c # cs \<Rightarrow> if c = ch8 CHR ''-'' then - digits cs else if c = ch8 CHR ''+'' then digits cs else digits s)"

definition on_message_case_count ::
    "'n os \<Rightarrow> nat \<Rightarrow> 'n demo_app wic_inst \<Rightarrow> bytes \<Rightarrow> bool \<times> 'n demo_app wic_inst" where
  "on_message_case_count k sz inst data =
     (let inst = (if length data > 0 then inst\<lparr>app := (app inst)\<lparr>cases := atoi (rx_mem inst)\<rparr>\<rparr> else inst)
      in (True, wic_close (demo_link k sz) inst))"

text \<open>All handlers of both programs: number 0 is \<open>on_message\<close> and 2 the case counter of \<open>autobahn\<close>, 1
  the handlers of \<open>demo_client\<close>. A handler cannot end the program here, so where \<open>demo_on_open\<close> has
  no result the instance is left alone.\<close>

definition example_host :: "'n os \<Rightarrow> nat \<Rightarrow> 'n demo_app host" where
  "example_host k sz = (demo_host k sz)
     \<lparr>run_message := (\<lambda>p inst enc fin data.
        if p = 2 then on_message_case_count k sz inst data else run_message (demo_host k sz) p inst enc fin data),
      run_open := (\<lambda>p inst. if p = 1 then (case demo_on_open k sz inst of None \<Rightarrow> inst | Some inst \<Rightarrow> inst) else inst)\<rparr>"

section \<open>Running an instance\<close>

text \<open>\<open>while(transport_recv(s, &inst));\<close>\<close>

partial_function (option) recv_loop ::
    "'n os \<Rightarrow> 'n demo_app host \<Rightarrow> 'n demo_app wic_inst \<Rightarrow> 'n demo_app wic_inst option" where
  "recv_loop k h inst =
     (case transport_recv k h inst of
        None \<Rightarrow> None
      | Some (again, inst) \<Rightarrow> if again then recv_loop k h inst else Some inst)"

text \<open>What both clients do with an instance that is set up.\<close>

definition run_client ::
    "'n os \<Rightarrow> ('n, 'a) inet \<Rightarrow> 'n demo_app host \<Rightarrow> 'n demo_app wic_inst \<Rightarrow> 'n demo_app wic_inst option" where
  "run_client k i h inst =
     (let (ok, a) = transport_open_client k i (wic_get_url_schema inst) (wic_get_url_hostname inst)
            (wic_get_url_port inst) (app inst);
          inst = inst\<lparr>app := a\<rparr>
      in if ok then
           (case wic_start h inst of
              None \<Rightarrow> None
            | Some (st, inst) \<Rightarrow>
                if st = WIC_STATUS_SUCCESS then recv_loop k h inst
                else Some (inst\<lparr>app := transport_close k (app inst)\<rparr>))
         else Some inst)"

section \<open>The demo client\<close>

text \<open>\<open>main\<close>: up to three redirects, each to the URL the response named. \<open>u0\<close> is what the stack of
  \<open>wic_init\<close> holds at each attempt; the result is the exit status with the socket and the network.\<close>

datatype 'n demo_exit = Exit_failure "'n demo_app" | Exit_success "'n demo_app"

definition user_agent :: "bytes \<times> bytes" where
  "user_agent = (ascii ''User-Agent'', ascii ''wic'')"

definition URL_ARRAY :: nat where
  "URL_ARRAY = 1000"

text \<open>\<open>strcpy\<close> of the string at an offset of the receive buffer.\<close>

definition copy_url :: "'w wic_inst \<Rightarrow> nat \<Rightarrow> bytes option" where
  "copy_url inst off =
     (case strlen (drop off (rx_mem inst)) of
        None \<Rightarrow> None
      | Some n \<Rightarrow> if n < URL_ARRAY then Some (take n (drop off (rx_mem inst))) else None)"

fun demo_main ::
    "'n os \<Rightarrow> ('n, 'a) inet \<Rightarrow> 'n demo_app host \<Rightarrow> (nat \<Rightarrow> http_parser_url) \<Rightarrow> nat \<Rightarrow> 'n demo_app wic_init_arg \<Rightarrow> 'n demo_exit option" where
  "demo_main k i h u0 left arg =
     (case wic_init (u0 left) arg of
        Inl Wild_read \<Rightarrow> None
      | Inl Refused \<Rightarrow> Some (Exit_failure (ia_app arg))
      | Inr inst \<Rightarrow>
          let inst = snd (wic_set_header inst (Some (fst user_agent)) (Some (snd user_agent)))
          in case run_client k i h inst of
               None \<Rightarrow> None
             | Some inst \<Rightarrow>
                 (case (wic_get_redirect_url inst, left) of
                    (Some off, Suc n) \<Rightarrow>
                      (case copy_url inst off of
                         None \<Rightarrow> None
                       | Some loc \<Rightarrow>
                           demo_main k i h u0 n (arg\<lparr>ia_url := Some loc, ia_app := app inst, ia_rx := Some (rx_mem inst)\<rparr>))
                  | _ \<Rightarrow> Some (Exit_success (app inst))))"

declare demo_main.simps [simp del]

text \<open>The argument of \<open>wic_init\<close>, with the URL given on the command line or the default; a longer one
  is written past the array.\<close>

definition demo_client_arg :: "bytes option \<Rightarrow> 'n demo_app \<Rightarrow> 'n demo_app wic_init_arg option" where
  "demo_client_arg argv a =
     (let loc = (case argv of None \<Rightarrow> ascii ''ws://echo.websocket.org/'' | Some x \<Rightarrow> x)
      in if length loc < URL_ARRAY
         then Some \<lparr>ia_rx = Some (replicate 1000 0), ia_rx_max = 1000, ia_on_message = Some 1, ia_on_open = Some 1,
             ia_on_close = Some 1, ia_on_close_transport = Some 1, ia_on_handshake_failure = Some 1,
             ia_on_ping = None, ia_on_pong = None, ia_rand = None, ia_on_send = Some 1, ia_on_buffer = Some 1,
             ia_app = a, ia_url = Some loc, ia_role = WIC_ROLE_CLIENT\<rparr>
         else None)"

definition demo_client ::
    "'n os \<Rightarrow> ('n, 'a) inet \<Rightarrow> (nat \<Rightarrow> http_parser_url) \<Rightarrow> bytes option \<Rightarrow> 'n demo_app \<Rightarrow> 'n demo_exit option" where
  "demo_client k i u0 argv a =
     (case demo_client_arg argv a of None \<Rightarrow> None | Some arg \<Rightarrow> demo_main k i (example_host k 1000) u0 3 arg)"

section \<open>The autobahn client\<close>

text \<open>\<open>do_client\<close>; a refused argument ends the program.\<close>

definition do_client ::
    "'n os \<Rightarrow> ('n, 'a) inet \<Rightarrow> 'n demo_app host \<Rightarrow> http_parser_url \<Rightarrow> 'n demo_app wic_init_arg \<Rightarrow>
      ('n demo_exit + 'n demo_app wic_inst) option" where
  "do_client k i h u0 arg =
     (case wic_init u0 arg of
        Inl Wild_read \<Rightarrow> None
      | Inl Refused \<Rightarrow> Some (Inl (Exit_failure (ia_app arg)))
      | Inr inst \<Rightarrow> map_option Inr (run_client k i h inst))"

text \<open>\<open>main\<close>: the number of cases, each case, and the report. \<open>u0\<close> is the stack of each \<open>wic_init\<close>.\<close>

definition autobahn_arg :: "nat \<Rightarrow> fnptr option \<Rightarrow> bytes \<Rightarrow> bytes \<Rightarrow> 'n demo_app \<Rightarrow> 'n demo_app wic_init_arg" where
  "autobahn_arg n msg mem loc a =
     \<lparr>ia_rx = Some mem, ia_rx_max = n, ia_on_message = msg, ia_on_open = Some 0, ia_on_close = Some 0,
      ia_on_close_transport = Some 0, ia_on_handshake_failure = Some 0, ia_on_ping = None, ia_on_pong = None,
      ia_rand = Some 0, ia_on_send = Some 0, ia_on_buffer = Some 0, ia_app = a, ia_url = Some loc, ia_role = WIC_ROLE_CLIENT\<rparr>"

definition case_url :: "nat \<Rightarrow> bytes" where
  "case_url tc = ascii ''ws://localhost:9001/runCase?case='' @ decimal_text tc @ ascii ''&agent=wic''"

primrec run_cases ::
    "'n os \<Rightarrow> ('n, 'a) inet \<Rightarrow> 'n demo_app host \<Rightarrow> (bytes \<Rightarrow> http_parser_url) \<Rightarrow> nat list \<Rightarrow> 'n demo_app wic_inst \<Rightarrow>
      ('n demo_exit + 'n demo_app wic_inst) option" where
  "run_cases k i h u0 [] inst = Some (Inr inst)"
| "run_cases k i h u0 (tc # tcs) inst =
     (case do_client k i h (u0 (case_url tc)) (autobahn_arg 65535 (Some 0) (rx_mem inst) (case_url tc) (app inst)) of
        Some (Inr inst) \<Rightarrow> run_cases k i h u0 tcs inst
      | r \<Rightarrow> r)"

definition autobahn_main ::
    "'n os \<Rightarrow> ('n, 'a) inet \<Rightarrow> (bytes \<Rightarrow> http_parser_url) \<Rightarrow> 'n \<Rightarrow> 'n demo_exit option" where
  "autobahn_main k i u0 w =
     (let h = example_host k 65635; first = ascii ''ws://localhost:9001/getCaseCount?agent=wic'';
          last = ascii ''ws://localhost:9001/updateReports?agent=wic''
      in case do_client k i h (u0 first) (autobahn_arg 65535 (Some 2) (replicate 65535 0) first \<lparr>fd = -1, net = w, cases = 0\<rparr>) of
           None \<Rightarrow> None
         | Some (Inl e) \<Rightarrow> Some e
         | Some (Inr inst) \<Rightarrow>
             (case run_cases k i h u0 [1..<nat (cases (app inst)) + 1] inst of
                None \<Rightarrow> None
              | Some (Inl e) \<Rightarrow> Some e
              | Some (Inr inst) \<Rightarrow>
                  (case do_client k i h (u0 last) (autobahn_arg 65535 None (rx_mem inst) last (app inst)) of
                     None \<Rightarrow> None
                   | Some (Inl e) \<Rightarrow> Some e
                   | Some (Inr inst) \<Rightarrow> Some (Exit_success (app inst)))))"

end
