(* ===== verification/Wic_Released.thy ===== *)
theory Wic_Released
  imports Wic_Apps
begin

text \<open>
  What the example programs do with their socket: the handlers meet the contract of the library over
  every system that meets \<open>socket\<close>, and when the loop of a client ends the instance is closed and the
  socket given back. Also the texts they write: ports and case numbers as decimals, and the greeting.
\<close>

section \<open>Handlers that leave the descriptor alone\<close>

definition key :: "'n demo_app wic_inst \<Rightarrow> int \<times> fnptr option" where
  "key a = (fd (app a), h_close_transport a)"

lemma key_upd [simp]:
  "key (a\<lparr>istate := s\<rparr>) = key a" "key (a\<lparr>frag := f\<rparr>) = key a" "key (a\<lparr>utf8_tx := u\<rparr>) = key a" "key (a\<lparr>ipos := i\<rparr>) = key a"
  "key (a\<lparr>app := (app a)\<lparr>net := w\<rparr>\<rparr>) = key a" "key (a\<lparr>app := (app a)\<lparr>cases := n\<rparr>\<rparr>) = key a"
  by (simp_all add: key_def)

text \<open>Sending leaves the descriptor, and closes nothing.\<close>

definition sent_key :: "'n demo_app wic_inst \<Rightarrow> 'n demo_app wic_inst \<Rightarrow> bool" where
  "sent_key a b \<longleftrightarrow> key b = key a \<and> (istate b = istate a \<or> istate b = WIC_STATE_OPEN)"

locale same_socket =
  fixes h :: "'n demo_app host"
  assumes send_key: "key (run_send h p a d t) = key a \<and> istate (run_send h p a d t) = istate a"
    and buffer_key: "key (snd (run_buffer h p a n t)) = key a \<and> istate (snd (run_buffer h p a n t)) = istate a"
    and rand_key: "key (snd (run_rand h p a)) = key a \<and> istate (snd (run_rand h p a)) = istate a"
begin

lemma call_send_key [simp]: "key (call_send h a d t) = key a" "istate (call_send h a d t) = istate a"
  using send_key by (simp_all add: call_send_def)

lemma init_mask_key [simp]: "key (snd (init_mask h a f)) = key a" "istate (snd (init_mask h a f)) = istate a"
  using rand_key by (auto simp: init_mask_def split: option.split prod.split) (metis snd_conv)+

lemma put_frame_key [simp]:
  "key (snd (snd (stream_put_frame h a f))) = key a" "istate (snd (snd (stream_put_frame h a f))) = istate a"
  using buffer_key by (auto simp: stream_put_frame_def call_buffer_def Let_def split: prod.split) (metis snd_conv)+

lemma allowed_key [simp]:
  "key (snd (allowed_to_send a)) = key a"
  "istate (snd (allowed_to_send a)) = istate a \<or> istate (snd (allowed_to_send a)) = WIC_STATE_OPEN"
  by (auto simp: allowed_to_send_def Let_def)

lemma sends_key:
  "sent_key a (snd (wic_send_binary h a fin d n))" "sent_key a (snd (wic_send_text h a fin d n))"
  "sent_key a (snd (wic_send h a enc fin d n))" "sent_key a (snd (send_pong_with_payload h a d n))"
proof -
  obtain ok b where al: "allowed_to_send a = (ok, b)" by fastforce
  then have b: "key b = key a" "istate b = istate a \<or> istate b = WIC_STATE_OPEN" using allowed_key [of a] by simp_all
  show 1: "sent_key a (snd (wic_send_binary h a fin d n))" and 2: "sent_key a (snd (wic_send_text h a fin d n))"
    using b by (auto simp: sent_key_def wic_send_binary_def wic_send_text_def al Let_def split_beta)
  show "sent_key a (snd (wic_send h a enc fin d n))" using 1 2 by (simp add: wic_send_def)
  show "sent_key a (snd (send_pong_with_payload h a d n))"
    using b by (auto simp: sent_key_def send_pong_with_payload_def al Let_def split_beta)
qed

end

interpretation link_key: same_socket "demo_link k sz" for k sz
  by unfold_locales (simp_all add: demo_link_def demo_on_send_def demo_on_buffer_def do_random_def split_beta)

interpretation example_key: same_socket "example_host k sz" for k sz
  by unfold_locales
    (simp_all add: example_host_def demo_host_def demo_link_def demo_on_send_def demo_on_buffer_def do_random_def split_beta)

section \<open>The greeting\<close>

lemma print_headers_pos: "print_headers a = Some b \<Longrightarrow> \<exists>i. b = a\<lparr>ipos := i\<rparr>"
proof -
  let ?P = "\<lambda>a b. \<exists>i. b = a\<lparr>ipos := i\<rparr>"
  assume "print_headers a = Some b"
  then show ?thesis
  proof (rule print_headers.raw_induct [of ?P, rotated])
    fix f :: "'a wic_inst \<Rightarrow> 'a wic_inst option" and a b
    assume IH: "\<And>a b. f a = Some b \<Longrightarrow> ?P a b"
      and run: "(case wic_get_next_header a of None \<Rightarrow> None | Some (None, inst) \<Rightarrow> Some inst | Some (Some _, inst) \<Rightarrow> f inst) = Some b"
    have same_ex: "\<exists>i. a = a\<lparr>ipos := i\<rparr>" by (rule exI [of _ "ipos a"]) simp
    show "?P a b"
    proof (cases "wic_get_next_header a")
      case (Some r)
      then obtain v c where r: "wic_get_next_header a = Some (v, c)" by (cases r) auto
      then have "\<exists>i. c = a\<lparr>ipos := i\<rparr>"
        using same_ex by (force simp: wic_get_next_header_def Let_def split: if_splits option.splits)
      with run r IH [of c b] show ?thesis by (cases v) auto
    qed (use run in simp)
  qed
qed

text \<open>The handlers of the examples meet the contract of the library.\<close>

context socket
begin

lemma on_open_frame:
  assumes "demo_on_open k sz a = Some b"
  shows "api_frame a b"
proof -
  obtain i where "b = snd (wic_send_text (demo_link k sz) (a\<lparr>ipos := i\<rparr>) True hello (of_nat (length hello)))"
    using assms print_headers_pos [of a] by (auto simp: demo_on_open_def split: option.splits)
  then show ?thesis
    using base.send_frames(2) [of "a\<lparr>ipos := i\<rparr>" sz True hello "of_nat (length hello)"] by (auto simp: api_frame_def)
qed

end

sublocale socket \<subseteq> example: app_contract "example_host k sz" "\<lambda>a. logged (net a)"
proof
  fix p self enc fin d
  have "api_frame self (snd (on_message_case_count k sz self d))"
  proof -
    let ?a = "if length d > 0 then self\<lparr>app := (app self)\<lparr>cases := atoi (rx_mem self)\<rparr>\<rparr> else self"
    have "api_frame ?a (wic_close (demo_link k sz) ?a)"
      using base.close_law(2) [of ?a sz WIC_CLOSE_NORMAL "[]" 0 WIC_BUFFER_CLOSE] by (simp add: wic_close_def wic_close_with_reason_def)
    then show ?thesis by (auto simp: on_message_case_count_def Let_def api_frame_def split: if_splits)
  qed
  then show "api_frame self (snd (run_message (example_host k sz) p self enc fin d))"
    using app.message_frame [of self sz p enc fin d] by (simp add: example_host_def)
next
  fix p self
  show "api_frame self (run_open (example_host k sz) p self)"
    using on_open_frame by (auto simp: example_host_def split: option.split)
next
  fix p self d t
  show "\<exists>a. run_send (example_host k sz) p self d t = self\<lparr>app := a\<rparr> \<and> logged (net a) = logged (net (app self)) @ d"
    using app.send_law [of sz p self d t] by (simp add: example_host_def)
next
  fix p self n t
  show "\<exists>r a. run_buffer (example_host k sz) p self n t = (r, self\<lparr>app := a\<rparr>) \<and> logged (net a) = logged (net (app self))"
    using app.buffer_law [of sz p self n t] by (simp add: example_host_def)
next
  fix p self
  show "\<exists>m a. run_rand (example_host k sz) p self = (m, self\<lparr>app := a\<rparr>) \<and> logged (net a) = logged (net (app self))"
    using app.rand_law [of sz p self] by (simp add: example_host_def)
qed (use app.close_frame app.close_transport_frame app.failure_frame app.ping_frame app.pong_frame
       app.close_silent app.close_transport_silent app.failure_silent in \<open>simp_all add: example_host_def\<close>)

section \<open>Closed means given back\<close>

definition shut :: "'n demo_app wic_inst \<Rightarrow> bool" where
  "shut a \<longleftrightarrow> h_close_transport a \<noteq> None \<and> istate a \<noteq> WIC_STATE_INIT \<and> (istate a = WIC_STATE_CLOSED \<longrightarrow> fd (app a) \<le> 0)"

lemma shut_sent: "shut a \<Longrightarrow> sent_key a b \<Longrightarrow> shut b"
  by (auto simp: shut_def sent_key_def key_def)

lemma close_transport_key:
  assumes "h_close_transport a \<noteq> None"
  shows "fd (app (call_close_transport (example_host k sz) a)) \<le> 0"
    "h_close_transport (call_close_transport (example_host k sz) a) = h_close_transport a"
    "istate (call_close_transport (example_host k sz) a) = istate a"
    "fd (app (call_close_transport (demo_link k sz) a)) \<le> 0"
    "h_close_transport (call_close_transport (demo_link k sz) a) = h_close_transport a"
    "istate (call_close_transport (demo_link k sz) a) = istate a"
  using assms
  by (auto simp: call_close_transport_def example_host_def demo_host_def demo_link_def demo_on_close_transport_def
    transport_close_def)

lemma silent_calls:
  "call_close (example_host k sz) a code reason = a" "call_handshake_failure (example_host k sz) a why = a"
  "call_ping (example_host k sz) a = a" "call_pong (example_host k sz) a = a"
  "call_close (demo_link k sz) a code reason = a" "call_handshake_failure (demo_link k sz) a why = a"
  by (auto simp: call_close_def call_handshake_failure_def call_ping_def call_pong_def example_host_def demo_host_def
    demo_link_def split: option.split)

text \<open>Either way the library closes, with the handlers of the application or from inside one.\<close>

lemma close_shut:
  assumes "shut a" "h = example_host k sz \<or> h = demo_link k sz"
  shows "shut (close_with_reason h a code reason n type)"
proof -
  have s: "same_socket h" using assms(2) example_key.same_socket_axioms link_key.same_socket_axioms by metis
  note keys = same_socket.call_send_key [OF s] same_socket.init_mask_key [OF s] same_socket.put_frame_key [OF s]
  have ct: "fd (app (call_close_transport h b)) \<le> 0 \<and> h_close_transport (call_close_transport h b) = h_close_transport b \<and>
      istate (call_close_transport h b) = istate b" if "h_close_transport b \<noteq> None" for b
    using close_transport_key [OF that, of k sz] assms(2) by auto
  have sl: "call_close h b code reason = b" "call_handshake_failure h b why = b" for b code reason why
    using silent_calls assms(2) by metis+
  have i: "istate a \<noteq> WIC_STATE_INIT" using assms(1) by (simp add: shut_def)
  have given: "shut (call_close_transport h b)" if "key b = key a" "istate b = WIC_STATE_CLOSED" for b
    using ct [of b] that assms(1) by (auto simp: shut_def key_def)
  show ?thesis
    using assms(1) i by (cases "istate a") (auto simp: close_with_reason_def Let_def sl split_beta keys intro!: given)
qed

lemma close_shut_host:
  "shut a \<Longrightarrow> shut (close_with_reason (example_host k sz) a code reason n type)"
  "shut a \<Longrightarrow> shut (close_with_reason (demo_link k sz) a code reason n type)"
  using close_shut by blast+

context link
begin

lemma start_client_refused:
  assumes "start_client h a = Some (st, b)" "st \<noteq> WIC_STATUS_SUCCESS"
  shows "istate b = istate a"
proof -
  obtain r x where b: "call_buffer h a 0 WIC_BUFFER_HTTP = (r, a\<lparr>app := x\<rparr>)" using call_buffer_law by blast
  obtain nonce c where n: "client_nonce h (a\<lparr>app := x\<rparr>) = (nonce, a\<lparr>app := c\<rparr>)"
    using client_nonce_law [of "a\<lparr>app := x\<rparr>"] by auto
  have "istate (call_send h (a\<lparr>app := c, hash := y\<rparr>) d t) = istate a" for y d t
    using call_send_law [of "a\<lparr>app := c, hash := y\<rparr>" d t] by auto
  with assms b n show ?thesis
    by (auto simp: start_client_def Let_def split: if_splits option.splits prod.splits)
qed

end

context socket
begin

lemma message_shut:
  assumes "shut a"
  shows "shut (snd (run_message (example_host k sz) p a enc fin d))"
proof -
  have "shut (wic_close (demo_link k sz) b)" if "shut b" for b
    using close_shut_host(2) [OF that] by (simp add: wic_close_def wic_close_with_reason_def)
  moreover have "shut (a\<lparr>app := (app a)\<lparr>cases := n\<rparr>\<rparr>)" for n using assms by (simp add: shut_def)
  ultimately show ?thesis
    using assms shut_sent [OF assms link_key.sends_key(3)]
    by (simp add: example_host_def demo_host_def on_message_case_count_def echo_on_message_def demo_on_message_def Let_def)
qed

lemma open_shut:
  assumes "shut a"
  shows "shut (run_open (example_host k sz) p a)"
proof -
  have "shut b" if o: "demo_on_open k sz a = Some b" for b
  proof -
    obtain i where "b = snd (wic_send_text (demo_link k sz) (a\<lparr>ipos := i\<rparr>) True hello (of_nat (length hello)))"
      using o print_headers_pos [of a] by (auto simp: demo_on_open_def split: option.splits)
    moreover have "shut (a\<lparr>ipos := i\<rparr>)" using assms by (simp add: shut_def)
    ultimately show ?thesis using shut_sent [OF _ link_key.sends_key(2)] by blast
  qed
  with assms show ?thesis by (simp add: example_host_def split: option.split)
qed

end

sublocale socket \<subseteq> closing: kept_inst "example_host k sz" "\<lambda>a. logged (net a)" shut
proof
  fix a b :: "'n demo_app wic_inst"
  show "shut a \<Longrightarrow> app b = app a \<Longrightarrow> istate b = istate a \<Longrightarrow> h_close_transport b = h_close_transport a \<Longrightarrow> shut b"
    by (simp add: shut_def)
next
  fix a :: "'n demo_app wic_inst" and s
  show "shut a \<Longrightarrow> s \<noteq> WIC_STATE_CLOSED \<Longrightarrow> s \<noteq> WIC_STATE_INIT \<Longrightarrow> shut (a\<lparr>istate := s\<rparr>)" by (simp add: shut_def)
next
  fix a :: "'n demo_app wic_inst" and why
  assume "shut a"
  then show "shut ((call_handshake_failure (example_host k sz) (call_close_transport (example_host k sz) a) why)\<lparr>istate := WIC_STATE_CLOSED\<rparr>)"
    using close_transport_key [of a k sz] by (simp add: silent_calls shut_def)
next
  fix a :: "'n demo_app wic_inst" and enc fin d
  assume "shut a"
  then show "shut (snd (call_message (example_host k sz) a enc fin d))"
    using message_shut [of a sz _ enc fin d] by (auto simp: call_message_def on_message_def split: message_fn.split)
next
  fix a :: "'n demo_app wic_inst" and d m
  assume "shut a"
  then show "shut (snd (send_pong_with_payload (example_host k sz) a d m))"
    by (rule shut_sent [OF _ example_key.sends_key(4)])
next
  fix a :: "'n demo_app wic_inst"
  assume "shut a"
  then show "shut (call_open (example_host k sz) a)" using open_shut [of a sz] by (auto simp: call_open_def split: option.split)
qed (simp_all add: close_shut_host silent_calls)

section \<open>The loop of a client\<close>

context socket
begin

lemma feed_shut: "transport_feed (example_host k sz) a d = Some b \<Longrightarrow> shut a \<Longrightarrow> shut b"
proof -
  let ?P = "\<lambda>h a d b. h = example_host k sz \<longrightarrow> shut a \<longrightarrow> shut b"
  assume r: "transport_feed (example_host k sz) a d = Some b" and a: "shut a"
  have "?P (example_host k sz) a d b"
  proof (rule transport_feed.raw_induct [of ?P, OF _ r])
    fix f h a d and b :: "'n demo_app wic_inst"
    assume IH: "\<And>h a d b. f h a d = Some b \<Longrightarrow> ?P h a d b"
      and run: "(if d = [] then Some a else (case wic_parse h a d of None \<Rightarrow> None | Some (retval, inst) \<Rightarrow> f h inst (drop retval d))) = Some b"
    show "?P h a d b"
      using run IH closing.parse_kept by (fastforce split: if_splits option.splits)
  qed
  with a show ?thesis by simp
qed

lemma recv_shut:
  assumes "transport_recv k (example_host k sz) a = Some (again, b)" "shut a"
  shows "shut b \<and> (\<not> again \<longrightarrow> istate b = WIC_STATE_CLOSED)"
proof -
  obtain n d w where r: "os_recv k (net (app a)) (fd (app a)) 1000 = (n, d, w)" by (metis surj_pair)
  let ?a = "a\<lparr>app := (app a)\<lparr>net := w\<rparr>\<rparr>"
  have s: "shut ?a" using assms(2) by (simp add: shut_def)
  have "istate (wic_close_with_reason (example_host k sz) ?a WIC_CLOSE_ABNORMAL_2 [] 0) = WIC_STATE_CLOSED"
    using example.close_law(1) by (simp add: wic_close_with_reason_def)
  moreover have "shut (wic_close_with_reason (example_host k sz) ?a WIC_CLOSE_ABNORMAL_2 [] 0)"
    using close_shut_host(1) [OF s] by (simp add: wic_close_with_reason_def)
  ultimately show ?thesis
    using assms(1) r feed_shut [OF _ s] by (auto simp: transport_recv_def Let_def split: if_splits)
qed

lemma loop_closed: "recv_loop k (example_host k sz) a = Some b \<Longrightarrow> shut a \<Longrightarrow> istate b = WIC_STATE_CLOSED \<and> fd (app b) \<le> 0"
proof -
  let ?P = "\<lambda>k' h a b. k' = k \<longrightarrow> h = example_host k sz \<longrightarrow> shut a \<longrightarrow> istate b = WIC_STATE_CLOSED \<and> shut b"
  assume r: "recv_loop k (example_host k sz) a = Some b" and a: "shut a"
  have "?P k (example_host k sz) a b"
  proof (rule recv_loop.raw_induct [of ?P, OF _ r])
    fix f k' h a and b :: "'n demo_app wic_inst"
    assume IH: "\<And>k h a b. f k h a = Some b \<Longrightarrow> ?P k h a b"
      and run: "(case transport_recv k' h a of None \<Rightarrow> None | Some (again, inst) \<Rightarrow> if again then f k' h inst else Some inst) = Some b"
    show "?P k' h a b"
      using run IH recv_shut by (fastforce split: if_splits option.splits)
  qed
  with a show ?thesis by (simp add: shut_def)
qed

text \<open>A client from the socket on.\<close>

lemma client_done:
  assumes "istate a = WIC_STATE_INIT" "role a = WIC_ROLE_CLIENT" "h_close_transport a \<noteq> None" "run_client k i (example_host k sz) a = Some b"
  shows "let (ok, ap) = transport_open_client k i (schema a) (wic_get_url_hostname a) (port a) (app a)
    in if ok then fd (app b) \<le> 0 \<and> (istate b = WIC_STATE_CLOSED \<or> istate b = WIC_STATE_INIT) else b = a\<lparr>app := ap\<rparr>"
proof -
  obtain ok ap where t: "transport_open_client k i (schema a) (wic_get_url_hostname a) (port a) (app a) = (ok, ap)" by fastforce
  let ?h = "example_host k sz" and ?a = "a\<lparr>app := ap\<rparr>"
  show ?thesis
  proof (cases ok)
    case False
    with assms(4) t show ?thesis by (auto simp: run_client_def wic_get_url_schema_def wic_get_url_port_def wic_get_app_def)
  next
    case True
    then obtain st c where s: "wic_start ?h ?a = Some (st, c)"
      using assms(4) t by (auto simp: run_client_def wic_get_url_schema_def wic_get_url_port_def split: option.splits)
    show ?thesis
    proof (cases "st = WIC_STATUS_SUCCESS")
      case True
      then have "start_client ?h ?a = Some (WIC_STATUS_SUCCESS, c)" using s assms(2) by (simp add: wic_start_def)
      then obtain hsh x where "c = ?a\<lparr>hash := hsh, istate := WIC_STATE_PARSE_HANDSHAKE, app := x\<rparr>"
        using example.start_client_keeps [of sz ?a c] by blast
      then have "shut c" using assms(3) by (simp add: shut_def)
      moreover have "recv_loop k ?h c = Some b"
        using assms(4) t s True \<open>ok\<close> by (simp add: run_client_def wic_get_url_schema_def wic_get_url_port_def)
      ultimately show ?thesis using loop_closed t \<open>ok\<close> by auto
    next
      case False
      then have "b = c\<lparr>app := transport_close k (app c)\<rparr>"
        using assms(4) t s \<open>ok\<close> by (auto simp: run_client_def wic_get_url_schema_def wic_get_url_port_def)
      moreover have "istate c = WIC_STATE_INIT"
        using example.start_client_refused [of sz ?a st c] s False assms(1,2) by (simp add: wic_start_def)
      ultimately show ?thesis using t \<open>ok\<close> by (simp add: transport_close_def)
    qed
  qed
qed

end

section \<open>The greeting, in full\<close>

text \<open>The headers of a response are walked to their end.\<close>

lemma print_from:
  assumes "rx_mem a = store hs0 @ store hs @ post" "st_pos (rx_s (rx a)) = length (store hs0) + length (store hs)"
    "list_all header_wf hs" "st_pos (rx_s (rx a)) < 65536" "ipos a = of_nat (length (store hs0))"
  shows "print_headers a = Some (a\<lparr>ipos := of_nat (st_pos (rx_s (rx a)))\<rparr>)"
  using assms
proof (induction hs arbitrary: hs0 a)
  case Nil
  then have "wic_get_next_header a = Some (None, a)" by (simp add: wic_get_next_header_def Let_def unat_of_nat)
  moreover have "a\<lparr>ipos := of_nat (st_pos (rx_s (rx a)))\<rparr> = a" using Nil by simp
  ultimately show ?case by (subst print_headers.simps) simp
next
  case (Cons h hs)
  let ?a = "a\<lparr>ipos := of_nat (length (store (hs0 @ [h])))\<rparr>"
  have wf: "cstring (fst h)" "cstring (snd h)" using Cons.prems(3) by (simp_all add: header_wf_def)
  have p: "unat (ipos a) = length (store hs0)" using Cons.prems(2,4,5) by (simp add: unat_of_nat)
  have d: "drop (unat (ipos a)) (rx_mem a) = fst h @ 0 # snd h @ 0 # store hs @ post"
    using p Cons.prems(1) by simp
  have "length (store hs0) + length (fst h) + 1 + length (snd h) + 1 = length (store (hs0 @ [h]))"
    by (simp add: store_def header_text_def)
  then obtain v where n: "wic_get_next_header a = Some (Some v, ?a)"
    using get_next_header_step [OF d wf] Cons.prems(2,4) p by simp
  have "print_headers ?a = Some (?a\<lparr>ipos := of_nat (st_pos (rx_s (rx ?a)))\<rparr>)"
    by (rule Cons.IH [of ?a "hs0 @ [h]"]) (use Cons.prems in \<open>simp_all add: store_def header_text_def\<close>)
  with n show ?case by (subst print_headers.simps) simp
qed

lemma print_held:
  assumes "holds a hs" "ipos a = 0" "st_pos (rx_s (rx a)) < 65536"
  shows "print_headers a = Some (a\<lparr>ipos := of_nat (st_pos (rx_s (rx a)))\<rparr>)"
proof -
  obtain post where "rx_mem a = store hs @ post" using holds_buf(1) [OF assms(1)] by blast
  moreover have "list_all header_wf hs" using assms(1) by (simp add: holds_def)
  ultimately show ?thesis
    using print_from [of a "[]" hs post] holds_buf(2) [OF assms(1)] assms(2,3) by (simp add: store_def)
qed

lemma hello_utf8: "utf8_is_complete (utf8_parse_string 0 hello)" "length hello = 11"
  by code_simp+

context socket
begin

lemma example_contract: "app_contract (example_host k sz) (\<lambda>a. logged (net a))"
  by (rule example.app_contract_axioms)

lemma greets:
  assumes "role a = WIC_ROLE_CLIENT" "istate a = WIC_STATE_READY" "frag a = WIC_OPCODE_CONTINUE"
    "holds a hs" "ipos a = 0" "st_pos (rx_s (rx a)) < 65536" "17 \<le> sz"
  shows "\<exists>b m. demo_on_open k sz a = Some b \<and> istate b = WIC_STATE_OPEN \<and> length m = 4 \<and>
    logged (net (app b)) = logged (net (app a)) @ rfc_frame True WIC_OPCODE_TEXT (Some m) hello"
proof -
  let ?a = "a\<lparr>ipos := of_nat (st_pos (rx_s (rx a)))\<rparr>"
  obtain st b where w: "wic_send_text (demo_link k sz) ?a True hello (of_nat (length hello)) = (st, b)" by fastforce
  have sp: "span hello 11 = hello" by (simp add: span_def hello_utf8)
  have v: "\<not> utf8_is_invalid (utf8_parse_string 0 hello)" using hello_utf8(1) by (auto simp: utf8_is_complete_def utf8_is_invalid_def)
  have "lends (demo_link k sz) (frame_len hello)"
    using assms(7) by (auto simp: lends_def demo_link_def demo_on_buffer_def frame_len_def hello_utf8)
  moreover have "send_outcome (demo_link k sz) (\<lambda>a. logged (net a)) ?a st b True WIC_OPCODE_TEXT hello WIC_OPCODE_CONTINUE
      (utf8_parse_string 0 hello)"
    using base.send_text_client [where self = ?a and n = "of_nat (length hello)" and data = hello and sz = sz and fin = True] w assms(1-3) v hello_utf8
    by (simp add: can_send_def sp)
  ultimately have o: "sent_one (\<lambda>a. logged (net a)) ?a b True WIC_OPCODE_TEXT hello"
    "b = ?a\<lparr>istate := WIC_STATE_OPEN, frag := WIC_OPCODE_CONTINUE, utf8_tx := utf8_parse_string 0 hello, app := app b\<rparr>"
    by (simp_all add: send_outcome_def)
  from arg_cong [OF o(2), of istate] have "istate b = WIC_STATE_OPEN" by simp
  with o(1) w print_held [OF assms(4-6)] show ?thesis by (auto simp: demo_on_open_def sent_one_def)
qed

end

text \<open>Over the network of \<open>loop_os\<close> a client of this program starts.\<close>

lemma example_start:
  assumes "istate a = WIC_STATE_INIT" "url a = Some (url_print demo_url)" "role a = WIC_ROLE_CLIENT" "set (tx_header a) \<subseteq> {user_agent}"
    "length (tx_header a) \<le> 1"
  obtains b where "wic_start (example_host loop_os 1000) a = Some (WIC_STATUS_SUCCESS, b)"
proof -
  let ?h = "example_host loop_os 1000"
  have l: "link ?h net" using loop.example.link_axioms by simp
  obtain bad u where u: "http_parser_parse_url (url_print demo_url) False http_parser_url_init = (bad, u)" by fastforce
  have "\<exists>r. start_client ?h a = Some r" using assms(1,2) u request_puts_text(1) [OF demo_url_wf u] by (simp add: start_client_def)
  then obtain st b where s: "start_client ?h a = Some (st, b)" by auto
  have buf: "call_buffer ?h a 0 WIC_BUFFER_HTTP = ((Some (replicate 1000 0), 1000), a)"
    by (simp add: call_buffer_def example_host_def demo_host_def demo_link_def demo_on_buffer_def)
  obtain nonce where n: "length nonce = 16"
    "handshake_sent net a b st WIC_STATE_PARSE_HANDSHAKE 1000 (request_text demo_url (rfc4648_encode nonce) (tx_header a))"
    using link.start_client_text [OF l assms(1,2) demo_url_wf s buf] by auto
  have "tx_header a = [] \<or> tx_header a = [user_agent]" using assms(4,5) by (cases "tx_header a") auto
  then have "length (request_text demo_url (rfc4648_encode nonce) (tx_header a)) \<le> 1000"
    using demo_request_length [OF n(1)] by (auto simp: request_text_def header_lines_def user_agent_def ascii_def CRLF_def)
  with n(2) have "st = WIC_STATUS_SUCCESS" by (simp add: handshake_sent_def)
  with s assms(3) that show ?thesis by (auto simp: wic_start_def)
qed

end
