(* ===== verification/Wic_Ended.thy ===== *)
theory Wic_Ended
  imports Wic_Released
begin

text \<open>
  That the loop of a client ends: over a peer that sends only so much (\<open>finite_peer\<close>), with handlers that
  take every message, each call of \<open>wic_parse\<close> of an open instance takes all it is given, so
  \<open>transport_recv\<close> returns, and is called only as often as the peer still has something to send.
\<close>

section \<open>The receive buffer keeps its size\<close>

definition room_of :: "'w wic_inst \<Rightarrow> nat" where
  "room_of self = st_size (rx_s (rx self))"

context app_contract
begin

lemma room_frame: "api_frame a b \<Longrightarrow> room_of b = room_of a"
  by (auto elim!: api_frameE simp: room_of_def)

lemma room_calls [simp]:
  "room_of (close_with_reason h self code reason n type) = room_of self"
  "room_of (snd (call_message h self enc fin d)) = room_of self"
  "room_of (snd (send_pong_with_payload h self d m)) = room_of self"
  "room_of (call_ping h self) = room_of self"
  "room_of (call_pong h self) = room_of self"
  by (rule room_frame, rule api_frame_rules)+

lemma room_close_response [simp]: "room_of (close_response h self) = room_of self"
  by (simp add: close_response_def Let_def)

lemma room_upd:
  "room_of (self\<lparr>utf8_rx := u\<rparr>) = room_of self" "room_of (self\<lparr>rx := r\<rparr>) = st_size (rx_s r)"
  "room_of (set_rx_stream x self) = st_size x" "st_size (rx_s (rx self)) = room_of self"
  "st_size (stream_rewind x) = st_size x"
  by (simp_all add: room_of_def set_rx_stream_def stream_rewind_def)

lemma room_head: "room_of (fst (snd (parse_head h self s))) = room_of self"
proof -
  obtain r s1 where g: "stream_get_u8 s = (r, s1)" by fastforce
  have o: "room_of (fst (snd (parse_opcode h self s))) = room_of self"
    using g by (cases r) (auto simp: parse_opcode_def Let_def room_upd split: wic_opcode.split)
  have z: "room_of (fst (snd (parse_size h self s))) = room_of self"
    using g by (cases r; cases "rx_opcode (rx self)") (simp_all add: parse_size_def Let_def room_upd)
  have "room_of (fst (snd (parse_extended_size self s))) = room_of self" "room_of (fst (snd (parse_mask self s))) = room_of self"
    using g by (cases r; simp add: parse_extended_size_def parse_mask_def Let_def room_upd)+
  with o z show ?thesis by (cases "rx_state (rx self)") (simp_all add: parse_head_def)
qed

lemma room_data: "room_of (fst (snd (parse_data h self s))) = room_of self"
proof -
  have fl: "room_of (snd (data_flush h self)) = room_of self" for self
    by (cases "rx_kind (rx self)"; simp add: data_flush_def Let_def split_beta room_upd)
  have byte: "room_of (data_byte h self b) = room_of self" for self b
    by (simp add: room_of_def data_byte_rx)
  have fi: "room_of (snd (data_finish h bl self)) = room_of self" for bl self
    by (cases "rx_kind (rx self)"; simp add: data_finish_def Let_def split_beta room_upd)
  show ?thesis
    by (auto simp: parse_data_def Let_def split_beta fl byte fi split: option.split)
qed

lemma room_step: "ws_step h self s = (bl, self', s') \<Longrightarrow> room_of self' = room_of self"
proof -
  obtain b t u where hd: "parse_head h self s = (b, t, u)" by (metis surj_pair)
  assume "ws_step h self s = (bl, self', s')"
  then show ?thesis using room_head [of self s] room_data [of t u] hd by (auto simp: ws_step_def split: if_splits)
qed

lemma room_loop:
  assumes "ws_loop h self s = Some (self', s')"
  shows "room_of self' = room_of self"
proof -
  let ?P = "\<lambda>h0 self s r. h0 = h \<longrightarrow> room_of (fst r) = room_of self"
  have "?P h self s (self', s')"
  proof (rule ws_loop.raw_induct [of ?P, OF _ assms])
    fix f h0 self s and y :: "'a wic_inst \<times> wic_stream"
    assume IH: "\<And>h0 self s y. f h0 self s = Some y \<Longrightarrow> ?P h0 self s y"
      and run: "(case ws_step h0 self s of (blocked, self', s') \<Rightarrow>
        if \<not> blocked \<and> istate self' = WIC_STATE_OPEN then f h0 self' s' else Some (self', s')) = Some y"
    obtain bl t u where st: "ws_step h0 self s = (bl, t, u)" by (metis surj_pair)
    show "?P h0 self s y"
      using run IH [of h0 t u y] room_step [of self s bl t u] st by (auto split: if_splits)
  qed
  then show ?thesis by simp
qed

end

section \<open>Everything is taken\<close>

text \<open>An instance past the handshake that can receive.\<close>

definition past_handshake :: "'w wic_inst \<Rightarrow> bool" where
  "past_handshake a \<longleftrightarrow> inst_ok a \<and> role a = WIC_ROLE_CLIENT \<and> istate a \<noteq> WIC_STATE_PARSE_HANDSHAKE \<and> 0 < room_of a"

context accepting_app
begin

lemma loop_reads_all:
  assumes "inst_ok a" "role a = WIC_ROLE_CLIENT" "d \<noteq> []" "ws_loop h a (stream_init_ro d (length d)) = Some (b, s)" "istate b = WIC_STATE_OPEN"
    "length d < 2 ^ 32"
  shows "stream_pos s = length d"
proof -
  let ?s = "stream_init_ro d (length d)" and ?c = "a\<lparr>rx := rx_clean (rx a)\<rparr>"
  have r: "reader ?s d" using assms(6) by (simp add: reader_def reader_ok_def stream_init_ro_def st_rest_def)
  obtain b' s1 where "stream_get_u8 ?s = (Some b', s1)"
    using assms(3,6) by (auto simp: stream_get_u8_def stream_read_def stream_init_ro_def neq_Nil_conv)
  then have l: "ws_loop h ?c ?s = Some (b, s)" using ws_loop_rewound assms(4) by metis
  have "rx_ok ?c" "role ?c = WIC_ROLE_CLIENT" using assms(1,2) by (simp_all add: inst_ok_def)
  then have e: "st_error s" using ws_loop_starved(1) [OF l _ _ assms(5)] by blast
  have "st_rest s = []" by (rule ws_loop_rest [OF l r e])
  moreover have "reader_ok s" using ws_loop_alike [OF l r r] by (auto simp: alike_def)
  moreover have "st_size s = length d" using setup_loop [OF l] assms(6) by (simp add: stream_init_ro_def)
  ultimately show ?thesis by (auto simp: st_rest_def reader_ok_def stream_pos_def)
qed

lemma parse_takes_all:
  assumes "past_handshake a" "d \<noteq> []" "length d < 2 ^ 32"
  shows "\<exists>b. wic_parse h a d = Some (length d, b) \<and> past_handshake b"
proof -
  let ?s = "stream_init_ro d (length d)"
  have a: "inst_ok a" "role a = WIC_ROLE_CLIENT" "istate a \<noteq> WIC_STATE_PARSE_HANDSHAKE" "0 < st_size (rx_s (rx a))"
    using assms(1) by (simp_all add: past_handshake_def room_of_def)
  show ?thesis
  proof (cases "istate a = WIC_STATE_OPEN")
    case False
    then show ?thesis using a assms(1) by (simp add: wic_parse_def Let_def)
  next
    case True
    obtain b s where l: "ws_loop h a ?s = Some (b, s)" using ws_loop_ends [OF a(4)] by blast
    have p: "wic_parse h a d = Some (length d, b)"
      using l True loop_reads_all [OF a(1,2) assms(2) l _ assms(3)] by (simp add: wic_parse_def Let_def)
    have "inst_ok b" using parse_inst_ok [OF a(1) p] by simp
    moreover have "role b = WIC_ROLE_CLIENT" "istate b \<noteq> WIC_STATE_PARSE_HANDSHAKE" "room_of b = room_of a"
      using setup_loop [OF l] True a(2) room_loop [OF l] by (auto simp: setup_of_def live_def)
    ultimately show ?thesis using p assms(1) by (simp add: past_handshake_def)
  qed
qed

lemma feed_ends:
  assumes "past_handshake a" "length d < 2 ^ 32"
  shows "\<exists>b. transport_feed h a d = Some b \<and> past_handshake b"
proof (cases "d = []")
  case True
  then show ?thesis using assms(1) by (simp add: transport_feed.simps)
next
  case False
  then obtain b where "wic_parse h a d = Some (length d, b)" "past_handshake b" using parse_takes_all [OF assms(1) False assms(2)] by blast
  then show ?thesis using False by (simp add: transport_feed.simps [of h a] transport_feed.simps [of h b])
qed

end

section \<open>Handlers that use something up\<close>

text \<open>\<open>m\<close> measures what the application has left; no call of a handler adds to it, so no operation does.\<close>

locale uses_up =
  fixes h :: "'w host" and m :: "'w \<Rightarrow> nat"
  assumes send_up: "m (app (run_send h p a d t)) \<le> m (app a)"
    and buffer_up: "m (app (snd (run_buffer h p a n t))) \<le> m (app a)"
    and rand_up: "m (app (snd (run_rand h p a))) \<le> m (app a)"
    and transport_up: "m (app (run_close_transport h p a)) \<le> m (app a)"
    and close_up: "m (app (run_close h p a code d)) \<le> m (app a)"
    and failure_up: "m (app (run_handshake_failure h p a why)) \<le> m (app a)"
begin

lemma calls_up:
  "m (app (call_send h a d t)) \<le> m (app a)" "m (app (call_close_transport h a)) \<le> m (app a)"
  "m (app (call_close h a code d)) \<le> m (app a)" "m (app (call_handshake_failure h a why)) \<le> m (app a)"
  using send_up transport_up close_up failure_up
  by (auto simp: call_send_def call_close_transport_def call_close_def call_handshake_failure_def split: option.split)

lemma mask_up: "init_mask h a f = (f', b) \<Longrightarrow> m (app b) \<le> m (app a)"
  using rand_up [of _ a] by (auto simp: init_mask_def split: option.splits prod.splits) (metis snd_conv)

lemma put_up: "stream_put_frame h a f = (r, tx, b) \<Longrightarrow> m (app b) \<le> m (app a)"
  using buffer_up [of _ a] by (auto simp: stream_put_frame_def call_buffer_def Let_def split: prod.splits if_splits) (metis snd_conv)+

lemma allowed_app: "allowed_to_send a = (ok, b) \<Longrightarrow> app b = app a"
  by (auto simp: allowed_to_send_def Let_def)

text \<open>What every send does once it may.\<close>

lemma masked_up:
  assumes "init_mask h a f = (f', b)" "stream_put_frame h b f' = (r, tx, c)"
  shows "m (app c) \<le> m (app a)" "m (app (call_send h c d t)) \<le> m (app a)"
    "m (app (call_send h (c\<lparr>frag := o'\<rparr>) d t)) \<le> m (app a)" "m (app (call_send h (c\<lparr>utf8_tx := u, frag := o'\<rparr>) d t)) \<le> m (app a)"
proof -
  show c: "m (app c) \<le> m (app a)" using mask_up [OF assms(1)] put_up [OF assms(2)] by simp
  show "m (app (call_send h c d t)) \<le> m (app a)" "m (app (call_send h (c\<lparr>frag := o'\<rparr>) d t)) \<le> m (app a)"
    "m (app (call_send h (c\<lparr>utf8_tx := u, frag := o'\<rparr>) d t)) \<le> m (app a)"
    using c calls_up(1) [of c d t] calls_up(1) [of "c\<lparr>frag := o'\<rparr>" d t] calls_up(1) [of "c\<lparr>utf8_tx := u, frag := o'\<rparr>" d t] by simp_all
qed

lemma sends_up:
  "m (app (snd (wic_send_binary h a fin d n))) \<le> m (app a)" "m (app (snd (wic_send_text h a fin d n))) \<le> m (app a)"
  "m (app (snd (wic_send h a enc fin d n))) \<le> m (app a)" "m (app (snd (send_pong_with_payload h a d n))) \<le> m (app a)"
proof -
  obtain ok b where al: "allowed_to_send a = (ok, b)" by fastforce
  note b = allowed_app [OF al]
  note up = masked_up [of b, unfolded b]
  show 1: "m (app (snd (wic_send_binary h a fin d n))) \<le> m (app a)"
    using b up(1,3) by (auto simp: wic_send_binary_def al Let_def split: prod.split)
  show 2: "m (app (snd (wic_send_text h a fin d n))) \<le> m (app a)"
    using b up(1,4) by (auto simp: wic_send_text_def al Let_def split: prod.split)
  show "m (app (snd (wic_send h a enc fin d n))) \<le> m (app a)" using 1 2 by (simp add: wic_send_def)
  show "m (app (snd (send_pong_with_payload h a d n))) \<le> m (app a)"
    using b up(1,2) by (auto simp: send_pong_with_payload_def al Let_def split: prod.split)
qed

lemma closes_up: "m (app (close_with_reason h a code d n t)) \<le> m (app a)"
proof -
  have last: "m (app (call_close h (call_close_transport h b) code e)) \<le> m (app b)"
    "m (app (call_handshake_failure h (call_close_transport h b) why)) \<le> m (app b)" for b e why
    using calls_up(3) [of "call_close_transport h b" code e] calls_up(4) [of "call_close_transport h b" why] calls_up(2) [of b] by simp_all
  have sent: "m (app (call_close h (call_close_transport h (call_send h c x t)) code e)) \<le> m (app a)"
    "m (app (call_close h (call_close_transport h c) code e)) \<le> m (app a)"
    if "init_mask h (a\<lparr>istate := WIC_STATE_CLOSED\<rparr>) f = (f', b)" "stream_put_frame h b f' = (r, tx, c)" for f f' b r tx c x e
    using last(1) [of "call_send h c x t" e] last(1) [of c e] masked_up(1,2) [OF that] by (auto intro: order_trans)
  have plain: "m (app (call_close h (call_close_transport h (a\<lparr>istate := WIC_STATE_CLOSED\<rparr>)) code e)) \<le> m (app a)"
    "m (app (call_handshake_failure h (call_close_transport h (a\<lparr>istate := WIC_STATE_CLOSED\<rparr>)) why)) \<le> m (app a)" for e why
    using last [of "a\<lparr>istate := WIC_STATE_CLOSED\<rparr>"] by simp_all
  show ?thesis
    using plain sent by (cases "istate a") (auto simp: close_with_reason_def Let_def split: prod.split)
qed

end

section \<open>A peer that ends\<close>

text \<open>\<open>left\<close> bounds how often the peer's data still arrives: a \<open>recv\<close> that returns some uses it up, and nothing adds
  to it. A \<open>recv\<close> never returns more than it was asked for.\<close>

locale finite_peer = socket k logged for k :: "'n os" and logged :: "'n \<Rightarrow> bytes" +
  fixes left :: "'n \<Rightarrow> nat"
  assumes recv_left: "os_recv k w s n = (r, d, w') \<Longrightarrow> 0 < r \<Longrightarrow> left w' < left w"
    and recv_most: "os_recv k w s n = (r, d, w') \<Longrightarrow> r \<le> int n"
    and write_left: "left (snd (os_write k w s d)) \<le> left w"
    and close_left: "left (os_close k w s) \<le> left w"
    and rand_left: "left (snd (os_rand k w)) \<le> left w"
begin

lemma transport_write_left: "left (transport_write k w s d) \<le> left w"
proof (induction d arbitrary: w rule: length_induct)
  case (1 d)
  obtain r w' where w: "os_write k w s d = (r, w')" by fastforce
  then have le: "left w' \<le> left w" using write_left [of w s d] by simp
  show ?case
  proof (cases "d = [] \<or> r \<le> 0")
    case True
    then show ?thesis using w le by (subst transport_write.simps) auto
  next
    case False
    then have "length (drop (nat r) d) < length d" by simp
    with 1 have "left (transport_write k w' s (drop (nat r) d)) \<le> left w'" by blast
    with False w le show ?thesis by (subst transport_write.simps) auto
  qed
qed

lemma handlers_left:
  "uses_up (demo_link k sz) (\<lambda>a. left (net a))" "uses_up (example_host k sz) (\<lambda>a. left (net a))"
  using rand_left transport_write_left close_left
  by (unfold_locales; simp add: example_host_def demo_host_def demo_link_def demo_on_send_def demo_on_buffer_def do_random_def
      demo_on_close_transport_def transport_close_def split_beta)+

end

sublocale finite_peer \<subseteq> link_left: uses_up "demo_link k sz" "\<lambda>a. left (net a)"
  by (rule handlers_left)

sublocale finite_peer \<subseteq> example_left: uses_up "example_host k sz" "\<lambda>a. left (net a)"
  by (rule handlers_left)

text \<open>The handlers of the examples accept every message and lend a buffer for every control frame.\<close>

lemma example_accepts: "fst (run_message (example_host k sz) p self enc fin d)"
  by (simp add: example_host_def on_message_case_count_def demo_accepts Let_def)

lemma example_lends: "n \<le> sz \<Longrightarrow> lends (example_host k sz) n"
  using demo_lends [of n sz k] by (simp add: lends_def example_host_def)

context socket
begin

lemma example_accepting: "131 \<le> sz \<Longrightarrow> accepting_app (example_host k sz) (\<lambda>a. logged (net a))"
  by (intro accepting_app.intro example_contract accepting_app_axioms.intro example_accepts example_lends)

end

context finite_peer
begin

lemma message_left: "left (net (app (snd (run_message (example_host k sz) p a enc fin d)))) \<le> left (net (app a))"
proof -
  have "left (net (app (wic_close (demo_link k sz) b))) \<le> left (net (app b))" for b
    using link_left.closes_up [of sz b] by (simp add: wic_close_def wic_close_with_reason_def)
  from this [of a] this [of "a\<lparr>app := (app a)\<lparr>cases := n\<rparr>\<rparr>" for n] show ?thesis
    using link_left.sends_up(3) [of sz a enc fin d]
    by (simp add: example_host_def demo_host_def on_message_case_count_def echo_on_message_def demo_on_message_def Let_def)
qed

lemma open_left: "left (net (app (run_open (example_host k sz) p a))) \<le> left (net (app a))"
proof -
  have "left (net (app b)) \<le> left (net (app a))" if o: "demo_on_open k sz a = Some b" for b
  proof -
    obtain i where "b = snd (wic_send_text (demo_link k sz) (a\<lparr>ipos := i\<rparr>) True hello (of_nat (length hello)))"
      using o print_headers_pos [of a] by (auto simp: demo_on_open_def split: option.splits)
    then show ?thesis using link_left.sends_up(2) [of sz "a\<lparr>ipos := i\<rparr>"] by simp
  qed
  then show ?thesis by (simp add: example_host_def split: option.split)
qed

end

sublocale finite_peer \<subseteq> bounded: kept_inst "example_host k sz" "\<lambda>a. logged (net a)" "\<lambda>a. left (net (app a)) \<le> c"
proof
  fix a :: "'n demo_app wic_inst" and code reason n type
  assume "left (net (app a)) \<le> c"
  then show "left (net (app (close_with_reason (example_host k sz) a code reason n type))) \<le> c"
    using example_left.closes_up [of sz a code reason n type] by linarith
next
  fix a :: "'n demo_app wic_inst" and why
  assume "left (net (app a)) \<le> c"
  then show "left (net (app ((call_handshake_failure (example_host k sz) (call_close_transport (example_host k sz) a) why)\<lparr>istate := WIC_STATE_CLOSED\<rparr>))) \<le> c"
    using example_left.calls_up(4) [of sz "call_close_transport (example_host k sz) a" why] example_left.calls_up(2) [of sz a] by simp
next
  fix a :: "'n demo_app wic_inst" and enc fin d
  assume "left (net (app a)) \<le> c"
  then show "left (net (app (snd (call_message (example_host k sz) a enc fin d)))) \<le> c"
    using message_left [of sz _ a enc fin d] by (auto simp: call_message_def on_message_def intro: order_trans split: message_fn.split)
next
  fix a :: "'n demo_app wic_inst" and d m
  assume "left (net (app a)) \<le> c"
  then show "left (net (app (snd (send_pong_with_payload (example_host k sz) a d m)))) \<le> c"
    using example_left.sends_up(4) [of sz a d m] by linarith
next
  fix a :: "'n demo_app wic_inst"
  assume "left (net (app a)) \<le> c"
  then show "left (net (app (call_open (example_host k sz) a))) \<le> c"
    using open_left [of sz _ a] by (auto simp: call_open_def intro: order_trans split: option.split)
qed (simp_all add: silent_calls)

section \<open>The end\<close>

context finite_peer
begin

lemma feed_left: "transport_feed (example_host k sz) a d = Some b \<Longrightarrow> left (net (app b)) \<le> left (net (app a))"
proof -
  define c where "c = left (net (app a))"
  let ?P = "\<lambda>h a d b. h = example_host k sz \<longrightarrow> left (net (app a)) \<le> c \<longrightarrow> left (net (app b)) \<le> c"
  assume r: "transport_feed (example_host k sz) a d = Some b"
  have "?P (example_host k sz) a d b"
  proof (rule transport_feed.raw_induct [of ?P, OF _ r])
    fix f h a d and b :: "'n demo_app wic_inst"
    assume IH: "\<And>h a d b. f h a d = Some b \<Longrightarrow> ?P h a d b"
      and run: "(if d = [] then Some a else (case wic_parse h a d of None \<Rightarrow> None | Some (retval, inst) \<Rightarrow> f h inst (drop retval d))) = Some b"
    show "?P h a d b"
      using run IH bounded.parse_kept by (fastforce split: if_splits option.splits)
  qed
  then show ?thesis by (simp add: c_def)
qed

lemma past_handshake_app: "past_handshake (a\<lparr>app := x\<rparr>) = past_handshake a"
  by (simp add: past_handshake_def room_of_def inst_ok_def rx_ok_def)

lemma recv_ends:
  assumes "131 \<le> sz" "past_handshake a"
  shows "\<exists>again b. transport_recv k (example_host k sz) a = Some (again, b) \<and>
    (again \<longrightarrow> past_handshake b \<and> left (net (app b)) < left (net (app a)))"
proof -
  obtain r d w where r: "os_recv k (net (app a)) (fd (app a)) 1000 = (r, d, w)" by (metis surj_pair)
  let ?a = "a\<lparr>app := (app a)\<lparr>net := w\<rparr>\<rparr>"
  show ?thesis
  proof (cases "0 < r")
    case False
    with r show ?thesis by (auto simp: transport_recv_def Let_def)
  next
    case True
    have len: "length (take (nat r) d) < 2 ^ 32" using recv_most [OF r] by simp
    have "past_handshake ?a" using assms(2) by (simp only: past_handshake_app)
    from accepting_app.feed_ends [OF example_accepting [OF assms(1)] this len]
    obtain b where b: "transport_feed (example_host k sz) ?a (take (nat r) d) = Some b" "past_handshake b" by blast
    have "left (net (app b)) < left (net (app a))" using feed_left [OF b(1)] recv_left [OF r True] by simp
    with b r True show ?thesis by (auto simp: transport_recv_def Let_def)
  qed
qed

lemma loop_ends:
  assumes "131 \<le> sz" "past_handshake a"
  shows "\<exists>b. recv_loop k (example_host k sz) a = Some b"
  using assms(2)
proof (induction "left (net (app a))" arbitrary: a rule: less_induct)
  case less
  obtain again b where r: "transport_recv k (example_host k sz) a = Some (again, b)"
    "again \<longrightarrow> past_handshake b \<and> left (net (app b)) < left (net (app a))"
    using recv_ends [OF assms(1) less.prems] by blast
  show ?case
  proof (cases again)
    case False
    with r show ?thesis by (subst recv_loop.simps) simp
  next
    case True
    with r obtain c where "recv_loop k (example_host k sz) b = Some c" using less.hyps by blast
    with r True show ?thesis by (subst recv_loop.simps) simp
  qed
qed

end

text \<open>A system whose peer sends given pieces and then ends.\<close>

definition piece_os :: "(bytes list \<times> bytes) os" where
  "piece_os =
     \<lparr>os_write = (\<lambda>w s d. (int (length d), (fst w, snd w @ d))), os_close = (\<lambda>w s. w),
      os_recv = (\<lambda>w s n. case fst w of [] \<Rightarrow> (0, [], w)
        | d # ds \<Rightarrow> (int (min n (length d)), take n d, (if n < length d then drop n d # ds else ds, snd w))),
      os_rand = (\<lambda>w. (of_nat (length (snd w)), w))\<rparr>"

interpretation pieces: finite_peer piece_os snd "\<lambda>w. sum_list (map length (fst w))"
proof
  fix d :: bytes and w s
  assume "d \<noteq> []"
  then show "\<exists>n w'. os_write piece_os w s d = (int n, w') \<and> 0 < n \<and> n \<le> length d \<and> snd w' = snd w @ take n d"
    by (intro exI [of _ "length d"] exI [of _ "(fst w, snd w @ d)"]) (simp add: piece_os_def)
next
  fix w w' :: "bytes list \<times> bytes" and s r d and n :: nat
  assume r: "os_recv piece_os w s n = (r, d, w')"
  then show "r \<le> int n" by (auto simp: piece_os_def split: list.splits)
  show "0 < r \<Longrightarrow> sum_list (map length (fst w')) < sum_list (map length (fst w))"
    using r by (auto simp: piece_os_def split: list.splits if_splits)
qed (auto simp: piece_os_def)

end
