(* ===== verification/Mbed_Queues.thy ===== *)
theory Mbed_Queues
  imports Wic_Types
begin

unbundle bit_operations_syntax

text \<open>
  The buffers and queues of the port to mbed OS (\<open>port/mbed/wic_buffer.h\<close>, \<open>wic_output_queue.h\<close>,
  \<open>wic_input_queue.h\<close>). The operating system's own queues, event flags, mails and sockets are a
  parameter (\<open>'k rtos\<close>, over a system state \<open>'k\<close>); \<open>rtos_laws\<close> is what the port relies on. A pointer
  to one of the four output buffers is an \<open>out_buf\<close>, one to a block of the mail its number.
\<close>

section \<open>Buffers\<close>

record mbed_buffer =
  b_data :: bytes
  b_mask :: u32
  b_priority :: u32
  b_size :: nat
  b_max :: nat
  b_encoding :: wic_encoding
  b_fin :: bool

text \<open>The constructors: in memory that starts zeroed, and placed in memory used before.\<close>

definition mbed_Buffer :: "nat \<Rightarrow> u32 \<Rightarrow> u32 \<Rightarrow> mbed_buffer" where
  "mbed_Buffer n m p =
     \<lparr>b_data = replicate n 0, b_mask = m, b_priority = p, b_size = 0, b_max = n, b_encoding = WIC_ENCODING_UTF8, b_fin = False\<rparr>"

definition place_Buffer :: "mbed_buffer \<Rightarrow> mbed_buffer" where
  "place_Buffer old = old\<lparr>b_mask := 0, b_priority := 0, b_size := 0, b_max := length (b_data old)\<rparr>"

definition buffer_init :: "mbed_buffer \<Rightarrow> bytes \<Rightarrow> wic_encoding \<Rightarrow> bool \<Rightarrow> bool \<times> mbed_buffer" where
  "buffer_init b d enc fin =
     (if length d \<le> length (b_data b)
      then (True, b\<lparr>b_data := d @ drop (length d) (b_data b), b_size := length d, b_encoding := enc, b_fin := fin\<rparr>)
      else (False, b))"

section \<open>The operating system\<close>

datatype out_buf = user_buf | close_buf | ping_buf | pong_buf

datatype nsapi_error =
  NSAPI_ERROR_OK | NSAPI_ERROR_WOULD_BLOCK | NSAPI_ERROR_UNSUPPORTED | NSAPI_ERROR_PARAMETER
| NSAPI_ERROR_NO_CONNECTION | NSAPI_ERROR_NO_SOCKET | NSAPI_ERROR_NO_ADDRESS | NSAPI_ERROR_NO_MEMORY
| NSAPI_ERROR_NO_SSID | NSAPI_ERROR_DNS_FAILURE | NSAPI_ERROR_DHCP_FAILURE | NSAPI_ERROR_AUTH_FAILURE
| NSAPI_ERROR_DEVICE_ERROR | NSAPI_ERROR_IN_PROGRESS | NSAPI_ERROR_ALREADY | NSAPI_ERROR_IS_CONNECTED
| NSAPI_ERROR_CONNECTION_LOST | NSAPI_ERROR_CONNECTION_TIMEOUT | NSAPI_ERROR_ADDRESS_IN_USE
| NSAPI_ERROR_TIMEOUT | NSAPI_ERROR_BUSY | NSAPI_ERROR_other int

datatype mbed_socket = Tcp | Tls

text \<open>The callbacks the client puts into its event queue.\<close>

datatype client_event =
  Do_open | Do_close | Do_send wic_encoding bool bytes u16 | Do_handshake_timeout

text \<open>A \<open>put\<close> has the second argument the code gives it and reports whether it was taken; a \<open>get\<close>
  that finds nothing is \<open>None\<close>. A socket call returns an error or a size; \<open>connect\<close> and
  \<open>gethostbyname\<close> return \<open>None\<close> for success.\<close>

record 'k rtos =
  flags_get :: "'k \<Rightarrow> u32"
  flags_set :: "u32 \<Rightarrow> 'k \<Rightarrow> 'k"
  flags_clear :: "u32 \<Rightarrow> 'k \<Rightarrow> 'k"
  queue_put :: "out_buf option \<Rightarrow> u32 \<Rightarrow> 'k \<Rightarrow> bool \<times> 'k"
  queue_get :: "'k \<Rightarrow> out_buf option option \<times> 'k"
  mail_alloc :: "'k \<Rightarrow> nat option \<times> 'k"
  mail_put :: "nat \<Rightarrow> 'k \<Rightarrow> bool \<times> 'k"
  mail_get :: "'k \<Rightarrow> nat option \<times> 'k"
  mail_free :: "nat \<Rightarrow> 'k \<Rightarrow> 'k"
  pool_alloc :: "'k \<Rightarrow> bool \<times> 'k"
  pool_free :: "'k \<Rightarrow> 'k"
  work_release :: "'k \<Rightarrow> 'k"
  writers_release :: "'k \<Rightarrow> 'k"
  readers_notify :: "'k \<Rightarrow> 'k"
  events_call :: "client_event \<Rightarrow> 'k \<Rightarrow> 'k"
  events_call_in :: "nat \<Rightarrow> client_event \<Rightarrow> 'k \<Rightarrow> int \<times> 'k"
  events_cancel :: "int \<Rightarrow> 'k \<Rightarrow> 'k"
  events_due :: "'k \<Rightarrow> client_event option \<times> 'k"
  gethostbyname :: "bytes \<Rightarrow> 'k \<Rightarrow> (nsapi_error + bytes) \<times> 'k"
  tcp_open :: "'k \<Rightarrow> 'k"
  sock_connect :: "mbed_socket \<Rightarrow> bytes \<Rightarrow> u16 \<Rightarrow> 'k \<Rightarrow> nsapi_error \<times> 'k"
  sock_unblock :: "mbed_socket \<Rightarrow> 'k \<Rightarrow> 'k"
  sock_recv :: "mbed_socket \<Rightarrow> nat \<Rightarrow> 'k \<Rightarrow> (nsapi_error + bytes) \<times> 'k"
  sock_send :: "mbed_socket \<Rightarrow> bytes \<Rightarrow> 'k \<Rightarrow> (nsapi_error + nat) \<times> 'k"
  sock_close :: "mbed_socket \<Rightarrow> 'k \<Rightarrow> 'k"
  rtos_rand :: "'k \<Rightarrow> u32 \<times> 'k"

section \<open>The output queue\<close>

text \<open>The four buffers of \<open>OutputQueue<MAX_SIZE>\<close>.\<close>

primrec OutputQueue :: "nat \<Rightarrow> out_buf \<Rightarrow> mbed_buffer" where
  "OutputQueue n user_buf = mbed_Buffer n 1 0"
| "OutputQueue n close_buf = mbed_Buffer 131 2 3"
| "OutputQueue n ping_buf = mbed_Buffer 2 4 0"
| "OutputQueue n pong_buf = mbed_Buffer 131 8 1"

fun type_to_buf :: "wic_buffer \<Rightarrow> out_buf" where
  "type_to_buf WIC_BUFFER_HTTP = user_buf"
| "type_to_buf WIC_BUFFER_USER = user_buf"
| "type_to_buf WIC_BUFFER_CLOSE = close_buf"
| "type_to_buf WIC_BUFFER_CLOSE_RESPONSE = close_buf"
| "type_to_buf WIC_BUFFER_PONG = pong_buf"
| "type_to_buf WIC_BUFFER_PING = ping_buf"

text \<open>With the buffer, or \<open>None\<close>, the value stored at \<open>max\<close>.\<close>

definition out_alloc ::
    "'k rtos \<Rightarrow> nat \<Rightarrow> (out_buf \<Rightarrow> mbed_buffer) \<Rightarrow> wic_buffer \<Rightarrow> nat \<Rightarrow> 'k \<Rightarrow> (out_buf option \<times> nat) \<times> 'k" where
  "out_alloc k max_size bufs type min_size s =
     (let buf = type_to_buf type in
      if min_size = 0 \<or> b_max (bufs buf) \<ge> min_size then
        if b_mask (bufs buf) AND flags_get k s = 0
        then ((Some buf, max_size), flags_set k (b_mask (bufs buf)) s)
        else ((None, max_size), s)
      else ((None, max_size), s))"

definition out_put :: "'k rtos \<Rightarrow> (out_buf \<Rightarrow> mbed_buffer) \<Rightarrow> out_buf option \<Rightarrow> 'k \<Rightarrow> bool \<times> 'k" where
  "out_put k bufs x s =
     (case x of Some b \<Rightarrow> queue_put k (Some b) (b_priority (bufs b)) s | None \<Rightarrow> queue_put k None 2 s)"

definition out_free :: "'k rtos \<Rightarrow> (out_buf \<Rightarrow> mbed_buffer) \<Rightarrow> out_buf option \<Rightarrow> 'k \<Rightarrow> 'k" where
  "out_free k bufs x s = (case x of Some b \<Rightarrow> flags_clear k (b_mask (bufs b)) s | None \<Rightarrow> s)"

text \<open>The buffer, and whether the null pointer that asks to close was found.\<close>

definition out_get :: "'k rtos \<Rightarrow> 'k \<Rightarrow> (out_buf option \<times> bool) \<times> 'k" where
  "out_get k s =
     (case queue_get k s of
        (None, s) \<Rightarrow> ((None, False), s)
      | (Some p, s) \<Rightarrow> ((p, p = None), s))"

section \<open>The input queue\<close>

definition in_alloc :: "'k rtos \<Rightarrow> (nat \<Rightarrow> mbed_buffer) \<Rightarrow> 'k \<Rightarrow> nat option \<times> (nat \<Rightarrow> mbed_buffer) \<times> 'k" where
  "in_alloc k ins s =
     (case mail_alloc k s of
        (None, s) \<Rightarrow> (None, ins, s)
      | (Some i, s) \<Rightarrow> (Some i, ins(i := place_Buffer (ins i)), s))"

definition in_free :: "'k rtos \<Rightarrow> nat \<Rightarrow> 'k \<Rightarrow> 'k" where
  "in_free k i s = mail_free k i s"

definition in_put :: "'k rtos \<Rightarrow> nat \<Rightarrow> 'k \<Rightarrow> bool \<times> 'k" where
  "in_put k i s = mail_put k i s"

definition in_get :: "'k rtos \<Rightarrow> 'k \<Rightarrow> nat option \<times> 'k" where
  "in_get k s = mail_get k s"

section \<open>Error names\<close>

fun nsapi_error_to_s :: "nsapi_error \<Rightarrow> string" where
  "nsapi_error_to_s NSAPI_ERROR_OK = ''OK''"
| "nsapi_error_to_s NSAPI_ERROR_WOULD_BLOCK = ''WOULD_BLOCK''"
| "nsapi_error_to_s NSAPI_ERROR_UNSUPPORTED = ''UNSUPPORTED''"
| "nsapi_error_to_s NSAPI_ERROR_PARAMETER = ''PARAMETER''"
| "nsapi_error_to_s NSAPI_ERROR_NO_CONNECTION = ''NO_CONNECTION''"
| "nsapi_error_to_s NSAPI_ERROR_NO_SOCKET = ''NO_SOCKET''"
| "nsapi_error_to_s NSAPI_ERROR_NO_ADDRESS = ''NO_ADDRESS''"
| "nsapi_error_to_s NSAPI_ERROR_NO_MEMORY = ''NO_MEMORY''"
| "nsapi_error_to_s NSAPI_ERROR_NO_SSID = ''NO_SSID''"
| "nsapi_error_to_s NSAPI_ERROR_DNS_FAILURE = ''DNS_FAILURE''"
| "nsapi_error_to_s NSAPI_ERROR_DHCP_FAILURE = ''DHCP_FAILURE''"
| "nsapi_error_to_s NSAPI_ERROR_AUTH_FAILURE = ''AUTH_FAILURE''"
| "nsapi_error_to_s NSAPI_ERROR_DEVICE_ERROR = ''DEVICE_ERROR''"
| "nsapi_error_to_s NSAPI_ERROR_IN_PROGRESS = ''IN_PROGRESS''"
| "nsapi_error_to_s NSAPI_ERROR_ALREADY = ''ALREADY''"
| "nsapi_error_to_s NSAPI_ERROR_IS_CONNECTED = ''IS_CONNECTED''"
| "nsapi_error_to_s NSAPI_ERROR_CONNECTION_LOST = ''CONNECTION_LOST''"
| "nsapi_error_to_s NSAPI_ERROR_CONNECTION_TIMEOUT = ''CONNECTION_TIMEOUT''"
| "nsapi_error_to_s NSAPI_ERROR_ADDRESS_IN_USE = ''ADDRESS_IN_USE''"
| "nsapi_error_to_s NSAPI_ERROR_TIMEOUT = ''TIMEOUT''"
| "nsapi_error_to_s NSAPI_ERROR_BUSY = ''BUSY''"
| "nsapi_error_to_s (NSAPI_ERROR_other n) = ''UNKNOWN''"

section \<open>What the port relies on\<close>

text \<open>What the port sees of the system: the flags, the output queue (which holds five entries, all
  of one priority), and the blocks of the mail in use and those posted, in order.\<close>

record os_view =
  v_flags :: u32
  v_queue :: "out_buf option list"
  v_used :: "nat set"
  v_mail :: "nat list"

locale rtos_laws =
  fixes k :: "'k rtos" and view :: "'k \<Rightarrow> os_view"
  assumes flags_get_law: "flags_get k s = v_flags (view s)"
    and flags_set_law: "view (flags_set k m s) = (view s)\<lparr>v_flags := v_flags (view s) OR m\<rparr>"
    and flags_clear_law: "view (flags_clear k m s) = (view s)\<lparr>v_flags := v_flags (view s) AND NOT m\<rparr>"
    and queue_put_law: "queue_put k x t s = (ok, s') \<Longrightarrow> ok = (length (v_queue (view s)) < 5) \<and>
      view s' = (if ok then (view s)\<lparr>v_queue := v_queue (view s) @ [x]\<rparr> else view s)"
    and queue_get_law: "queue_get k s = (r, s') \<Longrightarrow> (case v_queue (view s) of
        [] \<Rightarrow> r = None \<and> view s' = view s
      | x # xs \<Rightarrow> r = Some x \<and> view s' = (view s)\<lparr>v_queue := xs\<rparr>)"
    and mail_alloc_law: "mail_alloc k s = (blk, s') \<Longrightarrow> (case blk of
        None \<Rightarrow> view s' = view s
      | Some i \<Rightarrow> i \<notin> v_used (view s) \<and> view s' = (view s)\<lparr>v_used := insert i (v_used (view s))\<rparr>)"
    and mail_put_law: "mail_put k i s = (ok, s') \<Longrightarrow> ok \<and> view s' = (view s)\<lparr>v_mail := v_mail (view s) @ [i]\<rparr>"
    and mail_get_law: "mail_get k s = (blk, s') \<Longrightarrow> (case v_mail (view s) of
        [] \<Rightarrow> blk = None \<and> view s' = view s
      | i # xs \<Rightarrow> blk = Some i \<and> view s' = (view s)\<lparr>v_mail := xs\<rparr>)"
    and mail_free_law: "view (mail_free k i s) = (view s)\<lparr>v_used := v_used (view s) - {i}\<rparr>"
    and quiet_laws: "view (work_release k s) = view s" "view (writers_release k s) = view s"
      "view (readers_notify k s) = view s" "view (events_call k e s) = view s"
      "view (snd (events_call_in k n e s)) = view s" "view (events_cancel k c s) = view s"
      "view (snd (events_due k s)) = view s" "view (snd (gethostbyname k nm s)) = view s"
      "view (tcp_open k s) = view s" "view (snd (sock_connect k sk a p s)) = view s"
      "view (sock_unblock k sk s) = view s" "view (snd (sock_recv k sk n s)) = view s"
      "view (snd (sock_send k sk d s)) = view s" "view (sock_close k sk s) = view s"
      "view (snd (rtos_rand k s)) = view s" "view (snd (pool_alloc k s)) = view s" "view (pool_free k s) = view s"

section \<open>One such system\<close>

text \<open>A system that is nothing but what the port sees of it: two blocks of mail, no host to be
  found, a socket with nothing to read that takes everything written.\<close>

definition sim_rtos :: "os_view rtos" where
  "sim_rtos =
     \<lparr>flags_get = v_flags, flags_set = (\<lambda>m s. s\<lparr>v_flags := v_flags s OR m\<rparr>),
      flags_clear = (\<lambda>m s. s\<lparr>v_flags := v_flags s AND NOT m\<rparr>),
      queue_put = (\<lambda>x t s. if length (v_queue s) < 5 then (True, s\<lparr>v_queue := v_queue s @ [x]\<rparr>) else (False, s)),
      queue_get = (\<lambda>s. case v_queue s of [] \<Rightarrow> (None, s) | x # xs \<Rightarrow> (Some x, s\<lparr>v_queue := xs\<rparr>)),
      mail_alloc = (\<lambda>s. if 0 \<notin> v_used s then (Some 0, s\<lparr>v_used := insert 0 (v_used s)\<rparr>)
        else if 1 \<notin> v_used s then (Some 1, s\<lparr>v_used := insert 1 (v_used s)\<rparr>) else (None, s)),
      mail_put = (\<lambda>i s. (True, s\<lparr>v_mail := v_mail s @ [i]\<rparr>)),
      mail_get = (\<lambda>s. case v_mail s of [] \<Rightarrow> (None, s) | i # xs \<Rightarrow> (Some i, s\<lparr>v_mail := xs\<rparr>)),
      mail_free = (\<lambda>i s. s\<lparr>v_used := v_used s - {i}\<rparr>),
      pool_alloc = Pair True, pool_free = (\<lambda>s. s), work_release = (\<lambda>s. s), writers_release = (\<lambda>s. s),
      readers_notify = (\<lambda>s. s), events_call = (\<lambda>e s. s), events_call_in = (\<lambda>n e s. (1, s)),
      events_cancel = (\<lambda>c s. s), events_due = Pair None, gethostbyname = (\<lambda>nm s. (Inl NSAPI_ERROR_DNS_FAILURE, s)),
      tcp_open = (\<lambda>s. s), sock_connect = (\<lambda>sk a p s. (NSAPI_ERROR_OK, s)), sock_unblock = (\<lambda>sk s. s),
      sock_recv = (\<lambda>sk n s. (Inl NSAPI_ERROR_WOULD_BLOCK, s)), sock_send = (\<lambda>sk d s. (Inr (length d), s)),
      sock_close = (\<lambda>sk s. s), rtos_rand = Pair 0\<rparr>"

interpretation sim: rtos_laws sim_rtos "\<lambda>s. s"
  by unfold_locales (auto simp: sim_rtos_def split: if_splits list.splits)

lemma sim_laws: "rtos_laws sim_rtos (\<lambda>s. s)"
  by (rule sim.rtos_laws_axioms)

end
