(* ===== verification/Mbed_Client.thy ===== *)
theory Mbed_Client
  imports Mbed_Queues Wic_Handshake
begin

text \<open>
  The client of the port to mbed OS (\<open>port/mbed/wic_client.cpp\<close>): the handlers it gives the
  library, the jobs its worker thread carries out for the callers, one turn of the worker's loop,
  and the public operations. The object is the application state \<open>app\<close> of its instance; every
  function takes the instance and returns it. The caller of a job waits for the worker, so a call
  is the job followed by turns of the worker until it is done.
\<close>

section \<open>The object\<close>

datatype client_state = CLOSED | OPENING | OPEN | CLOSING

record client_job =
  j_done :: bool
  j_retval :: nsapi_error
  j_status :: wic_status
  j_failure :: wic_handshake_failure

record 'k client =
  c_state :: client_state
  c_max :: nat
  c_bufs :: "out_buf \<Rightarrow> mbed_buffer"
  c_ins :: "nat \<Rightarrow> mbed_buffer"
  c_url :: mbed_buffer
  c_rx :: "nat option"
  c_tx :: "out_buf option"
  c_socket :: mbed_socket
  c_timeout_id :: int
  c_job :: client_job
  c_os :: 'k

type_synonym 'k self = "'k client wic_inst"

text \<open>\<open>job = {}\<close>: all members zero.\<close>

definition no_job :: client_job where
  "no_job = \<lparr>j_done = False, j_retval = NSAPI_ERROR_OK, j_status = WIC_STATUS_SUCCESS,
     j_failure = WIC_HANDSHAKE_FAILURE_ABNORMAL_1\<rparr>"

definition on_obj :: "('k client \<Rightarrow> 'k client) \<Rightarrow> 'k self \<Rightarrow> 'k self" where
  "on_obj f self = self\<lparr>app := f (app self)\<rparr>"

definition on_os :: "('k \<Rightarrow> 'k) \<Rightarrow> 'k self \<Rightarrow> 'k self" where
  "on_os f self = on_obj (\<lambda>c. c\<lparr>c_os := f (c_os c)\<rparr>) self"

definition on_job :: "(client_job \<Rightarrow> client_job) \<Rightarrow> 'k self \<Rightarrow> 'k self" where
  "on_job f self = on_obj (\<lambda>c. c\<lparr>c_job := f (c_job c)\<rparr>) self"

text \<open>A call of the system that also has a result.\<close>

definition ask_os :: "('k \<Rightarrow> 'a \<times> 'k) \<Rightarrow> 'k self \<Rightarrow> 'a \<times> 'k self" where
  "ask_os f self = (let (x, s) = f (c_os (app self)) in (x, on_obj (\<lambda>c. c\<lparr>c_os := s\<rparr>) self))"

abbreviation do_work :: "'k rtos \<Rightarrow> 'k self \<Rightarrow> 'k self" where
  "do_work k \<equiv> on_os (work_release k)"

abbreviation notify_writers :: "'k rtos \<Rightarrow> 'k self \<Rightarrow> 'k self" where
  "notify_writers k \<equiv> on_os (writers_release k)"

abbreviation notify_readers :: "'k rtos \<Rightarrow> 'k self \<Rightarrow> 'k self" where
  "notify_readers k \<equiv> on_os (readers_notify k)"

section \<open>The handlers\<close>

text \<open>The frame is in the memory of \<open>tx\<close> already: the library wrote it there.\<close>

definition handle_send :: "'k rtos \<Rightarrow> 'k self \<Rightarrow> bytes \<Rightarrow> wic_buffer \<Rightarrow> 'k self" where
  "handle_send k self data type =
     (case c_tx (app self) of
        None \<Rightarrow> self
      | Some b \<Rightarrow>
          let self = on_obj (\<lambda>c. c\<lparr>c_bufs := (c_bufs c)(b := (c_bufs c b)
                \<lparr>b_data := data @ drop (length data) (b_data (c_bufs c b)), b_size := length data\<rparr>)\<rparr>) self;
              self = (if length data = 0 then on_os (out_free k (c_bufs (app self)) (Some b)) self
                      else snd (ask_os (out_put k (c_bufs (app self)) (Some b)) self));
              self = on_obj (\<lambda>c. c\<lparr>c_tx := None\<rparr>) self
          in do_work k self)"

definition handle_buffer :: "'k rtos \<Rightarrow> 'k self \<Rightarrow> nat \<Rightarrow> wic_buffer \<Rightarrow> (bytes option \<times> nat) \<times> 'k self" where
  "handle_buffer k self min_size type =
     (let ((tx, mx), self) = ask_os (out_alloc k (c_max (app self)) (c_bufs (app self)) type min_size) self;
          self = on_obj (\<lambda>c. c\<lparr>c_tx := tx\<rparr>) self
      in ((map_option (\<lambda>b. b_data (c_bufs (app self) b)) tx, mx), self))"

definition handle_rand :: "'k rtos \<Rightarrow> 'k self \<Rightarrow> u32 \<times> 'k self" where
  "handle_rand k self = ask_os (rtos_rand k) self"

definition failure_code :: "wic_handshake_failure \<Rightarrow> nsapi_error" where
  "failure_code reason =
     (case reason of
        WIC_HANDSHAKE_FAILURE_ABNORMAL_2 \<Rightarrow> NSAPI_ERROR_CONNECTION_LOST
      | WIC_HANDSHAKE_FAILURE_PROTOCOL \<Rightarrow> NSAPI_ERROR_UNSUPPORTED
      | WIC_HANDSHAKE_FAILURE_UPGRADE \<Rightarrow> NSAPI_ERROR_UNSUPPORTED
      | _ \<Rightarrow> NSAPI_ERROR_CONNECTION_TIMEOUT)"

definition handle_handshake_failure :: "'k rtos \<Rightarrow> 'k self \<Rightarrow> wic_handshake_failure \<Rightarrow> 'k self" where
  "handle_handshake_failure k self reason =
     (let self = on_os (events_cancel k (c_timeout_id (app self))) self;
          self = on_job (\<lambda>j. j\<lparr>j_failure := reason, j_retval := failure_code reason, j_done := True\<rparr>) self;
          self = notify_writers k self
      in on_obj (\<lambda>c. c\<lparr>c_state := CLOSING\<rparr>) self)"

definition handle_open :: "'k rtos \<Rightarrow> 'k self \<Rightarrow> 'k self" where
  "handle_open k self =
     (let self = on_os (events_cancel k (c_timeout_id (app self))) self;
          self = on_obj (\<lambda>c. c\<lparr>c_state := OPEN\<rparr>) self;
          self = on_job (\<lambda>j. j\<lparr>j_retval := NSAPI_ERROR_OK, j_done := True\<rparr>) self
      in notify_writers k self)"

definition in_alloc_self :: "'k rtos \<Rightarrow> 'k self \<Rightarrow> nat option \<times> 'k self" where
  "in_alloc_self k self =
     (let (i, ins, s) = in_alloc k (c_ins (app self)) (c_os (app self))
      in (i, on_obj (\<lambda>c. c\<lparr>c_ins := ins, c_os := s\<rparr>) self))"

definition handle_message ::
    "'k rtos \<Rightarrow> 'k self \<Rightarrow> wic_encoding \<Rightarrow> bool \<Rightarrow> bytes \<Rightarrow> bool \<times> 'k self" where
  "handle_message k self enc fin data =
     (case in_alloc_self k self of
        (None, self) \<Rightarrow> (False, notify_readers k self)
      | (Some i, self) \<Rightarrow>
          let self = on_obj (\<lambda>c. c\<lparr>c_ins := (c_ins c)(i := snd (buffer_init (c_ins c i) data enc fin))\<rparr>) self;
              self = snd (ask_os (in_put k i) self)
          in (True, notify_readers k self))"

definition handle_close :: "'k self \<Rightarrow> u16 \<Rightarrow> bytes \<Rightarrow> 'k self" where
  "handle_close self code reason = on_obj (\<lambda>c. c\<lparr>c_state := CLOSING\<rparr>) self"

definition handle_close_transport :: "'k rtos \<Rightarrow> 'k self \<Rightarrow> 'k self" where
  "handle_close_transport k self =
     do_work k (snd (ask_os (out_put k (c_bufs (app self)) None) self))"

text \<open>Each handler has one function of the port behind it, so its pointer does not matter.\<close>

definition mbed_host :: "'k rtos \<Rightarrow> 'k client host" where
  "mbed_host k =
     \<lparr>run_message = (\<lambda>_. handle_message k), run_open = (\<lambda>_. handle_open k),
      run_close = (\<lambda>_. handle_close), run_close_transport = (\<lambda>_. handle_close_transport k),
      run_handshake_failure = (\<lambda>_. handle_handshake_failure k), run_send = (\<lambda>_. handle_send k),
      run_buffer = (\<lambda>_. handle_buffer k), run_rand = (\<lambda>_. handle_rand k),
      run_ping = (\<lambda>_ self. self), run_pong = (\<lambda>_ self. self)\<rparr>"

section \<open>The jobs\<close>

definition do_close_socket :: "'k rtos \<Rightarrow> 'k self \<Rightarrow> 'k self" where
  "do_close_socket k self =
     (let self = on_os (sock_close k (c_socket (app self))) self;
          self = on_job (\<lambda>j. j\<lparr>j_done := True\<rparr>) self;
          self = on_obj (\<lambda>c. c\<lparr>c_state := CLOSED\<rparr>) self;
          self = notify_readers k self
      in notify_writers k self)"

text \<open>The messages nobody has read are thrown away.\<close>

partial_function (option) flush_input_queue :: "'k rtos \<Rightarrow> 'k self \<Rightarrow> 'k self option" where
  "flush_input_queue k self =
     (case ask_os (in_get k) self of
        (None, self) \<Rightarrow> Some self
      | (Some i, self) \<Rightarrow> flush_input_queue k (on_os (in_free k i) self))"

definition client_init_arg :: "mbed_buffer \<Rightarrow> bytes \<Rightarrow> 'k client \<Rightarrow> 'k client wic_init_arg" where
  "client_init_arg rxb u c =
     \<lparr>ia_rx = Some (b_data rxb), ia_rx_max = b_max rxb, ia_on_message = Some 0, ia_on_open = Some 0,
      ia_on_close = Some 0, ia_on_close_transport = Some 0, ia_on_handshake_failure = Some 0, ia_on_ping = None,
      ia_on_pong = None, ia_rand = Some 0, ia_on_send = Some 0, ia_on_buffer = Some 0, ia_app = c,
      ia_url = Some u, ia_role = WIC_ROLE_CLIENT\<rparr>"

text \<open>A job ends with a value and the socket closed.\<close>

definition fail_open :: "'k rtos \<Rightarrow> nsapi_error \<Rightarrow> 'k self \<Rightarrow> 'k self" where
  "fail_open k err self = do_close_socket k (on_job (\<lambda>j. j\<lparr>j_retval := err\<rparr>) self)"

text \<open>Once the host is found: connecting and sending the request.\<close>

definition open_socket :: "'k rtos \<Rightarrow> bytes \<Rightarrow> 'k self \<Rightarrow> 'k self option" where
  "open_socket k addr self =
     (let sk = (case wic_get_url_schema self of
            WIC_SCHEMA_HTTPS \<Rightarrow> Tls | WIC_SCHEMA_WSS \<Rightarrow> Tls | _ \<Rightarrow> Tcp);
          self = on_obj (\<lambda>c. c\<lparr>c_socket := sk\<rparr>) self;
          self = on_os (tcp_open k) self;
          (err, self) = ask_os (sock_connect k sk addr (wic_get_url_port self)) self
      in if err \<noteq> NSAPI_ERROR_OK then Some (fail_open k err self)
         else
           let self = on_os (sock_unblock k sk) self
           in (case wic_start (mbed_host k) self of
                 None \<Rightarrow> None
               | Some (st, self) \<Rightarrow>
                   let self = on_job (\<lambda>j. j\<lparr>j_status := st\<rparr>) self
                   in Some (if st \<noteq> WIC_STATUS_SUCCESS then fail_open k NSAPI_ERROR_OK self
                      else
                        let self = on_obj (\<lambda>c. c\<lparr>c_state := OPENING\<rparr>) self;
                            (tid, self) = ask_os (events_call_in k 5000 Do_handshake_timeout) self
                        in on_obj (\<lambda>c. c\<lparr>c_timeout_id := tid\<rparr>) self)))"

text \<open>The string in the URL buffer.\<close>

definition url_string :: "'k client \<Rightarrow> bytes" where
  "url_string c = takeWhile (\<lambda>b. b \<noteq> 0) (b_data (c_url c))"

text \<open>An instance that was refused is zeroed memory; what nothing reads in its state is of no account.\<close>

definition blank_inst :: "'k client \<Rightarrow> 'k self" where
  "blank_inst c =
     \<lparr>role = WIC_ROLE_CLIENT, istate = WIC_STATE_INIT, rx = init_rx None 0, h_message = Default_message, h_open = None,
      h_close = None, h_close_transport = None, h_handshake_failure = None, h_send = 0, h_buffer = 0,
      h_rand = None, h_ping = None, h_pong = None, app = c, url = None,
      schema = WIC_SCHEMA_HTTP, status_code = 0, port = 0, tx_header = [], header_state = WIC_HEADER_STATE_IDLE,
      http = http_parser_init HTTP_REQUEST, frag = WIC_OPCODE_CONTINUE, ipos = 0, utf8_tx = 0, utf8_rx = 0,
      hash = replicate 20 0, hostname = [], redirect_url = None\<rparr>"

definition do_open :: "'k rtos \<Rightarrow> http_parser_url \<Rightarrow> 'k self \<Rightarrow> 'k self option" where
  "do_open k u0 self =
     (let self = (if c_rx (app self) = None
            then let (r, self) = in_alloc_self k self in on_obj (\<lambda>c. c\<lparr>c_rx := r\<rparr>) self else self)
      in if c_state (app self) \<noteq> CLOSED then
           Some (notify_writers k (on_job (\<lambda>j. j\<lparr>j_retval :=
             (if c_state (app self) = OPEN then NSAPI_ERROR_IS_CONNECTED else NSAPI_ERROR_BUSY), j_done := True\<rparr>) self))
         else
           (case flush_input_queue k self of
              None \<Rightarrow> None
            | Some self \<Rightarrow>
                (case c_rx (app self) of
                   None \<Rightarrow> None
                 | Some i \<Rightarrow>
                     (case wic_init u0 (client_init_arg (c_ins (app self) i) (url_string (app self)) (app self)) of
                        Inl Wild_read \<Rightarrow> None
                      | Inl Refused \<Rightarrow> Some (fail_open k NSAPI_ERROR_PARAMETER (blank_inst (app self)))
                      | Inr self \<Rightarrow>
                          (case ask_os (gethostbyname k (hostname self)) self of
                             (Inl err, self) \<Rightarrow> Some (fail_open k err self)
                           | (Inr addr, self) \<Rightarrow> open_socket k addr self)))))"

definition do_close :: "'k rtos \<Rightarrow> 'k self \<Rightarrow> 'k self" where
  "do_close k self =
     (if wic_get_state self = WIC_STATE_READY \<or> wic_get_state self = WIC_STATE_OPEN then wic_close (mbed_host k) self
      else notify_writers k (on_job (\<lambda>j. j\<lparr>j_retval := NSAPI_ERROR_OK, j_done := True\<rparr>) self))"

definition do_send :: "'k rtos \<Rightarrow> wic_encoding \<Rightarrow> bool \<Rightarrow> bytes \<Rightarrow> u16 \<Rightarrow> 'k self \<Rightarrow> 'k self" where
  "do_send k enc fin value n self =
     (let (st, self) = wic_send (mbed_host k) self enc fin value n
      in notify_writers k (on_job (\<lambda>j. j\<lparr>j_status := st, j_done := True\<rparr>) self))"

definition do_handshake_timeout :: "'k rtos \<Rightarrow> 'k self \<Rightarrow> 'k self" where
  "do_handshake_timeout k self = wic_close_with_reason (mbed_host k) self WIC_CLOSE_ABNORMAL_1 [] 0"

section \<open>The worker\<close>

text \<open>The variables of the loop: the receive buffer taken from the pool, with the bytes in it (none
  before the socket was read), the output buffer being sent, and how far each has got.\<close>

record worker =
  w_rx :: "bytes option"
  w_rx_pos :: nat
  w_tx :: "out_buf option"
  w_tx_pos :: nat

definition dispatch_event :: "'k rtos \<Rightarrow> http_parser_url \<Rightarrow> client_event \<Rightarrow> 'k self \<Rightarrow> 'k self option" where
  "dispatch_event k u0 e self =
     (case e of
        Do_open \<Rightarrow> do_open k u0 self
      | Do_close \<Rightarrow> Some (do_close k self)
      | Do_send enc fin value n \<Rightarrow> Some (do_send k enc fin value n self)
      | Do_handshake_timeout \<Rightarrow> Some (do_handshake_timeout k self))"

text \<open>\<open>events.dispatch(0)\<close>: every callback that is due.\<close>

partial_function (option) dispatch_events :: "'k rtos \<Rightarrow> http_parser_url \<Rightarrow> 'k self \<Rightarrow> 'k self option" where
  "dispatch_events k u0 self =
     (case ask_os (events_due k) self of
        (None, self) \<Rightarrow> Some self
      | (Some e, self) \<Rightarrow>
          (case dispatch_event k u0 e self of None \<Rightarrow> None | Some self \<Rightarrow> dispatch_events k u0 self))"

text \<open>A receive buffer, and the socket read into it if it is empty.\<close>

definition worker_recv :: "'k rtos \<Rightarrow> nat \<Rightarrow> worker \<Rightarrow> 'k self \<Rightarrow> worker \<times> 'k self" where
  "worker_recv k mss w self =
     (let (w, self) = (if w_rx w = None
            then let (ok, self) = ask_os (pool_alloc k) self
                 in (w\<lparr>w_rx := (if ok then Some [] else None), w_rx_pos := 0\<rparr>, self)
            else (w, self))
      in if w_rx w = Some [] then
           (case ask_os (sock_recv k (c_socket (app self)) mss) self of
              (Inr (b # bs), self) \<Rightarrow> (w\<lparr>w_rx := Some (b # bs)\<rparr>, self)
            | (Inl NSAPI_ERROR_WOULD_BLOCK, self) \<Rightarrow> (w, self)
            | (Inl NSAPI_ERROR_NO_SOCKET, self) \<Rightarrow> (w, self)
            | (_, self) \<Rightarrow>
                let self = wic_close_with_reason (mbed_host k) self WIC_CLOSE_ABNORMAL_2 [] 0;
                    self = do_work k self
                in (w\<lparr>w_rx := None\<rparr>, on_os (pool_free k) self))
         else (w, self))"

text \<open>What was read is parsed.\<close>

definition worker_parse :: "'k rtos \<Rightarrow> worker \<Rightarrow> 'k self \<Rightarrow> (worker \<times> 'k self) option" where
  "worker_parse k w self =
     (case w_rx w of
        Some (b # bs) \<Rightarrow>
          (case wic_parse (mbed_host k) self (drop (w_rx_pos w) (b # bs)) of
             None \<Rightarrow> None
           | Some (n, self) \<Rightarrow>
               let w = w\<lparr>w_rx_pos := w_rx_pos w + n\<rparr>
               in Some (if w_rx_pos w = length (b # bs)
                        then (w\<lparr>w_rx := None\<rparr>, do_work k (on_os (pool_free k) self)) else (w, self)))
      | _ \<Rightarrow> Some (w, self))"

text \<open>What is left in the output queue is given back, up to the next null pointer.\<close>

partial_function (option) flush_output :: "'k rtos \<Rightarrow> 'k self \<Rightarrow> 'k self option" where
  "flush_output k self =
     (case ask_os (out_get k) self of
        ((None, _), self) \<Rightarrow> Some self
      | ((Some b, _), self) \<Rightarrow> flush_output k (on_os (out_free k (c_bufs (app self)) (Some b)) self))"

definition worker_next :: "'k rtos \<Rightarrow> worker \<Rightarrow> 'k self \<Rightarrow> (worker \<times> 'k self) option" where
  "worker_next k w self =
     (if w_tx w = None then
        (case ask_os (out_get k) self of
           ((tx, True), self) \<Rightarrow>
             (case flush_output k self of
                None \<Rightarrow> None
              | Some self \<Rightarrow> Some (w\<lparr>w_tx := None, w_tx_pos := 0\<rparr>, do_work k (do_close_socket k self)))
         | ((tx, False), self) \<Rightarrow> Some (w\<lparr>w_tx := tx, w_tx_pos := 0\<rparr>, self))
      else Some (w, self))"

text \<open>The buffer is given back once it is sent, or the socket refuses it.\<close>

definition worker_done :: "'k rtos \<Rightarrow> out_buf \<Rightarrow> worker \<Rightarrow> 'k self \<Rightarrow> worker \<times> 'k self" where
  "worker_done k b w self =
     (let self = on_os (out_free k (c_bufs (app self)) (Some b)) self
      in (w\<lparr>w_tx := None\<rparr>, do_work k (notify_writers k self)))"

definition worker_write :: "'k rtos \<Rightarrow> nat \<Rightarrow> worker \<Rightarrow> 'k self \<Rightarrow> worker \<times> 'k self" where
  "worker_write k mss w self =
     (case w_tx w of
        None \<Rightarrow> (w, self)
      | Some b \<Rightarrow>
          let buf = c_bufs (app self) b;
              to_write = min (b_size buf - w_tx_pos w) mss
          in (case ask_os (sock_send k (c_socket (app self)) (take to_write (drop (w_tx_pos w) (b_data buf)))) self of
                (Inr n, self) \<Rightarrow>
                  let w = w\<lparr>w_tx_pos := w_tx_pos w + n\<rparr>
                  in if w_tx_pos w = b_size buf then worker_done k b w self else (w, self)
              | (Inl NSAPI_ERROR_WOULD_BLOCK, self) \<Rightarrow> (w, self)
              | (Inl _, self) \<Rightarrow> worker_done k b w self))"

text \<open>One turn of the loop, from the semaphore on.\<close>

definition worker_turn ::
    "'k rtos \<Rightarrow> nat \<Rightarrow> http_parser_url \<Rightarrow> worker \<Rightarrow> 'k self \<Rightarrow> (worker \<times> 'k self) option" where
  "worker_turn k mss u0 w self =
     (case dispatch_events k u0 self of
        None \<Rightarrow> None
      | Some self \<Rightarrow>
          (case (if c_state (app self) \<noteq> CLOSED then map_option snd (wic_parse (mbed_host k) self []) else Some self) of
             None \<Rightarrow> None
           | Some self \<Rightarrow>
               let (w, self) = worker_recv k mss w self
               in (case worker_parse k w self of
                     None \<Rightarrow> None
                   | Some (w, self) \<Rightarrow>
                       map_option (\<lambda>(w, self). worker_write k mss w self) (worker_next k w self))))"

section \<open>The callers\<close>

text \<open>A caller posts its job and waits: turns of the worker until the job is done.\<close>

partial_function (option) wait_job ::
    "'k rtos \<Rightarrow> nat \<Rightarrow> http_parser_url \<Rightarrow> worker \<Rightarrow> 'k self \<Rightarrow> (worker \<times> 'k self) option" where
  "wait_job k mss u0 w self =
     (if j_done (c_job (app self)) then Some (w, self)
      else (case worker_turn k mss u0 w self of None \<Rightarrow> None | Some (w, self) \<Rightarrow> wait_job k mss u0 w self))"

definition post_job ::
    "'k rtos \<Rightarrow> nat \<Rightarrow> http_parser_url \<Rightarrow> client_event \<Rightarrow> worker \<Rightarrow> 'k self \<Rightarrow> (worker \<times> 'k self) option" where
  "post_job k mss u0 e w self =
     wait_job k mss u0 w (do_work k (on_os (events_call k e) (on_job (\<lambda>_. no_job) self)))"

text \<open>The string a redirect points to, in the receive buffer of the instance.\<close>

definition redirect_string :: "'k self \<Rightarrow> bytes option" where
  "redirect_string self =
     map_option (\<lambda>off. takeWhile (\<lambda>b. b \<noteq> 0) (drop off (rx_mem self))) (wic_get_redirect_url self)"

text \<open>One request: \<open>False\<close> if the URL does not fit in its buffer.\<close>

definition connect_once ::
    "'k rtos \<Rightarrow> nat \<Rightarrow> http_parser_url \<Rightarrow> bytes \<Rightarrow> worker \<Rightarrow> 'k self \<Rightarrow> (bool \<times> worker \<times> 'k self) option" where
  "connect_once k mss u0 u w self =
     (let self = on_job (\<lambda>_. no_job) self in
      if length u \<ge> b_max (c_url (app self)) then Some (False, w, self)
      else
        let self = on_obj (\<lambda>c. c\<lparr>c_url := (c_url c)
               \<lparr>b_data := u @ [0] @ drop (length u + 1) (b_data (c_url c)), b_size := length u + 1\<rparr>\<rparr>) self
        in map_option (\<lambda>(w, self). (True, w, self)) (post_job k mss u0 Do_open w self))"

text \<open>\<open>n\<close> is how many redirects are still followed.\<close>

fun connect_loop ::
    "'k rtos \<Rightarrow> nat \<Rightarrow> http_parser_url \<Rightarrow> nat \<Rightarrow> bytes \<Rightarrow> worker \<Rightarrow> 'k self \<Rightarrow> (nsapi_error \<times> worker \<times> 'k self) option" where
  "connect_loop k mss u0 n u w self =
     (case connect_once k mss u0 u w self of
        None \<Rightarrow> None
      | Some (False, w, self) \<Rightarrow> Some (NSAPI_ERROR_PARAMETER, w, self)
      | Some (True, w, self) \<Rightarrow>
          (case (n, if j_failure (c_job (app self)) = WIC_HANDSHAKE_FAILURE_UPGRADE then redirect_string self else None) of
             (Suc m, Some v) \<Rightarrow> connect_loop k mss u0 m v w self
           | _ \<Rightarrow> Some (j_retval (c_job (app self)), w, self)))"

declare connect_loop.simps [simp del]

definition max_redirects :: nat where
  "max_redirects = 3"

definition client_connect ::
    "'k rtos \<Rightarrow> nat \<Rightarrow> http_parser_url \<Rightarrow> bytes \<Rightarrow> worker \<Rightarrow> 'k self \<Rightarrow> (nsapi_error \<times> worker \<times> 'k self) option" where
  "client_connect k mss u0 u w self = connect_loop k mss u0 max_redirects u w self"

definition client_close ::
    "'k rtos \<Rightarrow> nat \<Rightarrow> http_parser_url \<Rightarrow> worker \<Rightarrow> 'k self \<Rightarrow> (worker \<times> 'k self) option" where
  "client_close k mss u0 w self = post_job k mss u0 Do_close w self"

text \<open>\<open>send\<close> tries again while there is no buffer.\<close>

partial_function (option) client_send ::
    "'k rtos \<Rightarrow> nat \<Rightarrow> http_parser_url \<Rightarrow> bytes \<Rightarrow> u16 \<Rightarrow> wic_encoding \<Rightarrow> bool \<Rightarrow> worker \<Rightarrow> 'k self \<Rightarrow>
      ((nsapi_error + nat) \<times> worker \<times> 'k self) option" where
  "client_send k mss u0 data n enc fin w self =
     (case post_job k mss u0 (Do_send enc fin data n) w self of
        None \<Rightarrow> None
      | Some (w, self) \<Rightarrow>
          if j_status (c_job (app self)) = WIC_STATUS_WOULD_BLOCK then client_send k mss u0 data n enc fin w self
          else Some (if j_status (c_job (app self)) = WIC_STATUS_SUCCESS then Inr (unat n) else Inl NSAPI_ERROR_PARAMETER,
                     w, self))"

text \<open>A message taken from the queue: its encoding, whether it is final, and as much of it as fits.\<close>

definition try_get ::
    "'k rtos \<Rightarrow> nat \<Rightarrow> 'k self \<Rightarrow> (wic_encoding \<times> bool \<times> bytes) option \<times> 'k self" where
  "try_get k mx self =
     (case ask_os (in_get k) self of
        (None, self) \<Rightarrow> (None, self)
      | (Some i, self) \<Rightarrow>
          let b = c_ins (app self) i;
              retval = (if b_size b > mx then mx else b_size b);
              self = on_os (in_free k i) self
          in (Some (b_encoding b, b_fin b, take retval (b_data b)), do_work k self))"

text \<open>One turn of the loop of \<open>recv\<close>: a message, the end of the waiting (\<open>expired\<close> is what the wait
  for the readers' condition returns), or \<open>None\<close> to go round again.\<close>

definition recv_turn ::
    "'k rtos \<Rightarrow> nat \<Rightarrow> bool \<Rightarrow> 'k self \<Rightarrow> (nsapi_error + wic_encoding \<times> bool \<times> bytes) option \<times> 'k self" where
  "recv_turn k mx expired self =
     (case try_get k mx self of
        (Some m, self) \<Rightarrow> (Some (Inr m), self)
      | (None, self) \<Rightarrow>
          (if c_state (app self) = CLOSED then Some (Inl NSAPI_ERROR_NO_CONNECTION)
           else if expired then
             Some (Inl (if c_state (app self) = OPEN then NSAPI_ERROR_WOULD_BLOCK else NSAPI_ERROR_NO_CONNECTION))
           else None, self))"

definition is_open :: "'k self \<Rightarrow> bool" where
  "is_open self \<longleftrightarrow> c_state (app self) = OPEN"

end
