(* ===== verification/Mbed_Port.thy ===== *)
theory Mbed_Port
  imports Mbed_Client Wic_Accept "HOL-Library.Multiset"
begin

text \<open>
  What the port to mbed OS keeps true. Every output buffer has at most one owner: the library,
  between \<open>on_buffer\<close> and \<open>on_send\<close>, the output queue, or the worker; its flag is set exactly
  while it has one, and the queue never fills up. Messages are read in the order the library
  handed them over.
\<close>

section \<open>Calls on the object\<close>

lemma on_obj_fields [simp]:
  "app (on_obj f self) = f (app self)" "istate (on_obj f self) = istate self" "http (on_obj f self) = http self"
  "role (on_obj f self) = role self" "h_handshake_failure (on_obj f self) = h_handshake_failure self"
  "h_close_transport (on_obj f self) = h_close_transport self" "rx (on_obj f self) = rx self"
  by (simp_all add: on_obj_def)

lemma on_os_fields [simp]:
  "app (on_os f self) = (app self)\<lparr>c_os := f (c_os (app self))\<rparr>" "istate (on_os f self) = istate self"
  "http (on_os f self) = http self" "role (on_os f self) = role self"
  "h_handshake_failure (on_os f self) = h_handshake_failure self" "h_close_transport (on_os f self) = h_close_transport self"
  by (simp_all add: on_os_def)

lemma on_job_fields [simp]:
  "app (on_job f self) = (app self)\<lparr>c_job := f (c_job (app self))\<rparr>" "istate (on_job f self) = istate self"
  "http (on_job f self) = http self"
  by (simp_all add: on_job_def)

lemma ask_os_fields [simp]:
  "app (snd (ask_os f self)) = (app self)\<lparr>c_os := snd (f (c_os (app self)))\<rparr>" "istate (snd (ask_os f self)) = istate self"
  "http (snd (ask_os f self)) = http self" "fst (ask_os f self) = fst (f (c_os (app self)))"
  by (simp_all add: ask_os_def split: prod.split)

section \<open>A job that failed\<close>

text \<open>The job is done with this value, and the instance closed.\<close>

definition refused :: "nsapi_error \<Rightarrow> 'k self \<Rightarrow> bool" where
  "refused e self \<longleftrightarrow>
     istate self = WIC_STATE_CLOSED \<and> j_done (c_job (app self)) \<and> j_retval (c_job (app self)) = e \<and> c_state (app self) \<in> {CLOSING, CLOSED}"

lemma refused_os [simp]: "refused e (on_os f self) \<longleftrightarrow> refused e self"
  by (simp add: refused_def)

lemma refused_ask: "refused e self \<Longrightarrow> ask_os f self = (x, self') \<Longrightarrow> refused e self'"
  using ask_os_fields [of f self] by (auto simp: refused_def)

lemma refused_close: "refused e self \<Longrightarrow> wic_close_with_reason h self code r n = self"
  by (simp add: refused_def wic_close_with_reason_def close_with_reason_def)

lemma refused_parse: "refused e self \<Longrightarrow> wic_parse h self data = Some (length data, self)"
  by (simp add: refused_def wic_parse_def)

lemma refused_obj [simp]: "refused e (on_obj (\<lambda>c. c\<lparr>c_os := x\<rparr>) self) \<longleftrightarrow> refused e self"
  by (simp add: refused_def)

lemma do_close_socket_refused: "refused e self \<Longrightarrow> refused e (do_close_socket k self)"
  by (simp add: do_close_socket_def refused_def)

section \<open>The owners of the output buffers\<close>

definition owned :: "'a option \<Rightarrow> 'a list" where
  "owned x = (case x of None \<Rightarrow> [] | Some b \<Rightarrow> [b])"

lemma owned_simps [simp]: "owned None = []" "owned (Some b) = [b]"
  by (simp_all add: owned_def)

definition queued :: "'a option list \<Rightarrow> 'a list" where
  "queued q = concat (map owned q)"

lemma queued_simps [simp]:
  "queued [] = []" "queued (x # q) = owned x @ queued q" "queued (p @ q) = queued p @ queued q"
  by (simp_all add: queued_def)

text \<open>The masks of the four buffers.\<close>

definition flag_of :: "out_buf \<Rightarrow> u32" where
  "flag_of b = b_mask (OutputQueue 0 b)"

lemma flag_of_simps [simp]:
  "flag_of user_buf = 1" "flag_of close_buf = 2" "flag_of ping_buf = 4" "flag_of pong_buf = 8"
  by (simp_all add: flag_of_def mbed_Buffer_def)

lemma flag_of_neq_0 [simp]: "flag_of b \<noteq> 0"
  by (cases b) simp_all

lemma flag_of_disjoint: "b \<noteq> c \<Longrightarrow> flag_of b AND flag_of c = 0"
  by (cases b; cases c) simp_all

lemma flag_set: "flag_of c AND (x OR flag_of b) \<noteq> 0 \<longleftrightarrow> c = b \<or> flag_of c AND x \<noteq> 0"
  using flag_of_disjoint [of c b] by (cases "c = b") (auto simp: bit.conj_disj_distrib or_eq_0_iff)

lemma flag_clear: "flag_of c AND (x AND NOT (flag_of b)) \<noteq> 0 \<longleftrightarrow> c \<noteq> b \<and> flag_of c AND x \<noteq> 0"
proof (cases "c = b")
  case True
  have "flag_of b AND (x AND NOT (flag_of b)) = 0" by (rule bit_word_eqI) (auto simp: bit_simps)
  with True show ?thesis by simp
next
  case False
  have "flag_of c AND (x AND NOT (flag_of b)) = flag_of c AND x"
  proof (rule bit_word_eqI)
    fix n
    have "\<not> (bit (flag_of c) n \<and> bit (flag_of b) n)"
      using flag_of_disjoint [OF False] by (metis bit_0_eq bit_and_iff bot_apply bot_bool_def)
    then show "bit (flag_of c AND (x AND NOT (flag_of b))) n = bit (flag_of c AND x) n" if "n < LENGTH(32)"
      using that by (auto simp: bit_simps)
  qed
  with False show ?thesis by simp
qed

text \<open>Who holds what, the buffers as the queue was built with, and at most one request to close.\<close>

definition buf_ok :: "nat \<Rightarrow> out_buf \<Rightarrow> mbed_buffer \<Rightarrow> bool" where
  "buf_ok n b buf \<longleftrightarrow>
     b_mask buf = flag_of b \<and> b_max buf = b_max (OutputQueue n b) \<and> length (b_data buf) = b_max buf \<and> b_size buf \<le> b_max buf"

definition bufs_ok :: "nat \<Rightarrow> (out_buf \<Rightarrow> mbed_buffer) \<Rightarrow> bool" where
  "bufs_ok n bufs \<longleftrightarrow> (\<forall>b. buf_ok n b (bufs b))"

definition flags_ok :: "out_buf list \<Rightarrow> u32 \<Rightarrow> bool" where
  "flags_ok xs fl \<longleftrightarrow> distinct xs \<and> (\<forall>b. flag_of b AND fl \<noteq> 0 \<longleftrightarrow> b \<in> set xs)"

definition held :: "os_view \<Rightarrow> worker \<Rightarrow> 'k self \<Rightarrow> out_buf list" where
  "held v w self = owned (c_tx (app self)) @ queued (v_queue v) @ owned (w_tx w)"

definition tx_ok :: "os_view \<Rightarrow> worker \<Rightarrow> 'k self \<Rightarrow> bool" where
  "tx_ok v w self \<longleftrightarrow>
     bufs_ok (c_max (app self)) (c_bufs (app self)) \<and> flags_ok (held v w self) (v_flags v) \<and>
     length (filter (\<lambda>x. x = None) (v_queue v)) \<le> 1"

lemma tx_ok_pos [simp]: "tx_ok v (w\<lparr>w_tx_pos := n\<rparr>) self \<longleftrightarrow> tx_ok v w self"
  by (simp add: tx_ok_def held_def)

lemma bufs_ok_start: "bufs_ok n (OutputQueue n)"
proof -
  have "buf_ok n b (OutputQueue n b)" for b
    by (cases b) (simp_all add: mbed_Buffer_def buf_ok_def)
  then show ?thesis by (simp add: bufs_ok_def)
qed

lemma bufs_ok_write:
  assumes "bufs_ok n bufs" "length data \<le> b_max (bufs b)"
  shows "bufs_ok n (bufs(b := (bufs b)\<lparr>b_data := data @ drop (length data) (b_data (bufs b)), b_size := length data\<rparr>))"
proof -
  have "buf_ok n b (bufs b)" using assms(1) by (simp add: bufs_ok_def)
  then have "buf_ok n b ((bufs b)\<lparr>b_data := data @ drop (length data) (b_data (bufs b)), b_size := length data\<rparr>)"
    using assms(2) by (simp add: buf_ok_def)
  with assms(1) show ?thesis by (simp add: bufs_ok_def)
qed

lemma flags_ok_set:
  assumes "flags_ok xs fl" "flag_of b AND fl = 0"
  shows "flags_ok (b # xs) (fl OR flag_of b)"
  using assms flag_set [of _ fl b] by (auto simp: flags_ok_def)

lemma flags_ok_clear:
  assumes "flags_ok xs fl" "b \<in> set xs"
  shows "flags_ok (remove1 b xs) (fl AND NOT (flag_of b))"
  using assms flag_clear [of _ fl b] by (auto simp: flags_ok_def)

lemma flags_ok_perm: "flags_ok xs fl \<Longrightarrow> mset ys = mset xs \<Longrightarrow> flags_ok ys fl"
  using mset_eq_imp_distinct_iff [of ys xs] mset_eq_setD [of ys xs] by (simp add: flags_ok_def)

text \<open>The four buffers and one request leave room in a queue of five.\<close>

lemma queue_length: "length q = length (queued q) + length (filter (\<lambda>x. x = None) q)"
  by (induction q) (auto simp: owned_def split: option.split)

lemma distinct_bufs: "distinct (xs :: out_buf list) \<Longrightarrow> length xs \<le> 4"
proof -
  assume "distinct xs"
  moreover have "set xs \<subseteq> {user_buf, close_buf, ping_buf, pong_buf}" using out_buf.exhaust by blast
  then have "card (set xs) \<le> card {user_buf, close_buf, ping_buf, pong_buf}" by (intro card_mono) simp_all
  ultimately show ?thesis by (simp add: distinct_card)
qed

lemma tx_ok_room:
  assumes "tx_ok v w self"
  shows "c_tx (app self) \<noteq> None \<Longrightarrow> length (v_queue v) < 5" "None \<notin> set (v_queue v) \<Longrightarrow> length (v_queue v) < 5"
proof -
  have "distinct (held v w self)" using assms by (simp add: tx_ok_def flags_ok_def)
  then have l: "length (held v w self) \<le> 4" by (rule distinct_bufs)
  have n: "None \<notin> set (v_queue v) \<Longrightarrow> filter (\<lambda>x. x = None) (v_queue v) = []" by (intro filter_False) metis
  from l n queue_length [of "v_queue v"] assms
  show "c_tx (app self) \<noteq> None \<Longrightarrow> length (v_queue v) < 5" "None \<notin> set (v_queue v) \<Longrightarrow> length (v_queue v) < 5"
    by (auto simp: held_def tx_ok_def)
qed

context rtos_laws
begin

text \<open>What the port sees of the system under an object.\<close>

abbreviation seen :: "'k self \<Rightarrow> os_view" where
  "seen self \<equiv> view (c_os (app self))"

text \<open>Steps that have nothing to do with the output buffers.\<close>

definition tx_same :: "'k self \<Rightarrow> 'k self \<Rightarrow> bool" where
  "tx_same a b \<longleftrightarrow> c_bufs (app b) = c_bufs (app a) \<and> c_max (app b) = c_max (app a) \<and> c_tx (app b) = c_tx (app a) \<and>
     v_flags (seen b) = v_flags (seen a) \<and> v_queue (seen b) = v_queue (seen a)"

lemma tx_ok_same: "tx_same a b \<Longrightarrow> tx_ok (seen a) w a \<Longrightarrow> tx_ok (seen b) w b"
  by (simp add: tx_ok_def tx_same_def held_def)

lemma tx_same_quiet [simp]:
  "tx_same a (on_os (work_release k) b) \<longleftrightarrow> tx_same a b" "tx_same a (on_os (writers_release k) b) \<longleftrightarrow> tx_same a b"
  "tx_same a (on_os (readers_notify k) b) \<longleftrightarrow> tx_same a b" "tx_same a (on_os (events_cancel k c) b) \<longleftrightarrow> tx_same a b"
  "tx_same a (on_os (sock_close k sk) b) \<longleftrightarrow> tx_same a b" "tx_same a (on_job g b) \<longleftrightarrow> tx_same a b"
  by (simp_all add: tx_same_def quiet_laws)

lemma handle_buffer_ok:
  assumes "tx_ok (seen self) w self" "c_tx (app self) = None" "handle_buffer k self n t = ((m, mx), self')"
  shows "tx_ok (seen self') w self' \<and> mx = c_max (app self) \<and>
    (case m of None \<Rightarrow> c_tx (app self') = None | Some mem \<Rightarrow> c_tx (app self') = Some (type_to_buf t) \<and> n \<le> length mem)"
proof -
  let ?b = "type_to_buf t" and ?fl = "v_flags (seen self)"
  have b: "b_mask (c_bufs (app self) ?b) = flag_of ?b" "length (b_data (c_bufs (app self) ?b)) = b_max (c_bufs (app self) ?b)"
    using assms(1) by (simp_all add: tx_ok_def bufs_ok_def buf_ok_def)
  show ?thesis
  proof (cases "(n = 0 \<or> b_max (c_bufs (app self) ?b) \<ge> n) \<and> flag_of ?b AND ?fl = 0")
    case True
    then have "flags_ok (?b # held (seen self) w self) (?fl OR flag_of ?b)"
      using assms(1) by (intro flags_ok_set) (simp_all add: tx_ok_def)
    then show ?thesis
      using True assms b flags_set_law [of "flag_of ?b" "c_os (app self)"]
      by (auto simp: handle_buffer_def ask_os_def out_alloc_def Let_def flags_get_law tx_ok_def held_def)
  next
    case False
    then show ?thesis
      using assms b
      by (auto simp: handle_buffer_def ask_os_def out_alloc_def Let_def flags_get_law tx_ok_def held_def split: if_splits)
  qed
qed

lemma out_put_ok:
  assumes "length (v_queue (view s)) < 5"
  shows "view (snd (out_put k bufs x s)) = (view s)\<lparr>v_queue := v_queue (view s) @ [x]\<rparr>" "fst (out_put k bufs x s)"
proof -
  have "\<exists>t. out_put k bufs x s = queue_put k x t s" by (auto simp: out_put_def split: option.split)
  then obtain t ok s' where "out_put k bufs x s = (ok, s')" "queue_put k x t s = (ok, s')" by (metis prod.exhaust)
  with queue_put_law [of x t s ok s'] assms
  show "view (snd (out_put k bufs x s)) = (view s)\<lparr>v_queue := v_queue (view s) @ [x]\<rparr>" "fst (out_put k bufs x s)" by auto
qed

lemma handle_send_ok:
  assumes "tx_ok (seen self) w self" "\<And>b. c_tx (app self) = Some b \<Longrightarrow> length d \<le> b_max (c_bufs (app self) b)"
  shows "tx_ok (seen (handle_send k self d t)) w (handle_send k self d t) \<and> c_tx (app (handle_send k self d t)) = None"
proof (cases "c_tx (app self)")
  case None
  with assms(1) show ?thesis by (simp add: handle_send_def)
next
  case (Some b)
  note w = bufs_ok_write [of "c_max (app self)" "c_bufs (app self)" d b, OF _ assms(2) [OF Some]]
  have inv: "bufs_ok (c_max (app self)) (c_bufs (app self))" "flags_ok (held (seen self) w self) (v_flags (seen self))"
    "length (filter (\<lambda>x. x = None) (v_queue (seen self))) \<le> 1" using assms(1) by (simp_all add: tx_ok_def)
  have m: "b_mask (c_bufs (app self) b) = flag_of b" using inv(1) by (simp add: bufs_ok_def buf_ok_def)
  show ?thesis
  proof (cases "d = []")
    case True
    have "flags_ok (remove1 b (held (seen self) w self)) (v_flags (seen self) AND NOT (flag_of b))"
      by (rule flags_ok_clear [OF inv(2)]) (simp add: held_def Some)
    then show ?thesis
      using True Some inv w m by (simp add: handle_send_def Let_def out_free_def tx_ok_def held_def flags_clear_law quiet_laws)
  next
    case False
    have room: "length (v_queue (seen self)) < 5" using tx_ok_room(1) [OF assms(1)] Some by simp
    have "flags_ok (queued (v_queue (seen self) @ [Some b]) @ owned (w_tx w)) (v_flags (seen self))"
      by (rule flags_ok_perm [OF inv(2)]) (simp add: held_def Some)
    then show ?thesis
      using False Some inv w m out_put_ok [OF room]
      by (simp add: handle_send_def Let_def tx_ok_def held_def quiet_laws)
  qed
qed

lemma handle_close_transport_ok:
  assumes "tx_ok (seen self) w self" "None \<notin> set (v_queue (seen self))"
  shows "tx_ok (seen (handle_close_transport k self)) w (handle_close_transport k self)"
proof -
  have room: "length (v_queue (seen self)) < 5" using tx_ok_room(2) [OF assms] .
  have "filter (\<lambda>x. x = None) (v_queue (seen self)) = []" using assms(2) by (intro filter_False) metis
  with out_put_ok [OF room] assms(1) show ?thesis
    by (simp add: handle_close_transport_def tx_ok_def held_def quiet_laws)
qed

lemma out_get_cases:
  assumes "out_get k s = ((x, cl), s')"
  obtains (empty) "v_queue (view s) = []" "x = None" "\<not> cl" "view s' = view s"
  | (request) q where "v_queue (view s) = None # q" "x = None" "cl" "view s' = (view s)\<lparr>v_queue := q\<rparr>"
  | (buffer) b q where "v_queue (view s) = Some b # q" "x = Some b" "\<not> cl" "view s' = (view s)\<lparr>v_queue := q\<rparr>"
proof -
  obtain r s1 where q: "queue_get k s = (r, s1)" by fastforce
  with queue_get_law [OF q] assms show ?thesis
    using that by (cases "v_queue (view s)"; cases r; cases "hd (v_queue (view s))") (auto simp: out_get_def)
qed

text \<open>Giving back what is in the queue, up to a request to close.\<close>

lemma flush_output_ok:
  assumes "bufs_ok (c_max (app self)) (c_bufs (app self))" "flags_ok (queued (v_queue (seen self)) @ xs) (v_flags (seen self))"
    "None \<notin> set (v_queue (seen self))"
  shows "\<exists>self'. flush_output k self = Some self' \<and> v_queue (seen self') = [] \<and> flags_ok xs (v_flags (seen self')) \<and>
    self' = self\<lparr>app := (app self)\<lparr>c_os := c_os (app self')\<rparr>\<rparr>"
  using assms
proof (induction "v_queue (seen self)" arbitrary: self)
  case Nil
  obtain x cl s' where g: "out_get k (c_os (app self)) = ((x, cl), s')" by (metis prod.exhaust)
  show ?case
    using Nil g by (cases rule: out_get_cases [OF g]) (auto simp: flush_output.simps ask_os_def on_obj_def)
next
  case (Cons y q)
  obtain x cl s' where g: "out_get k (c_os (app self)) = ((x, cl), s')" by (metis prod.exhaust)
  show ?case
  proof (cases rule: out_get_cases [OF g, case_names empty request buffer])
    case (buffer b q')
    let ?self = "on_os (out_free k (c_bufs (app self)) (Some b)) (on_obj (\<lambda>c. c\<lparr>c_os := s'\<rparr>) self)"
    have m: "b_mask (c_bufs (app self) b) = flag_of b" using Cons.prems(1) by (simp add: bufs_ok_def buf_ok_def)
    have q: "q' = q" using buffer(1) Cons.hyps(2) by simp
    have v: "seen ?self = (seen self)\<lparr>v_queue := q, v_flags := v_flags (seen self) AND NOT (flag_of b)\<rparr>"
      using buffer(4) m q by (simp add: out_free_def flags_clear_law)
    have "flags_ok (remove1 b (queued (v_queue (seen self)) @ xs)) (v_flags (seen self) AND NOT (flag_of b))"
      by (rule flags_ok_clear [OF Cons.prems(2)]) (simp add: buffer(1))
    then have "flags_ok (queued (v_queue (seen ?self)) @ xs) (v_flags (seen ?self))" using buffer(1) q v by simp
    moreover have "None \<notin> set (v_queue (seen ?self))" "q = v_queue (seen ?self)" using Cons.prems(3) v buffer(1) q by auto
    moreover have "flush_output k self = flush_output k ?self"
      using g buffer(2) by (subst flush_output.simps) (simp add: ask_os_def on_obj_def)
    ultimately show ?thesis
      using Cons.hyps(1) [of ?self] Cons.prems(1) by (auto simp: on_os_def on_obj_def)
  qed (use Cons in auto)
qed

lemma tx_same_refl [simp]: "tx_same a a"
  by (simp add: tx_same_def)

lemma tx_same_obj:
  "c_bufs (f (app b)) = c_bufs (app b) \<Longrightarrow> c_max (f (app b)) = c_max (app b) \<Longrightarrow> c_tx (f (app b)) = c_tx (app b) \<Longrightarrow>
   c_os (f (app b)) = c_os (app b) \<Longrightarrow> tx_same a (on_obj f b) \<longleftrightarrow> tx_same a b"
  by (simp add: tx_same_def)

lemma do_close_socket_same: "tx_same a (do_close_socket k b) \<longleftrightarrow> tx_same a b"
  by (simp add: do_close_socket_def Let_def tx_same_obj)

lemma worker_next_ok:
  assumes "tx_ok (seen self) w self"
  shows "\<exists>w' self'. worker_next k w self = Some (w', self') \<and> tx_ok (seen self') w' self' \<and> (\<forall>e. refused e self \<longrightarrow> refused e self')"
proof (cases "w_tx w")
  case (Some b)
  with assms show ?thesis by (simp add: worker_next_def)
next
  case None
  obtain x cl s' where g: "out_get k (c_os (app self)) = ((x, cl), s')" by (metis prod.exhaust)
  have a: "ask_os (out_get k) self = ((x, cl), on_obj (\<lambda>c. c\<lparr>c_os := s'\<rparr>) self)" by (simp add: ask_os_def g)
  show ?thesis
  proof (cases rule: out_get_cases [OF g, case_names empty request buffer])
    case empty
    with None a assms show ?thesis by (simp add: worker_next_def tx_ok_def held_def)
  next
    case (buffer b q)
    have "flags_ok (owned (c_tx (app self)) @ queued q @ [b]) (v_flags (seen self))"
      using flags_ok_perm [of "held (seen self) w self" "v_flags (seen self)" "owned (c_tx (app self)) @ queued q @ [b]"] assms buffer(1) None
      by (simp add: tx_ok_def held_def)
    with None a assms buffer show ?thesis by (simp add: worker_next_def tx_ok_def held_def)
  next
    case (request q)
    let ?self = "on_obj (\<lambda>c. c\<lparr>c_os := s'\<rparr>) self"
    have "filter (\<lambda>x. x = None) q = []" using assms request(1) by (simp add: tx_ok_def)
    then have n: "None \<notin> set q" by (auto simp: filter_empty_conv)
    have "flags_ok (queued q @ owned (c_tx (app self))) (v_flags (seen self))"
      using flags_ok_perm [of "held (seen self) w self" "v_flags (seen self)" "queued q @ owned (c_tx (app self))"] assms request(1) None
      by (simp add: tx_ok_def held_def)
    then obtain t where t: "flush_output k ?self = Some t" "v_queue (seen t) = []" "flags_ok (owned (c_tx (app self))) (v_flags (seen t))"
      "t = ?self\<lparr>app := (app ?self)\<lparr>c_os := c_os (app t)\<rparr>\<rparr>"
      using flush_output_ok [of ?self "owned (c_tx (app self))"] assms request(4) n by (auto simp: tx_ok_def)
    have r: "refused e self \<longrightarrow> refused e (do_work k (do_close_socket k t))" for e
      using do_close_socket_refused [of e t] by (subst (asm) t(4)) (simp add: refused_def)
    have f: "c_bufs (app t) = c_bufs (app self)" "c_max (app t) = c_max (app self)" "c_tx (app t) = c_tx (app self)"
      by (subst t(4), simp)+
    have "tx_ok (seen t) (w\<lparr>w_tx := None, w_tx_pos := 0\<rparr>) t" using assms t(2,3) f by (simp add: tx_ok_def held_def)
    then have "tx_ok (seen (do_work k (do_close_socket k t))) (w\<lparr>w_tx := None, w_tx_pos := 0\<rparr>) (do_work k (do_close_socket k t))"
      by (rule tx_ok_same [rotated]) (simp add: do_close_socket_same)
    moreover have "worker_next k w self = Some (w\<lparr>w_tx := None, w_tx_pos := 0\<rparr>, do_work k (do_close_socket k t))"
      using None a request(2,3) t(1) by (simp add: worker_next_def)
    ultimately show ?thesis using r by blast
  qed
qed

lemma worker_done_ok:
  assumes "tx_ok (seen self) w self" "w_tx w = Some b" "worker_done k b w self = (w', self')"
  shows "tx_ok (seen self') w' self'"
proof -
  have "b_mask (c_bufs (app self) b) = flag_of b" using assms(1) by (simp add: tx_ok_def bufs_ok_def buf_ok_def)
  moreover have "flags_ok (owned (c_tx (app self)) @ queued (v_queue (seen self))) (v_flags (seen self) AND NOT (flag_of b))"
  proof -
    have f: "flags_ok (held (seen self) w self) (v_flags (seen self))" using assms(1) by (simp add: tx_ok_def)
    have "flags_ok (remove1 b (held (seen self) w self)) (v_flags (seen self) AND NOT (flag_of b))"
      by (rule flags_ok_clear [OF f]) (simp add: held_def assms(2))
    then show ?thesis by (rule flags_ok_perm) (simp add: held_def assms(2))
  qed
  ultimately show ?thesis
    using assms by (auto simp: worker_done_def Let_def tx_ok_def held_def out_free_def flags_clear_law quiet_laws)
qed

lemma worker_write_ok:
  assumes "tx_ok (seen self) w self" "worker_write k mss w self = (w', self')"
  shows "tx_ok (seen self') w' self'"
proof (cases "w_tx w")
  case None
  with assms show ?thesis by (simp add: worker_write_def)
next
  case (Some b)
  let ?d = "take (min (b_size (c_bufs (app self) b) - w_tx_pos w) mss) (drop (w_tx_pos w) (b_data (c_bufs (app self) b)))"
  obtain r s' where r: "sock_send k (c_socket (app self)) ?d (c_os (app self)) = (r, s')" by fastforce
  let ?self = "on_obj (\<lambda>c. c\<lparr>c_os := s'\<rparr>) self"
  have "view s' = seen self" using quiet_laws(13) [of "c_socket (app self)" ?d "c_os (app self)"] r by simp
  then have s: "tx_ok (seen ?self) w ?self" using assms(1) by (simp add: tx_ok_def held_def)
  have e: "w\<lparr>w_tx_pos := w_tx_pos w\<rparr> = w" by simp
  have a: "ask_os (sock_send k (c_socket (app self)) ?d) self = (r, ?self)" by (simp add: ask_os_def r)
  have d: "worker_done k b (w\<lparr>w_tx_pos := n\<rparr>) ?self = (w', self') \<Longrightarrow> ?thesis" for n
    by (rule worker_done_ok [of ?self "w\<lparr>w_tx_pos := n\<rparr>" b]) (simp_all add: Some s [simplified])
  from assms(2) Some a s show ?thesis
    by (auto simp: worker_write_def Let_def split: sum.splits nsapi_error.splits if_splits intro: d d [of "w_tx_pos w", unfolded e])
qed

text \<open>The other handlers, and reading a message, leave the output buffers alone.\<close>

lemma in_alloc_same: "tx_same a (snd (in_alloc_self k b)) \<longleftrightarrow> tx_same a b"
proof -
  obtain r s' where "mail_alloc k (c_os (app b)) = (r, s')" by fastforce
  with mail_alloc_law [OF this] show ?thesis
    by (auto simp: in_alloc_self_def in_alloc_def tx_same_def split: option.splits)
qed

lemma ask_same:
  assumes "\<And>s. v_flags (view (snd (f s))) = v_flags (view s)" "\<And>s. v_queue (view (snd (f s))) = v_queue (view s)"
  shows "tx_same a (snd (ask_os f b)) \<longleftrightarrow> tx_same a b"
  using assms by (simp add: tx_same_def)

lemma in_put_same: "tx_same a (snd (ask_os (in_put k i) b)) \<longleftrightarrow> tx_same a b"
  by (rule ask_same) (metis in_put_def mail_put_law os_view.select_convs os_view.surjective os_view.update_convs(4) prod.collapse)+

lemma handlers_same:
  "tx_same a (handle_open k a)" "tx_same a (handle_handshake_failure k a why)" "tx_same a (handle_close a code reason)"
  by (simp_all add: handle_open_def handle_handshake_failure_def handle_close_def Let_def tx_same_obj)

lemma handle_message_same: "tx_same a (snd (handle_message k a enc fin d))"
proof -
  obtain r b where b: "in_alloc_self k a = (r, b)" by fastforce
  then have "tx_same a b" using in_alloc_same [of a a] by simp
  with b show ?thesis
    by (auto simp: handle_message_def Let_def in_put_same tx_same_obj split: option.split)
qed

lemma try_get_same: "tx_same a (snd (try_get k mx a))"
proof -
  obtain r s' where g: "mail_get k (c_os (app a)) = (r, s')" by fastforce
  with mail_get_law [OF g] show ?thesis
    by (cases "v_mail (seen a)")
      (auto simp: try_get_def ask_os_def in_get_def Let_def in_free_def tx_same_def mail_free_law quiet_laws)
qed

end

text \<open>Everything that happens to the output buffers: the library borrows one and hands it back with at
  most as many bytes as it has, asks once for the transport to be closed; the worker takes one and
  writes it; the rest does not concern them.\<close>

inductive tx_moves :: "'k rtos \<Rightarrow> ('k \<Rightarrow> os_view) \<Rightarrow> nat \<Rightarrow> worker \<times> 'k self \<Rightarrow> worker \<times> 'k self \<Rightarrow> bool" for k view mss where
  borrows: "c_tx (app a) = None \<Longrightarrow> handle_buffer k a n t = (r, b) \<Longrightarrow> tx_moves k view mss (w, a) (w, b)"
| hands_over: "(\<And>x. c_tx (app a) = Some x \<Longrightarrow> length d \<le> b_max (c_bufs (app a) x)) \<Longrightarrow> tx_moves k view mss (w, a) (w, handle_send k a d t)"
| asks_close: "None \<notin> set (v_queue (view (c_os (app a)))) \<Longrightarrow> tx_moves k view mss (w, a) (w, handle_close_transport k a)"
| takes: "worker_next k w a = Some (w', b) \<Longrightarrow> tx_moves k view mss (w, a) (w', b)"
| writes: "worker_write k mss w a = (w', b) \<Longrightarrow> tx_moves k view mss (w, a) (w', b)"
| opens: "tx_moves k view mss (w, a) (w, handle_open k a)"
| fails: "tx_moves k view mss (w, a) (w, handle_handshake_failure k a why)"
| closes: "tx_moves k view mss (w, a) (w, handle_close a code reason)"
| delivers: "tx_moves k view mss (w, a) (w, snd (handle_message k a enc fin d))"
| reads: "tx_moves k view mss (w, a) (w, snd (try_get k mx a))"

inductive_cases tx_movesE: "tx_moves k view mss (w, a) (w', b)"

context rtos_laws
begin

lemma tx_move_ok:
  assumes "tx_moves k view mss (w, a) (w', b)" "tx_ok (seen a) w a"
  shows "tx_ok (seen b) w' b"
  using assms(1)
proof (cases rule: tx_moves.cases)
  case (borrows n t r)
  then show ?thesis using handle_buffer_ok [OF assms(2), of n t] by (metis prod.collapse)
next
  case (hands_over d t)
  then show ?thesis using handle_send_ok [OF assms(2)] by blast
next
  case asks_close
  then show ?thesis using handle_close_transport_ok [OF assms(2)] by blast
next
  case takes
  then show ?thesis using worker_next_ok [OF assms(2)] by auto
next
  case writes
  then show ?thesis using worker_write_ok [OF assms(2)] by blast
qed (use tx_ok_same [OF _ assms(2)] handlers_same handle_message_same try_get_same in blast)+

lemma tx_moves_ok:
  assumes "(tx_moves k view mss)\<^sup>*\<^sup>* x y" "tx_ok (seen (snd x)) (fst x) (snd x)"
  shows "tx_ok (seen (snd y)) (fst y) (snd y)"
  using assms
proof (induction rule: rtranclp_induct)
  case (step y z)
  then show ?case using tx_move_ok [of mss "fst y" "snd y" "fst z" "snd z"] by simp
qed

end

lemma tx_ok_start:
  assumes "c_bufs (app a) = OutputQueue (c_max (app a))" "c_tx (app a) = None" "w_tx w = None" "v_queue v = []" "v_flags v = 0"
  shows "tx_ok v w a"
  using assms bufs_ok_start by (simp add: tx_ok_def held_def flags_ok_def)

section \<open>The messages\<close>

text \<open>The messages posted and not read yet, and that the blocks they are in are in use.\<close>

definition block_message :: "mbed_buffer \<Rightarrow> wic_encoding \<times> bool \<times> bytes" where
  "block_message b = (b_encoding b, b_fin b, take (b_size b) (b_data b))"

definition messages :: "os_view \<Rightarrow> 'k self \<Rightarrow> (wic_encoding \<times> bool \<times> bytes) list" where
  "messages v self = map (\<lambda>i. block_message (c_ins (app self) i)) (v_mail v)"

definition mail_ok :: "nat \<Rightarrow> os_view \<Rightarrow> 'k self \<Rightarrow> bool" where
  "mail_ok n v self \<longleftrightarrow> distinct (v_mail v) \<and> set (v_mail v) \<subseteq> v_used v \<and> (\<forall>i. length (b_data (c_ins (app self) i)) = n)"

definition cut :: "nat \<Rightarrow> wic_encoding \<times> bool \<times> bytes \<Rightarrow> wic_encoding \<times> bool \<times> bytes" where
  "cut mx m = (case m of (enc, fin, d) \<Rightarrow> (enc, fin, take mx d))"

primrec hand_over :: "'k rtos \<Rightarrow> (wic_encoding \<times> bool \<times> bytes) list \<Rightarrow> 'k self \<Rightarrow> bool list \<times> 'k self" where
  "hand_over k [] self = ([], self)"
| "hand_over k (m # ms) self =
     (let (ok, self) = handle_message k self (fst m) (fst (snd m)) (snd (snd m));
          (oks, self) = hand_over k ms self in (ok # oks, self))"

primrec read_all :: "'k rtos \<Rightarrow> nat \<Rightarrow> nat \<Rightarrow> 'k self \<Rightarrow> (wic_encoding \<times> bool \<times> bytes) list \<times> 'k self" where
  "read_all k mx 0 self = ([], self)"
| "read_all k mx (Suc n) self =
     (case try_get k mx self of
        (None, self) \<Rightarrow> ([], self)
      | (Some m, self) \<Rightarrow> (let (ms, self) = read_all k mx n self in (m # ms, self)))"

definition taken_of :: "'a list \<Rightarrow> bool list \<Rightarrow> 'a list" where
  "taken_of ms oks = map fst (filter snd (zip ms oks))"

context rtos_laws
begin

lemma handle_message_ok:
  assumes "mail_ok n (seen self) self" "length d \<le> n" "handle_message k self enc fin d = (ok, self')"
  shows "mail_ok n (seen self') self'" "messages (seen self') self' = messages (seen self) self @ (if ok then [(enc, fin, d)] else [])"
proof -
  obtain r s' where g: "mail_alloc k (c_os (app self)) = (r, s')" by fastforce
  note l = mail_alloc_law [OF g]
  have "mail_ok n (seen self') self' \<and> messages (seen self') self' = messages (seen self) self @ (if ok then [(enc, fin, d)] else [])"
  proof (cases r)
    case None
    with assms g l show ?thesis
      by (auto simp: handle_message_def in_alloc_self_def in_alloc_def quiet_laws mail_ok_def messages_def)
  next
    case (Some i)
    obtain o' s2 where p: "mail_put k i s' = (o', s2)" by fastforce
    note lp = mail_put_law [OF p]
    have i: "i \<notin> set (v_mail (seen self))" "view s2 = (seen self)\<lparr>v_used := insert i (v_used (seen self)), v_mail := v_mail (seen self) @ [i]\<rparr>"
      using l lp Some assms(1) by (auto simp: mail_ok_def)
    let ?b = "snd (buffer_init (place_Buffer (c_ins (app self) i)) d enc fin)"
    have b: "block_message ?b = (enc, fin, d)" "length (b_data ?b) = n"
      using assms(1,2) by (simp_all add: buffer_init_def place_Buffer_def block_message_def mail_ok_def)
    have s: "ok" "seen self' = view s2" "c_ins (app self') = (c_ins (app self))(i := ?b)"
      using assms(3) g Some p
      by (auto simp: handle_message_def in_alloc_self_def in_alloc_def Let_def ask_os_def in_put_def quiet_laws)
    have "map (\<lambda>j. block_message (c_ins (app self') j)) (v_mail (seen self)) = map (\<lambda>j. block_message (c_ins (app self) j)) (v_mail (seen self))"
      using i(1) s(3) by auto
    with s i b assms(1) show ?thesis by (auto simp: mail_ok_def messages_def)
  qed
  then show "mail_ok n (seen self') self'" "messages (seen self') self' = messages (seen self) self @ (if ok then [(enc, fin, d)] else [])"
    by blast+
qed

lemma try_get_ok:
  assumes "mail_ok n (seen self) self" "try_get k mx self = (r, self')"
  shows "mail_ok n (seen self') self'" "r = (case messages (seen self) self of [] \<Rightarrow> None | m # ms \<Rightarrow> Some (cut mx m))"
    "messages (seen self') self' = tl (messages (seen self) self)"
proof -
  obtain g s' where g: "mail_get k (c_os (app self)) = (g, s')" by fastforce
  note l = mail_get_law [OF g]
  have "mail_ok n (seen self') self' \<and> r = (case messages (seen self) self of [] \<Rightarrow> None | m # ms \<Rightarrow> Some (cut mx m)) \<and>
    messages (seen self') self' = tl (messages (seen self) self)"
  proof (cases "v_mail (seen self)")
    case Nil
    with assms g l show ?thesis by (auto simp: try_get_def ask_os_def in_get_def mail_ok_def messages_def)
  next
    case (Cons i js)
    with assms g l show ?thesis
      by (auto simp: try_get_def ask_os_def in_get_def Let_def in_free_def mail_free_law quiet_laws mail_ok_def messages_def
        block_message_def cut_def min_def)
  qed
  then show "mail_ok n (seen self') self'" "r = (case messages (seen self) self of [] \<Rightarrow> None | m # ms \<Rightarrow> Some (cut mx m))"
    "messages (seen self') self' = tl (messages (seen self) self)" by blast+
qed

lemma hand_over_ok:
  assumes "mail_ok n (seen self) self" "list_all (\<lambda>m. length (snd (snd m)) \<le> n) ms" "hand_over k ms self = (oks, self')"
  shows "mail_ok n (seen self') self' \<and> messages (seen self') self' = messages (seen self) self @ taken_of ms oks"
  using assms
proof (induction ms arbitrary: self oks)
  case (Cons m ms)
  obtain ok t oks' where t: "handle_message k self (fst m) (fst (snd m)) (snd (snd m)) = (ok, t)" "hand_over k ms t = (oks', self')"
    "oks = ok # oks'"
    using Cons.prems(3) by (auto simp: Let_def split: prod.splits)
  have "length (snd (snd m)) \<le> n" using Cons.prems(2) by simp
  note h = handle_message_ok [OF Cons.prems(1) this t(1)]
  from Cons.IH [OF h(1) _ t(2)] Cons.prems(2) h(2) t(3) show ?case by (auto simp: taken_of_def)
qed (simp add: taken_of_def)

lemma read_all_ok:
  assumes "mail_ok n (seen self) self" "length (messages (seen self) self) \<le> c"
  shows "fst (read_all k mx c self) = map (cut mx) (messages (seen self) self)"
  using assms
proof (induction c arbitrary: self)
  case (Suc c)
  obtain r t where t: "try_get k mx self = (r, t)" by fastforce
  note g = try_get_ok [OF Suc.prems(1) t]
  have "fst (read_all k mx c t) = map (cut mx) (messages (seen t) t)"
    using Suc.prems(2) g(3) by (intro Suc.IH g(1)) simp
  with g t show ?case by (auto simp: split_beta split: list.split)
qed simp

end

context rtos_laws
begin

lemma tx_ok_ask:
  assumes "tx_ok (seen self) w self" "ask_os f self = (x, self')" "view (snd (f (c_os (app self)))) = seen self"
  shows "tx_ok (seen self') w self'"
  using assms by (auto simp: ask_os_def tx_ok_def held_def split: prod.splits)

lemma worker_recv_refused:
  assumes "refused e self" "tx_ok (seen self) w self" "worker_recv k mss w self = (w', self')"
  shows "refused e self' \<and> tx_ok (seen self') w' self'"
proof -
  obtain w1 s1 where s1: "(if w_rx w = None then let (ok, self) = ask_os (pool_alloc k) self
      in (w\<lparr>w_rx := (if ok then Some [] else None), w_rx_pos := 0\<rparr>, self) else (w, self)) = (w1, s1)" by fastforce
  have rx: "tx_ok v (w\<lparr>w_rx := a\<rparr>) s \<longleftrightarrow> tx_ok v w s" "tx_ok v (w\<lparr>w_rx_pos := n\<rparr>) s \<longleftrightarrow> tx_ok v w s" for v w a n and s :: "'k self"
    by (simp_all add: tx_ok_def held_def)
  have ok1: "refused e s1 \<and> tx_ok (seen s1) w1 s1"
    using s1 assms(1,2) refused_ask [OF assms(1)] tx_ok_ask [of self w "pool_alloc k", OF assms(2) _ quiet_laws(16)]
    by (auto simp: rx split: if_splits prod.splits)
  obtain r s2 where s2: "ask_os (sock_recv k (c_socket (app s1)) mss) s1 = (r, s2)" by fastforce
  have ok2: "refused e s2 \<and> tx_ok (seen s2) w1 s2"
    using ok1 refused_ask [OF _ s2] tx_ok_ask [OF _ s2 quiet_laws(12)] by simp
  have q: "tx_same s2 (on_os (pool_free k) (on_os (work_release k) s2))" by (simp add: tx_same_def quiet_laws)
  have ok3: "refused e (on_os (pool_free k) (do_work k s2)) \<and>
      tx_ok (seen (on_os (pool_free k) (do_work k s2))) (w1\<lparr>w_rx := None\<rparr>) (on_os (pool_free k) (do_work k s2))"
    using ok2 tx_ok_same [OF q] by (simp add: rx)
  have c: "wic_close_with_reason (mbed_host k) s2 WIC_CLOSE_ABNORMAL_2 [] 0 = s2" using refused_close ok2 by blast
  show ?thesis
  proof (cases "w_rx w1 = Some []")
    case False
    then have "worker_recv k mss w self = (w1, s1)" by (simp add: worker_recv_def s1)
    with ok1 assms(3) show ?thesis by simp
  next
    case True
    then have "worker_recv k mss w self = (w1, s2) \<or> (\<exists>d. worker_recv k mss w self = (w1\<lparr>w_rx := d\<rparr>, s2)) \<or>
        worker_recv k mss w self = (w1\<lparr>w_rx := None\<rparr>, on_os (pool_free k) (do_work k s2))"
    proof (cases r)
      case (Inl err)
      with True show ?thesis by (cases err) (auto simp: worker_recv_def s1 s2 c)
    next
      case (Inr d)
      with True show ?thesis by (cases d) (auto simp: worker_recv_def s1 s2 c)
    qed
    then show ?thesis using assms(3) ok2 ok3 rx by auto
  qed
qed

lemma worker_parse_refused:
  assumes "refused e self" "tx_ok (seen self) w self"
  shows "\<exists>w' self'. worker_parse k w self = Some (w', self') \<and> refused e self' \<and> tx_ok (seen self') w' self'"
proof -
  have rx: "tx_ok v (w\<lparr>w_rx := a\<rparr>) s \<longleftrightarrow> tx_ok v w s" "tx_ok v (w\<lparr>w_rx_pos := n\<rparr>) s \<longleftrightarrow> tx_ok v w s" for v w a n and s :: "'k self"
    by (simp_all add: tx_ok_def held_def)
  have q: "tx_same self (on_os (work_release k) (on_os (pool_free k) self))" by (simp add: tx_same_def quiet_laws)
  show ?thesis
    using assms refused_parse [OF assms(1), of "mbed_host k"] tx_ok_same [OF q assms(2)]
    by (auto simp: worker_parse_def Let_def rx split: option.split list.split)
qed

lemma worker_write_refused:
  assumes "refused e self" "worker_write k mss w self = (w', self')"
  shows "refused e self'"
proof (cases "w_tx w")
  case None
  with assms show ?thesis by (simp add: worker_write_def)
next
  case (Some b)
  let ?d = "take (min (b_size (c_bufs (app self) b) - w_tx_pos w) mss) (drop (w_tx_pos w) (b_data (c_bufs (app self) b)))"
  obtain r t where t: "ask_os (sock_send k (c_socket (app self)) ?d) self = (r, t)" by fastforce
  have "refused e t" using refused_ask [OF assms(1) t] .
  moreover have "snd (worker_done k b v t) = on_os (work_release k) (on_os (writers_release k) (on_os (out_free k (c_bufs (app t)) (Some b)) t))" for v
    by (simp add: worker_done_def)
  moreover have "self' = t \<or> (\<exists>v. worker_done k b v t = (w', self'))"
  proof (cases r)
    case (Inl err)
    with assms(2) Some t show ?thesis by (cases err) (auto simp: worker_write_def)
  next
    case (Inr n)
    with assms(2) Some t show ?thesis
      by (auto simp: worker_write_def Let_def split: if_splits)
  qed
  ultimately show ?thesis by (metis refused_os snd_conv)
qed

text \<open>A turn of the worker while part of the response has been parsed.\<close>

lemma split_response_refused:
  assumes "fst (events_due k (c_os (app self))) = None" "tx_ok (seen self) w self" "None \<notin> set (v_queue (seen self))"
    "c_state (app self) = OPENING" "h_close_transport self \<noteq> None" "h_handshake_failure self \<noteq> None"
    "istate self = WIC_STATE_PARSE_HANDSHAKE" "hp_errno (http self) = HPE_OK"
    "hp_state (http self) \<notin> {s_body_identity_eof, s_dead, s_start_req_or_res, s_start_res, s_start_req}"
  shows "\<exists>w' self'. worker_turn k mss u0 w self = Some (w', self') \<and> refused NSAPI_ERROR_UNSUPPORTED self' \<and> tx_ok (seen self') w' self'"
proof -
  let ?h = "mbed_host k"
  obtain s1 where s1: "ask_os (events_due k) self = (None, s1)" using assms(1) by (metis ask_os_fields(4) prod.collapse)
  have dsp: "dispatch_events k u0 self = Some s1" by (simp add: dispatch_events.simps s1)
  have s1_eq: "s1 = on_obj (\<lambda>c. c\<lparr>c_os := c_os (app s1)\<rparr>) self" "view (c_os (app s1)) = seen self"
    using s1 quiet_laws(7) [of "c_os (app self)"] by (auto simp: ask_os_def on_obj_def split: prod.splits)
  have f: "c_state (app s1) = OPENING" "h_close_transport s1 \<noteq> None" "h_handshake_failure s1 \<noteq> None"
    "istate s1 = WIC_STATE_PARSE_HANDSHAKE" "http s1 = http self" "c_bufs (app s1) = c_bufs (app self)"
    "c_max (app s1) = c_max (app self)" "c_tx (app s1) = c_tx (app self)"
    using assms(4-7) by (subst s1_eq(1), simp)+
  have ok1: "tx_ok (seen s1) w s1" "None \<notin> set (v_queue (seen s1))" using assms(2,3) f s1_eq(2) by (simp_all add: tx_ok_def held_def)
  define t where "t = s1\<lparr>http := (http s1)\<lparr>hp_errno := HPE_INVALID_EOF_STATE\<rparr>\<rparr>"
  define u where "u = (handle_handshake_failure k (handle_close_transport k t) WIC_HANDSHAKE_FAILURE_PROTOCOL)\<lparr>istate := WIC_STATE_CLOSED\<rparr>"
  have http: "http (handle_close_transport k t) = http t" by (simp add: handle_close_transport_def)
  have hf: "h_handshake_failure (handle_close_transport k t) = h_handshake_failure s1"
    by (simp add: handle_close_transport_def t_def ask_os_def split: prod.split)
  have p: "wic_parse ?h s1 [] = Some (0, u)"
    using f(2-4) hf http assms(8,9) f(5) eof_execute [of "http s1" "parse_settings (role s1)" "Some s1"]
    by (auto simp: wic_parse_def parse_handshake_def Let_def call_close_transport_def call_handshake_failure_def mbed_host_def
      t_def [symmetric] u_def) (simp_all add: t_def)
  have r: "refused NSAPI_ERROR_UNSUPPORTED u"
    by (simp add: refused_def u_def handle_handshake_failure_def Let_def failure_code_def)
  have "tx_ok (seen t) w t" "None \<notin> set (v_queue (seen t))" using ok1 by (simp_all add: t_def tx_ok_def held_def)
  from handle_close_transport_ok [OF this] have "tx_ok (seen (handle_close_transport k t)) w (handle_close_transport k t)" .
  from tx_ok_same [OF handlers_same(2) this] have tu: "tx_ok (seen u) w u" by (simp add: u_def tx_ok_def held_def)
  obtain w2 s2 where s2: "worker_recv k mss w u = (w2, s2)" by fastforce
  note ok2 = worker_recv_refused [OF r tu s2]
  obtain w3 s3 where s3: "worker_parse k w2 s2 = Some (w3, s3)" "refused NSAPI_ERROR_UNSUPPORTED s3" "tx_ok (seen s3) w3 s3"
    using worker_parse_refused ok2 by blast
  obtain w4 s4 where s4: "worker_next k w3 s3 = Some (w4, s4)" "tx_ok (seen s4) w4 s4" "refused NSAPI_ERROR_UNSUPPORTED s4"
    using worker_next_ok [OF s3(3)] s3(2) by blast
  obtain w5 s5 where s5: "worker_write k mss w4 s4 = (w5, s5)" by fastforce
  have "worker_turn k mss u0 w self = Some (w5, s5)"
    using dsp f(1) p s2 s3(1) s4(1) s5 by (simp add: worker_turn_def)
  with worker_write_refused [OF s4(3) s5] worker_write_ok [OF s4(2) s5] show ?thesis by blast
qed

end

text \<open>A ping needs at least six bytes, and its buffer has two.\<close>

lemma ping_alloc:
  assumes "bufs_ok mx bufs" "2 < n"
  shows "out_alloc k mx bufs WIC_BUFFER_PING n s = ((None, mx), s)"
proof -
  have "b_max (bufs ping_buf) = 2" using assms(1) by (simp add: bufs_ok_def buf_ok_def mbed_Buffer_def)
  with assms(2) show ?thesis by (simp add: out_alloc_def)
qed

lemma ping_never_sent:
  assumes "bufs_ok (c_max (app self)) (c_bufs (app self))" "role self = WIC_ROLE_CLIENT"
  shows "fst (wic_send_ping_with_payload (mbed_host k) self d n) \<noteq> WIC_STATUS_SUCCESS"
proof -
  let ?h = "mbed_host k"
  define a where "a = snd (allowed_to_send self)"
  define f where "f = tx_frame True WIC_OPCODE_PING WIC_BUFFER_PING 0 d n"
  obtain f' b where b: "init_mask ?h a f = (f', b)" by fastforce
  have a: "app a = app self" "role a = WIC_ROLE_CLIENT" using assms(2) by (auto simp: a_def allowed_to_send_def Let_def)
  have bs: "bufs_ok (c_max (app b)) (c_bufs (app b))" "f_type f' = WIC_BUFFER_PING" "f_opcode f' = WIC_OPCODE_PING" "f_masked f'"
    using b a assms(1)
    by (auto simp: init_mask_def mbed_host_def handle_rand_def ask_os_def f_def tx_frame_def split: option.splits prod.splits)
  have "2 < min_frame_size (f_opcode f') (f_masked f') (f_size f')" using bs(4) by (simp add: min_frame_size_def Let_def)
  then have "fst (stream_put_frame ?h b f') \<noteq> WIC_STATUS_SUCCESS"
    using bs(2)
    by (simp add: ping_alloc [OF bs(1)] stream_put_frame_def call_buffer_def mbed_host_def handle_buffer_def ask_os_def Let_def)
  with b show ?thesis
    by (auto simp: wic_send_ping_with_payload_def Let_def a_def [symmetric] f_def [symmetric] split_beta)
qed

section \<open>A client over the simulated system\<close>

definition sim_client :: "client_state \<Rightarrow> os_view client" where
  "sim_client st =
     \<lparr>c_state = st, c_max = 1014, c_bufs = OutputQueue 1014, c_ins = (\<lambda>_. mbed_Buffer 1000 0 0),
      c_url = mbed_Buffer 200 0 0, c_rx = None, c_tx = None, c_socket = Tcp, c_timeout_id = 0, c_job = no_job,
      c_os = \<lparr>v_flags = 0, v_queue = [], v_used = {}, v_mail = []\<rparr>\<rparr>"

definition sim_idle :: "os_view self" where
  "sim_idle = blank_inst (sim_client CLOSED)"

text \<open>The first byte of the response has been parsed.\<close>

definition sim_opening :: "os_view self" where
  "sim_opening = (blank_inst (sim_client OPENING))\<lparr>istate := WIC_STATE_PARSE_HANDSHAKE, h_close_transport := Some 0,
     h_handshake_failure := Some 0, http := (http_parser_init HTTP_RESPONSE)\<lparr>hp_state := s_res_H\<rparr>\<rparr>"

definition no_buffers :: worker where
  "no_buffers = \<lparr>w_rx = None, w_rx_pos = 0, w_tx = None, w_tx_pos = 0\<rparr>"

end
