(* ===== verification/Mbed_Apps.thy ===== *)
theory Mbed_Apps
  imports Mbed_Port Wic_Apps
begin

text \<open>
  The rest of the client of the port to mbed OS: the object its template constructs, \<open>recv\<close> with its
  waiting, and the two example programs (\<open>examples/mbed/ab_client/main.cpp\<close> and
  \<open>examples/mbed/tcp_client/main.cpp\<close>). \<open>None\<close> is a run with no result: the caller waits for ever, or
  writes outside its buffer.
\<close>

section \<open>The object\<close>

text \<open>\<open>Client<RX_MAX, TX_MAX, URL_MAX>\<close> with static storage: the members the constructor does not set are
  zero. The worker starts with no buffers.\<close>

definition new_client :: "nat \<Rightarrow> nat \<Rightarrow> nat \<Rightarrow> 'k \<Rightarrow> 'k self" where
  "new_client rx_max tx_max url_max s =
     blank_inst \<lparr>c_state = CLOSED, c_max = tx_max + 14, c_bufs = OutputQueue (tx_max + 14), c_ins = (\<lambda>_. mbed_Buffer rx_max 0 0),
       c_url = mbed_Buffer url_max 0 0, c_rx = None, c_tx = None, c_socket = Tcp, c_timeout_id = 0, c_job = no_job, c_os = s\<rparr>"

definition new_worker :: worker where
  "new_worker = \<lparr>w_rx = None, w_rx_pos = 0, w_tx = None, w_tx_pos = 0\<rparr>"

section \<open>Receiving\<close>

text \<open>A caller that finds nothing waits for a turn of the worker; \<open>expired\<close> tells which of the waits runs
  into the timeout, none if the caller gave none.\<close>

partial_function (option) client_recv ::
    "'k rtos \<Rightarrow> nat \<Rightarrow> http_parser_url \<Rightarrow> nat \<Rightarrow> (nat \<Rightarrow> bool) \<Rightarrow> nat \<Rightarrow> worker \<Rightarrow> 'k self \<Rightarrow>
      ((nsapi_error + wic_encoding \<times> bool \<times> bytes) \<times> worker \<times> 'k self) option" where
  "client_recv k mss u0 mx expired i w self =
     (case recv_turn k mx False self of
        (Some r, self) \<Rightarrow> Some (r, w, self)
      | (None, self) \<Rightarrow>
          (case worker_turn k mss u0 w self of
             None \<Rightarrow> None
           | Some (w, self) \<Rightarrow>
               if expired i
               then Some (Inl (if is_open self then NSAPI_ERROR_WOULD_BLOCK else NSAPI_ERROR_NO_CONNECTION), w, self)
               else client_recv k mss u0 mx expired (i + 1) w self))"

text \<open>\<open>send\<close> of a string: its length is cut to the 16 bits of the parameter.\<close>

definition client_send_string ::
    "'k rtos \<Rightarrow> nat \<Rightarrow> http_parser_url \<Rightarrow> bytes \<Rightarrow> bool \<Rightarrow> worker \<Rightarrow> 'k self \<Rightarrow> ((nsapi_error + nat) \<times> worker \<times> 'k self) option" where
  "client_send_string k mss u0 s fin w self = client_send k mss u0 s (of_nat (length s)) WIC_ENCODING_UTF8 fin w self"

section \<open>The autobahn client\<close>

definition MBED_BUFFER :: nat where
  "MBED_BUFFER = 1000"

definition url_base :: bytes where
  "url_base = ascii ''ws://192.168.1.108:9001/''"

text \<open>What is received is sent back, until either fails.\<close>

partial_function (option) mbed_echo ::
    "'k rtos \<Rightarrow> nat \<Rightarrow> http_parser_url \<Rightarrow> worker \<Rightarrow> 'k self \<Rightarrow> (worker \<times> 'k self) option" where
  "mbed_echo k mss u0 w self =
     (case client_recv k mss u0 MBED_BUFFER (\<lambda>_. False) 0 w self of
        None \<Rightarrow> None
      | Some (Inl err, w, self) \<Rightarrow> Some (w, self)
      | Some (Inr (enc, fin, d), w, self) \<Rightarrow>
          (case client_send k mss u0 d (of_nat (length d)) enc fin w self of
             None \<Rightarrow> None
           | Some (r, w, self) \<Rightarrow> if r \<noteq> Inr (length d) then Some (w, self) else mbed_echo k mss u0 w self))"

definition mbed_case ::
    "'k rtos \<Rightarrow> nat \<Rightarrow> http_parser_url \<Rightarrow> nat \<Rightarrow> worker \<Rightarrow> 'k self \<Rightarrow> (worker \<times> 'k self) option" where
  "mbed_case k mss u0 tc w self =
     (case client_connect k mss u0 (url_base @ ascii ''runCase?case='' @ decimal_text tc @ ascii ''&agent=mbed'') w self of
        None \<Rightarrow> None
      | Some (NSAPI_ERROR_OK, w, self) \<Rightarrow>
          (case mbed_echo k mss u0 w self of None \<Rightarrow> None | Some (w, self) \<Rightarrow> client_close k mss u0 w self)
      | Some (_, w, self) \<Rightarrow> Some (w, self))"

primrec mbed_cases ::
    "'k rtos \<Rightarrow> nat \<Rightarrow> http_parser_url \<Rightarrow> nat list \<Rightarrow> worker \<Rightarrow> 'k self \<Rightarrow> (worker \<times> 'k self) option" where
  "mbed_cases k mss u0 [] w self = Some (w, self)"
| "mbed_cases k mss u0 (tc # tcs) w self =
     (case mbed_case k mss u0 tc w self of None \<Rightarrow> None | Some (w, self) \<Rightarrow> mbed_cases k mss u0 tcs w self)"

text \<open>The number of cases is terminated in the buffer it was received into.\<close>

definition terminated :: "bytes \<Rightarrow> bytes option" where
  "terminated d = (if length d < MBED_BUFFER then Some ((d @ drop (length d) (replicate MBED_BUFFER 0))[length d := 0]) else None)"

definition mbed_ab_client :: "'k rtos \<Rightarrow> nat \<Rightarrow> http_parser_url \<Rightarrow> worker \<Rightarrow> 'k self \<Rightarrow> (worker \<times> 'k self) option" where
  "mbed_ab_client k mss u0 w self =
     (case client_connect k mss u0 (url_base @ ascii ''getCaseCount?agent=mbed'') w self of
        None \<Rightarrow> None
      | Some (NSAPI_ERROR_OK, w, self) \<Rightarrow>
          (case client_recv k mss u0 MBED_BUFFER (\<lambda>_. False) 0 w self of
             None \<Rightarrow> None
           | Some (Inl _, w, self) \<Rightarrow> client_close k mss u0 w self
           | Some (Inr (_, _, d), w, self) \<Rightarrow>
               (case terminated d of
                  None \<Rightarrow> None
                | Some buffer \<Rightarrow>
                    (case client_close k mss u0 w self of
                       None \<Rightarrow> None
                     | Some (w, self) \<Rightarrow>
                         (case mbed_cases k mss u0 [1..<nat (atoi buffer) + 1] w self of
                            None \<Rightarrow> None
                          | Some (w, self) \<Rightarrow>
                              (case client_connect k mss u0 (url_base @ ascii ''updateReports?agent=mbed'') w self of
                                 None \<Rightarrow> None
                               | Some (_, w, self) \<Rightarrow> client_close k mss u0 w self)))))
      | Some (_, w, self) \<Rightarrow> Some (w, self))"

section \<open>The echo client\<close>

text \<open>The result is what is printed.\<close>

definition mbed_tcp_client ::
    "'k rtos \<Rightarrow> nat \<Rightarrow> http_parser_url \<Rightarrow> worker \<Rightarrow> 'k self \<Rightarrow> (bytes option \<times> worker \<times> 'k self) option" where
  "mbed_tcp_client k mss u0 w self =
     (case client_connect k mss u0 (ascii ''ws://echo.websocket.org/'') w self of
        None \<Rightarrow> None
      | Some (_, w, self) \<Rightarrow>
          (case client_send_string k mss u0 (ascii ''hello world!'') True w self of
             None \<Rightarrow> None
           | Some (_, w, self) \<Rightarrow>
               (case client_recv k mss u0 100 (\<lambda>_. False) 0 w self of
                  None \<Rightarrow> None
                | Some (r, w, self) \<Rightarrow>
                    map_option (Pair (case r of Inr (WIC_ENCODING_UTF8, _, d) \<Rightarrow> Some d | _ \<Rightarrow> None))
                      (client_close k mss u0 w self))))"

section \<open>What \<open>recv\<close> returns\<close>

lemma try_get_bounded: "try_get k mx self = (Some (enc, fin, d), b) \<Longrightarrow> length d \<le> mx"
  by (auto simp: try_get_def Let_def split: option.splits prod.splits if_splits)

text \<open>Never more than the caller's buffer holds; an error is the end of the connection, or the timeout, and a
  caller without a timeout gets no other than the former.\<close>

lemma recv_outcomes:
  assumes "client_recv k mss u0 mx expired i w self = Some (r, w', self')"
  shows "case r of Inr (enc, fin, d) \<Rightarrow> length d \<le> mx
    | Inl e \<Rightarrow> e = NSAPI_ERROR_NO_CONNECTION \<and> \<not> is_open self' \<or>
        e = NSAPI_ERROR_WOULD_BLOCK \<and> is_open self' \<and> (\<exists>j \<ge> i. expired j)"
proof -
  let ?P = "\<lambda>k (mss :: nat) (u0 :: http_parser_url) mx expired i (w :: worker) self (r, w' :: worker, self').
    (case r of Inr (enc, fin, d) \<Rightarrow> length d \<le> mx
    | Inl e \<Rightarrow> e = NSAPI_ERROR_NO_CONNECTION \<and> \<not> is_open self' \<or>
        e = NSAPI_ERROR_WOULD_BLOCK \<and> is_open self' \<and> (\<exists>j \<ge> i. expired j))"
  have "?P k mss u0 mx expired i w self (r, w', self')"
  proof (rule client_recv.raw_induct [of ?P, OF _ assms])
    fix f k mss u0 mx i w and expired :: "nat \<Rightarrow> bool" and self :: "'a self" and res
    assume IH: "\<And>k mss u0 mx expired i w self res. f k mss u0 mx expired i w self = Some res \<Longrightarrow> ?P k mss u0 mx expired i w self res"
      and run: "(case recv_turn k mx False self of (None, self) \<Rightarrow>
          (case worker_turn k mss u0 w self of None \<Rightarrow> None
          | Some (w, self) \<Rightarrow> if expired i
              then Some (Inl (if is_open self then NSAPI_ERROR_WOULD_BLOCK else NSAPI_ERROR_NO_CONNECTION), w, self)
              else f k mss u0 mx expired (i + 1) w self)
        | (Some r, self) \<Rightarrow> Some (r, w, self)) = Some res"
    obtain q a where t: "recv_turn k mx False self = (q, a)" by fastforce
    show "?P k mss u0 mx expired i w self res"
    proof (cases q)
      case (Some x)
      then show ?thesis
        using run t try_get_bounded
        by (auto simp: recv_turn_def is_open_def split: prod.splits option.splits if_splits)
    next
      case None
      then obtain w2 b where w: "worker_turn k mss u0 w a = Some (w2, b)" using run t by (auto split: option.splits)
      show ?thesis
      proof (cases "expired i")
        case True
        with run t None w show ?thesis by (auto split: if_splits)
      next
        case False
        with run t None w have "?P k mss u0 mx expired (i + 1) w2 b res" by (intro IH) simp
        then show ?thesis by (auto split: sum.splits) (metis Suc_leD)+
      qed
    qed
  qed
  then show ?thesis by simp
qed

end
