(* ===== verification/Spec2Isabelle.thy ===== *)
theory Spec2Isabelle
  imports Wic_Request Wic_Ended Mbed_Apps
begin

text \<open>
  WIC, a websocket client library in C (\<open>src/wic.c\<close>, \<open>include/wic.h\<close>), with the HTTP parser it
  contains (\<open>src/http_parser.c\<close>, \<open>include/http_parser.h\<close>), the example programs that run it
  over a socket (\<open>examples\<close>), and its port to mbed OS (\<open>port/mbed\<close>), a C++ class with a worker
  thread around it.

  \<^bold>\<open>The program and its model.\<close> An application fills in a \<open>wic_init_arg\<close> and calls \<open>wic_init\<close>,
  then \<open>wic_start\<close>, which writes the upgrade request through the handlers \<open>on_buffer\<close> and
  \<open>on_send\<close>. Every byte that arrives goes through \<open>wic_parse\<close>: until the handshake is over it feeds
  the HTTP parser, whose callbacks keep the headers in the receive buffer and judge the response;
  then it is the websocket receiver, which calls \<open>on_message\<close>, \<open>on_close\<close> and the rest.
  \<open>wic_send*\<close> and \<open>wic_close*\<close> write frames. The state is one \<open>struct wic_inst\<close>, here the
  record \<open>wic_inst\<close> with the application's own state as its parameter; every function that takes
  the instance returns the instance it leaves. The handlers are a record \<open>host\<close> of functions, an
  argument of every definition that calls one: a handler gets the instance and returns it, so it
  may call back into the library. What the library asks of them is the locale \<open>link\<close> (buffers and
  sending) with \<open>app_contract\<close> (all handlers) and \<open>accepting_app\<close> (handlers that take every
  message and always have a buffer) built on it; \<open>Wic_Demo\<close> interprets them on the handlers of the
  example applications, over any operating system whose sockets meet \<open>socket\<close>.

  \<^bold>\<open>Integers, memory, loops.\<close> Machine integers are words of their width wherever the code does
  arithmetic on them; \<open>size_t\<close> is \<open>nat\<close>. A buffer is the list of its bytes; a function that could
  read outside one, fail an assertion or run forever has an option result, \<open>None\<close> being such a
  run. The loops that may not end are partial functions; no fuel is used anywhere. That the loop of
  the HTTP parser (\<open>http_loop\<close>) and, given a receive buffer, that of the receiver (\<open>ws_loop\<close>) end
  is proved (\<open>http_parser_total\<close>, \<open>receive_terminates\<close>, \<open>parse_returns\<close>). The loops that
  wait for a peer, a worker or the system end or not with these; that of the example clients does
  over any peer that has only so much to send (\<open>client_loop_ends\<close>). All other recursion is structural or has a measure.

  \<^bold>\<open>The theories.\<close>
  \<^item> \<open>Wic_Prelude\<close>: names for the integer types, byte strings, shared lemmas.
  \<^item> \<open>Wic_Stream\<close>, \<open>Wic_Utf8\<close>, \<open>Wic_Base64\<close>, \<open>Wic_Sha1\<close>: the static \<open>stream_*\<close>, \<open>utf8_*\<close>,
    \<open>b64_*\<close> and \<open>sha1_*\<close> functions and \<open>server_hash\<close>, with proofs against the definition of
    UTF-8, RFC 4648 (with the decoder as inverse) and FIPS 180.
  \<^item> \<open>Http_Types\<close>, \<open>Http_Chars\<close>, \<open>Http_Parser\<close>: \<open>http_parser_execute\<close> state by state in strict
    mode, its macros as functions on a run (\<open>http_run\<close>) with an explicit flow of control.
    \<open>Http_Safety\<close>: it always returns, no assertion fails, nothing is read outside the data.
    \<open>Http_Keeps\<close>: what the callbacks keep true holds after a call. \<open>Http_Names\<close>: the tables of
    method, status and error names.
  \<^item> \<open>Http_Url\<close>, \<open>Http_Url_Text\<close>: \<open>http_parser_parse_url\<close>, its bounds, and what it finds in the
    text of a well-formed URL.
  \<^item> \<open>Wic_Types\<close>: enumerations, frames, the instance, the handlers. \<open>Wic_Frame\<close>: \<open>stream_put_frame\<close>
    and that it writes the frame of RFC 6455. \<open>Wic_Send\<close>: every send and close operation, the
    locales of the handlers. \<open>Wic_Session\<close>: the rules for sequences of frames, and that
    any calls keep to them.
  \<^item> \<open>Wic_Receive\<close>: the receive state machine (\<open>parse_opcode\<close> to \<open>parse_data\<close>, the loop of
    \<open>wic_parse\<close>). \<open>Wic_Reception\<close>: its invariant \<open>rx_ok\<close>. \<open>Wic_Chunks\<close>: input in pieces.
    \<open>Wic_Progress\<close>: when it stops. \<open>Wic_Delivery\<close>: what it makes of each kind of frame.
  \<^item> \<open>Wic_Headers\<close>: the header callbacks and lookups. \<open>Wic_Handshake\<close>: \<open>wic_init\<close>, \<open>wic_start\<close>,
    \<open>wic_parse\<close>, the getters and the callbacks that judge a message. \<open>Wic_Opening\<close>: the texts sent
    and the conditions judged. \<open>Wic_Opened\<close>: a client opens for an answer to its own nonce only.
    \<open>Wic_Accept\<close>: a well-formed response from its bytes to the open connection. \<open>Wic_Request\<close>:
    the same for a request, at a server whose open handler is that of \<open>examples/autobahn/server.c\<close>.
    \<open>Wic_Instance\<close>: the invariant \<open>inst_ok\<close> of the whole instance under every call.
    \<open>Wic_Kept\<close>: the locale \<open>kept_inst\<close>, an invariant of the application's own that \<open>wic_parse\<close> keeps.
  \<^item> \<open>Wic_Demo\<close>, \<open>Wic_Client_Demo\<close>: the transport and the handlers of the examples, and the concrete
    instances the witnesses use. \<open>Wic_Apps\<close>: opening a socket, and the main functions of
    \<open>examples/demo_client\<close> and \<open>examples/autobahn/client.c\<close>. \<open>Wic_Released\<close>: \<open>kept_inst\<close> on these
    handlers with the invariant \<open>shut\<close> (closed means that the socket is given back), and the greeting. \<open>Wic_Ended\<close>: the locales
    \<open>finite_peer\<close> and \<open>uses_up\<close>, and that the loop of a client ends.
  \<^item> \<open>Mbed_Queues\<close>: the buffers and queues of the port to mbed OS over a record \<open>rtos\<close> of the
    system's operations; \<open>rtos_laws\<close> states what they are relied on to do, and \<open>sim_rtos\<close> is one
    system that does it. \<open>Mbed_Client\<close>: the handlers the port gives the library (\<open>mbed_host\<close>), the
    jobs, one turn of the worker's loop, and the calls of the public interface, whose waiting for
    the worker is turns of it. \<open>Mbed_Port\<close>: who owns which output buffer, and the messages. \<open>Mbed_Apps\<close>: the object the template
    constructs, \<open>recv\<close> with its waiting, and the two programs of \<open>examples/mbed\<close>.

  \<^bold>\<open>What is shown.\<close> Sending: any sequence of calls writes a legal sequence of frames that carries
  the accepted data, byte for byte, and every outcome of a text send and of a close is
  characterised. Receiving: the loop ends (and does not with an empty buffer), keeps the
  invariant, does not depend on how the input is cut, delivers what was sent, answers pings and
  closes, rejects text that is not UTF-8. Handshake: the request and response texts, the set-up
  for a URL, when a message is taken, from \<open>wic_init\<close> to the open connection, and that
  nothing but the right digest opens a client; two instances of the library, a client and a server,
  open a connection with each other. The examples: the demo client sends its request and, once
  open, its greeting, no run of a client ends with its socket held, and the loop of a client does end. The port: each output buffer has one owner at a
  time and the queue never overflows, messages are read as they were accepted, a response in
  pieces is refused, a ping is never sent. Below them: UTF-8, base64, SHA-1, URLs, headers and
  the HTTP parser.

  \<^bold>\<open>Bounds.\<close> Statements about a URL assume it shorter than 65536 bytes, the range of its 16-bit
  offsets; about a response, shorter than \<open>max_header_size\<close>, the parser's own limit; about stored
  headers, room for them in the receive buffer. A payload is at most 65535 bytes to send, the range
  of the size argument, and any 64-bit size to receive.

  \<^bold>\<open>Not modelled.\<close> The logging macros and what the programs print; the setter of the HTTP parser's
  header limit, which nothing calls; \<open>sha1_free\<close>, which only wipes memory; the calls of the operating
  system, which are parameters (\<open>os\<close>, \<open>inet\<close>, \<open>rtos\<close>); the autobahn server but for its open handler,
  as it is written for an earlier interface and cannot be compiled against this one. The server role is
  modelled (\<open>start_server\<close>, \<open>on_request_complete\<close>) though \<open>wic_init\<close> refuses it: what is shown of it holds of an
  instance put into that role by other means. Of the port: preemption between the statements of a
  caller and of the worker, the mutexes and condition variables that order them, what the constructor
  asks of the system and the setters of certificates, all of them calls of an operating system outside
  this repository. With these the whole of the program's own code is covered.
\<close>

section \<open>The sending side\<close>



text \<open>
  C2. What a text a client sends arrives as: the call succeeds, and the bytes it puts on the wire
  take another instance, between frames and with room for the text, through exactly one call
  of its message handler with that text, back to between frames.
\<close>

theorem text_roundtrip:
  assumes snd: "link h wire" "role a = WIC_ROLE_CLIENT" "can_send a" "frag a = WIC_OPCODE_CONTINUE"
      "unat n \<le> length d" "utf8_valid (span d n)" "lends h (frame_len (span d n))"
    and rcv: "accepting_app g wire'" "ready b" "rx_frag (rx b) = WIC_OPCODE_CONTINUE" "unat n \<le> st_size (rx_s (rx b))"
  shows "\<exists>a' w m. wic_send_text h a True d n = (WIC_STATUS_SUCCESS, a') \<and> wire (app a') = wire (app a) @ w \<and>
    reaches g b w (frame_done WIC_OPCODE_CONTINUE
      (snd (call_message g (received b True WIC_OPCODE_TEXT (Some m) (span d n)) WIC_ENCODING_UTF8 True (span d n))))"
proof -
  let ?p = "span d n"
  have v: "utf8_is_complete (utf8_parse_string 0 ?p)" using snd(6) by (simp add: utf8_complete_iff_valid)
  obtain st a' where st: "wic_send_text h a True d n = (st, a')" by fastforce
  have "send_outcome h wire a st a' True WIC_OPCODE_TEXT ?p WIC_OPCODE_CONTINUE (utf8_parse_string 0 ?p)"
    using link.send_text_client [OF snd(1,2,5), of True] st snd(3,4) v
    by (auto simp: utf8_is_complete_def utf8_is_invalid_def)
  then have "st = WIC_STATUS_SUCCESS" "sent_one wire a a' True WIC_OPCODE_TEXT ?p"
    using snd(7) by (simp_all add: send_outcome_def)
  then obtain m where m: "length m = 4" "wire (app a') = wire (app a) @ rfc_frame True WIC_OPCODE_TEXT (Some m) ?p"
    by (auto simp: sent_one_def)
  have "app_contract g wire'" using rcv(1) by (simp add: accepting_app_def)
  moreover have "header_ok (rx b) True WIC_OPCODE_TEXT (Some m) (length ?p)"
    using rcv snd(5) m u16_less_65536 [of n] by (simp add: header_ok_def opcode_allowed_def control_def del: u16_less_65536)
  moreover have "call_message g (received b True WIC_OPCODE_TEXT (Some m) ?p) WIC_ENCODING_UTF8 True ?p =
      (True, snd (call_message g (received b True WIC_OPCODE_TEXT (Some m) ?p) WIC_ENCODING_UTF8 True ?p))"
    using accepting_app.call_accepts [OF rcv(1)] by (metis prod.collapse)
  ultimately have "reaches g b (rfc_frame True WIC_OPCODE_TEXT (Some m) ?p) (frame_done WIC_OPCODE_CONTINUE
      (snd (call_message g (received b True WIC_OPCODE_TEXT (Some m) ?p) WIC_ENCODING_UTF8 True ?p)))"
    using app_contract.deliver_text [of g wire' b True WIC_OPCODE_TEXT "Some m" ?p "utf8_parse_string 0 ?p"] rcv snd(5) v by simp
  with st m \<open>st = WIC_STATUS_SUCCESS\<close> show ?thesis by blast
qed

theorem text_roundtrip_witness:
  "\<exists>a' w b'. wic_send_text (demo_host loop_os 1000) (demo_inst 16) True [72, 105] 2 = (WIC_STATUS_SUCCESS, a') \<and>
    net (app a') = w \<and> reaches (demo_host loop_os 65635) (demo_inst 16) w b'"
proof -
  have u: "utf8_is_complete (utf8_parse_string 0 [72, 105])" by code_simp
  then have u: "utf8_valid (span [72, 105] 2)" by (simp add: span_def utf8_complete_iff_valid)
  have "lends (demo_host loop_os 1000) (frame_len (span [72, 105] 2))"
    by (rule demo_lends) (simp add: span_def frame_len_def)
  from text_roundtrip [OF loop_link [of 1000] _ _ _ _ u this loop_accepting, of "demo_inst 16" "demo_inst 16"]
    demo_inst_ready [of 16] show ?thesis by (fastforce simp: can_send_def)
qed

text \<open>
  C3. A client's text call, branch by branch: not open, another kind of message in progress, not
  UTF-8 (for a fragment: cannot become UTF-8; for the last one: is not), and otherwise sent as one
  frame or, when the application lends no buffer, not at all and with the fragmentation state as
  it was.
\<close>

theorem send_text_outcomes:
  assumes "link h wire" "role self = WIC_ROLE_CLIENT" "unat n \<le> length data"
    and "wic_send_text h self fin data n = (st, self')"
    and "u = utf8_parse_string (if frag self = WIC_OPCODE_CONTINUE then 0 else utf8_tx self) (span data n)"
  shows "if istate self \<noteq> WIC_STATE_OPEN \<and> istate self \<noteq> WIC_STATE_READY
    then st = WIC_STATUS_NOT_OPEN \<and> self' = self
    else if frag self \<noteq> WIC_OPCODE_CONTINUE \<and> frag self \<noteq> WIC_OPCODE_TEXT
    then st = WIC_STATUS_BAD_STATE \<and> self' = self\<lparr>istate := WIC_STATE_OPEN\<rparr>
    else if utf8_is_invalid u \<or> fin \<and> \<not> utf8_is_complete u
    then st = WIC_STATUS_BAD_INPUT \<and> self' = self\<lparr>istate := WIC_STATE_OPEN\<rparr>
    else send_outcome h wire self st self' fin
      (if frag self = WIC_OPCODE_TEXT then WIC_OPCODE_CONTINUE else WIC_OPCODE_TEXT)
      (span data n) (if fin then WIC_OPCODE_CONTINUE else WIC_OPCODE_TEXT) u"
  using link.send_text_client [OF assms(1-3), of fin] assms(4,5) unfolding can_send_def by auto

theorem send_text_outcomes_witness:
  "fst (wic_send_text (demo_host loop_os 1000) (demo_inst 16) True [255] 1) = WIC_STATUS_BAD_INPUT"
proof -
  have u: "utf8_parse_string 0 [255] = 1" by code_simp
  show ?thesis
    using send_text_outcomes [OF loop_link [of 1000], of "demo_inst 16" 1 "[255]" True
        "fst (wic_send_text (demo_host loop_os 1000) (demo_inst 16) True [255] 1)"
        "snd (wic_send_text (demo_host loop_os 1000) (demo_inst 16) True [255] 1)" 1] u
    by (simp add: span_def utf8_is_invalid_def utf8_is_complete_def)
qed

text \<open>
  C4. The frame writer. With a buffer large enough it succeeds, and the stream then holds byte for
  byte the masked frame of RFC 6455 with that opcode and payload; otherwise it reports whether
  the buffer is too small for good or only missing now.
\<close>

theorem put_frame_exact:
  assumes "tx_frame_ok f"
    and "call_buffer h self (min_frame_size (f_opcode f) (f_masked f) (f_size f)) (f_type f) = ((b, mx), self')"
    and "stream_put_frame h self f = (st, tx, self'')"
  shows "self'' = self' \<and>
    st = (if mx < frame_len (tx_payload f) then WIC_STATUS_TOO_LARGE
          else if b = None then WIC_STATUS_WOULD_BLOCK else WIC_STATUS_SUCCESS) \<and>
    (st = WIC_STATUS_SUCCESS \<longrightarrow>
       st_data tx = rfc_frame (f_fin f) (f_opcode f) (Some (f_mask f)) (tx_payload f) \<and>
       length (st_data tx) = frame_len (tx_payload f))"
proof -
  have "length (rfc_frame (f_fin f) (f_opcode f) (Some (f_mask f)) (tx_payload f)) = frame_len (tx_payload f)"
    using assms(1) min_frame_size_exact min_frame_size_len by metis
  with stream_put_frame_ok [OF assms] min_frame_size_len [OF assms(1)] show ?thesis by simp
qed

theorem put_frame_exact_witness:
  "let f = (tx_frame True WIC_OPCODE_PING WIC_BUFFER_PING 0 [7] 1)\<lparr>f_masked := True, f_mask := [1, 2, 3, 4]\<rparr>
   in fst (stream_put_frame (demo_host loop_os 1000) (demo_inst 16) f) = WIC_STATUS_SUCCESS"
proof -
  define f where "f = (tx_frame True WIC_OPCODE_PING WIC_BUFFER_PING 0 [7] 1)\<lparr>f_masked := True, f_mask := [1, 2, 3, 4]\<rparr>"
  have ok: "tx_frame_ok f" by (simp add: f_def tx_frame_def tx_frame_ok_def tx_data_ok_def tx_payload_def)
  have b: "call_buffer (demo_host loop_os 1000) (demo_inst 16) (min_frame_size (f_opcode f) (f_masked f) (f_size f)) (f_type f) =
      ((Some (replicate 1000 0), 1000), demo_inst 16)"
    by (simp add: f_def tx_frame_def call_buffer_def demo_host_def demo_link_def demo_on_buffer_def min_frame_size_def)
  have l: "frame_len (tx_payload f) \<le> 1000" by (simp add: f_def tx_frame_def tx_payload_def frame_len_def span_def)
  show ?thesis
    using put_frame_exact [OF ok b, of "fst (stream_put_frame (demo_host loop_os 1000) (demo_inst 16) f)"
        "fst (snd (stream_put_frame (demo_host loop_os 1000) (demo_inst 16) f))"
        "snd (snd (stream_put_frame (demo_host loop_os 1000) (demo_inst 16) f))"] l
    by (simp add: f_def [symmetric] Let_def)
qed



section \<open>The receiving side\<close>

text \<open>
  C6. The receiving loop comes to an end on every input, given a receive buffer with any room at all.
\<close>

theorem receive_terminates:
  assumes "app_contract h wire" "0 < st_size (rx_s (rx self))"
  shows "\<exists>self' s'. ws_loop h self s = Some (self', s')"
  by (rule app_contract.ws_loop_ends [OF assms])

theorem receive_terminates_witness:
  "\<exists>self' s'. ws_loop (demo_host loop_os 1000) (demo_inst 16) (stream_init_ro [1, 2, 3] 3) = Some (self', s')"
  using receive_terminates [OF loop_contract [of 1000], of "demo_inst 16" "stream_init_ro [1, 2, 3] 3"] by simp

text \<open>
  C7. With a receive buffer of size zero and a data frame to store in it the loop does not end (the
  default message handler accepts empty fragments for ever).
\<close>

theorem receive_hangs_without_room:
  assumes "rx_state (rx self) = WIC_RX_STATE_DATA" "0 < rx_size (rx self)" "st_size (rx_s (rx self)) = 0"
    "st_pos (rx_s (rx self)) = 0" "istate self = WIC_STATE_OPEN" "h_message self = Default_message"
  shows "ws_loop h self s = None"
  using assms by (intro no_room_hangs) (simp add: no_room_def)

theorem receive_hangs_without_room_witness:
  "ws_loop (demo_host loop_os 1000) ((demo_inst 0)\<lparr>h_message := Default_message,
     rx := (demo_rx 0)\<lparr>rx_state := WIC_RX_STATE_DATA, rx_opcode := WIC_OPCODE_BINARY, rx_size := 1\<rparr>\<rparr>) (stream_init_ro [1] 1) = None"
  by (rule receive_hangs_without_room) simp_all

text \<open>
  C8. What the loop keeps true on every input: the receive cursor stays in the buffer, the key and the
  checker's state in their tables, the frame being received is one the rules allow, and a control
  frame fits the buffer with its close code inside what was received.
\<close>

theorem receive_keeps_state:
  assumes "app_contract h wire" "rx_ok self" "ws_loop h self s = Some (self', s')"
  shows "rx_ok self'"
  by (rule app_contract.ws_loop_ok [OF assms(1,3,2)])

theorem receive_keeps_state_witness:
  "\<exists>self' s'. ws_loop (demo_host loop_os 1000) (demo_inst 16) (stream_init_ro [138, 0] 2) = Some (self', s') \<and> rx_ok self'"
proof -
  obtain self' s' where r: "ws_loop (demo_host loop_os 1000) (demo_inst 16) (stream_init_ro [138, 0] 2) = Some (self', s')"
    using app_contract.ws_loop_ends [OF loop_contract [of 1000], of "demo_inst 16" "stream_init_ro [138, 0] 2"] by auto
  have "rx_ok (demo_inst 16)" using demo_inst_ready [of 16] by (simp add: ready_def)
  from receive_keeps_state [OF loop_contract this r] r show ?thesis by blast
qed

text \<open>
  C9. Where the network cuts the input does not matter: reading the first part, and then the second with
  the instance the first left, ends in the same instance and with the same rest as reading both
  at once, as long as the first part did not close it and was not refused by the application.
\<close>

theorem receive_in_pieces:
  assumes "app_contract h wire" "length (xs @ ys) < 2 ^ 32"
    "ws_loop h self (stream_init_ro xs (length xs)) = Some (self1, s1)" "st_error s1" "istate self1 = WIC_STATE_OPEN"
    "ws_loop h self1 (stream_init_ro ys (length ys)) = Some (self2, s2)"
  shows "\<exists>s3. ws_loop h self (stream_init_ro (xs @ ys) (length (xs @ ys))) = Some (self2, s3) \<and>
    st_rest s3 = st_rest s2 \<and> st_error s3 = st_error s2"
  using app_contract.ws_loop_split [OF assms] by (auto simp: alike_def)

theorem receive_in_pieces_witness:
  "\<exists>t s1 u s2 s3. ws_loop (demo_host loop_os 1000) (demo_inst 16) (stream_init_ro [129, 2] 2) = Some (t, s1) \<and>
    ws_loop (demo_host loop_os 1000) t (stream_init_ro [72, 105] 2) = Some (u, s2) \<and>
    ws_loop (demo_host loop_os 1000) (demo_inst 16) (stream_init_ro [129, 2, 72, 105] 4) = Some (u, s3)"
proof -
  obtain t s1 where t: "ws_loop (demo_host loop_os 1000) (demo_inst 16) (stream_init_ro [129, 2] 2) = Some (t, s1)"
    "st_error s1" "istate t = WIC_STATE_OPEN" "st_size (rx_s (rx t)) = 16"
    using demo_header [of 2 1000] by auto
  then obtain u s2 where u: "ws_loop (demo_host loop_os 1000) t (stream_init_ro [72, 105] 2) = Some (u, s2)"
    using app_contract.ws_loop_ends [OF loop_contract, of t] by fastforce
  have l: "length [129, 2 :: u8] = 2" "length [72, 105 :: u8] = 2" "length [129, 2, 72, 105 :: u8] = 4" by simp_all
  have "(4 :: nat) < 2 ^ 32" by simp
  with receive_in_pieces [OF loop_contract [of 1000], of "[129, 2]" "[72, 105]" "demo_inst 16" t s1 u s2] t u
  show ?thesis unfolding append_Cons append_Nil l by blast
qed

text \<open>
  C10. An application that accepts its messages and has a buffer for a control frame never leaves input
  behind: when the loop ends with the instance still open, it has read everything.
\<close>

theorem receive_reads_all:
  assumes "accepting_app h wire" "rx_ok self" "role self = WIC_ROLE_CLIENT"
    "ws_loop h self s = Some (self', s')" "istate self' = WIC_STATE_OPEN" "reader s bs"
  shows "st_rest s' = [] \<and> stream_pos s' = st_size s'"
proof -
  have c: "app_contract h wire" using assms(1) by (simp add: accepting_app_def)
  have e: "st_error s'" by (rule accepting_app.ws_loop_starved(1) [OF assms(1,4,2,3,5)])
  from app_contract.ws_loop_alike [OF c assms(4,6,6)] have "reader_ok s'" by (auto simp: alike_def)
  moreover have "st_rest s' = []" by (rule app_contract.ws_loop_rest [OF c assms(4,6) e])
  ultimately show ?thesis by (auto simp: st_rest_def reader_ok_def stream_pos_def)
qed

theorem receive_reads_all_witness:
  "\<exists>t s'. ws_loop (demo_host loop_os 65635) (demo_inst 16) (stream_init_ro [129, 2] 2) = Some (t, s') \<and> st_rest s' = []"
proof -
  have r: "rx_ok (demo_inst 16)" using demo_inst_ready [of 16] by (simp add: ready_def)
  obtain t s' where t: "ws_loop (demo_host loop_os 65635) (demo_inst 16) (stream_init_ro [129, 2] 2) = Some (t, s')"
    "istate t = WIC_STATE_OPEN"
    by (rule demo_header [of 2 65635]) auto
  have "reader (stream_init_ro [129, 2] 2) [129, 2]" using reader_init [of "[129, 2]"] by (simp add: numeral_2_eq_2 [symmetric])
  from receive_reads_all [OF loop_accepting r _ t(1,2) this] t show ?thesis by auto
qed





text \<open>
  A pong is shown to the pong handler and that is all: the library sends nothing for it, and the
  receiver is again between frames.
\<close>

theorem pong_taken:
  assumes "app_contract h wire" "ready self" "header_ok (rx self) True WIC_OPCODE_PONG msk (length p)"
  shows "reaches h self (rfc_frame True WIC_OPCODE_PONG msk p)
      (set_rx (\<lambda>r. r\<lparr>rx_state := WIC_RX_STATE_OPCODE\<rparr>) (call_pong h (received self True WIC_OPCODE_PONG msk p))) \<and>
    wire (app (received self True WIC_OPCODE_PONG msk p)) = wire (app self)"
  using app_contract.take_pong [OF assms] by simp

theorem pong_taken_witness:
  "reaches (demo_host loop_os 1000) (demo_inst 16) (rfc_frame True WIC_OPCODE_PONG None [1])
     (set_rx (\<lambda>r. r\<lparr>rx_state := WIC_RX_STATE_OPCODE\<rparr>)
       (call_pong (demo_host loop_os 1000) (received (demo_inst 16) True WIC_OPCODE_PONG None [1])))"
proof -
  have "ready (demo_inst 16)" by (rule demo_inst_ready) simp
  moreover have "header_ok (rx (demo_inst 16)) True WIC_OPCODE_PONG None (length [1 :: u8])"
    by (simp add: header_ok_def opcode_allowed_def control_def)
  ultimately show ?thesis using pong_taken [OF loop_contract, of "demo_inst 16" None "[1]" 1000] by simp
qed





text \<open>
  C15. Once the handshake is over \<open>wic_parse\<close> returns on every input if the receive buffer is not
  empty, and an instance that is not open takes the bytes and does nothing with them.
\<close>

theorem parse_returns:
  assumes "app_contract h wire" "istate self \<noteq> WIC_STATE_PARSE_HANDSHAKE" "0 < st_size (rx_s (rx self))"
  shows "\<exists>n self'. wic_parse h self data = Some (n, self') \<and>
    (istate self \<noteq> WIC_STATE_OPEN \<longrightarrow> n = length data \<and> self' = self)"
  using app_contract.ws_loop_ends [OF assms(1,3), of "stream_init_ro data (length data)"] assms(2)
  by (auto simp: wic_parse_def Let_def)

theorem parse_returns_witness:
  "\<exists>n self'. wic_parse (demo_host loop_os 1000) (demo_inst 16) [129, 1, 65] = Some (n, self')"
  using parse_returns [OF loop_contract, of "demo_inst 16" 1000 "[129, 1, 65]"] by auto

text \<open>
  C16. Every instance \<open>wic_init\<close> hands out is well-formed, and stays so through any sequence of calls
  of the interface (starting, parsing anything, sending, closing, headers): its states agree with
  each other, its receive buffer and cursor with the memory behind them, and the parser it holds
  is one that can go on.
\<close>

theorem instance_well_formed:
  assumes "app_contract h wire" "wic_init u0 arg = Inr a" "ia_rx arg = Some mem" "ia_rx_max arg \<le> length mem"
    "(uses h)\<^sup>*\<^sup>* a b"
  shows "inst_ok b"
proof -
  have "inst_ok a" using init_inst_ok [OF assms(2-4)] by blast
  with app_contract.uses_star_inst_ok [OF assms(1,5)] show ?thesis .
qed

theorem instance_well_formed_witness:
  "\<exists>a b. wic_init http_parser_url_init (demo_arg 500) = Inr a \<and> wic_start (demo_host loop_os 1000) a = Some (WIC_STATUS_SUCCESS, b) \<and>
     inst_ok b"
proof -
  obtain a where a: "wic_init http_parser_url_init (demo_arg 500) = Inr a" by (rule demo_init)
  obtain b where b: "wic_start (demo_host loop_os 1000) a = Some (WIC_STATUS_SUCCESS, b)" using demo_start [OF a] by metis
  have "(uses (demo_host loop_os 1000))\<^sup>*\<^sup>* a b" using b by (blast intro: uses_start)
  from instance_well_formed [OF loop_contract a _ _ this, of "replicate 500 0"] a b show ?thesis by auto
qed

section \<open>The opening handshake\<close>



text \<open>
  C18. Whatever bytes arrive, a client that waits for the response and comes out of \<open>wic_parse\<close>
  open has received a header section that names websocket and holds the digest of the client's
  own nonce: no other message opens it.
\<close>

theorem client_opens_answered:
  assumes "role self = WIC_ROLE_CLIENT" "istate self = WIC_STATE_PARSE_HANDSHAKE" "length (hash self) = 20"
    "wic_parse h self data = Some (n, self')" "istate self' = WIC_STATE_OPEN"
  shows "\<exists>t s s'. answered t \<and> hash t = hash self \<and>
    ws_loop h ((call_open h t)\<lparr>istate := WIC_STATE_OPEN\<rparr>) s = Some (self', s')"
proof -
  obtain t u where t: "parse_handshake h self (stream_init_ro data (length data)) data = Some (t, u)"
    using assms(2,4) by (auto simp: wic_parse_def Let_def split: option.splits)
  have o: "istate t = WIC_STATE_OPEN"
    using assms(2,4,5) t by (auto simp: wic_parse_def Let_def split: if_splits)
  with opens_answered [OF assms(1-3) t] assms(2,4) t show ?thesis
    by (auto simp: wic_parse_def Let_def split: option.splits)
qed

theorem client_opens_answered_witness:
  "\<exists>n self'. wic_parse (demo_host loop_os 1000) ((demo_inst 500)\<lparr>istate := WIC_STATE_PARSE_HANDSHAKE\<rparr>)
      (response_text (rfc4648_encode (replicate 20 0)) []) = Some (n, self') \<and>
    (\<exists>t s s'. answered t \<and> hash t = replicate 20 0 \<and>
      ws_loop (demo_host loop_os 1000) ((call_open (demo_host loop_os 1000) t)\<lparr>istate := WIC_STATE_OPEN\<rparr>) s = Some (self', s'))"
proof -
  let ?h = "demo_host loop_os 1000" and ?s = "(demo_inst 500)\<lparr>istate := WIC_STATE_PARSE_HANDSHAKE\<rparr>"
  let ?v = "rfc4648_encode (replicate 20 0)"
  have v: "value_ok ?v" "length ?v = 28" by (simp_all add: b64_value_ok length_rfc4648_encode b64_encoded_size_def)
  have "length (store (server_headers ?v [])) \<le> 500" "length (response_text ?v []) \<le> 500"
    using v(2) by (simp_all add: server_headers_def upgrade_headers_def response_text_def header_lines_def CRLF_def ascii_def)
  then have "awaits ?s ?v [] []"
    using v by (simp add: awaits_def demo_inst_def demo_rx_def stream_init_def st_data_def can_store_def stream_ok_def st_room_def
      max_header_size_def)
  moreover have f: "length (hash ?s) = 20" "role ?s = WIC_ROLE_CLIENT" "hash ?s = replicate 20 0" "rx_state (rx ?s) = WIC_RX_STATE_OPCODE"
    by (simp_all add: demo_inst_def demo_rx_def)
  ultimately obtain t c where c: "wic_parse ?h ?s (response_text ?v []) = Some (length (response_text ?v []), c)"
      "if ?v = rfc4648_encode (hash ?s) then c = (call_open ?h t)\<lparr>istate := WIC_STATE_OPEN\<rparr> \<and> istate t = WIC_STATE_READY
       else istate c = WIC_STATE_CLOSED"
    using app_contract.response_parsed [OF loop_contract [of 1000], of ?s ?v "[]"] by blast
  then have "istate c = WIC_STATE_OPEN" unfolding f(3) by auto
  from client_opens_answered [OF f(2) _ f(1) c(1) this] c(1) f(3) show ?thesis by auto
qed









text \<open>
  A call of \<open>wic_parse\<close> with no data in the middle of a handshake message ends the handshake:
  the parser takes it for the end of the stream, the transport is closed and the failure reported
  as one of the protocol.
\<close>

theorem empty_parse_ends_handshake:
  assumes "app_contract h wire" "istate self = WIC_STATE_PARSE_HANDSHAKE" "hp_errno (http self) = HPE_OK"
    "hp_state (http self) \<notin> {s_body_identity_eof, s_dead, s_start_req_or_res, s_start_res, s_start_req}"
  shows "wic_parse h self [] = Some (0, (call_handshake_failure h
      (call_close_transport h (self\<lparr>http := (http self)\<lparr>hp_errno := HPE_INVALID_EOF_STATE\<rparr>\<rparr>))
      WIC_HANDSHAKE_FAILURE_PROTOCOL)\<lparr>istate := WIC_STATE_CLOSED\<rparr>)"
proof -
  let ?self = "self\<lparr>http := (http self)\<lparr>hp_errno := HPE_INVALID_EOF_STATE\<rparr>\<rparr>"
  have "http (call_close_transport h ?self) = http ?self"
    using api_frame_fields(6) [OF app_contract.call_frames(4) [OF assms(1), of ?self]] .
  then show ?thesis
    using assms(2) eof_execute [OF assms(3,4), of "parse_settings (role self)" "Some self"]
    by (simp add: wic_parse_def parse_handshake_def Let_def)
qed

theorem empty_parse_ends_handshake_witness:
  "\<exists>t c. wic_parse (demo_host loop_os 1000) ((demo_inst 500)\<lparr>istate := WIC_STATE_PARSE_HANDSHAKE\<rparr>) (ascii ''H'') = Some (1, t) \<and>
    istate t = WIC_STATE_PARSE_HANDSHAKE \<and>
    wic_parse (demo_host loop_os 1000) t [] = Some (0, c) \<and> istate c = WIC_STATE_CLOSED"
proof -
  let ?s = "(demo_inst 500)\<lparr>istate := WIC_STATE_PARSE_HANDSHAKE\<rparr>"
  let ?t = "?s\<lparr>http := (http_parser_init HTTP_RESPONSE)\<lparr>hp_content_length := - 1, hp_nread := 1, hp_state := s_res_H\<rparr>\<rparr>"
  have "http ?s = http_parser_init HTTP_RESPONSE" "role ?s = WIC_ROLE_CLIENT" by (simp_all add: demo_inst_def)
  then have "wic_parse (demo_host loop_os 1000) ?s (ascii ''H'') = Some (1, ?t)"
    using first_response_byte [of WIC_ROLE_CLIENT ?s]
    by (simp add: wic_parse_def parse_handshake_def Let_def http_parser_init_def ascii_def)
  moreover have "hp_errno (http ?t) = HPE_OK" by (simp add: http_parser_init_def)
  ultimately show ?thesis using empty_parse_ends_handshake [OF loop_contract [of 1000], of ?t] by auto
qed



text \<open>
  What a server sends: the response that switches protocols, byte for byte, with the digest of
  the request's key, after which it is open; nothing if there is no buffer or it does not fit.
\<close>

theorem response_sent:
  assumes "link h wire" "istate self = WIC_STATE_READY" "length (hash self) = 20"
    "start_server h self = (st, self')" "call_buffer h self 0 WIC_BUFFER_HTTP = ((b, mx), self1)" "mx < 2 ^ 32"
  shows "case b of None \<Rightarrow> st = WIC_STATUS_WOULD_BLOCK \<and> istate self' = WIC_STATE_READY \<and> wire (app self') = wire (app self)
    | Some mem \<Rightarrow> handshake_sent wire self self' st WIC_STATE_OPEN mx
        (response_text (rfc4648_encode (hash self)) (tx_header self))"
  by (rule link.start_server_text [OF assms])

theorem response_sent_witness:
  "\<exists>st b. start_server (demo_host loop_os 1000) ((demo_inst 16)\<lparr>istate := WIC_STATE_READY\<rparr>) = (st, b) \<and>
     handshake_sent net ((demo_inst 16)\<lparr>istate := WIC_STATE_READY\<rparr>) b st WIC_STATE_OPEN 1000
       (response_text (rfc4648_encode (replicate 20 0)) [])"
proof -
  let ?a = "(demo_inst 16)\<lparr>istate := WIC_STATE_READY\<rparr>"
  have a: "istate ?a = WIC_STATE_READY" "hash ?a = replicate 20 0" "tx_header ?a = []" "h_buffer ?a = 0"
    by (simp_all add: demo_inst_def)
  obtain st b where s: "start_server (demo_host loop_os 1000) ?a = (st, b)" by fastforce
  have "length (hash ?a) = 20" unfolding a(2) by simp
  from response_sent [OF loop_link a(1) this s demo_buffer [OF a(4)]] s show ?thesis unfolding a(2,3) by auto
qed

text \<open>
  C24. How a client judges a response whose headers are in the receive buffer: it is taken exactly
  when the status is 101, the parser saw an upgrade, the upgrade header names websocket in any
  case and the accept header is the base64 of the digest the client keeps; a redirect leaves a
  pointer to the new location.
\<close>

theorem response_judged:
  assumes "holds (end_headers self) hs" "length (hash self) = 20"
  shows "\<exists>r. on_response_complete q self =
      Some (if response_ok q hs (hash self) then 0 else - 1, (ready_for self)\<lparr>redirect_url := r\<rparr>) \<and>
    (if hp_status_code q \<in> redirects
     then (case r of None \<Rightarrow> lookup hs (ascii ''location'') = None
           | Some off \<Rightarrow> \<exists>v. lookup hs (ascii ''location'') = Some v \<and> string_at (rx_mem (end_headers self)) off v)
     else r = redirect_url self)"
  by (rule response_decided [OF assms])

theorem response_judged_witness:
  "\<exists>off. on_response_complete ((http_parser_init HTTP_RESPONSE)\<lparr>hp_status_code := 302\<rparr>)
      (demo_holding [(ascii ''Location'', ascii ''/x'')]) =
    Some (-1, (demo_holding [(ascii ''Location'', ascii ''/x'')])\<lparr>redirect_url := Some off\<rparr>)"
proof -
  let ?hs = "[(ascii ''Location'', ascii ''/x'')]" and ?q = "(http_parser_init HTTP_RESPONSE)\<lparr>hp_status_code := 302\<rparr>"
  have w: "list_all header_wf ?hs" "lookup ?hs (ascii ''location'') = Some (ascii ''/x'')" by code_simp+
  then have h: "holds (end_headers (demo_holding ?hs)) ?hs" by (intro demo_holding_holds) (simp_all add: ascii_def)
  have "ready_for (demo_holding ?hs) = demo_holding ?hs" by (simp add: end_headers_def)
  moreover have "\<not> response_ok ?q ?hs hsh" "hp_status_code ?q \<in> redirects" for hsh by (simp_all add: response_ok_def redirects_def)
  ultimately show ?thesis using response_judged [OF h, of ?q] w(2) by (auto split: option.splits)
qed

text \<open>
  How a server judges a request: it is taken exactly when the parser saw an upgrade, the upgrade
  header names websocket and there is a key, and then the instance keeps the digest of the key.
\<close>

theorem request_judged:
  assumes "holds (end_headers self) hs" "header_state self \<noteq> WIC_HEADER_STATE_FIELD"
  shows "on_request_complete q self =
      Some (if request_ok q hs
            then (0, (ready_for self)\<lparr>hash := server_hash (the (lookup hs (ascii ''Sec-WebSocket-Key'')))\<rparr>)
            else (- 1, ready_for self))"
  by (rule request_decided [OF assms])

theorem request_judged_witness:
  "on_request_complete ((http_parser_init HTTP_REQUEST)\<lparr>hp_upgrade := True\<rparr>)
     (demo_holding [(ascii ''Upgrade'', ascii ''WebSocket''), (ascii ''Sec-WebSocket-Key'', ascii ''xyz'')]) =
   Some (0, (demo_holding [(ascii ''Upgrade'', ascii ''WebSocket''), (ascii ''Sec-WebSocket-Key'', ascii ''xyz'')])
     \<lparr>hash := server_hash (ascii ''xyz'')\<rparr>)"
proof -
  let ?hs = "[(ascii ''Upgrade'', ascii ''WebSocket''), (ascii ''Sec-WebSocket-Key'', ascii ''xyz'')]"
  have w: "list_all header_wf ?hs" "lookup ?hs (ascii ''Sec-WebSocket-Key'') = Some (ascii ''xyz'')"
    "lookup ?hs (ascii ''upgrade'') = Some (ascii ''WebSocket'')" "map to_lower (ascii ''WebSocket'') = ascii ''websocket''"
    by code_simp+
  then have h: "holds (end_headers (demo_holding ?hs)) ?hs" by (intro demo_holding_holds) (simp_all add: ascii_def)
  have e: "ready_for (demo_holding ?hs) = demo_holding ?hs" by (simp add: end_headers_def)
  have "request_ok ((http_parser_init HTTP_REQUEST)\<lparr>hp_upgrade := True\<rparr>) ?hs"
    using w by (simp add: request_ok_def names_websocket_def)
  then show ?thesis using request_judged [OF h, of "(http_parser_init HTTP_REQUEST)\<lparr>hp_upgrade := True\<rparr>"] unfolding e w(2) by simp
qed

section \<open>Text, base64 and the handshake digest\<close>

text \<open>
  C25. The UTF-8 checker. Run over a string it accepts exactly the encodings of scalar values of
  RFC 3629, and it is in the reject state exactly when no continuation could make the string
  valid, so that a bad message is refused at its first wrong byte.
\<close>

theorem utf8_checker_decides:
  "utf8_is_complete (utf8_parse_string 0 bs) = utf8_valid bs \<and>
   utf8_is_invalid (utf8_parse_string 0 bs) = (\<forall>r. \<not> utf8_valid (bs @ r))"
  using utf8.dead_iff_hopeless [of bs]
  unfolding utf8_parse_string_def [symmetric] utf8_complete_iff_valid utf8_is_invalid_def by (simp add: utf8_complete_iff_valid)

text \<open>
  C26. The base64 encoder writes the encoding of RFC 4648, padding included, of the announced length,
  nothing when there is no room for it, and the decoder of RFC 4648 reads the input back.
\<close>

theorem base64_exact:
  "b64_encode bs mx = (if b64_encoded_size (length bs) \<le> mx then rfc4648_encode bs else []) \<and>
   length (rfc4648_encode bs) = b64_encoded_size (length bs) \<and>
   rfc4648_decode (b64_encode bs (b64_encoded_size (length bs))) = Some bs"
  by (simp add: b64_encode_eq length_rfc4648_encode rfc4648_decode_encode)

text \<open>
  C27. The SHA-1 routines, fed a message in any pieces, give the digest of FIPS 180-4 of the whole.
\<close>

theorem sha1_in_pieces:
  assumes "list_all (\<lambda>b. length b < 2 ^ 32) bs"
  shows "snd (sha1_finish (fold (\<lambda>b c. sha1_update c b) bs (sha1_starts sha1_init))) = fips_sha1 (concat bs)"
  by (rule sha1.hash_pieces [OF assms])

theorem sha1_in_pieces_witness:
  "snd (sha1_finish (fold (\<lambda>b c. sha1_update c b) [[97], [98, 99]] (sha1_starts sha1_init))) = fips_sha1 [97, 98, 99]"
  using sha1_in_pieces [of "[[97], [98, 99]]"] by simp

text \<open>
  The digest the handshake is checked against is that of RFC 6455: SHA-1 of the nonce and the
  fixed GUID.
\<close>

theorem server_hash_exact:
  assumes "length nonce < 2 ^ 32"
  shows "server_hash nonce = fips_sha1 (nonce @ ascii ''258EAFA5-E914-47DA-95CA-C5AB0DC85B11'')"
  using server_hash_fips [OF assms] by (simp add: sha_guid_def)

theorem server_hash_exact_witness:
  "server_hash [100, 71] = fips_sha1 ([100, 71] @ ascii ''258EAFA5-E914-47DA-95CA-C5AB0DC85B11'')"
  by (rule server_hash_exact) simp

section \<open>Setting up\<close>

text \<open>
  C28. The URL parser finds every part of a well-formed URL where it is: parsing the text made of
  the parts succeeds, each part that is present is exactly the bytes its offset and length name,
  no other part is reported, and the port is the number its digits write.
\<close>

theorem url_roundtrip:
  assumes "url_wf p"
  shows "\<exists>u. http_parser_parse_url (url_print p) False u0 = (0, u) \<and>
    (\<forall>f. url_part (url_print p) u0 u f (parts p f)) \<and>
    url_port u = (case up_port p of None \<Rightarrow> 0 | Some d \<Rightarrow> of_nat (decimal d))"
  using parse_url_print [OF assms] by metis

theorem url_roundtrip_witness:
  "\<exists>u. http_parser_parse_url (ascii ''ws://a.b:81/c?d=e'') False http_parser_url_init = (0, u) \<and> url_port u = 81"
proof -
  have "(of_nat (decimal (ascii ''81'')) :: u16) = 81" by code_simp
  then show ?thesis
    using url_roundtrip [OF demo_url_wf, of http_parser_url_init] by (auto simp: demo_url_print)
qed

text \<open>
  C29. For any bytes at all that the URL parser accepts, no part it reports reaches outside them.
\<close>

theorem url_fields_inside:
  assumes "http_parser_parse_url buf is_connect u = (0, u')" "has_field f u'"
  shows "unat (uf_off (field_data u' f)) + unat (uf_len (field_data u' f)) \<le> length buf"
  by (rule parse_url_inside [OF assms])

theorem url_fields_inside_witness:
  "\<exists>u. http_parser_parse_url (ascii ''ws://a.b:81/c?d=e'') False http_parser_url_init = (0, u) \<and>
    unat (uf_off (field_data u UF_HOST)) + unat (uf_len (field_data u UF_HOST)) \<le> 18"
proof -
  obtain u where u: "http_parser_parse_url (url_print demo_url) False http_parser_url_init = (0, u)"
    "url_part (url_print demo_url) http_parser_url_init u UF_HOST (parts demo_url UF_HOST)"
    by (rule parse_url_print [OF demo_url_wf, of http_parser_url_init]) blast
  have "parts demo_url UF_HOST \<noteq> []" by code_simp
  with u(2) have "has_field UF_HOST u" by (simp add: url_part_def)
  from url_fields_inside [OF u(1) this] u(1) show ?thesis by (simp add: demo_url_print ascii_def)
qed

text \<open>
  C30. \<open>wic_init\<close> on a well-formed URL: refused exactly when the schema is not one of the four or
  the host is longer than 255 bytes, and otherwise an instance in its initial state whose getters
  return the schema, port (the default of the schema if the URL has none), host and URL given.
\<close>

theorem client_set_up:
  assumes "ia_on_send arg = Some snd_fn" "ia_on_buffer arg = Some buf_fn" "ia_role arg = WIC_ROLE_CLIENT"
    "ia_url arg = Some (url_print p)" "url_wf p"
  shows "(case map_of supported_schema (up_schema p) of
      None \<Rightarrow> wic_init u0 arg = Inl Refused
    | Some s \<Rightarrow>
        if length (up_host p) > 255 then wic_init u0 arg = Inl Refused
        else \<exists>self. wic_init u0 arg = Inr self \<and> istate self = WIC_STATE_INIT \<and>
          wic_get_url_schema self = s \<and> wic_get_url_port self = url_port_of p s \<and>
          wic_get_url_hostname self = Some (up_host p) \<and> wic_get_url self = Some (url_print p) \<and>
          wic_get_app self = ia_app arg \<and> tx_header self = [] \<and> wic_get_redirect_url self = None \<and>
          rx self = init_rx (ia_rx arg) (ia_rx_max arg) \<and> http self = http_parser_init HTTP_RESPONSE)"
  using init_url_print [OF assms(5), of u0] assms(1-4)
  by (auto simp: wic_init_def wic_get_url_schema_def wic_get_url_port_def wic_get_url_hostname_def wic_get_url_def
    wic_get_app_def wic_get_redirect_url_def split: option.split)

theorem client_set_up_witness:
  "\<exists>self. wic_init http_parser_url_init (demo_arg 500) = Inr self \<and> wic_get_url_port self = 81 \<and>
    wic_get_url_hostname self = Some (ascii ''a.b'') \<and> wic_get_url_schema self = WIC_SCHEMA_WS"
proof -
  have "\<exists>self. wic_init http_parser_url_init (demo_arg 500) = Inr self \<and> wic_get_url_port self = url_port_of demo_url WIC_SCHEMA_WS \<and>
      wic_get_url_hostname self = Some (up_host demo_url) \<and> wic_get_url_schema self = WIC_SCHEMA_WS"
    using client_set_up [of "demo_arg 500" 0 0 demo_url http_parser_url_init] demo_url_wf
    unfolding demo_url_facts(1,3) by auto
  then show ?thesis unfolding demo_url_facts(2) demo_url_fields(2) .
qed

section \<open>The HTTP parser\<close>



text \<open>
  C32. Each of the 34 methods is recognised: the parser takes its name and a space, and has the number that
  names it in \<open>http_method_str\<close>.\<close>

theorem methods_recognised:
  assumes "m < 34" "cb_message_begin S = None" "cb_url S = None"
  shows "\<exists>q. http_parser_execute S (http_parser_init HTTP_REQUEST) d (http_method_str m @ ascii '' '') =
      Some (Some (length (http_method_str m) + 1), q, d) \<and>
    hp_errno q = HPE_OK \<and> hp_method q = of_nat m \<and> hp_state q = s_req_spaces_before_url"
  using method_execute [OF assms] by (simp add: method_read_def http_parser_init_def)

theorem methods_recognised_witness:
  "\<exists>q. http_parser_execute (parse_settings WIC_ROLE_SERVER) (http_parser_init HTTP_REQUEST) None (ascii ''M-SEARCH '') = Some (Some 9, q, None) \<and>
    hp_method q = 24"
proof -
  have "http_method_str 24 = ascii ''M-SEARCH''" by code_simp
  then show ?thesis using methods_recognised [of 24 "parse_settings WIC_ROLE_SERVER" None] by (auto simp: ascii_def eval_nat_numeral)
qed

section \<open>The headers\<close>

text \<open>
  C33. However the parser cuts the names and values of the headers into pieces, the receive buffer
  ends up holding exactly those headers, whole and in order, provided it has room for them.
\<close>

theorem headers_stored:
  assumes "hs \<noteq> []" "list_all (\<lambda>h. fst h \<noteq> [] \<and> snd h \<noteq> [] \<and> header_wf (joined h)) hs"
    "header_state self = WIC_HEADER_STATE_IDLE" "st_data (rx_s (rx self)) = []"
    "can_store self (length (store (map joined hs)))"
  shows "holds (end_headers (fold feed (concat (map events_of hs)) self)) (map joined hs)"
  by (rule stored_headers [OF assms])

theorem headers_stored_witness:
  "holds (end_headers (fold feed [Field_piece [72, 111], Field_piece [115, 116], Value_piece [97],
       Field_piece [65], Value_piece [98], Value_piece [99]] (demo_inst 16)))
     [([72, 111, 115, 116], [97]), ([65], [98, 99])]"
proof -
  have "header_state (demo_inst 16) = WIC_HEADER_STATE_IDLE" by (simp add: demo_inst_def)
  then show ?thesis
    using headers_stored [of "[([[72, 111], [115, 116]], [[97]]), ([[65]], [[98], [99]])]" "demo_inst 16"]
    by (simp add: header_wf_def joined_def events_of_def cstring_def can_store_def stream_ok_def st_data_def
      demo_rx_def stream_init_def st_room_def)
qed

text \<open>
  C34. \<open>wic_get_header\<close> finds the first of the headers held whose name is the one asked for up to
  case, and returns a pointer to its value as a terminated string; it returns null exactly when
  there is none.
\<close>

theorem header_found:
  assumes "istate self = WIC_STATE_READY" "holds self hs" "cstring name"
  shows "\<exists>r. wic_get_header self (Some name) = Some r \<and>
    (case r of None \<Rightarrow> lookup hs name = None
     | Some off \<Rightarrow> \<exists>v. lookup hs name = Some v \<and> string_at (rx_mem self) off v)"
  using get_header_held [OF assms] by (auto split: option.splits)

theorem header_found_witness:
  "\<exists>r. wic_get_header (demo_holding [([65], [98]), ([67], [100, 101])]) (Some [99]) = Some r \<and> (case r of None \<Rightarrow> False
     | Some off \<Rightarrow> string_at (rx_mem (demo_holding [([65], [98]), ([67], [100, 101])])) off [100, 101])"
proof -
  have "lookup [([65], [98]), ([67], [100, 101])] [99] = Some [100, 101]" by code_simp
  moreover have "holds (demo_holding [([65], [98]), ([67], [100, 101])]) [([65], [98]), ([67], [100, 101])]"
    by (intro demo_holding_holds) (simp_all add: header_wf_def cstring_def)
  ultimately show ?thesis
    using header_found [of "demo_holding [([65], [98]), ([67], [100, 101])]" "[([65], [98]), ([67], [100, 101])]" "[99]"] by (auto simp: cstring_def split: option.splits)
qed



text \<open>
  C36. A header section that fills the receive buffer before its first terminating zero leaves
  every lookup reading past the end of the buffer: the search for the end of the first name has
  no result, whatever header is asked for.
\<close>

theorem header_read_past_buffer:
  assumes "istate self = WIC_STATE_READY" "0 < st_pos (rx_s (rx self))" "0 \<notin> set (rx_mem self)"
  shows "wic_get_header self name = None"
  by (rule get_header_overrun) (use assms in \<open>simp_all add: cstring_def\<close>)

theorem header_read_past_buffer_witness:
  "wic_get_header ((snd (on_header_value [98] (snd (on_header_field [65, 65]
    ((demo_inst 2)\<lparr>rx := (demo_rx 2)\<lparr>rx_s := stream_init (Some [1, 1]) 2\<rparr>\<rparr>)))))\<lparr>istate := WIC_STATE_READY\<rparr>)
    (Some (ascii ''upgrade'')) = None"
  by (rule header_read_past_buffer)
    (simp_all add: on_header_field_def on_header_value_def rx_append_def stream_init_def stream_write_def demo_inst_def stream_write_def)

section \<open>The port to mbed OS\<close>



text \<open>
  C38. The messages of the mbed client: the library hands over any number of messages no longer than a
  block of the input queue, some of which are refused for want of a block; reading returns exactly
  those accepted, in order and each cut to the size of the reader's buffer.
\<close>

theorem mbed_messages_fifo:
  assumes "rtos_laws k view" "mail_ok n (view (c_os (app self))) self" "v_mail (view (c_os (app self))) = []"
    "list_all (\<lambda>m. length (snd (snd m)) \<le> n) ms" "hand_over k ms self = (oks, t)" "length ms \<le> c"
  shows "fst (read_all k mx c t) = map (cut mx) (taken_of ms oks)"
proof -
  have t: "mail_ok n (view (c_os (app t))) t" "messages (view (c_os (app t))) t = taken_of ms oks"
    using rtos_laws.hand_over_ok [OF assms(1,2,4,5)] assms(3) by (simp_all add: messages_def)
  have "length (taken_of ms oks) \<le> length ms"
    unfolding taken_of_def by (metis length_filter_le length_map length_zip min.bounded_iff)
  with rtos_laws.read_all_ok [OF assms(1) t(1)] t(2) assms(6) show ?thesis by simp
qed

theorem mbed_messages_fifo_witness:
  "\<exists>oks t. hand_over sim_rtos [(WIC_ENCODING_UTF8, True, [65, 66]), (WIC_ENCODING_BINARY, False, [1])] sim_idle = (oks, t) \<and>
    fst (read_all sim_rtos 1 2 t) = map (cut 1) (taken_of [(WIC_ENCODING_UTF8, True, [65, 66]), (WIC_ENCODING_BINARY, False, [1])] oks)"
proof -
  let ?ms = "[(WIC_ENCODING_UTF8, True, [65, 66]), (WIC_ENCODING_BINARY, False, [1])] :: (wic_encoding \<times> bool \<times> bytes) list"
  obtain oks t where h: "hand_over sim_rtos ?ms sim_idle = (oks, t)" by fastforce
  have "mail_ok 1000 (c_os (app sim_idle)) sim_idle" "v_mail (c_os (app sim_idle)) = []"
    by (simp_all add: mail_ok_def sim_idle_def sim_client_def blank_inst_def mbed_Buffer_def)
  from mbed_messages_fifo [OF sim_laws this _ h, of 2 1] h show ?thesis by auto
qed

text \<open>
  C39. A turn of the mbed client's worker while part of the response to the handshake has been parsed
  refuses the connection: the caller of \<open>connect\<close> gets \<open>NSAPI_ERROR_UNSUPPORTED\<close>, the instance is
  closed, and so is the client or it is about to be.
\<close>

theorem mbed_split_response_refused:
  assumes "rtos_laws k view" "fst (events_due k (c_os (app self))) = None" "tx_ok (view (c_os (app self))) w self"
    "None \<notin> set (v_queue (view (c_os (app self))))" "c_state (app self) = OPENING"
    "h_close_transport self \<noteq> None" "h_handshake_failure self \<noteq> None"
    "istate self = WIC_STATE_PARSE_HANDSHAKE" "hp_errno (http self) = HPE_OK"
    "hp_state (http self) \<notin> {s_body_identity_eof, s_dead, s_start_req_or_res, s_start_res, s_start_req}"
  shows "\<exists>w' self'. worker_turn k mss u0 w self = Some (w', self') \<and> j_done (c_job (app self')) \<and>
    j_retval (c_job (app self')) = NSAPI_ERROR_UNSUPPORTED \<and> istate self' = WIC_STATE_CLOSED \<and>
    c_state (app self') \<in> {CLOSING, CLOSED}"
  using rtos_laws.split_response_refused [OF assms(1-10), of mss u0] by (auto simp: refused_def)

theorem mbed_split_response_refused_witness:
  "\<exists>w' self'. worker_turn sim_rtos 536 http_parser_url_init no_buffers sim_opening = Some (w', self') \<and>
    j_retval (c_job (app self')) = NSAPI_ERROR_UNSUPPORTED"
proof -
  have "fst (events_due sim_rtos (c_os (app sim_opening))) = None" by (simp add: sim_rtos_def)
  moreover have "tx_ok (c_os (app sim_opening)) no_buffers sim_opening"
    by (rule tx_ok_start) (simp_all add: sim_opening_def sim_client_def blank_inst_def no_buffers_def)
  ultimately show ?thesis
    using mbed_split_response_refused [OF sim_laws, of sim_opening no_buffers 536 http_parser_url_init]
    by (auto simp: sim_opening_def sim_client_def blank_inst_def http_parser_init_def)
qed



end
